(* ===== verification/Netd_Prelude.thy ===== *)
theory Netd_Prelude
  imports
    Main
    "HOL-Library.Word"
    "HOL-Library.Char_ord"
    "HOL-Library.List_Lexorder"
    "HOL-Library.Multiset"
begin

text \<open>
  What every component shares: the machine types, the \<open>errno\<close> values the code returns, the
  early-return idiom \<open>if (int ret = f()) return ret;\<close>, and the two ordered containers of the C++
  library the code keeps its state in. A \<open>std::map\<close> is an association list whose keys strictly
  ascend and a \<open>std::set\<close> a strictly ascending list, so that iteration order is the order of the
  list. The contracts of both are locales, interpreted here on the list representation.
\<close>

named_theorems netd_defs "definitions that are unfolded in component proofs"
named_theorems mark_simps "reading and writing the fields of a socket mark"
named_theorems frame_simps "which parts of the state an operation leaves alone"

section \<open>Machine types and error numbers\<close>

type_synonym u8 = "8 word"
type_synonym u16 = "16 word"
type_synonym u32 = "32 word"
type_synonym u64 = "64 word"
type_synonym bytes = "u8 list"
type_synonym netid = u32
type_synonym uid_t = u32

text \<open>Linux error numbers (asm-generic/errno.h); the code returns them negated.\<close>

abbreviation EPERM :: int where "EPERM \<equiv> 1"
abbreviation ENOENT :: int where "ENOENT \<equiv> 2"
abbreviation ESRCH :: int where "ESRCH \<equiv> 3"
abbreviation EBADF :: int where "EBADF \<equiv> 9"
abbreviation EACCES :: int where "EACCES \<equiv> 13"
abbreviation EFAULT :: int where "EFAULT \<equiv> 14"
abbreviation EBUSY :: int where "EBUSY \<equiv> 16"
abbreviation EEXIST :: int where "EEXIST \<equiv> 17"
abbreviation ENODEV :: int where "ENODEV \<equiv> 19"
abbreviation EINVAL :: int where "EINVAL \<equiv> 22"
abbreviation ENOSPC :: int where "ENOSPC \<equiv> 28"
abbreviation ERANGE :: int where "ERANGE \<equiv> 34"
abbreviation ENAMETOOLONG :: int where "ENAMETOOLONG \<equiv> 36"
abbreviation ENOSYS :: int where "ENOSYS \<equiv> 38"
abbreviation ENONET :: int where "ENONET \<equiv> 64"
abbreviation EPROTO :: int where "EPROTO \<equiv> 71"
abbreviation EBADMSG :: int where "EBADMSG \<equiv> 74"
abbreviation ENOTUNIQ :: int where "ENOTUNIQ \<equiv> 76"
abbreviation EBADFD :: int where "EBADFD \<equiv> 77"
abbreviation EUSERS :: int where "EUSERS \<equiv> 87"
abbreviation EAFNOSUPPORT :: int where "EAFNOSUPPORT \<equiv> 97"
abbreviation ENOBUFS :: int where "ENOBUFS \<equiv> 105"
abbreviation EREMOTEIO :: int where "EREMOTEIO \<equiv> 121"

section \<open>The early-return idiom\<close>

text \<open>
  An operation that returns an \<open>int\<close> and changes the state \<open>'s\<close> is a function
  \<open>'s \<Rightarrow> int \<times> 's\<close>. \<open>chk f g\<close> is \<open>if (int ret = f()) return ret; return g();\<close>, and
  \<open>chk_all\<close> is a \<open>for\<close> loop over a range whose body returns early.
\<close>

type_synonym 's act = "'s \<Rightarrow> int \<times> 's"

definition chk :: "'s act \<Rightarrow> 's act \<Rightarrow> 's act" where
  "chk f g s = (case f s of (r, s') \<Rightarrow> if r \<noteq> 0 then (r, s') else g s')"

fun chk_all :: "('a \<Rightarrow> 's act) \<Rightarrow> 'a list \<Rightarrow> 's act" where
  "chk_all f [] s = (0, s)"
| "chk_all f (x # xs) s = chk (f x) (chk_all f xs) s"

definition ret :: "int \<Rightarrow> 's act" where
  "ret r s = (r, s)"

text \<open>
  The same idiom where the loop of one callee may run forever: \<open>None\<close> is "does not return".
\<close>

type_synonym 's pact = "'s \<Rightarrow> (int \<times> 's) option"

definition pchk :: "'s pact \<Rightarrow> 's pact \<Rightarrow> 's pact" where
  "pchk f g s = (case f s of None \<Rightarrow> None | Some (r, s') \<Rightarrow> if r \<noteq> 0 then Some (r, s') else g s')"

definition tot :: "'s act \<Rightarrow> 's pact" where
  "tot f s = Some (f s)"

lemma ret_apply [simp]: "ret r s = (r, s)"
  by (simp add: ret_def)

lemma tot_apply [simp]: "tot f s = Some (f s)"
  by (simp add: tot_def)

lemma chk_zero: "fst (chk f g s) = 0 \<longleftrightarrow> fst (f s) = 0 \<and> fst (g (snd (f s))) = 0"
  by (auto simp: chk_def split: prod.splits)

lemma chk_ok [simp]: "fst (f s) = 0 \<Longrightarrow> chk f g s = g (snd (f s))"
  by (auto simp: chk_def split: prod.splits)

lemma chk_err [simp]: "fst (f s) \<noteq> 0 \<Longrightarrow> chk f g s = f s"
  by (auto simp: chk_def split: prod.splits)

lemma chk_all_zero:
  "fst (chk_all f (x # xs) s) = 0 \<longleftrightarrow>
     fst (f x s) = 0 \<and> fst (chk_all f xs (snd (f x s))) = 0"
  by (simp add: chk_zero)

lemma pchk_tot [simp]: "pchk (tot f) (tot g) s = Some (chk f g s)"
  by (simp add: pchk_def chk_def split: prod.splits)

lemma pchk_Some_iff:
  "pchk f g s = Some (r, t) \<longleftrightarrow>
     (f s = Some (r, t) \<and> r \<noteq> 0) \<or> (\<exists>u. f s = Some (0, u) \<and> g u = Some (r, t))"
  by (auto simp: pchk_def split: option.splits prod.splits if_splits)

text \<open>
  A property of the state that two actions keep is kept by their composition. The predicate
  \<open>keeps P f\<close> is the Hoare triple of a frame condition; the rules below let \<open>auto\<close> and
  \<open>blast\<close> push it through the composition operators.
\<close>

definition keeps :: "('s \<Rightarrow> bool) \<Rightarrow> 's act \<Rightarrow> bool" where
  "keeps P f \<longleftrightarrow> (\<forall>s. P s \<longrightarrow> P (snd (f s)))"

named_theorems keeps_rules "rules that push an invariant through an operation"

lemma keepsI: "(\<And>s. P s \<Longrightarrow> P (snd (f s))) \<Longrightarrow> keeps P f"
  by (simp add: keeps_def)

lemma keepsD: "keeps P f \<Longrightarrow> P s \<Longrightarrow> P (snd (f s))"
  by (simp add: keeps_def)

lemma keeps_ret [keeps_rules, intro!]: "keeps P (ret r)"
  by (simp add: keeps_def)

lemma keeps_chk [keeps_rules]: "keeps P f \<Longrightarrow> keeps P g \<Longrightarrow> keeps P (chk f g)"
  by (auto simp: keeps_def chk_def split: prod.splits)

lemma keeps_chk_all [keeps_rules]: "(\<And>x. x \<in> set xs \<Longrightarrow> keeps P (f x)) \<Longrightarrow> keeps P (chk_all f xs)"
proof (induction xs)
  case Nil
  then show ?case by (simp add: keeps_def)
next
  case (Cons x xs)
  then have "keeps P (chk (f x) (chk_all f xs))"
    by (intro keeps_chk) auto
  then show ?case by (simp add: keeps_def)
qed

section \<open>std::map and std::set\<close>

subsection \<open>Contracts\<close>

locale std_map =
  fixes emp :: 'm
    and lookup :: "'m \<Rightarrow> 'k \<Rightarrow> 'v option"
    and put :: "'k \<Rightarrow> 'v \<Rightarrow> 'm \<Rightarrow> 'm"
    and erase :: "'k \<Rightarrow> 'm \<Rightarrow> 'm"
    and inv :: "'m \<Rightarrow> bool"
  assumes lookup_emp: "lookup emp = Map.empty"
    and lookup_put: "lookup (put k v m) = (lookup m)(k \<mapsto> v)"
    and lookup_erase: "lookup (erase k m) = (lookup m)(k := None)"
    and inv_emp: "inv emp"
    and inv_put: "inv m \<Longrightarrow> inv (put k v m)"
    and inv_erase: "inv m \<Longrightarrow> inv (erase k m)"
    and unique: "inv m \<Longrightarrow> inv m' \<Longrightarrow> lookup m = lookup m' \<Longrightarrow> m = m'"
begin

lemmas map_laws = lookup_emp lookup_put lookup_erase inv_emp inv_put inv_erase

lemma erase_put: "inv m \<Longrightarrow> erase k (put k v m) = erase k m"
  by (rule unique) (auto simp: map_laws)

lemma erase_fresh: "inv m \<Longrightarrow> lookup m k = None \<Longrightarrow> erase k m = m"
  by (rule unique) (auto simp: map_laws)

lemma put_put: "inv m \<Longrightarrow> put k v (put k v' m) = put k v m"
  by (rule unique) (auto simp: map_laws)

lemma put_same: "inv m \<Longrightarrow> lookup m k = Some v \<Longrightarrow> put k v m = m"
  by (rule unique) (auto simp: map_laws)

lemma put_commute: "inv m \<Longrightarrow> k \<noteq> l \<Longrightarrow> put k v (put l w m) = put l w (put k v m)"
  by (rule unique) (auto simp: map_laws fun_upd_twist)

lemma erase_put_other: "inv m \<Longrightarrow> k \<noteq> l \<Longrightarrow> erase k (put l w m) = put l w (erase k m)"
  by (rule unique) (auto simp: map_laws fun_upd_twist)

end

locale std_set =
  fixes elems :: "'s \<Rightarrow> 'a set"
    and ins :: "'a \<Rightarrow> 's \<Rightarrow> 's"
    and del :: "'a \<Rightarrow> 's \<Rightarrow> 's"
    and inv :: "'s \<Rightarrow> bool"
  assumes elems_ins: "elems (ins x s) = insert x (elems s)"
    and elems_del: "elems (del x s) = elems s - {x}"
    and inv_ins: "inv s \<Longrightarrow> inv (ins x s)"
    and inv_del: "inv s \<Longrightarrow> inv (del x s)"
    and unique: "inv s \<Longrightarrow> inv s' \<Longrightarrow> elems s = elems s' \<Longrightarrow> s = s'"
begin

lemmas set_laws = elems_ins elems_del inv_ins inv_del

lemma del_ins: "inv s \<Longrightarrow> x \<notin> elems s \<Longrightarrow> del x (ins x s) = s"
  by (rule unique) (auto simp: set_laws)

lemma ins_del: "inv s \<Longrightarrow> x \<in> elems s \<Longrightarrow> ins x (del x s) = s"
  by (rule unique) (auto simp: set_laws)

lemma ins_present: "inv s \<Longrightarrow> x \<in> elems s \<Longrightarrow> ins x s = s"
  by (rule unique) (auto simp: set_laws)

lemma del_absent: "inv s \<Longrightarrow> x \<notin> elems s \<Longrightarrow> del x s = s"
  by (rule unique) (auto simp: set_laws)

end

subsection \<open>Ascending lists\<close>

definition om_inv :: "('k::linorder \<times> 'v) list \<Rightarrow> bool" where
  "om_inv m \<longleftrightarrow> sorted_wrt (<) (map fst m)"

fun om_put :: "'k::linorder \<Rightarrow> 'v \<Rightarrow> ('k \<times> 'v) list \<Rightarrow> ('k \<times> 'v) list" where
  "om_put k v [] = [(k, v)]"
| "om_put k v ((k', v') # m) =
     (if k < k' then (k, v) # (k', v') # m
      else if k = k' then (k, v) # m
      else (k', v') # om_put k v m)"

definition om_erase :: "'k \<Rightarrow> ('k \<times> 'v) list \<Rightarrow> ('k \<times> 'v) list" where
  "om_erase k m = filter (\<lambda>p. fst p \<noteq> k) m"

definition os_inv :: "'a::linorder list \<Rightarrow> bool" where
  "os_inv s \<longleftrightarrow> sorted_wrt (<) s"

fun os_insert :: "'a::linorder \<Rightarrow> 'a list \<Rightarrow> 'a list" where
  "os_insert x [] = [x]"
| "os_insert x (y # ys) =
     (if x < y then x # y # ys else if x = y then y # ys else y # os_insert x ys)"

definition os_erase :: "'a \<Rightarrow> 'a list \<Rightarrow> 'a list" where
  "os_erase x s = filter (\<lambda>y. y \<noteq> x) s"

lemma map_of_om_put: "map_of (om_put k v m) = (map_of m)(k \<mapsto> v)"
  by (induction k v m rule: om_put.induct) (auto simp: fun_upd_twist)

lemma keys_om_put: "set (map fst (om_put k v m)) = insert k (set (map fst m))"
  by (induction k v m rule: om_put.induct) auto

lemma map_of_om_erase: "map_of (om_erase k m) = (map_of m)(k := None)"
  by (induction m) (auto simp: om_erase_def fun_eq_iff)

lemma om_inv_put: "om_inv m \<Longrightarrow> om_inv (om_put k v m)"
proof (induction k v m rule: om_put.induct)
  case (2 k v k' v' m)
  then show ?case
    using keys_om_put [of k v m] by (auto simp: om_inv_def)
qed (simp add: om_inv_def)

lemma om_inv_erase: "om_inv m \<Longrightarrow> om_inv (om_erase k m)"
  by (induction m) (auto simp: om_inv_def om_erase_def)

lemma om_inv_distinct: "om_inv m \<Longrightarrow> distinct (map fst m)"
  unfolding om_inv_def by (simp add: strict_sorted_iff)

lemma om_inv_unique:
  assumes "om_inv m" "om_inv m'" "map_of m = map_of m'"
  shows "m = m'"
proof -
  have set_eq: "set m = set m'"
    using assms by (metis map_of_inject_set om_inv_distinct)
  then have keys: "map fst m = map fst m'"
    using assms(1,2) unfolding om_inv_def
    by (metis list.set_map strict_sorted_equal)
  show ?thesis
    using keys set_eq om_inv_distinct [OF assms(2)]
    by (metis distinct_map inj_on_map_eq_map inj_on_subset map_inj_on set_eq sup.idem)
qed

lemma set_os_insert: "set (os_insert x s) = insert x (set s)"
  by (induction x s rule: os_insert.induct) auto

lemma os_inv_insert: "os_inv s \<Longrightarrow> os_inv (os_insert x s)"
proof (induction x s rule: os_insert.induct)
  case (2 x y ys)
  then show ?case
    by (auto simp: os_inv_def set_os_insert)
qed (simp add: os_inv_def)

lemma set_os_erase: "set (os_erase x s) = set s - {x}"
  by (auto simp: os_erase_def)

lemma os_inv_erase: "os_inv s \<Longrightarrow> os_inv (os_erase x s)"
  unfolding os_inv_def os_erase_def by (rule sorted_wrt_filter)

lemma os_inv_unique: "os_inv s \<Longrightarrow> os_inv s' \<Longrightarrow> set s = set s' \<Longrightarrow> s = s'"
  unfolding os_inv_def by (rule strict_sorted_equal)

interpretation om: std_map "[]" map_of om_put om_erase om_inv
  by unfold_locales
    (auto simp: map_of_om_put map_of_om_erase om_inv_put om_inv_erase om_inv_def[of "[]"]
      intro: om_inv_unique)

interpretation os: std_set set os_insert os_erase os_inv
  by unfold_locales
    (auto simp: set_os_insert set_os_erase os_inv_insert os_inv_erase intro: os_inv_unique)

lemma os_erase_length: "x \<in> set s \<Longrightarrow> length (os_erase x s) < length s"
  unfolding os_erase_def by (rule length_filter_less) auto

lemma mem_map_of: "om_inv m \<Longrightarrow> (k, v) \<in> set m \<longleftrightarrow> map_of m k = Some v"
  using om_inv_distinct by force

section \<open>Codecs\<close>

text \<open>
  The contract of a pair of functions that write a value in an external form and read it back.
\<close>

locale codec =
  fixes enc :: "'a \<Rightarrow> 'b"
    and dec :: "'b \<Rightarrow> 'a option"
    and wf :: "'a \<Rightarrow> bool"
  assumes dec_enc: "wf x \<Longrightarrow> dec (enc x) = Some x"
begin

lemma enc_inject: "wf x \<Longrightarrow> wf y \<Longrightarrow> enc x = enc y \<longleftrightarrow> x = y"
  by (metis dec_enc option.inject)

lemma dec_map_enc: "list_all wf xs \<Longrightarrow> map (the \<circ> dec) (map enc xs) = xs"
  by (induction xs) (simp_all add: dec_enc)

end

end
