(* ===== verification/Fwmark.thy ===== *)
theory Fwmark
  imports Netd_Prelude
begin

unbundle bit_operations_syntax

text \<open>
  The socket mark (include/Fwmark.h), a \<open>uint32_t\<close> seen through a union of bit-fields, and the
  permission flags stored in it (include/Permission.h). Bit-fields are laid out from the least
  significant bit, as on every Android ABI. The contract of one bit-field is the locale
  \<open>mark_field\<close>; each of the union's five members is an interpretation of it, and the facts about
  rule matching used by the routing rules follow from the member-wise reading of a mark.
\<close>

section \<open>Permission\<close>

abbreviation (input) PERMISSION_NONE :: u32 where "PERMISSION_NONE \<equiv> 0x0"
abbreviation (input) PERMISSION_NETWORK :: u32 where "PERMISSION_NETWORK \<equiv> 0x1"
abbreviation (input) PERMISSION_SYSTEM :: u32 where "PERMISSION_SYSTEM \<equiv> 0x3"

text \<open>The switch has no default: for another value control leaves a non-void function.\<close>

definition permissionToName :: "u32 \<Rightarrow> string option" where
  "permissionToName permission =
     (if permission = PERMISSION_NONE then Some ''NONE''
      else if permission = PERMISSION_NETWORK then Some ''NETWORK''
      else if permission = PERMISSION_SYSTEM then Some ''SYSTEM''
      else None)"

definition stringToPermission :: "string \<Rightarrow> u32" where
  "stringToPermission arg =
     (if arg = ''NETWORK'' then PERMISSION_NETWORK
      else if arg = ''SYSTEM'' then PERMISSION_SYSTEM
      else PERMISSION_NONE)"

definition is_permission :: "u32 \<Rightarrow> bool" where
  "is_permission p \<longleftrightarrow> p = PERMISSION_NONE \<or> p = PERMISSION_NETWORK \<or> p = PERMISSION_SYSTEM"

section \<open>Bit-fields of a 32-bit word\<close>

definition bf_get :: "nat \<Rightarrow> nat \<Rightarrow> u32 \<Rightarrow> u32" where
  "bf_get sh wd w = take_bit wd (drop_bit sh w)"

definition bf_set :: "nat \<Rightarrow> nat \<Rightarrow> u32 \<Rightarrow> u32 \<Rightarrow> u32" where
  "bf_set sh wd v w = (w AND NOT (push_bit sh (mask wd))) OR push_bit sh (take_bit wd v)"

lemma bit_bf_get: "bit (bf_get sh wd w) i \<longleftrightarrow> i < wd \<and> bit w (sh + i)"
  by (simp add: bf_get_def bit_take_bit_iff bit_drop_bit_eq)

lemma bit_bf_set:
  "bit (bf_set sh wd v w) i \<longleftrightarrow>
     i < 32 \<and> (if sh \<le> i \<and> i < sh + wd then bit v (i - sh) else bit w i)"
  by (auto simp: bf_set_def bit_or_iff bit_and_iff bit_not_iff bit_push_bit_iff bit_mask_iff
      bit_take_bit_iff dest: bit_imp_le_length)

locale mark_field =
  fixes sh wd :: nat
  assumes fits: "sh + wd \<le> 32"
begin

lemma get_set: "bf_get sh wd (bf_set sh wd v w) = take_bit wd v"
  using fits by (intro bit_eqI) (auto simp: bit_bf_get bit_bf_set bit_take_bit_iff)

lemma get_set_other:
  "sh' + wd' \<le> sh \<or> sh + wd \<le> sh' \<Longrightarrow> bf_get sh' wd' (bf_set sh wd v w) = bf_get sh' wd' w"
  by (intro bit_eqI) (auto simp: bit_bf_get bit_bf_set dest: bit_imp_le_length)

lemma set_get: "bf_set sh wd (bf_get sh wd w) w = w"
  by (intro bit_eqI) (auto simp: bit_bf_get bit_bf_set dest: bit_imp_le_length)

lemma set_set: "bf_set sh wd v (bf_set sh wd v' w) = bf_set sh wd v w"
  by (intro bit_eqI) (auto simp: bit_bf_set)

lemma get_and: "bf_get sh wd (a AND b) = bf_get sh wd a AND bf_get sh wd b"
  by (intro bit_eqI) (auto simp: bit_bf_get bit_and_iff)

lemma get_zero: "bf_get sh wd 0 = 0"
  by (intro bit_eqI) (auto simp: bit_bf_get)

lemma get_small: "take_bit wd (bf_get sh wd w) = bf_get sh wd w"
  by (simp add: bf_get_def)

end

section \<open>union Fwmark\<close>

definition fm_netId :: "u32 \<Rightarrow> u32" where
  "fm_netId = bf_get 0 16"

definition fm_set_netId :: "u32 \<Rightarrow> u32 \<Rightarrow> u32" where
  "fm_set_netId = bf_set 0 16"

definition fm_explicitlySelected :: "u32 \<Rightarrow> bool" where
  "fm_explicitlySelected w \<longleftrightarrow> bf_get 16 1 w \<noteq> 0"

definition fm_set_explicitlySelected :: "bool \<Rightarrow> u32 \<Rightarrow> u32" where
  "fm_set_explicitlySelected b = bf_set 16 1 (of_bool b)"

definition fm_protectedFromVpn :: "u32 \<Rightarrow> bool" where
  "fm_protectedFromVpn w \<longleftrightarrow> bf_get 17 1 w \<noteq> 0"

definition fm_set_protectedFromVpn :: "bool \<Rightarrow> u32 \<Rightarrow> u32" where
  "fm_set_protectedFromVpn b = bf_set 17 1 (of_bool b)"

definition fm_permission :: "u32 \<Rightarrow> u32" where
  "fm_permission = bf_get 18 2"

definition fm_set_permission :: "u32 \<Rightarrow> u32 \<Rightarrow> u32" where
  "fm_set_permission = bf_set 18 2"

definition fm_uidBillingDone :: "u32 \<Rightarrow> bool" where
  "fm_uidBillingDone w \<longleftrightarrow> bf_get 20 1 w \<noteq> 0"

definition fm_set_uidBillingDone :: "bool \<Rightarrow> u32 \<Rightarrow> u32" where
  "fm_set_uidBillingDone b = bf_set 20 1 (of_bool b)"

text \<open>\<open>constexpr Fwmark() : intValue(0)\<close>.\<close>

definition Fwmark_new :: u32 where
  "Fwmark_new = 0"

definition getUidBillingMask :: u32 where
  "getUidBillingMask = fm_set_uidBillingDone True Fwmark_new"

definition FWMARK_NET_ID_MASK :: u32 where
  "FWMARK_NET_ID_MASK = 0xffff"

text \<open>The eleven bits above the last member, which no member assignment touches.\<close>

definition fm_unused :: "u32 \<Rightarrow> u32" where
  "fm_unused = bf_get 21 11"

lemmas fm_defs = fm_netId_def fm_set_netId_def fm_explicitlySelected_def
  fm_set_explicitlySelected_def fm_protectedFromVpn_def fm_set_protectedFromVpn_def
  fm_permission_def fm_set_permission_def fm_uidBillingDone_def fm_set_uidBillingDone_def
  fm_unused_def

interpretation f_netId: mark_field 0 16 by unfold_locales simp
interpretation f_explicit: mark_field 16 1 by unfold_locales simp
interpretation f_protect: mark_field 17 1 by unfold_locales simp
interpretation f_permission: mark_field 18 2 by unfold_locales simp
interpretation f_billing: mark_field 20 1 by unfold_locales simp
interpretation f_unused: mark_field 21 11 by unfold_locales simp

lemma take_bit_1_of_bool [simp]: "take_bit (Suc 0) (of_bool b :: u32) = of_bool b"
  by (cases b) simp_all

lemmas get_set_others = f_netId.get_set_other f_permission.get_set_other
  f_explicit.get_set_other [unfolded One_nat_def] f_protect.get_set_other [unfolded One_nat_def]
  f_billing.get_set_other [unfolded One_nat_def]

lemma fm_get_set [mark_simps]:
  "fm_netId (fm_set_netId n w) = take_bit 16 n"
  "fm_explicitlySelected (fm_set_explicitlySelected b w) = b"
  "fm_protectedFromVpn (fm_set_protectedFromVpn b w) = b"
  "fm_permission (fm_set_permission p w) = take_bit 2 p"
  "fm_uidBillingDone (fm_set_uidBillingDone b w) = b"
  using f_explicit.get_set [of "of_bool b" w] f_protect.get_set [of "of_bool b" w]
    f_billing.get_set [of "of_bool b" w]
  by (simp_all add: fm_defs f_netId.get_set f_permission.get_set)

lemma fm_netId_frame [mark_simps]:
  "fm_netId (fm_set_explicitlySelected b w) = fm_netId w"
  "fm_netId (fm_set_protectedFromVpn b w) = fm_netId w"
  "fm_netId (fm_set_permission p w) = fm_netId w"
  "fm_netId (fm_set_uidBillingDone b w) = fm_netId w"
  by (simp_all add: fm_defs get_set_others)

lemma fm_explicitlySelected_frame [mark_simps]:
  "fm_explicitlySelected (fm_set_netId n w) = fm_explicitlySelected w"
  "fm_explicitlySelected (fm_set_protectedFromVpn b w) = fm_explicitlySelected w"
  "fm_explicitlySelected (fm_set_permission p w) = fm_explicitlySelected w"
  "fm_explicitlySelected (fm_set_uidBillingDone b w) = fm_explicitlySelected w"
  by (simp_all add: fm_defs get_set_others)

lemma fm_protectedFromVpn_frame [mark_simps]:
  "fm_protectedFromVpn (fm_set_netId n w) = fm_protectedFromVpn w"
  "fm_protectedFromVpn (fm_set_explicitlySelected b w) = fm_protectedFromVpn w"
  "fm_protectedFromVpn (fm_set_permission p w) = fm_protectedFromVpn w"
  "fm_protectedFromVpn (fm_set_uidBillingDone b w) = fm_protectedFromVpn w"
  by (simp_all add: fm_defs get_set_others)

lemma fm_permission_frame [mark_simps]:
  "fm_permission (fm_set_netId n w) = fm_permission w"
  "fm_permission (fm_set_explicitlySelected b w) = fm_permission w"
  "fm_permission (fm_set_protectedFromVpn b w) = fm_permission w"
  "fm_permission (fm_set_uidBillingDone b w) = fm_permission w"
  by (simp_all add: fm_defs get_set_others)

lemma fm_uidBillingDone_frame [mark_simps]:
  "fm_uidBillingDone (fm_set_netId n w) = fm_uidBillingDone w"
  "fm_uidBillingDone (fm_set_explicitlySelected b w) = fm_uidBillingDone w"
  "fm_uidBillingDone (fm_set_protectedFromVpn b w) = fm_uidBillingDone w"
  "fm_uidBillingDone (fm_set_permission p w) = fm_uidBillingDone w"
  by (simp_all add: fm_defs get_set_others)

lemma fm_unused_frame [mark_simps]:
  "fm_unused (fm_set_netId n w) = fm_unused w"
  "fm_unused (fm_set_explicitlySelected b w) = fm_unused w"
  "fm_unused (fm_set_protectedFromVpn b w) = fm_unused w"
  "fm_unused (fm_set_permission p w) = fm_unused w"
  "fm_unused (fm_set_uidBillingDone b w) = fm_unused w"
  by (simp_all add: fm_defs get_set_others)

lemma bf_get_1: "bf_get sh (Suc 0) w = of_bool (bit w sh)"
  by (intro bit_eqI) (auto simp: bit_bf_get bit_1_iff)

lemma fm_zero [mark_simps]:
  "fm_netId 0 = 0" "\<not> fm_explicitlySelected 0" "\<not> fm_protectedFromVpn 0" "fm_permission 0 = 0"
  "\<not> fm_uidBillingDone 0" "fm_unused 0 = 0"
  by (simp_all add: fm_defs bf_get_def)

lemma fm_and [mark_simps]:
  "fm_netId (a AND b) = fm_netId a AND fm_netId b"
  "fm_explicitlySelected (a AND b) \<longleftrightarrow> fm_explicitlySelected a \<and> fm_explicitlySelected b"
  "fm_protectedFromVpn (a AND b) \<longleftrightarrow> fm_protectedFromVpn a \<and> fm_protectedFromVpn b"
  "fm_permission (a AND b) = fm_permission a AND fm_permission b"
  "fm_uidBillingDone (a AND b) \<longleftrightarrow> fm_uidBillingDone a \<and> fm_uidBillingDone b"
  "fm_unused (a AND b) = fm_unused a AND fm_unused b"
  by (simp_all add: fm_defs bf_get_1 f_netId.get_and f_permission.get_and f_unused.get_and
      bit_and_iff)

lemma fm_small [mark_simps]:
  "take_bit 16 (fm_netId w) = fm_netId w" "take_bit 2 (fm_permission w) = fm_permission w"
  by (simp_all add: fm_defs bf_get_def)

text \<open>Two marks are equal when every member and the unused bits are.\<close>

lemma bf_get_eqD: "bf_get sh wd a = bf_get sh wd b \<Longrightarrow> sh \<le> i \<Longrightarrow> i < sh + wd \<Longrightarrow> bit a i = bit b i"
  using bit_bf_get [of sh wd a "i - sh"] bit_bf_get [of sh wd b "i - sh"] by auto

lemma mark_eqI:
  assumes "fm_netId a = fm_netId b" "fm_explicitlySelected a = fm_explicitlySelected b"
    "fm_protectedFromVpn a = fm_protectedFromVpn b" "fm_permission a = fm_permission b"
    "fm_uidBillingDone a = fm_uidBillingDone b" "fm_unused a = fm_unused b"
  shows "a = b"
proof (rule bit_eqI)
  fix i assume "possible_bit TYPE(32 word) i"
  then have "i < 32" by (simp add: possible_bit_word)
  then consider "i < 16" | "i = 16" | "i = 17" | "18 \<le> i" "i < 20" | "i = 20" | "21 \<le> i" "i < 32"
    by linarith
  then show "bit a i = bit b i"
  proof cases
    case 1 then show ?thesis using assms(1) bf_get_eqD [of 0 16 a b i] by (simp add: fm_defs)
  next
    case 2 then show ?thesis using assms(2) by (simp add: fm_defs bf_get_1)
  next
    case 3 then show ?thesis using assms(3) by (simp add: fm_defs bf_get_1)
  next
    case 4 then show ?thesis using assms(4) bf_get_eqD [of 18 2 a b i] by (simp add: fm_defs)
  next
    case 5 then show ?thesis using assms(5) by (simp add: fm_defs bf_get_1)
  next
    case 6 then show ?thesis using assms(6) bf_get_eqD [of 21 11 a b i] by (simp add: fm_defs)
  qed
qed

lemma mark_eq_iff:
  "a = b \<longleftrightarrow> fm_netId a = fm_netId b \<and> fm_explicitlySelected a = fm_explicitlySelected b \<and>
     fm_protectedFromVpn a = fm_protectedFromVpn b \<and> fm_permission a = fm_permission b \<and>
     fm_uidBillingDone a = fm_uidBillingDone b \<and> fm_unused a = fm_unused b"
  using mark_eqI by blast

section \<open>Which packets a marked routing rule matches\<close>

text \<open>
  The kernel compares \<open>(packet mark & mask)\<close> with the rule's mark. \<open>mark_selects\<close> is that test;
  the lemma turns it into a condition on the members of the packet's mark.
\<close>

definition mark_selects :: "u32 \<Rightarrow> u32 \<Rightarrow> u32 \<Rightarrow> bool" where
  "mark_selects fwmark msk m \<longleftrightarrow> m AND msk = fwmark"

lemma fm_netId_mask [mark_simps]: "fm_netId w AND 0xffff = fm_netId w"
proof -
  have "w' AND 0xffff = take_bit 16 w'" for w' :: u32
    by (simp add: take_bit_eq_mask mask_eq_exp_minus_1)
  then show ?thesis by (simp add: mark_simps)
qed

lemma take_bit_netid_mask [mark_simps]: "take_bit 16 (0xffff :: u32) = 0xffff"
  by simp

lemma take_bit_netid: "n < 0x10000 \<Longrightarrow> take_bit 16 n = n" for n :: u32
  by (simp add: word_unat_eq_iff unsigned_take_bit_eq take_bit_nat_eq_self word_less_nat_alt)

lemma permission_take_bit [simp]: "is_permission p \<Longrightarrow> take_bit 2 p = p"
  by (auto simp: is_permission_def)

lemma mark_selects_iff:
  "mark_selects fwmark msk m \<longleftrightarrow>
     fm_netId m AND fm_netId msk = fm_netId fwmark \<and>
     (fm_explicitlySelected m \<and> fm_explicitlySelected msk \<longleftrightarrow> fm_explicitlySelected fwmark) \<and>
     (fm_protectedFromVpn m \<and> fm_protectedFromVpn msk \<longleftrightarrow> fm_protectedFromVpn fwmark) \<and>
     fm_permission m AND fm_permission msk = fm_permission fwmark \<and>
     (fm_uidBillingDone m \<and> fm_uidBillingDone msk \<longleftrightarrow> fm_uidBillingDone fwmark) \<and>
     fm_unused m AND fm_unused msk = fm_unused fwmark"
  unfolding mark_selects_def mark_eq_iff [of "m AND msk"] by (simp add: mark_simps)

end
