(* ===== verification/C_Library.thy ===== *)
theory C_Library
  imports Netd_Prelude
begin

unbundle bit_operations_syntax

text \<open>
  The string functions of the C library the sources call: \<open>strtoul\<close> (LP64, with the base prefixes,
  the sign and the saturation at \<open>ULONG_MAX\<close> of the C standard), the \<open>%u\<close>, \<open>%d\<close> and \<open>%x\<close>
  conversions of the \<open>printf\<close> family, \<open>strlcpy\<close>'s return value, and little-endian stores of the
  fixed-width integers. A C string is a \<open>string\<close> without its terminating NUL.
\<close>

section \<open>Digits\<close>

definition isspace :: "char \<Rightarrow> bool" where
  "isspace c \<longleftrightarrow> c \<in> {CHR '' '', CHR 0x09, CHR 0x0A, CHR 0x0B, CHR 0x0C, CHR 0x0D}"

definition isdigit :: "char \<Rightarrow> bool" where
  "isdigit c \<longleftrightarrow> CHR ''0'' \<le> c \<and> c \<le> CHR ''9''"

definition isalpha :: "char \<Rightarrow> bool" where
  "isalpha c \<longleftrightarrow> (CHR ''a'' \<le> c \<and> c \<le> CHR ''z'') \<or> (CHR ''A'' \<le> c \<and> c \<le> CHR ''Z'')"

definition isalnum :: "char \<Rightarrow> bool" where
  "isalnum c \<longleftrightarrow> isdigit c \<or> isalpha c"

definition digit_val :: "char \<Rightarrow> nat option" where
  "digit_val c =
     (if isdigit c then Some (of_char c - 48)
      else if CHR ''a'' \<le> c \<and> c \<le> CHR ''z'' then Some (of_char c - 87)
      else if CHR ''A'' \<le> c \<and> c \<le> CHR ''Z'' then Some (of_char c - 55)
      else None)"

definition is_base_digit :: "nat \<Rightarrow> char \<Rightarrow> bool" where
  "is_base_digit b c \<longleftrightarrow> (case digit_val c of None \<Rightarrow> False | Some d \<Rightarrow> d < b)"

fun num_val :: "nat \<Rightarrow> nat \<Rightarrow> string \<Rightarrow> nat" where
  "num_val b acc [] = acc"
| "num_val b acc (c # cs) = num_val b (acc * b + the (digit_val c)) cs"

section \<open>strtoul\<close>

definition strtoul_sign :: "string \<Rightarrow> bool \<times> string" where
  "strtoul_sign s = (case s of c # cs \<Rightarrow>
       if c = CHR ''-'' then (True, cs) else if c = CHR ''+'' then (False, cs) else (False, s)
     | [] \<Rightarrow> (False, s))"

definition has_hex_prefix :: "string \<Rightarrow> bool" where
  "has_hex_prefix s \<longleftrightarrow> (case s of a # x # d # _ \<Rightarrow>
       a = CHR ''0'' \<and> (x = CHR ''x'' \<or> x = CHR ''X'') \<and> is_base_digit 16 d
     | _ \<Rightarrow> False)"

definition strtoul_base :: "nat \<Rightarrow> string \<Rightarrow> nat \<times> string" where
  "strtoul_base base s =
     (if (base = 0 \<or> base = 16) \<and> has_hex_prefix s then (16, drop 2 s)
      else if base = 0 then (if s \<noteq> [] \<and> hd s = CHR ''0'' then 8 else 10, s)
      else (base, s))"

definition strtoul :: "string \<Rightarrow> nat \<Rightarrow> u64 \<times> string" where
  "strtoul nptr base =
     (case strtoul_sign (dropWhile isspace nptr) of (neg, s) \<Rightarrow>
      case strtoul_base base s of (b, s') \<Rightarrow>
      let ds = takeWhile (is_base_digit b) s'; rest = dropWhile (is_base_digit b) s';
          n = num_val b 0 ds
      in if ds = [] then (0, nptr)
         else if n \<ge> 2 ^ 64 then (-1, rest)
         else (if neg then - of_nat n else of_nat n, rest))"

section \<open>strtol\<close>

abbreviation (input) LONG_MAX :: int where "LONG_MAX \<equiv> 9223372036854775807"
abbreviation (input) LONG_MIN :: int where "LONG_MIN \<equiv> - 9223372036854775808"

text \<open>The value, whether it was out of range (\<open>errno\<close> is then \<open>ERANGE\<close>), and the unread rest.\<close>

definition strtol :: "string \<Rightarrow> nat \<Rightarrow> int \<times> bool \<times> string" where
  "strtol nptr base =
     (case strtoul_sign (dropWhile isspace nptr) of (neg, s) \<Rightarrow>
      case strtoul_base base s of (b, s') \<Rightarrow>
      let ds = takeWhile (is_base_digit b) s'; rest = dropWhile (is_base_digit b) s';
          n = (if neg then - int (num_val b 0 ds) else int (num_val b 0 ds))
      in if ds = [] then (0, False, nptr)
         else if n > LONG_MAX then (LONG_MAX, True, rest)
         else if n < LONG_MIN then (LONG_MIN, True, rest)
         else (n, False, rest))"

section \<open>printf conversions\<close>

definition digit_char :: "nat \<Rightarrow> char" where
  "digit_char d = ''0123456789abcdef'' ! d"

fun show_base :: "nat \<Rightarrow> nat \<Rightarrow> string" where
  "show_base b n = (if b < 2 \<or> n < b then [digit_char n] else show_base b (n div b) @ [digit_char (n mod b)])"

declare show_base.simps [simp del]

definition fmt_u :: "u32 \<Rightarrow> string" where
  "fmt_u w = show_base 10 (unat w)"

definition fmt_x :: "u32 \<Rightarrow> string" where
  "fmt_x w = show_base 16 (unat w)"

definition fmt_d :: "int \<Rightarrow> string" where
  "fmt_d i = (if i < 0 then CHR ''-'' # show_base 10 (nat (- i)) else show_base 10 (nat i))"

section \<open>Reading back a printed decimal\<close>

lemma less_10_cases: "(d::nat) < 10 \<Longrightarrow> d \<in> {0,1,2,3,4,5,6,7,8,9}"
  by auto

lemma digit_val_digit_char: "d < 10 \<Longrightarrow> digit_val (digit_char d) = Some d"
  by (drule less_10_cases)
    (auto simp: digit_val_def digit_char_def isdigit_def less_eq_char_def)

lemma is_base_digit_digit_char: "d < 10 \<Longrightarrow> is_base_digit 10 (digit_char d)"
  by (simp add: is_base_digit_def digit_val_digit_char)

lemma show_base_10_digits: "c \<in> set (show_base 10 n) \<Longrightarrow> \<exists>d<10. c = digit_char d"
proof (induction "10::nat" n rule: show_base.induct)
  case (1 n)
  show ?case
  proof (cases "n < 10")
    case True
    then show ?thesis using 1(2) by (subst (asm) show_base.simps) auto
  next
    case False
    then have "c \<in> set (show_base 10 (n div 10)) \<or> c = digit_char (n mod 10)"
      using 1(2) by (subst (asm) show_base.simps) auto
    then show ?thesis using 1(1) False by (auto intro: exI [of _ "n mod 10"])
  qed
qed

lemma show_base_nonempty: "show_base b n \<noteq> []"
  by (subst show_base.simps) simp

lemma num_val_append: "num_val b acc (xs @ ys) = num_val b (num_val b acc xs) ys"
  by (induction xs arbitrary: acc) auto

lemma num_val_show_base: "num_val 10 0 (show_base 10 n) = n"
proof (induction "10::nat" n rule: show_base.induct)
  case (1 n)
  show ?case
  proof (cases "n < 10")
    case True
    then show ?thesis by (subst show_base.simps) (simp add: digit_val_digit_char)
  next
    case False
    then show ?thesis
      using 1 by (subst show_base.simps) (simp add: num_val_append digit_val_digit_char)
  qed
qed

lemma takeWhile_show_base:
  assumes "rest = [] \<or> \<not> is_base_digit 10 (hd rest)"
  shows "takeWhile (is_base_digit 10) (show_base 10 n @ rest) = show_base 10 n"
    and "dropWhile (is_base_digit 10) (show_base 10 n @ rest) = rest"
proof -
  have digs: "\<forall>c \<in> set (show_base 10 n). is_base_digit 10 c"
    using show_base_10_digits is_base_digit_digit_char by blast
  show "takeWhile (is_base_digit 10) (show_base 10 n @ rest) = show_base 10 n"
    using digs assms by (cases rest) (auto simp: takeWhile_append takeWhile_eq_all_conv)
  show "dropWhile (is_base_digit 10) (show_base 10 n @ rest) = rest"
    using digs assms by (cases rest) (auto simp: dropWhile_append dropWhile_eq_Nil_conv)
qed

lemma digit_char_plain: "d < 10 \<Longrightarrow>
  \<not> isspace (digit_char d) \<and> digit_char d \<noteq> CHR ''-'' \<and> digit_char d \<noteq> CHR ''+''"
  by (drule less_10_cases) (auto simp: digit_char_def isspace_def)

lemma show_base_Cons:
  obtains d cs where "show_base 10 n = digit_char d # cs" "d < 10"
proof (cases "show_base 10 n")
  case Nil then show ?thesis using show_base_nonempty by blast
next
  case (Cons c cs)
  then show ?thesis using show_base_10_digits [of c n] that by auto
qed

lemma strtoul_10_show:
  assumes "n < 2 ^ 64" "rest = [] \<or> \<not> is_base_digit 10 (hd rest)"
  shows "strtoul (show_base 10 n @ rest) 10 = (of_nat n, rest)"
proof -
  obtain d cs where d: "show_base 10 n = digit_char d # cs" "d < 10"
    by (rule show_base_Cons)
  have ds: "dropWhile isspace (show_base 10 n @ rest) = show_base 10 n @ rest"
    "strtoul_sign (show_base 10 n @ rest) = (False, show_base 10 n @ rest)"
    using d digit_char_plain [of d] by (auto simp: strtoul_sign_def)
  show ?thesis
    using assms unfolding strtoul_def ds
    by (simp add: strtoul_base_def takeWhile_show_base num_val_show_base show_base_nonempty)
qed

lemma show_base_head_nonzero: "0 < n \<Longrightarrow> hd (show_base 10 n) \<noteq> CHR ''0''"
proof (induction "10::nat" n rule: show_base.induct)
  case (1 n)
  show ?case
  proof (cases "n < 10")
    case True
    then have "n \<in> {0,1,2,3,4,5,6,7,8,9}" by (rule less_10_cases)
    then show ?thesis
      using 1(2) True by (subst show_base.simps) (auto simp: digit_char_def)
  next
    case False
    then have "0 < n div 10" by (simp add: div_greater_zero_iff)
    then have "hd (show_base 10 (n div 10)) \<noteq> CHR ''0''" using 1(1) False by simp
    then show ?thesis
      using False show_base_nonempty [of 10 "n div 10"] by (subst show_base.simps) simp
  qed
qed

text \<open>With base 0 a printed decimal is read in base 10, unless it is the single digit 0.\<close>

lemma strtoul_0_show:
  assumes "n < 2 ^ 64" "rest = [] \<or> \<not> isalnum (hd rest)"
  shows "strtoul (show_base 10 n @ rest) 0 = (of_nat n, rest)"
proof (cases "n = 0")
  case True
  have s0: "show_base 10 0 = [CHR ''0'']"
    by (subst show_base.simps) (simp add: digit_char_def)
  have nhex: "\<not> has_hex_prefix (CHR ''0'' # rest)"
    using assms(2)
    by (auto simp: has_hex_prefix_def isalnum_def isalpha_def less_eq_char_def split: list.splits)
  have nd: "rest = [] \<or> \<not> is_base_digit 8 (hd rest)"
    using assms(2) by (auto simp: is_base_digit_def digit_val_def isalnum_def isalpha_def)
  have d0: "is_base_digit 8 CHR ''0''" "digit_val CHR ''0'' = Some 0"
    by (simp_all add: is_base_digit_def digit_val_def isdigit_def less_eq_char_def)
  have tw: "takeWhile (is_base_digit 8) (CHR ''0'' # rest) = [CHR ''0'']"
    "dropWhile (is_base_digit 8) (CHR ''0'' # rest) = rest"
    using nd d0 by (cases rest; auto)+
  show ?thesis
    using True nhex tw d0
    by (simp add: s0 strtoul_def strtoul_sign_def strtoul_base_def isspace_def)
next
  case False
  obtain d cs where d: "show_base 10 n = digit_char d # cs" "d < 10"
    by (rule show_base_Cons)
  have hd0: "digit_char d \<noteq> CHR ''0''" using show_base_head_nonzero [of n] False d by simp
  have ds: "dropWhile isspace (show_base 10 n @ rest) = show_base 10 n @ rest"
    "strtoul_sign (show_base 10 n @ rest) = (False, show_base 10 n @ rest)"
    using d digit_char_plain [of d] by (auto simp: strtoul_sign_def)
  have base: "strtoul_base 0 (show_base 10 n @ rest) = (10, show_base 10 n @ rest)"
    using d hd0 by (auto simp: strtoul_base_def has_hex_prefix_def split: list.splits)
  have nd: "rest = [] \<or> \<not> is_base_digit 10 (hd rest)"
    using assms(2) by (auto simp: is_base_digit_def digit_val_def isalnum_def isalpha_def)
  show ?thesis
    using assms(1) nd unfolding strtoul_def ds
    by (simp add: base takeWhile_show_base num_val_show_base show_base_nonempty)
qed

section \<open>Words and lengths\<close>

lemma unat32: "n < 2 ^ 32 \<Longrightarrow> unat (of_nat n :: u32) = n"
  by (simp add: unat_of_nat)

lemma unat16: "n < 2 ^ 16 \<Longrightarrow> unat (of_nat n :: u16) = n"
  by (simp add: unat_of_nat)

lemma unat_ucast_16_32: "unat (ucast (w :: u16) :: u32) = unat w"
proof -
  have "unat w < 2 ^ 16" by (rule order_less_le_trans [OF unsigned_less]) simp
  then show ?thesis by (simp add: unsigned_ucast_eq take_bit_nat_eq_self_iff)
qed

section \<open>Little-endian stores\<close>

lemma ucast_up_down: "ucast (ucast (w :: u32) :: u64) = w"
  by (rule bit_word_eqI) (simp add: bit_ucast_iff)

definition le16 :: "u16 \<Rightarrow> bytes" where
  "le16 w = [ucast w, ucast (drop_bit 8 w)]"

definition le32 :: "u32 \<Rightarrow> bytes" where
  "le32 w = [ucast w, ucast (drop_bit 8 w), ucast (drop_bit 16 w), ucast (drop_bit 24 w)]"

definition get_le16 :: "bytes \<Rightarrow> u16" where
  "get_le16 bs = ucast (bs ! 0) OR push_bit 8 (ucast (bs ! 1))"

definition get_le32 :: "bytes \<Rightarrow> u32" where
  "get_le32 bs = ucast (bs ! 0) OR push_bit 8 (ucast (bs ! 1)) OR push_bit 16 (ucast (bs ! 2))
     OR push_bit 24 (ucast (bs ! 3))"

lemma length_le [simp]: "length (le16 w) = 2" "length (le32 v) = 4"
  by (simp_all add: le16_def le32_def)

lemma get_le16 [simp]: "get_le16 (le16 w @ rest) = w"
  by (rule bit_word_eqI)
    (auto simp: get_le16_def le16_def bit_or_iff bit_push_bit_iff bit_ucast_iff bit_drop_bit_eq)

lemma get_le32 [simp]: "get_le32 (le32 w @ rest) = w"
proof (rule bit_word_eqI)
  fix n assume "n < LENGTH(32)"
  then consider "n < 8" | "8 \<le> n" "n < 16" | "16 \<le> n" "n < 24" | "24 \<le> n" "n < 32"
    by fastforce
  then show "bit (get_le32 (le32 w @ rest)) n = bit w n"
    by cases (auto simp: get_le32_def le32_def bit_or_iff bit_push_bit_iff bit_ucast_iff
        bit_drop_bit_eq)
qed

end
