(* ===== verification/Uid_Ranges.thy ===== *)
theory Uid_Ranges
  imports C_Library
begin

text \<open>
  server/UidRanges.cpp: a vector of inclusive UID ranges, kept sorted by \<open>compUidRangeParcel\<close>.
  \<open>std::sort\<close>, \<open>std::inplace_merge\<close>, \<open>std::set_difference\<close> and \<open>std::lower_bound\<close> are modelled
  by what the standard says they compute; their precondition, a sorted vector, is the invariant
  \<open>sorted\<close> below. The class contract (a multiset of ranges that \<open>add\<close> and \<open>remove\<close> change) is
  the locale \<open>range_store\<close>.
\<close>

section \<open>UidRangeParcel and its order\<close>

datatype UidRangeParcel = UidRangeParcel (start: int) (stop: int)

definition compUidRangeParcel :: "UidRangeParcel \<Rightarrow> UidRangeParcel \<Rightarrow> bool" where
  "compUidRangeParcel lhs rhs \<longleftrightarrow>
     (if start lhs \<noteq> start rhs then start lhs < start rhs else stop lhs < stop rhs)"

instantiation UidRangeParcel :: linorder
begin

definition less_UidRangeParcel :: "UidRangeParcel \<Rightarrow> UidRangeParcel \<Rightarrow> bool" where
  "less_UidRangeParcel = compUidRangeParcel"

definition less_eq_UidRangeParcel :: "UidRangeParcel \<Rightarrow> UidRangeParcel \<Rightarrow> bool" where
  "less_eq_UidRangeParcel a b \<longleftrightarrow> compUidRangeParcel a b \<or> a = b"

instance
proof
  fix x y z :: UidRangeParcel
  show "(x < y) = (x \<le> y \<and> \<not> y \<le> x)"
    by (auto simp: less_UidRangeParcel_def less_eq_UidRangeParcel_def compUidRangeParcel_def
        split: if_splits)
  show "x \<le> x" by (simp add: less_eq_UidRangeParcel_def)
  show "x \<le> y \<Longrightarrow> y \<le> z \<Longrightarrow> x \<le> z"
    by (auto simp: less_eq_UidRangeParcel_def compUidRangeParcel_def split: if_splits)
  show "x \<le> y \<Longrightarrow> y \<le> x \<Longrightarrow> x = y"
    by (auto simp: less_eq_UidRangeParcel_def compUidRangeParcel_def split: if_splits)
  show "x \<le> y \<or> y \<le> x"
    by (cases x; cases y) (auto simp: less_eq_UidRangeParcel_def compUidRangeParcel_def)
qed

end

lemma less_UidRangeParcel_code [simp]:
  "UidRangeParcel a b < UidRangeParcel c d \<longleftrightarrow> a < c \<or> (a = c \<and> b < d)"
  by (auto simp: less_UidRangeParcel_def compUidRangeParcel_def)

lemma le_UidRangeParcel_code [simp]:
  "UidRangeParcel a b \<le> UidRangeParcel c d \<longleftrightarrow> a < c \<or> (a = c \<and> b \<le> d)"
  by (auto simp: less_eq_UidRangeParcel_def compUidRangeParcel_def)

lemma comp_iff_less [simp]: "compUidRangeParcel a b \<longleftrightarrow> a < b"
  by (simp add: less_UidRangeParcel_def)

text \<open>The parameters are \<open>int\<close>: a \<open>uid_t\<close> argument is converted to 32-bit two's complement.\<close>

definition makeUidRangeParcel :: "uid_t \<Rightarrow> uid_t \<Rightarrow> UidRangeParcel" where
  "makeUidRangeParcel s e = UidRangeParcel (sint s) (sint e)"

definition range_length :: "UidRangeParcel \<Rightarrow> u32" where
  "range_length t = (if start t = -1 \<or> stop t = -1 then 0 else word_of_int (stop t - start t + 1))"

section \<open>The operations\<close>

type_synonym UidRanges = "UidRangeParcel list"

abbreviation (input) INVALID_UID :: uid_t where "INVALID_UID \<equiv> 0xffffffff"
abbreviation (input) INT32_MAX :: u32 where "INT32_MAX \<equiv> 0x7fffffff"

definition lower_bound :: "UidRanges \<Rightarrow> UidRangeParcel \<Rightarrow> nat" where
  "lower_bound rs v = length (takeWhile (\<lambda>r. compUidRangeParcel r v) rs)"

definition hasUid :: "UidRanges \<Rightarrow> uid_t \<Rightarrow> bool" where
  "hasUid mRanges uid =
     (if uid > INT32_MAX then False
      else let intUid = sint uid;
               iter = lower_bound mRanges (UidRangeParcel intUid intUid)
           in (iter \<noteq> length mRanges \<and> start (mRanges ! iter) = intUid) \<or>
              (iter \<noteq> 0 \<and> stop (mRanges ! (iter - 1)) \<ge> intUid))"

definition getRanges :: "UidRanges \<Rightarrow> UidRangeParcel list" where
  "getRanges mRanges = mRanges"

definition UidRanges_new :: "UidRangeParcel list \<Rightarrow> UidRanges" where
  "UidRanges_new ranges = sort ranges"

text \<open>One argument of \<open>parseFrom\<close>: a UID or two UIDs separated by a minus sign.\<close>

definition parseUid :: "string \<Rightarrow> uid_t \<times> string" where
  "parseUid s = (case strtoul s 0 of (v, endPtr) \<Rightarrow> (ucast v, endPtr))"

definition parseRange :: "string \<Rightarrow> (uid_t \<times> uid_t) option" where
  "parseRange arg =
     (if arg = [] then None
      else case parseUid arg of (uidStart, endPtr) \<Rightarrow>
        (case
          (if endPtr = [] then Some uidStart
           else if hd endPtr = CHR ''-'' then
             (if tl endPtr = [] then None
              else case parseUid (tl endPtr) of (uidEnd, endPtr') \<Rightarrow>
                if endPtr' \<noteq> [] then None
                else if uidEnd < uidStart then None
                else Some uidEnd)
           else None)
         of None \<Rightarrow> None
          | Some uidEnd \<Rightarrow>
              if uidStart = INVALID_UID \<or> uidEnd = INVALID_UID then None
              else Some (uidStart, uidEnd)))"

text \<open>
  On an illegal argument \<open>parseFrom\<close> returns false and leaves the ranges read so far in the
  object, not sorted.
\<close>

fun parseArgs :: "UidRangeParcel list \<Rightarrow> string list \<Rightarrow> bool \<times> UidRanges" where
  "parseArgs acc [] = (True, sort acc)"
| "parseArgs acc (arg # args) =
     (case parseRange arg of
        None \<Rightarrow> (False, acc)
      | Some (uidStart, uidEnd) \<Rightarrow> parseArgs (acc @ [makeUidRangeParcel uidStart uidEnd]) args)"

definition parseFrom :: "string list \<Rightarrow> bool \<times> UidRanges" where
  "parseFrom argv = parseArgs [] argv"

fun inplace_merge :: "'a::linorder list \<Rightarrow> 'a list \<Rightarrow> 'a list" where
  "inplace_merge [] ys = ys"
| "inplace_merge xs [] = xs"
| "inplace_merge (x # xs) (y # ys) =
     (if y < x then y # inplace_merge (x # xs) ys else x # inplace_merge xs (y # ys))"

fun set_difference :: "'a::linorder list \<Rightarrow> 'a list \<Rightarrow> 'a list" where
  "set_difference [] ys = []"
| "set_difference xs [] = xs"
| "set_difference (x # xs) (y # ys) =
     (if x < y then x # set_difference xs (y # ys)
      else if y < x then set_difference (x # xs) ys
      else set_difference xs ys)"

definition ranges_add :: "UidRanges \<Rightarrow> UidRanges \<Rightarrow> UidRanges" where
  "ranges_add mRanges other = inplace_merge mRanges other"

definition ranges_remove :: "UidRanges \<Rightarrow> UidRanges \<Rightarrow> UidRanges" where
  "ranges_remove mRanges other = set_difference mRanges other"

definition range_toString :: "UidRangeParcel \<Rightarrow> string" where
  "range_toString r =
     (let s = fmt_u (word_of_int (start r)); e = fmt_u (word_of_int (stop r)) in
      if range_length r = 0 then ''<BAD: '' @ s @ ''-'' @ e @ ''> ''
      else if range_length r = 1 then s @ '' ''
      else s @ ''-'' @ e @ '' '')"

definition ranges_toString :: "UidRanges \<Rightarrow> string" where
  "ranges_toString mRanges = ''UidRanges{ '' @ concat (map range_toString mRanges) @ ''}''"

section \<open>add and remove as multiset operations\<close>

locale range_store =
  fixes items :: "'s \<Rightarrow> 'a multiset"
    and plus :: "'s \<Rightarrow> 's \<Rightarrow> 's"
    and minus :: "'s \<Rightarrow> 's \<Rightarrow> 's"
    and inv :: "'s \<Rightarrow> bool"
  assumes items_plus: "items (plus a b) = items a + items b"
    and items_minus: "inv a \<Longrightarrow> inv b \<Longrightarrow> items (minus a b) = items a - items b"
    and inv_plus: "inv a \<Longrightarrow> inv b \<Longrightarrow> inv (plus a b)"
    and inv_minus: "inv a \<Longrightarrow> inv b \<Longrightarrow> inv (minus a b)"
    and unique: "inv a \<Longrightarrow> inv b \<Longrightarrow> items a = items b \<Longrightarrow> a = b"
begin

lemmas store_laws = items_plus items_minus inv_plus inv_minus

lemma minus_plus: "inv a \<Longrightarrow> inv b \<Longrightarrow> minus (plus a b) b = a"
  by (rule unique) (simp_all add: store_laws)

lemma plus_minus: "inv a \<Longrightarrow> inv b \<Longrightarrow> items b \<subseteq># items a \<Longrightarrow> plus (minus a b) b = a"
  by (rule unique) (simp_all add: store_laws)

lemma plus_commute: "inv a \<Longrightarrow> inv b \<Longrightarrow> plus a b = plus b a"
  by (rule unique) (simp_all add: store_laws add.commute)

end

lemma mset_inplace_merge: "mset (inplace_merge xs ys) = mset xs + mset ys"
  by (induction xs ys rule: inplace_merge.induct) auto

lemma set_inplace_merge [simp]: "set (inplace_merge xs ys) = set xs \<union> set ys"
  using mset_inplace_merge [of xs ys] by (metis set_mset_mset set_mset_union)

lemma sorted_inplace_merge: "sorted xs \<Longrightarrow> sorted ys \<Longrightarrow> sorted (inplace_merge xs ys)"
  by (induction xs ys rule: inplace_merge.induct) auto

lemma set_difference_subset: "set (set_difference xs ys) \<subseteq> set xs"
  by (induction xs ys rule: set_difference.induct) auto

lemma sorted_set_difference: "sorted xs \<Longrightarrow> sorted (set_difference xs ys)"
proof (induction xs ys rule: set_difference.induct)
  case (3 x xs y ys)
  then show ?case using set_difference_subset [of xs "y # ys"] by auto
qed simp_all

lemma mset_set_difference:
  "sorted xs \<Longrightarrow> sorted ys \<Longrightarrow> mset (set_difference xs ys) = mset xs - mset ys"
proof (induction xs ys rule: set_difference.induct)
  case (3 x xs y ys)
  consider "x < y" | "y < x" | "x = y" by fastforce
  then show ?case
  proof cases
    case 1
    then have "x \<notin># mset (y # ys)" using 3(5) by auto
    then show ?thesis using 1 3 by simp
  next
    case 2
    then have "y \<notin># mset (x # xs)" using 3(4) by auto
    then show ?thesis using 2 3 by (simp add: diff_single_trivial)
  next
    case 3
    then show ?thesis using "3.IH"(3) "3.prems" by simp
  qed
qed simp_all

lemma sorted_mset_unique: "sorted (a :: 'a::linorder list) \<Longrightarrow> sorted b \<Longrightarrow> mset a = mset b \<Longrightarrow> a = b"
  by (metis properties_for_sort)

interpretation uid_store: range_store mset ranges_add ranges_remove sorted
  by unfold_locales
    (simp_all add: ranges_add_def ranges_remove_def mset_inplace_merge mset_set_difference
      sorted_inplace_merge sorted_set_difference sorted_mset_unique)

section \<open>hasUid\<close>

text \<open>
  Ranges are well formed when each is non-empty, has no negative bound and ends before the next
  starts.
\<close>

definition disjoint_ranges :: "UidRanges \<Rightarrow> bool" where
  "disjoint_ranges rs \<longleftrightarrow>
     sorted_wrt (\<lambda>a b. stop a < start b) rs \<and> (\<forall>r\<in>set rs. 0 \<le> start r \<and> start r \<le> stop r)"

definition covers :: "UidRanges \<Rightarrow> int \<Rightarrow> bool" where
  "covers rs u \<longleftrightarrow> (\<exists>r\<in>set rs. start r \<le> u \<and> u \<le> stop r)"

lemma disjoint_ranges_sorted: "disjoint_ranges rs \<Longrightarrow> sorted rs"
  unfolding disjoint_ranges_def
proof (induction rs)
  case (Cons r rs)
  have "r \<le> x" if "x \<in> set rs" for x
    using Cons.prems that by (cases r; cases x) force
  then show ?case using Cons by auto
qed simp

lemma hasUid_Nil: "\<not> hasUid [] uid"
  by (simp add: hasUid_def lower_bound_def)

lemma lookup_disjoint:
  assumes "disjoint_ranges rs" and "v = UidRangeParcel u u" and "i = lower_bound rs v"
  shows "(i \<noteq> length rs \<and> start (rs ! i) = u) \<or> (i \<noteq> 0 \<and> stop (rs ! (i - 1)) \<ge> u) \<longleftrightarrow> covers rs u"
proof -
  let ?P = "\<lambda>r. compUidRangeParcel r v"
  have i: "i \<le> length rs" using assms(3) by (simp add: lower_bound_def length_takeWhile_le)
  have before: "rs ! j < v" if "j < i" for j
    using that assms(3) nth_length_takeWhile set_takeWhileD takeWhile_nth [of j ?P rs]
    by (metis comp_iff_less lower_bound_def nth_mem)
  have at: "\<not> rs ! i < v" if "i < length rs"
    using that assms(3) nth_length_takeWhile [of ?P rs] by (simp add: lower_bound_def)
  have srt: "sorted rs" using assms(1) by (rule disjoint_ranges_sorted)
  have wf: "start (rs ! j) \<le> stop (rs ! j)" if "j < length rs" for j
    using assms(1) that by (auto simp: disjoint_ranges_def)
  have gap: "stop (rs ! j) < start (rs ! k)" if "j < k" "k < length rs" for j k
    using assms(1) that by (auto simp: disjoint_ranges_def sorted_wrt_iff_nth_less)
  have lo: "start (rs ! j) \<le> u" if "j < i" for j
    using before [OF that] assms(2) by (cases "rs ! j") auto
  have hi: "u \<le> start (rs ! i)" if "i < length rs"
    using at [OF that] assms(2) wf [OF that] by (cases "rs ! i") auto
  show ?thesis
  proof
    assume "(i \<noteq> length rs \<and> start (rs ! i) = u) \<or> (i \<noteq> 0 \<and> stop (rs ! (i - 1)) \<ge> u)"
    then show "covers rs u"
    proof
      assume "i \<noteq> length rs \<and> start (rs ! i) = u"
      then show ?thesis using i wf [of i] unfolding covers_def by (intro bexI [of _ "rs ! i"]) auto
    next
      assume "i \<noteq> 0 \<and> stop (rs ! (i - 1)) \<ge> u"
      then show ?thesis using i lo [of "i - 1"] unfolding covers_def
        by (intro bexI [of _ "rs ! (i - 1)"]) auto
    qed
  next
    assume "covers rs u"
    then obtain j where j: "j < length rs" "start (rs ! j) \<le> u" "u \<le> stop (rs ! j)"
      unfolding covers_def by (metis in_set_conv_nth)
    consider "j < i - 1" | "j = i - 1" "i \<noteq> 0" | "j = i" | "i < j" by linarith
    then show "(i \<noteq> length rs \<and> start (rs ! i) = u) \<or> (i \<noteq> 0 \<and> stop (rs ! (i - 1)) \<ge> u)"
    proof cases
      case 1
      then have "stop (rs ! j) < start (rs ! (i - 1))" using gap i by simp
      then show ?thesis using j(3) lo [of "i - 1"] 1 by simp
    next
      case 2 then show ?thesis using j by simp
    next
      case 3 then show ?thesis using j hi by auto
    next
      case 4
      then have "stop (rs ! i) < start (rs ! j)" using gap j by simp
      then show ?thesis using j(2) hi wf [of i] 4 j(1) by simp
    qed
  qed
qed

lemma sint_small: "uid \<le> INT32_MAX \<Longrightarrow> sint uid = uint uid"
proof -
  assume "uid \<le> INT32_MAX"
  then have "uint uid < 2 ^ 31" by (simp add: word_le_def)
  moreover have "0 \<le> uint uid" by simp
  ultimately have "- (2 ^ 31) \<le> uint uid" "uint uid < 2 ^ 31" by linarith+
  then show ?thesis by (simp add: sint_uint signed_take_bit_int_eq_self_iff)
qed

lemma hasUid_iff_covers: "disjoint_ranges rs \<Longrightarrow> uid \<le> INT32_MAX \<Longrightarrow> hasUid rs uid \<longleftrightarrow> covers rs (uint uid)"
  using lookup_disjoint [of rs "UidRangeParcel (uint uid) (uint uid)" "uint uid"]
  by (simp add: hasUid_def sint_small Let_def leD)

section \<open>Reading back printed ranges\<close>

definition print_range :: "UidRangeParcel \<Rightarrow> string" where
  "print_range r =
     (if start r = stop r then fmt_u (word_of_int (start r))
      else fmt_u (word_of_int (start r)) @ ''-'' @ fmt_u (word_of_int (stop r)))"

definition valid_range :: "UidRangeParcel \<Rightarrow> bool" where
  "valid_range r \<longleftrightarrow> 0 \<le> start r \<and> start r \<le> stop r \<and> stop r \<le> 0x7fffffff"

lemma parseUid_fmt_u:
  "rest = [] \<or> \<not> isalnum (hd rest) \<Longrightarrow> parseUid (fmt_u w @ rest) = (w, rest)"
proof -
  assume rest: "rest = [] \<or> \<not> isalnum (hd rest)"
  have "unat w < 2 ^ 32" by (rule order_less_le_trans [OF unsigned_less]) simp
  then have "unat w < 2 ^ 64" by simp
  then have "strtoul (show_base 10 (unat w) @ rest) 0 = (of_nat (unat w), rest)"
    using rest by (rule strtoul_0_show)
  moreover have "ucast (of_nat (unat w) :: u64) = w"
    by (simp add: ucast_up_down)
  ultimately show ?thesis by (simp add: parseUid_def fmt_u_def)
qed

lemma parseRange_single: "w \<noteq> INVALID_UID \<Longrightarrow> parseRange (fmt_u w) = Some (w, w)"
  using parseUid_fmt_u [of "[]" w] show_base_nonempty [of 10 "unat w"]
  by (simp add: parseRange_def fmt_u_def)

lemma parseRange_pair:
  assumes "v \<noteq> INVALID_UID" "w \<noteq> INVALID_UID" "v \<le> w"
  shows "parseRange (fmt_u v @ ''-'' @ fmt_u w) = Some (v, w)"
proof -
  have minus: "\<not> isalnum (CHR ''-'')"
    by (simp add: isalnum_def isdigit_def isalpha_def less_eq_char_def)
  have "parseUid (fmt_u v @ ''-'' @ fmt_u w) = (v, ''-'' @ fmt_u w)"
    using minus by (intro parseUid_fmt_u) simp
  moreover have "parseUid (fmt_u w) = (w, [])"
    using parseUid_fmt_u [of "[]" w] by simp
  ultimately show ?thesis
    using assms show_base_nonempty [of 10 "unat v"] show_base_nonempty [of 10 "unat w"]
    by (simp add: parseRange_def fmt_u_def)
qed

lemma word_of_int_small: "0 \<le> i \<Longrightarrow> i \<le> 0x7fffffff \<Longrightarrow> uint (word_of_int i :: u32) = i"
  by (simp add: uint_word_of_int)

lemma parseRange_print:
  assumes "valid_range r"
  shows "\<exists>v w. parseRange (print_range r) = Some (v, w) \<and> makeUidRangeParcel v w = r"
proof -
  let ?v = "word_of_int (start r) :: u32" and ?w = "word_of_int (stop r) :: u32"
  have u: "uint ?v = start r" "uint ?w = stop r"
    using assms by (auto simp: valid_range_def intro: word_of_int_small)
  have le: "?v \<le> INT32_MAX" "?w \<le> INT32_MAX" "?v \<le> ?w"
    using assms u by (auto simp: word_le_def valid_range_def)
  have ne: "?v \<noteq> INVALID_UID" "?w \<noteq> INVALID_UID" using le by auto
  have "makeUidRangeParcel ?v ?w = r"
    using u sint_small [OF le(1)] sint_small [OF le(2)] by (simp add: makeUidRangeParcel_def)
  moreover have "parseRange (print_range r) = Some (?v, ?w)"
    using parseRange_single [OF ne(2)] parseRange_pair [OF ne le(3)] by (simp add: print_range_def)
  ultimately show ?thesis by blast
qed

lemma parseArgs_print:
  "\<forall>r\<in>set rs. valid_range r \<Longrightarrow> parseArgs acc (map print_range rs) = (True, sort (acc @ rs))"
proof (induction rs arbitrary: acc)
  case (Cons r rs)
  then obtain v w where "parseRange (print_range r) = Some (v, w)" "makeUidRangeParcel v w = r"
    using parseRange_print by force
  then show ?case using Cons by simp
qed simp

section \<open>Properties\<close>

text \<open>
  A vector of sorted, pairwise disjoint, non-empty ranges answers \<open>hasUid\<close> with exactly
  the UIDs some range contains, and never admits a UID above \<open>INT32_MAX\<close>.
\<close>

theorem hasUid_exact:
  assumes "disjoint_ranges mRanges"
  shows "hasUid mRanges uid \<longleftrightarrow> uid \<le> INT32_MAX \<and> covers mRanges (uint uid)"
proof (cases "uid \<le> INT32_MAX")
  case True then show ?thesis using hasUid_iff_covers [OF assms] by simp
next
  case False then show ?thesis by (simp add: hasUid_def not_le)
qed

theorem hasUid_exact_witness:
  "disjoint_ranges [UidRangeParcel 10 20, UidRangeParcel 30 30] \<and>
   hasUid [UidRangeParcel 10 20, UidRangeParcel 30 30] 15 \<and>
   \<not> hasUid [UidRangeParcel 10 20, UidRangeParcel 30 30] 25"
proof -
  have d: "disjoint_ranges [UidRangeParcel 10 20, UidRangeParcel 30 30]"
    by (simp add: disjoint_ranges_def)
  show ?thesis
    using d hasUid_exact [OF d, of 15] hasUid_exact [OF d, of 25] by (simp add: covers_def)
qed

text \<open>
  Removing the ranges that were just added gives back the vector: \<open>remove\<close> undoes
  \<open>add\<close> on sorted vectors, element multiplicities and order included.
\<close>

theorem remove_undoes_add:
  assumes "sorted mRanges" "sorted other"
  shows "ranges_remove (ranges_add mRanges other) other = mRanges \<and>
         sorted (ranges_add mRanges other) \<and>
         mset (ranges_remove mRanges other) = mset mRanges - mset other"
  using assms by (simp add: uid_store.minus_plus uid_store.inv_plus uid_store.items_minus)

theorem remove_undoes_add_witness:
  "ranges_remove (ranges_add [UidRangeParcel 5 9, UidRangeParcel 12 12] [UidRangeParcel 7 7, UidRangeParcel 12 12])
     [UidRangeParcel 7 7, UidRangeParcel 12 12] = [UidRangeParcel 5 9, UidRangeParcel 12 12]"
  using remove_undoes_add [of "[UidRangeParcel 5 9, UidRangeParcel 12 12]"
      "[UidRangeParcel 7 7, UidRangeParcel 12 12]"]
  by simp

text \<open>
  Parsing printed ranges (\<open>uid\<close> or \<open>first-last\<close>, decimal) succeeds and yields the
  ranges, sorted.
\<close>

theorem parseFrom_print:
  assumes "\<forall>r\<in>set rs. valid_range r"
  shows "parseFrom (map print_range rs) = (True, sort rs)"
  using parseArgs_print [OF assms, of "[]"] by (simp add: parseFrom_def)

theorem parseFrom_print_witness:
  "parseFrom (map print_range [UidRangeParcel 20 29, UidRangeParcel 7 7]) =
     (True, [UidRangeParcel 7 7, UidRangeParcel 20 29])"
  using parseFrom_print [of "[UidRangeParcel 20 29, UidRangeParcel 7 7]"]
  by (simp add: valid_range_def)

text \<open>
  On overlapping ranges the binary search looks only at the last range that starts before the UID:
  50 lies in 1-100 but is not found once 5-6 is in the vector too.
\<close>

lemma hasUid_misses_overlap:
  "\<not> hasUid (ranges_add [UidRangeParcel 1 100] [UidRangeParcel 5 6]) 50 \<and>
   covers (ranges_add [UidRangeParcel 1 100] [UidRangeParcel 5 6]) 50"
  by (simp add: hasUid_def ranges_add_def lower_bound_def covers_def)

text \<open>
  \<open>parseFrom\<close> checks the order of the two bounds before they are narrowed to \<open>int\<close>, so a range
  that ends above \<open>INT32_MAX\<close> is stored with a negative end.
\<close>

lemma parseRange_negative_stop:
  "parseRange (fmt_u 5 @ ''-'' @ fmt_u 3000000000) = Some (5, 3000000000) \<and>
   makeUidRangeParcel 5 3000000000 = UidRangeParcel 5 (-1294967296)"
  using parseRange_pair [of 5 3000000000] by (simp add: makeUidRangeParcel_def)

end
