(* ===== verification/Kernel_Env.thy ===== *)
theory Kernel_Env
  imports Uid_Ranges
begin

text \<open>
  The outside world. The daemon acts on the kernel, the iptables helpers and other services, whose
  code is not part of the repository (or, for the helpers, is reached through a function pointer).
  Their behaviour is the parameter \<open>kern\<close>: every answer is an arbitrary function of the complete
  history of interactions, so that a theorem about all \<open>kern\<close> covers every environment, including
  interfaces that come and go and requests that fail. The history is the \<open>trace\<close> of the \<open>world\<close>.
\<close>

datatype IptablesTarget = V4 | V6 | V4V6

text \<open>What the socket calls of a netlink exchange returned; errors carry the value of \<open>errno\<close>.\<close>

datatype open_result = SocketErr int | ConnectErr int | SockOpen

datatype recv_result = RecvErr int | RecvBytes nat int

datatype read_result = ReadErr int | ReadBytes bytes

datatype nl_outcome = NotOpened open_result | WriteErr int | Acked recv_result | Dumped | Sent

text \<open>The two calls of \<open>SockDiag\<close> that close sockets.\<close>

datatype destroy_request = LackingPermission netid u32 | OfUsers UidRanges "uid_t list"

datatype event =
    EvNetlink bytes nl_outcome
  | EvIptables IptablesTarget string int
  | EvIfcUp string int
  | EvWriteFile string string bool
  | EvDestroySockets destroy_request int
  | EvResolvDeleteCache netid
  | EvTcpPolling bool

type_synonym history = "event list"

record kern =
  if_nametoindex :: "history \<Rightarrow> string \<Rightarrow> u32"
  nl_open :: "history \<Rightarrow> open_result"
  nl_write :: "history \<Rightarrow> bytes \<Rightarrow> int"
  nl_recv :: "history \<Rightarrow> bytes \<Rightarrow> recv_result"
  nl_read :: "history \<Rightarrow> bytes \<Rightarrow> read_result list"
  iptables :: "history \<Rightarrow> IptablesTarget \<Rightarrow> string \<Rightarrow> int"
  ifc_up :: "history \<Rightarrow> string \<Rightarrow> int"
  write_file :: "history \<Rightarrow> string \<Rightarrow> string \<Rightarrow> bool"
  getaddrinfo :: "string \<Rightarrow> (u8 \<times> bytes) option"
  inet_pton :: "u8 \<Rightarrow> string \<Rightarrow> bytes option"
  sd_open :: "history \<Rightarrow> bool"
  sock_destroy :: "history \<Rightarrow> destroy_request \<Rightarrow> int"

text \<open>
  The daemon's side: the history, the number of netlink sockets it holds open, and
  \<open>RouteController::sInterfaceToTable\<close>.
\<close>

record world =
  trace :: history
  nl_fds :: int
  sInterfaceToTable :: "(string \<times> u32) list"

definition log_event :: "event \<Rightarrow> world \<Rightarrow> world" where
  "log_event e w = w\<lparr>trace := trace w @ [e]\<rparr>"

lemma log_event_simps [simp]:
  "trace (log_event e w) = trace w @ [e]"
  "nl_fds (log_event e w) = nl_fds w"
  "sInterfaceToTable (log_event e w) = sInterfaceToTable w"
  by (simp_all add: log_event_def)

text \<open>
  The two entry points of server/NetdConstants.cpp for iptables: a complete script, and one command of
  one table. The script goes to the iptables-restore processes, whose answer is the result.
\<close>

abbreviation (input) newline :: string where "newline \<equiv> [CHR 0x0A]"

definition execIptablesRestore :: "kern \<Rightarrow> IptablesTarget \<Rightarrow> string \<Rightarrow> world act" where
  "execIptablesRestore K target commands w =
     (let r = iptables K (trace w) target commands in (r, log_event (EvIptables target commands r) w))"

definition execIptablesRestoreCommand :: "kern \<Rightarrow> IptablesTarget \<Rightarrow> string \<Rightarrow> string \<Rightarrow> world act" where
  "execIptablesRestoreCommand K target table command =
     execIptablesRestore K target (''*'' @ table @ newline @ command @ newline @ ''COMMIT'' @ newline)"

lemmas exec_defs = execIptablesRestore_def execIptablesRestoreCommand_def

text \<open>No operation rewrites history: what it did is what it appended.\<close>

definition extends :: "world \<Rightarrow> world \<Rightarrow> bool" where
  "extends w w' \<longleftrightarrow> (\<exists>es. trace w' = trace w @ es)"

lemma extends_refl [simp, intro]: "extends w w"
  by (simp add: extends_def)

lemma extends_trans [trans]: "extends a b \<Longrightarrow> extends b c \<Longrightarrow> extends a c"
  by (auto simp: extends_def)

lemma extends_log [simp, intro]: "extends w (log_event e w)"
  by (simp add: extends_def)

end
