(* ===== verification/Netlink.thy ===== *)
theory Netlink
  imports Kernel_Env
begin

unbundle bit_operations_syntax

text \<open>
  server/NetlinkCommands.cpp: building, sending and receiving rtnetlink messages, at the level of
  bytes. Reading past the bytes a message or a read delivered is the value \<open>None\<close>. The macros of
  linux/netlink.h and linux/rtnetlink.h (\<open>NLMSG_OK\<close>, \<open>NLMSG_NEXT\<close>, \<open>RTA_OK\<close>, \<open>RTA_NEXT\<close>, ...) are
  unfolded in place, with the unsigned remaining length the callers use.
\<close>

section \<open>Constants and layouts of the kernel headers\<close>

abbreviation (input) NLM_F_REQUEST :: u16 where "NLM_F_REQUEST \<equiv> 0x1"
abbreviation (input) NLM_F_ACK :: u16 where "NLM_F_ACK \<equiv> 0x4"
abbreviation (input) NLM_F_EXCL :: u16 where "NLM_F_EXCL \<equiv> 0x200"
abbreviation (input) NLM_F_DUMP :: u16 where "NLM_F_DUMP \<equiv> 0x300"
abbreviation (input) NLM_F_CREATE :: u16 where "NLM_F_CREATE \<equiv> 0x400"

abbreviation (input) NLMSG_ERROR :: u16 where "NLMSG_ERROR \<equiv> 2"
abbreviation (input) NLMSG_DONE :: u16 where "NLMSG_DONE \<equiv> 3"

abbreviation (input) RTM_NEWROUTE :: u16 where "RTM_NEWROUTE \<equiv> 24"
abbreviation (input) RTM_DELROUTE :: u16 where "RTM_DELROUTE \<equiv> 25"
abbreviation (input) RTM_GETROUTE :: u16 where "RTM_GETROUTE \<equiv> 26"
abbreviation (input) RTM_NEWRULE :: u16 where "RTM_NEWRULE \<equiv> 32"
abbreviation (input) RTM_DELRULE :: u16 where "RTM_DELRULE \<equiv> 33"
abbreviation (input) RTM_GETRULE :: u16 where "RTM_GETRULE \<equiv> 34"

abbreviation (input) AF_INET :: u8 where "AF_INET \<equiv> 2"
abbreviation (input) AF_INET6 :: u8 where "AF_INET6 \<equiv> 10"

definition NETLINK_REQUEST_FLAGS :: u16 where
  "NETLINK_REQUEST_FLAGS = NLM_F_REQUEST OR NLM_F_ACK"

definition NETLINK_ROUTE_CREATE_FLAGS :: u16 where
  "NETLINK_ROUTE_CREATE_FLAGS = NETLINK_REQUEST_FLAGS OR NLM_F_CREATE OR NLM_F_EXCL"

definition NETLINK_RULE_CREATE_FLAGS :: u16 where
  "NETLINK_RULE_CREATE_FLAGS = NETLINK_REQUEST_FLAGS OR NLM_F_CREATE"

definition NETLINK_DUMP_FLAGS :: u16 where
  "NETLINK_DUMP_FLAGS = NLM_F_REQUEST OR NLM_F_DUMP"

lemmas nl_flag_defs = NETLINK_REQUEST_FLAGS_def NETLINK_ROUTE_CREATE_FLAGS_def
  NETLINK_RULE_CREATE_FLAGS_def NETLINK_DUMP_FLAGS_def

text \<open>\<open>struct nlmsghdr\<close>: length, type, flags, sequence number, port; the last two are left 0.\<close>

definition nlmsghdr :: "u32 \<Rightarrow> u16 \<Rightarrow> u16 \<Rightarrow> bytes" where
  "nlmsghdr len ty flags = le32 len @ le16 ty @ le16 flags @ le32 0 @ le32 0"

definition nlmsg_len :: "bytes \<Rightarrow> u32" where
  "nlmsg_len m = get_le32 m"

definition nlmsg_type :: "bytes \<Rightarrow> u16" where
  "nlmsg_type m = get_le16 (drop 4 m)"

text \<open>\<open>NLMSG_ALIGN\<close> and \<open>RTA_ALIGN\<close> both round up to a multiple of 4.\<close>

definition align4 :: "nat \<Rightarrow> nat" where
  "align4 n = (n + 3) div 4 * 4"

section \<open>Sockets\<close>

definition openNetlinkSocket :: "kern \<Rightarrow> world \<Rightarrow> int \<times> world" where
  "openNetlinkSocket K w =
     (case nl_open K (trace w) of
        SocketErr e \<Rightarrow> (- e, w)
      | ConnectErr e \<Rightarrow> (- e, w\<lparr>nl_fds := nl_fds w + 1\<rparr>)
      | SockOpen \<Rightarrow> (0, w\<lparr>nl_fds := nl_fds w + 1\<rparr>))"

definition close_sock :: "world \<Rightarrow> world" where
  "close_sock w = w\<lparr>nl_fds := nl_fds w - 1\<rparr>"

text \<open>The response is an \<open>nlmsghdr\<close> and an \<open>nlmsgerr\<close>, 16 + 20 bytes.\<close>

definition recvNetlinkAck :: "recv_result \<Rightarrow> int" where
  "recvNetlinkAck r =
     (case r of
        RecvErr e \<Rightarrow> - e
      | RecvBytes n err \<Rightarrow> if n \<noteq> 36 then - EBADMSG else err)"

section \<open>Dumps\<close>

type_synonym callback = "bytes \<Rightarrow> world \<Rightarrow> world option"

datatype dump_status = Continue | Return int

text \<open>
  The \<open>for\<close> loop over the messages of one buffer: \<open>bs\<close> is what lies between \<open>nlh\<close> and the end of
  the received bytes, \<open>len\<close> the variable \<open>NLMSG_NEXT\<close> decrements.
\<close>

function dumpBuffer :: "callback \<Rightarrow> bytes \<Rightarrow> u32 \<Rightarrow> world \<Rightarrow> (dump_status \<times> world) option" where
  "dumpBuffer callback bs len w =
     (if len < 16 then Some (Continue, w)
      else if length bs < 16 then None
      else let nlen = nlmsg_len bs in
        if nlen < 16 \<or> len < nlen then Some (Continue, w)
        else if nlmsg_type bs = NLMSG_DONE then Some (Return 0, w)
        else if nlmsg_type bs = NLMSG_ERROR then
          (if length bs < 20 then None else Some (Return (sint (get_le32 (drop 16 bs))), w))
        else if length bs < unat nlen then None
        else case callback (take (unat nlen) bs) w of
            None \<Rightarrow> None
          | Some w' \<Rightarrow>
              dumpBuffer callback (drop (align4 (unat nlen)) bs) (len - of_nat (align4 (unat nlen))) w')"
  by pat_completeness auto
termination
proof (relation "measure (\<lambda>(callback, bs, len, w). length bs)", simp, goal_cases)
  case (1 callback bs len w nlen w')
  then have "16 \<le> unat nlen" by (simp add: not_less word_le_nat_alt)
  then have "0 < align4 (unat nlen)" by (auto simp: align4_def div_greater_zero_iff)
  then show ?case using 1 by auto
qed

declare dumpBuffer.simps [simp del]

text \<open>
  \<open>reads\<close> are the results of \<open>read\<close> in order. A list that ends without a final message stands for a
  \<open>read\<close> of no bytes, which ends the loop; a socket that stays silent instead would block it.
\<close>

fun processNetlinkDump :: "read_result list \<Rightarrow> callback \<Rightarrow> world \<Rightarrow> (int \<times> world) option" where
  "processNetlinkDump [] callback w = Some (0, w)"
| "processNetlinkDump (ReadErr e # reads) callback w = Some (- e, w)"
| "processNetlinkDump (ReadBytes buf # reads) callback w =
     (case dumpBuffer callback buf (of_nat (length buf)) w of
        None \<Rightarrow> None
      | Some (Return r, w') \<Rightarrow> Some (r, w')
      | Some (Continue, w') \<Rightarrow>
          if buf = [] then Some (0, w') else processNetlinkDump reads callback w')"

section \<open>Requests\<close>

text \<open>
  The first element of \<open>iov\<close> is replaced by the header, whose length field is the sum of all
  lengths, the header included, in a \<open>uint32_t\<close>.
\<close>

definition netlinkMessage :: "u16 \<Rightarrow> u16 \<Rightarrow> bytes list \<Rightarrow> bytes" where
  "netlinkMessage action flags iov =
     nlmsghdr (of_nat (16 + sum_list (map length (tl iov)))) action flags @ concat (tl iov)"

definition sendNetlinkRequest ::
  "kern \<Rightarrow> u16 \<Rightarrow> u16 \<Rightarrow> bytes list \<Rightarrow> callback option \<Rightarrow> world \<Rightarrow> (int \<times> world) option" where
  "sendNetlinkRequest K action flags iov callback w =
     (let msg = netlinkMessage action flags iov in
      case openNetlinkSocket K w of (sock, w1) \<Rightarrow>
      if sock < 0 then Some (sock, log_event (EvNetlink msg (NotOpened (nl_open K (trace w)))) w1)
      else if nl_write K (trace w1) msg \<noteq> 0 then
        Some (- nl_write K (trace w1) msg,
              close_sock (log_event (EvNetlink msg (WriteErr (nl_write K (trace w1) msg))) w1))
      else if flags AND NLM_F_ACK \<noteq> 0 then
        (let r = nl_recv K (trace w1) msg in
         Some (recvNetlinkAck r, close_sock (log_event (EvNetlink msg (Acked r)) w1)))
      else (case callback of
          Some cb \<Rightarrow>
            if flags AND NLM_F_DUMP \<noteq> 0 then
              (case processNetlinkDump (nl_read K (trace w1) msg) cb (log_event (EvNetlink msg Dumped) w1) of
                 None \<Rightarrow> None
               | Some (r, w2) \<Rightarrow> Some (r, close_sock w2))
            else Some (0, close_sock (log_event (EvNetlink msg Sent) w1))
        | None \<Rightarrow> Some (0, close_sock (log_event (EvNetlink msg Sent) w1))))"

text \<open>A request that asks for an acknowledgement always returns; its result as a total function.\<close>

definition sendAcked :: "kern \<Rightarrow> u16 \<Rightarrow> u16 \<Rightarrow> bytes list \<Rightarrow> world act" where
  "sendAcked K action flags iov w = the (sendNetlinkRequest K action flags iov None w)"

lemma sendAcked_eq: "sendNetlinkRequest K action flags iov None w = Some (sendAcked K action flags iov w)"
proof -
  obtain sock w1 where "openNetlinkSocket K w = (sock, w1)" by fastforce
  then have "sendNetlinkRequest K action flags iov None w \<noteq> None"
    by (simp add: sendNetlinkRequest_def Let_def)
  then show ?thesis by (auto simp: sendAcked_def)
qed

section \<open>Flushing\<close>

text \<open>Linux's \<open>struct rtmsg\<close> and \<open>struct fib_rule_hdr\<close> are both 12 bytes.\<close>

definition rtmsg_family :: "u8 \<Rightarrow> bytes" where
  "rtmsg_family family = family # replicate 11 0"

text \<open>The callback's own request: the dumped message with its type and flags overwritten.\<close>

definition flushMessage :: "u16 \<Rightarrow> bytes \<Rightarrow> bytes" where
  "flushMessage deleteAction nlh =
     take 4 nlh @ le16 deleteAction @ le16 (NLM_F_REQUEST OR NLM_F_ACK) @ drop 8 nlh"

definition flushCallback :: "kern \<Rightarrow> u16 \<Rightarrow> (bytes \<Rightarrow> bool option) \<Rightarrow> callback" where
  "flushCallback K deleteAction shouldDelete nlh w =
     (case shouldDelete nlh of
        None \<Rightarrow> None
      | Some False \<Rightarrow> Some w
      | Some True \<Rightarrow>
          (let msg = flushMessage deleteAction nlh in
           if nl_write K (trace w) msg \<noteq> 0
           then Some (log_event (EvNetlink msg (WriteErr (nl_write K (trace w) msg))) w)
           else Some (log_event (EvNetlink msg (Acked (nl_recv K (trace w) msg))) w)))"

fun flushFamilies ::
  "kern \<Rightarrow> u16 \<Rightarrow> callback \<Rightarrow> u8 list \<Rightarrow> world \<Rightarrow> (int \<times> world) option" where
  "flushFamilies K getAction callback [] w = Some (0, w)"
| "flushFamilies K getAction callback (family # families) w =
     (case sendNetlinkRequest K getAction NETLINK_DUMP_FLAGS [[], rtmsg_family family] (Some callback) w of
        None \<Rightarrow> None
      | Some (r, w') \<Rightarrow> if r \<noteq> 0 then Some (r, w') else flushFamilies K getAction callback families w')"

definition rtNetlinkFlush ::
  "kern \<Rightarrow> u16 \<Rightarrow> u16 \<Rightarrow> (bytes \<Rightarrow> bool option) \<Rightarrow> world \<Rightarrow> (int \<times> world) option" where
  "rtNetlinkFlush K getAction deleteAction shouldDelete w =
     (if uint getAction \<noteq> uint deleteAction + 1 then Some (- EINVAL, w)
      else case openNetlinkSocket K w of (writeSock, w1) \<Rightarrow>
        if writeSock < 0 then Some (writeSock, w1)
        else case flushFamilies K getAction (flushCallback K deleteAction shouldDelete) [AF_INET, AF_INET6] w1 of
            None \<Rightarrow> None
          | Some (r, w2) \<Rightarrow> Some (r, close_sock w2))"

section \<open>Attributes\<close>

text \<open>
  The attribute walk of \<open>getRtmU32Attribute\<close>: \<open>bs\<close> starts at \<open>rta\<close>, \<open>len\<close> is \<open>rta_len\<close>.
\<close>

function findU32 :: "u16 \<Rightarrow> bytes \<Rightarrow> u32 \<Rightarrow> u32 option" where
  "findU32 attribute bs len =
     (if len < 4 then Some 0
      else if length bs < 4 then None
      else let rlen = get_le16 bs in
        if rlen < 4 \<or> len < ucast rlen then Some 0
        else if get_le16 (drop 2 bs) = attribute then
          (if length bs < 8 then None else Some (get_le32 (drop 4 bs)))
        else findU32 attribute (drop (align4 (unat rlen)) bs) (len - of_nat (align4 (unat rlen))))"
  by pat_completeness auto
termination
proof (relation "measure (\<lambda>(attribute, bs, len). length bs)", simp, goal_cases)
  case (1 attribute bs len rlen)
  then have "4 \<le> unat rlen" by (simp add: not_less word_le_nat_alt)
  then have "0 < align4 (unat rlen)" by (auto simp: align4_def div_greater_zero_iff)
  then show ?case using 1 by auto
qed

declare findU32.simps [simp del]

definition getRtmU32Attribute :: "bytes \<Rightarrow> u16 \<Rightarrow> u32 option" where
  "getRtmU32Attribute nlh attribute = findU32 attribute (drop 28 nlh) (nlmsg_len nlh - 28)"

section \<open>Encoding attributes\<close>

text \<open>
  The wire form of a list of attributes: length and type, the payload, and zeros up to the next
  multiple of 4.
\<close>

definition rtattr :: "u16 \<Rightarrow> bytes \<Rightarrow> bytes" where
  "rtattr ty payload = le16 (of_nat (4 + length payload)) @ le16 ty @ payload
     @ replicate (align4 (4 + length payload) - (4 + length payload)) 0"

definition rtattrs :: "(u16 \<times> bytes) list \<Rightarrow> bytes" where
  "rtattrs as = concat (map (\<lambda>(t, p). rtattr t p) as)"

lemma align4_ge: "n \<le> align4 n"
  unfolding align4_def by presburger

lemma align4_less: "align4 n < n + 4"
  unfolding align4_def by presburger

lemma align4_dvd [simp]: "4 dvd align4 n"
  by (simp add: align4_def)

lemma align4_id [simp]: "4 dvd n \<Longrightarrow> align4 n = n"
  by (auto simp: align4_def)

lemma length_rtattr [simp]: "length (rtattr ty p) = align4 (4 + length p)"
  using align4_ge [of "4 + length p"] by (simp add: rtattr_def)

lemma get_le16_rtattr [simp]:
  "get_le16 (rtattr ty p @ rest) = of_nat (4 + length p)"
  "get_le16 (drop 2 (rtattr ty p @ rest)) = ty"
  by (simp_all add: rtattr_def)

lemma get_le32_append: "4 \<le> length bs \<Longrightarrow> get_le32 (bs @ rest) = get_le32 bs"
  by (auto simp: get_le32_def nth_append)

lemma drop_4_rtattr: "drop 4 (rtattr ty p @ rest) =
    p @ replicate (align4 (4 + length p) - (4 + length p)) 0 @ rest"
  by (simp add: rtattr_def)

lemma findU32_rtattr:
  assumes "4 + length p < 2 ^ 16" "align4 (4 + length p) \<le> unat len"
  shows "findU32 a (rtattr ty p @ rest) len =
    (if ty = a
     then (if align4 (4 + length p) + length rest < 8 then None
           else Some (get_le32 (drop 4 (rtattr ty p @ rest))))
     else findU32 a rest (len - of_nat (align4 (4 + length p))))"
proof -
  let ?n = "4 + length p"
  have un: "unat (of_nat ?n :: u16) = ?n" "unat (ucast (of_nat ?n :: u16) :: u32) = ?n"
    using unat16 [OF assms(1)] by (simp_all only: unat_ucast_16_32)
  have len: "\<not> len < 4" "\<not> (of_nat ?n :: u16) < 4" "\<not> len < ucast (of_nat ?n :: u16)"
    using assms align4_ge [of ?n] un by (simp_all add: word_less_nat_alt)
  have bs: "\<not> length (rtattr ty p @ rest) < 4"
    using align4_ge [of ?n] by simp
  have nxt: "drop (align4 ?n) (rtattr ty p @ rest) = rest" by simp
  show ?thesis
    using len bs un nxt
    by (subst findU32.simps) (simp add: Let_def del: of_nat_add of_nat_Suc drop_append)
qed

definition wf_attrs :: "(u16 \<times> bytes) list \<Rightarrow> bool" where
  "wf_attrs as \<longleftrightarrow> (\<forall>(t, p) \<in> set as. 4 + length p < 2 ^ 16)"

lemma findU32_rtattrs:
  assumes "wf_attrs as" "length (rtattrs as) < 2 ^ 32"
    "\<forall>p. map_of as a = Some p \<longrightarrow> 4 \<le> length p"
  shows "findU32 a (rtattrs as) (of_nat (length (rtattrs as))) =
    Some (case map_of as a of None \<Rightarrow> 0 | Some p \<Rightarrow> get_le32 p)"
  using assms
proof (induction as)
  case Nil
  then show ?case by (subst findU32.simps) (simp add: rtattrs_def)
next
  case (Cons tp as)
  obtain t p where tp: "tp = (t, p)" by fastforce
  let ?n = "align4 (4 + length p)"
  have split: "rtattrs ((t, p) # as) = rtattr t p @ rtattrs as"
    by (simp add: rtattrs_def tp)
  have small: "4 + length p < 2 ^ 16" "wf_attrs as"
    using Cons.prems(1) by (auto simp: wf_attrs_def tp)
  have total: "?n + length (rtattrs as) < 2 ^ 32" using Cons.prems(2) by (simp add: split tp)
  have un: "unat (of_nat (?n + length (rtattrs as)) :: u32) = ?n + length (rtattrs as)"
    using total by (rule unat32)
  show ?case
  proof (cases "t = a")
    case True
    then have lp: "4 \<le> length p" using Cons.prems(3) by (simp add: tp)
    then have "8 \<le> ?n" using align4_ge [of "4 + length p"] by simp
    moreover have "get_le32 (drop 4 (rtattr t p @ rtattrs as)) = get_le32 p"
      using lp by (simp only: drop_4_rtattr get_le32_append)
    ultimately have "findU32 a (rtattr t p @ rtattrs as) (of_nat (?n + length (rtattrs as))) =
        Some (get_le32 p)"
      using True un small by (simp add: findU32_rtattr del: of_nat_add drop_append)
    then show ?thesis unfolding tp split using True by simp
  next
    case False
    have "findU32 a (rtattr t p @ rtattrs as) (of_nat (?n + length (rtattrs as))) =
        findU32 a (rtattrs as) (of_nat (length (rtattrs as)))"
      using False un small by (simp add: findU32_rtattr)
    also have "\<dots> = Some (case map_of as a of None \<Rightarrow> 0 | Some p \<Rightarrow> get_le32 p)"
      using Cons.IH small total Cons.prems(3) False by (simp add: tp)
    finally show ?thesis using False by (simp add: split tp)
  qed
qed

lemma concat_length: "length (concat xss) = sum_list (map length xss)"
  by (rule length_concat)

lemma length_netlinkMessage:
  "length (netlinkMessage action flags iov) = 16 + sum_list (map length (tl iov))"
  by (simp add: netlinkMessage_def nlmsghdr_def length_concat)

lemma nlmsg_len_netlinkMessage:
  "nlmsg_len (netlinkMessage action flags iov) = of_nat (length (netlinkMessage action flags iov))"
  by (simp only: length_netlinkMessage)
    (simp add: nlmsg_len_def netlinkMessage_def nlmsghdr_def)

lemma nlmsg_type_netlinkMessage: "nlmsg_type (netlinkMessage action flags iov) = action"
  by (simp add: nlmsg_type_def netlinkMessage_def nlmsghdr_def)

text \<open>What \<open>getRtmU32Attribute\<close> reads in a message made of a 12-byte header and attributes.\<close>

lemma getRtmU32Attribute_message:
  assumes "concat (tl iov) = hdr @ rtattrs as" "length hdr = 12" "wf_attrs as"
    "length (rtattrs as) < 2 ^ 31" "\<forall>p. map_of as a = Some p \<longrightarrow> 4 \<le> length p"
  shows "getRtmU32Attribute (netlinkMessage action flags iov) a =
    Some (case map_of as a of None \<Rightarrow> 0 | Some p \<Rightarrow> get_le32 p)"
proof -
  have payload: "sum_list (map length (tl iov)) = 12 + length (rtattrs as)"
    using assms(1,2) by (metis length_append length_concat)
  have "drop 28 (netlinkMessage action flags iov) = rtattrs as"
    using assms(1,2) by (simp add: netlinkMessage_def nlmsghdr_def)
  moreover have "nlmsg_len (netlinkMessage action flags iov) - 28 = of_nat (length (rtattrs as))"
    unfolding nlmsg_len_netlinkMessage length_netlinkMessage payload by simp
  ultimately show ?thesis
    using findU32_rtattrs [of as a] assms by (simp add: getRtmU32Attribute_def)
qed

section \<open>Dumps of well-formed messages\<close>

definition wf_msg :: "bytes \<Rightarrow> bool" where
  "wf_msg m \<longleftrightarrow> 16 \<le> length m \<and> 4 dvd length m \<and> nlmsg_len m = of_nat (length m) \<and>
     length m < 2 ^ 32 \<and> nlmsg_type m \<noteq> NLMSG_DONE \<and> nlmsg_type m \<noteq> NLMSG_ERROR"

fun run_callback :: "callback \<Rightarrow> bytes list \<Rightarrow> world \<Rightarrow> world option" where
  "run_callback cb [] w = Some w"
| "run_callback cb (m # ms) w = (case cb m w of None \<Rightarrow> None | Some w' \<Rightarrow> run_callback cb ms w')"

lemma nlmsg_len_append: "16 \<le> length m \<Longrightarrow> nlmsg_len (m @ rest) = nlmsg_len m"
  by (simp add: nlmsg_len_def get_le32_append)

lemma nlmsg_type_append: "16 \<le> length m \<Longrightarrow> nlmsg_type (m @ rest) = nlmsg_type m"
  by (simp add: nlmsg_type_def get_le16_def nth_append)

lemma dumpBuffer_step:
  assumes "wf_msg m" "length m + length rest < 2 ^ 32"
  shows "dumpBuffer cb (m @ rest) (of_nat (length m + length rest)) w =
    (case cb m w of None \<Rightarrow> None | Some w' \<Rightarrow> dumpBuffer cb rest (of_nat (length rest)) w')"
proof -
  have m: "16 \<le> length m" "nlmsg_len (m @ rest) = of_nat (length m)" "4 dvd length m"
    "nlmsg_type (m @ rest) \<noteq> NLMSG_DONE" "nlmsg_type (m @ rest) \<noteq> NLMSG_ERROR"
    "unat (of_nat (length m) :: u32) = length m"
    using assms(1) by (simp_all add: wf_msg_def nlmsg_len_append nlmsg_type_append unat_of_nat)
  have un: "unat (of_nat (length m + length rest) :: u32) = length m + length rest"
    using assms(2) by (rule unat32)
  have len: "\<not> (of_nat (length m + length rest) :: u32) < 16"
    "\<not> (of_nat (length m) :: u32) < 16"
    "\<not> (of_nat (length m + length rest) :: u32) < of_nat (length m)"
    using m un by (simp_all add: word_less_nat_alt del: of_nat_add)
  have al: "align4 (unat (of_nat (length m) :: u32)) = length m" using m by simp
  show ?thesis
    using m len
    by (subst dumpBuffer.simps) (simp add: Let_def al del: unat_of_nat split: option.splits)
qed

lemma dumpBuffer_messages:
  assumes "\<forall>m\<in>set ms. wf_msg m" "length (concat ms) < 2 ^ 32"
  shows "dumpBuffer cb (concat ms) (of_nat (length (concat ms))) w =
    map_option (\<lambda>w'. (Continue, w')) (run_callback cb ms w)"
  using assms
proof (induction ms arbitrary: w)
  case Nil
  then show ?case by (subst dumpBuffer.simps) simp
next
  case (Cons m ms)
  then show ?case
    using dumpBuffer_step [of m "concat ms" cb w] by (auto split: option.splits)
qed

text \<open>The kernel ends a dump with a message of type \<open>NLMSG_DONE\<close>.\<close>

definition done_msg :: bytes where
  "done_msg = nlmsghdr 20 NLMSG_DONE 2 @ le32 0"

lemma dumpBuffer_done: "dumpBuffer cb (done_msg @ rest) (of_nat (20 + length rest)) w = Some (Return 0, w)"
  if "20 + length rest < 2 ^ 32"
proof -
  have un: "unat (of_nat (20 + length rest) :: u32) = 20 + length rest"
    using that by (rule unat32)
  have "nlmsg_len (done_msg @ rest) = 20" "nlmsg_type (done_msg @ rest) = NLMSG_DONE"
    by (simp_all add: nlmsg_len_def nlmsg_type_def done_msg_def nlmsghdr_def)
  moreover have "\<not> (of_nat (20 + length rest) :: u32) < 16" "\<not> (of_nat (20 + length rest) :: u32) < 20"
    using un by (simp_all add: word_less_nat_alt del: of_nat_add)
  moreover have "\<not> length (done_msg @ rest) < 16" by (simp add: done_msg_def nlmsghdr_def)
  ultimately show ?thesis by (subst dumpBuffer.simps) (simp add: Let_def)
qed

section \<open>Sockets stay balanced\<close>

text \<open>A failed \<open>socket\<close> or \<open>connect\<close> sets \<open>errno\<close> to a positive number.\<close>

definition errno_positive :: "kern \<Rightarrow> bool" where
  "errno_positive K \<longleftrightarrow> (\<forall>h e. nl_open K h = SocketErr e \<or> nl_open K h = ConnectErr e \<longrightarrow> 0 < e)"

definition connect_fails :: "kern \<Rightarrow> history \<Rightarrow> bool" where
  "connect_fails K h \<longleftrightarrow> (case nl_open K h of ConnectErr e \<Rightarrow> True | _ \<Rightarrow> False)"

lemma sendAcked_fds:
  assumes "errno_positive K"
  shows "nl_fds (snd (sendAcked K action flags iov w)) =
    nl_fds w + (if connect_fails K (trace w) then 1 else 0)"
proof (cases "nl_open K (trace w)")
  case (SocketErr e)
  then have "0 < e" using assms by (auto simp: errno_positive_def)
  then show ?thesis using SocketErr
    by (simp add: sendAcked_def sendNetlinkRequest_def openNetlinkSocket_def connect_fails_def)
next
  case (ConnectErr e)
  then have "0 < e" using assms by (auto simp: errno_positive_def)
  then show ?thesis using ConnectErr
    by (simp add: sendAcked_def sendNetlinkRequest_def openNetlinkSocket_def connect_fails_def)
next
  case SockOpen
  then show ?thesis
    by (simp add: sendAcked_def sendNetlinkRequest_def openNetlinkSocket_def connect_fails_def
        close_sock_def Let_def)
qed

lemma sendAcked_table [simp]:
  "sInterfaceToTable (snd (sendAcked K action flags iov w)) = sInterfaceToTable w"
  by (simp add: sendAcked_def sendNetlinkRequest_def openNetlinkSocket_def close_sock_def Let_def
      split: open_result.splits)

text \<open>The one event of a request, and how its outcome decides the returned value.\<close>

definition ack_result :: "nl_outcome \<Rightarrow> int" where
  "ack_result out = (case out of
       NotOpened (SocketErr e) \<Rightarrow> - e | NotOpened (ConnectErr e) \<Rightarrow> - e | NotOpened SockOpen \<Rightarrow> 0
     | WriteErr e \<Rightarrow> - e
     | Acked r \<Rightarrow> recvNetlinkAck r
     | Dumped \<Rightarrow> 0 | Sent \<Rightarrow> 0)"

lemma sendAcked_event:
  "\<exists>out. trace (snd (sendAcked K action flags iov w)) =
      trace w @ [EvNetlink (netlinkMessage action flags iov) out] \<and>
     fst (sendAcked K action flags iov w) = ack_result out"
  by (simp add: sendAcked_def sendNetlinkRequest_def openNetlinkSocket_def close_sock_def Let_def
      ack_result_def split: open_result.splits)

lemma dumpBuffer_messages_done:
  assumes "\<forall>m\<in>set ms. wf_msg m" "length (concat ms @ done_msg) < 2 ^ 32"
  shows "dumpBuffer cb (concat ms @ done_msg) (of_nat (length (concat ms @ done_msg))) w =
    map_option (\<lambda>w'. (Return 0, w')) (run_callback cb ms w)"
  using assms
proof (induction ms arbitrary: w)
  case Nil
  then show ?case using dumpBuffer_done [of "[]" cb w] by (simp add: done_msg_def nlmsghdr_def)
next
  case (Cons m ms)
  then show ?case
    using dumpBuffer_step [of m "concat ms @ done_msg" cb w] by (auto split: option.splits)
qed

lemma processNetlinkDump_buffers:
  assumes "\<forall>b\<in>set bufs. b \<noteq> [] \<and> (\<forall>m\<in>set b. wf_msg m) \<and> length (concat b) < 2 ^ 32"
  shows "processNetlinkDump (map (\<lambda>b. ReadBytes (concat b)) bufs @ reads) cb w =
    (case run_callback cb (concat bufs) w of None \<Rightarrow> None | Some w' \<Rightarrow> processNetlinkDump reads cb w')"
  using assms
proof (induction bufs arbitrary: w)
  case (Cons b bufs)
  have ne: "concat b \<noteq> []"
    using Cons.prems by (cases b) (auto simp: wf_msg_def)
  have app: "run_callback cb (xs @ ys) v =
      (case run_callback cb xs v of None \<Rightarrow> None | Some v' \<Rightarrow> run_callback cb ys v')" for xs ys v
    by (induction xs arbitrary: v) (auto split: option.splits)
  show ?case
    using Cons ne dumpBuffer_messages [of b cb w] by (auto simp: app split: option.splits)
qed simp

section \<open>Properties\<close>

text \<open>
  On a message that consists of a 12-byte header and a list of attributes,
  \<open>getRtmU32Attribute\<close> stays inside the message and returns the value of the first attribute of the
  requested type, or 0 when there is none.
\<close>

theorem getRtmU32Attribute_first:
  assumes "concat (tl iov) = hdr @ rtattrs as" "length hdr = 12" "wf_attrs as"
    "length (rtattrs as) < 2 ^ 31" "\<forall>p. map_of as attribute = Some p \<longrightarrow> 4 \<le> length p"
  shows "getRtmU32Attribute (netlinkMessage action flags iov) attribute =
    Some (case map_of as attribute of None \<Rightarrow> 0 | Some p \<Rightarrow> get_le32 p)"
  using assms by (rule getRtmU32Attribute_message)

theorem getRtmU32Attribute_first_witness:
  "getRtmU32Attribute (netlinkMessage RTM_NEWRULE 5 [[], replicate 12 0, rtattrs [(3, [7]), (6, le32 12000)]]) 6
     = Some 12000"
proof -
  have len: "length (rtattrs [(3, [7]), (6, le32 12000)]) = 16"
    by (simp add: rtattrs_def align4_def)
  show ?thesis
    using getRtmU32Attribute_first [of "[[], replicate 12 0, rtattrs [(3, [7]), (6, le32 12000)]]"
        "replicate 12 0" "[(3, [7]), (6, le32 12000)]" 6 RTM_NEWRULE 5] len get_le32 [of 12000 "[]"]
    by (simp add: wf_attrs_def)
qed

text \<open>
  Claim C38. A dump whose messages are well formed and padded to 4 bytes, spread over any number of
  reads and ended by \<open>NLMSG_DONE\<close>, hands every message to the callback exactly once, in order, and
  returns 0.
\<close>

theorem processNetlinkDump_delivers:
  assumes "\<forall>b\<in>set bufs. b \<noteq> [] \<and> (\<forall>m\<in>set b. wf_msg m) \<and> length (concat b) < 2 ^ 32"
    and "\<forall>m\<in>set ms. wf_msg m" "length (concat ms @ done_msg) < 2 ^ 32"
  shows "processNetlinkDump (map (\<lambda>b. ReadBytes (concat b)) bufs @ [ReadBytes (concat ms @ done_msg)]) cb w =
    map_option (\<lambda>w'. (0, w')) (run_callback cb (concat bufs @ ms) w)"
proof -
  have app: "run_callback cb (xs @ ys) v =
      (case run_callback cb xs v of None \<Rightarrow> None | Some v' \<Rightarrow> run_callback cb ys v')" for xs ys v
    by (induction xs arbitrary: v) (auto split: option.splits)
  show ?thesis
    using processNetlinkDump_buffers [OF assms(1)] dumpBuffer_messages_done [OF assms(2,3)]
    by (auto simp: app split: option.splits)
qed

theorem processNetlinkDump_delivers_witness:
  "processNetlinkDump [ReadBytes (nlmsghdr 16 RTM_NEWRULE 2), ReadBytes (nlmsghdr 16 RTM_NEWRULE 0 @ done_msg)]
     (\<lambda>m w. Some (log_event (EvNetlink m Sent) w)) \<lparr>trace = [], nl_fds = 0, sInterfaceToTable = []\<rparr> =
   Some (0, \<lparr>trace = [EvNetlink (nlmsghdr 16 RTM_NEWRULE 2) Sent, EvNetlink (nlmsghdr 16 RTM_NEWRULE 0) Sent],
             nl_fds = 0, sInterfaceToTable = []\<rparr>)"
proof -
  have wf: "wf_msg (nlmsghdr 16 RTM_NEWRULE 2)" "wf_msg (nlmsghdr 16 RTM_NEWRULE 0)"
    by (simp_all add: wf_msg_def nlmsg_len_def nlmsg_type_def nlmsghdr_def)
  show ?thesis
    using processNetlinkDump_delivers [of "[[nlmsghdr 16 RTM_NEWRULE 2]]" "[nlmsghdr 16 RTM_NEWRULE 0]"
        "\<lambda>m w. Some (log_event (EvNetlink m Sent) w)" "\<lparr>trace = [], nl_fds = 0, sInterfaceToTable = []\<rparr>"] wf
    by (simp add: log_event_def done_msg_def nlmsghdr_def)
qed

text \<open>
  Claim C39. An acknowledged request closes the socket it opened on every path but one: when
  \<open>connect\<close> fails, \<open>openNetlinkSocket\<close> returns without closing the descriptor and one is leaked.
\<close>

theorem sendNetlinkRequest_fds:
  assumes "errno_positive K" "sendNetlinkRequest K action flags iov None w = Some (r, w')"
  shows "nl_fds w' = nl_fds w + (if connect_fails K (trace w) then 1 else 0)"
  using assms(2) sendAcked_fds [OF assms(1), of action flags iov w] by (simp add: sendAcked_eq)

definition kern_no_sockets :: "open_result \<Rightarrow> kern" where
  "kern_no_sockets r = \<lparr>if_nametoindex = \<lambda>_ _. 0, nl_open = \<lambda>_. r, nl_write = \<lambda>_ _. 0,
     nl_recv = \<lambda>_ _. RecvBytes 36 0, nl_read = \<lambda>_ _. [], iptables = \<lambda>_ _ _. 0, ifc_up = \<lambda>_ _. 0,
     write_file = \<lambda>_ _ _. True, getaddrinfo = \<lambda>_. None, inet_pton = \<lambda>_ _. None,
     sd_open = \<lambda>_. False, sock_destroy = \<lambda>_ _. 0\<rparr>"

theorem sendNetlinkRequest_fds_witness:
  "\<exists>r w'. sendNetlinkRequest (kern_no_sockets (ConnectErr 13)) RTM_NEWRULE 5 [[]] None
       \<lparr>trace = [], nl_fds = 0, sInterfaceToTable = []\<rparr> = Some (r, w') \<and> nl_fds w' = 1"
proof -
  let ?K = "kern_no_sockets (ConnectErr 13)" and ?w = "\<lparr>trace = [], nl_fds = 0, sInterfaceToTable = []\<rparr>"
  obtain r w' where s: "sendNetlinkRequest ?K RTM_NEWRULE 5 [[]] None ?w = Some (r, w')"
    using sendAcked_eq [of ?K RTM_NEWRULE 5 "[[]]" ?w] by fastforce
  have "errno_positive ?K" by (simp add: errno_positive_def kern_no_sockets_def)
  then have "nl_fds w' = 1"
    using sendNetlinkRequest_fds [OF _ s] by (simp add: connect_fails_def kern_no_sockets_def)
  then show ?thesis using s by blast
qed

text \<open>
  The remaining length is unsigned, so a last message whose length is not a multiple of 4 makes
  \<open>NLMSG_NEXT\<close> wrap it and the loop reads on behind the received bytes.
\<close>

lemma dumpBuffer_unpadded_overrun:
  "dumpBuffer (\<lambda>m w. Some w) (nlmsghdr 18 RTM_NEWRULE 2 @ [0, 0]) 18 w = None"
proof -
  let ?bs = "nlmsghdr 18 RTM_NEWRULE 2 @ [0, 0]"
  have bs: "nlmsg_len ?bs = 18" "nlmsg_type ?bs = RTM_NEWRULE" "length ?bs = 18"
    by (simp_all add: nlmsg_len_def nlmsg_type_def nlmsghdr_def)
  have "dumpBuffer (\<lambda>m w. Some w) [] (- 2) w = None"
    by (subst dumpBuffer.simps) simp
  then show ?thesis
    using bs by (subst dumpBuffer.simps) (simp add: Let_def align4_def)
qed

end
