(* ===== verification/Route_Controller.thy ===== *)
theory Route_Controller
  imports Fwmark Uid_Ranges Netlink
begin

unbundle bit_operations_syntax

text \<open>
  server/RouteController.cpp and the helpers of server/NetdConstants.cpp it uses. Every operation
  acts on the \<open>world\<close>: it looks interfaces up in \<open>sInterfaceToTable\<close>, sends netlink requests and
  iptables commands, and returns 0 or a negative error number. Arguments that may be null pointers
  are options. \<open>None\<close> as a result means that the operation does not return a value: the loop of
  \<open>clearTetheringRules\<close> never ends, or a dump makes the code read past the received bytes.
\<close>

section \<open>Helpers of NetdConstants.cpp\<close>

definition isIfaceName :: "string \<Rightarrow> bool" where
  "isIfaceName name =
     (if name = [] \<or> length name > 16 then False
      else if \<not> isalnum (name ! 0) then False
      else list_all (\<lambda>c. isalnum c \<or> c = CHR ''_'' \<or> c = CHR ''-'' \<or> c = CHR '':'') (tl name))"

text \<open>The result is a negative error number, or the family, the address bytes and the prefix length.\<close>

definition parsePrefix :: "kern \<Rightarrow> string option \<Rightarrow> nat \<Rightarrow> int + (u8 \<times> bytes \<times> u8)" where
  "parsePrefix K prefix sz =
     (case prefix of None \<Rightarrow> Inl (- EFAULT) | Some prefix \<Rightarrow>
      let address = takeWhile (\<lambda>c. c \<noteq> CHR ''/'') prefix;
          slash = dropWhile (\<lambda>c. c \<noteq> CHR ''/'') prefix
      in if slash = [] \<or> tl slash = [] then Inl (- EINVAL)
      else case strtoul (tl slash) 10 of (v, endptr) \<Rightarrow>
        let templen = (ucast v :: u32) in
        if endptr \<noteq> [] \<or> templen > 255 then Inl (- EINVAL)
        else let prefixlen = (ucast templen :: u8) in
        case getaddrinfo K address of
          None \<Rightarrow> Inl (- EINVAL)
        | Some (family, raw) \<Rightarrow>
            if family = AF_INET then
              (if prefixlen > 32 then Inl (- EINVAL)
               else if 4 > sz then Inl (- ENOSPC) else Inr (family, take 4 raw, prefixlen))
            else if family = AF_INET6 then
              (if prefixlen > 128 then Inl (- EINVAL)
               else if 16 > sz then Inl (- ENOSPC) else Inr (family, take 16 raw, prefixlen))
            else Inl (- EAFNOSUPPORT))"

section \<open>Constants\<close>

definition RULE_PRIORITY_VPN_OVERRIDE_SYSTEM :: u32 where [simp]: "RULE_PRIORITY_VPN_OVERRIDE_SYSTEM = 10000"
definition RULE_PRIORITY_VPN_OVERRIDE_OIF :: u32 where [simp]: "RULE_PRIORITY_VPN_OVERRIDE_OIF = 10500"
definition RULE_PRIORITY_VPN_OUTPUT_TO_LOCAL :: u32 where [simp]: "RULE_PRIORITY_VPN_OUTPUT_TO_LOCAL = 11000"
definition RULE_PRIORITY_SECURE_VPN :: u32 where [simp]: "RULE_PRIORITY_SECURE_VPN = 12000"
definition RULE_PRIORITY_PROHIBIT_NON_VPN :: u32 where [simp]: "RULE_PRIORITY_PROHIBIT_NON_VPN = 12500"
definition RULE_PRIORITY_EXPLICIT_NETWORK :: u32 where [simp]: "RULE_PRIORITY_EXPLICIT_NETWORK = 13000"
definition RULE_PRIORITY_OUTPUT_INTERFACE :: u32 where [simp]: "RULE_PRIORITY_OUTPUT_INTERFACE = 14000"
definition RULE_PRIORITY_LEGACY_SYSTEM :: u32 where [simp]: "RULE_PRIORITY_LEGACY_SYSTEM = 15000"
definition RULE_PRIORITY_LEGACY_NETWORK :: u32 where [simp]: "RULE_PRIORITY_LEGACY_NETWORK = 16000"
definition RULE_PRIORITY_LOCAL_NETWORK :: u32 where [simp]: "RULE_PRIORITY_LOCAL_NETWORK = 17000"
definition RULE_PRIORITY_TETHERING :: u32 where [simp]: "RULE_PRIORITY_TETHERING = 18000"
definition RULE_PRIORITY_IMPLICIT_NETWORK :: u32 where [simp]: "RULE_PRIORITY_IMPLICIT_NETWORK = 19000"
definition RULE_PRIORITY_BYPASSABLE_VPN :: u32 where [simp]: "RULE_PRIORITY_BYPASSABLE_VPN = 20000"
definition RULE_PRIORITY_VPN_FALLTHROUGH :: u32 where [simp]: "RULE_PRIORITY_VPN_FALLTHROUGH = 21000"
definition RULE_PRIORITY_DEFAULT_NETWORK :: u32 where [simp]: "RULE_PRIORITY_DEFAULT_NETWORK = 22000"
definition RULE_PRIORITY_UNREACHABLE :: u32 where [simp]: "RULE_PRIORITY_UNREACHABLE = 32000"

definition ROUTE_TABLE_LOCAL_NETWORK :: u32 where [simp]: "ROUTE_TABLE_LOCAL_NETWORK = 97"
definition ROUTE_TABLE_LEGACY_NETWORK :: u32 where [simp]: "ROUTE_TABLE_LEGACY_NETWORK = 98"
definition ROUTE_TABLE_LEGACY_SYSTEM :: u32 where [simp]: "ROUTE_TABLE_LEGACY_SYSTEM = 99"
definition PRIO_THROW :: u32 where [simp]: "PRIO_THROW = 100000"
definition ROUTE_TABLE_OFFSET_FROM_INDEX :: u32 where [simp]: "ROUTE_TABLE_OFFSET_FROM_INDEX = 1000"

abbreviation (input) RT_TABLE_UNSPEC :: u32 where "RT_TABLE_UNSPEC \<equiv> 0"
abbreviation (input) RT_TABLE_MAIN :: u32 where "RT_TABLE_MAIN \<equiv> 254"
abbreviation (input) RT_TABLE_LOCAL :: u32 where "RT_TABLE_LOCAL \<equiv> 255"
abbreviation (input) FR_ACT_TO_TBL :: u8 where "FR_ACT_TO_TBL \<equiv> 1"
abbreviation (input) FR_ACT_UNREACHABLE :: u8 where "FR_ACT_UNREACHABLE \<equiv> 7"
abbreviation (input) FR_ACT_PROHIBIT :: u8 where "FR_ACT_PROHIBIT \<equiv> 8"
abbreviation (input) FRA_IIFNAME :: u16 where "FRA_IIFNAME \<equiv> 3"
abbreviation (input) FRA_PRIORITY :: u16 where "FRA_PRIORITY \<equiv> 6"
abbreviation (input) FRA_FWMARK :: u16 where "FRA_FWMARK \<equiv> 10"
abbreviation (input) FRA_TABLE :: u16 where "FRA_TABLE \<equiv> 15"
abbreviation (input) FRA_FWMASK :: u16 where "FRA_FWMASK \<equiv> 16"
abbreviation (input) FRA_OIFNAME :: u16 where "FRA_OIFNAME \<equiv> 17"
abbreviation (input) FRA_UID_RANGE :: u16 where "FRA_UID_RANGE \<equiv> 20"
abbreviation (input) RTA_DST :: u16 where "RTA_DST \<equiv> 1"
abbreviation (input) RTA_OIF :: u16 where "RTA_OIF \<equiv> 4"
abbreviation (input) RTA_GATEWAY :: u16 where "RTA_GATEWAY \<equiv> 5"
abbreviation (input) RTA_PRIORITY :: u16 where "RTA_PRIORITY \<equiv> 6"
abbreviation (input) RTA_TABLE :: u16 where "RTA_TABLE \<equiv> 15"
abbreviation (input) RTN_UNICAST :: u8 where "RTN_UNICAST \<equiv> 1"
abbreviation (input) RTN_UNREACHABLE :: u8 where "RTN_UNREACHABLE \<equiv> 7"
abbreviation (input) RTN_THROW :: u8 where "RTN_THROW \<equiv> 9"
abbreviation (input) RTPROT_STATIC :: u8 where "RTPROT_STATIC \<equiv> 4"
abbreviation (input) RT_SCOPE_UNIVERSE :: u8 where "RT_SCOPE_UNIVERSE \<equiv> 0"
abbreviation (input) RT_SCOPE_LINK :: u8 where "RT_SCOPE_LINK \<equiv> 253"
abbreviation (input) IFNAMSIZ :: nat where "IFNAMSIZ \<equiv> 16"
abbreviation (input) UID_ROOT :: uid_t where "UID_ROOT \<equiv> 0"
abbreviation (input) MARK_UNSET :: u32 where "MARK_UNSET \<equiv> 0"
abbreviation (input) NETID_UNSET :: netid where "NETID_UNSET \<equiv> 0"
abbreviation (input) IIF_LOOPBACK :: "string option" where "IIF_LOOPBACK \<equiv> Some ''lo''"
abbreviation (input) IIF_NONE :: "string option" where "IIF_NONE \<equiv> None"
abbreviation (input) OIF_NONE :: "string option" where "OIF_NONE \<equiv> None"

definition AF_FAMILIES :: "u8 list" where
  "AF_FAMILIES = [AF_INET, AF_INET6]"

definition actionName :: "u16 \<Rightarrow> string" where
  "actionName action = [''adding'', ''deleting'', ''getting'', ''???''] ! unat (action mod 4)"

definition familyName :: "u8 \<Rightarrow> string" where
  "familyName family = (if family = AF_INET then ''IPv4'' else if family = AF_INET6 then ''IPv6'' else ''???'')"

section \<open>Interface indices and table numbers\<close>

definition getRouteTableForInterface :: "kern \<Rightarrow> string \<Rightarrow> world \<Rightarrow> u32 \<times> world" where
  "getRouteTableForInterface K interface w =
     (let index = if_nametoindex K (trace w) interface in
      if index \<noteq> 0 then
        (let index' = index + ROUTE_TABLE_OFFSET_FROM_INDEX
         in (index', w\<lparr>sInterfaceToTable := om_put interface index' (sInterfaceToTable w)\<rparr>))
      else case map_of (sInterfaceToTable w) interface of
          None \<Rightarrow> (RT_TABLE_UNSPEC, w)
        | Some table \<Rightarrow> (table, w))"

definition getIfIndex :: "string \<Rightarrow> world \<Rightarrow> u32" where
  "getIfIndex interface w =
     (case map_of (sInterfaceToTable w) interface of
        None \<Rightarrow> 0
      | Some table \<Rightarrow> table - ROUTE_TABLE_OFFSET_FROM_INDEX)"

definition addTableName :: "u32 \<Rightarrow> string \<Rightarrow> string" where
  "addTableName table name = fmt_u table @ '' '' @ name @ [CHR 0x0A]"

definition tableNamesContents :: "(string \<times> u32) list \<Rightarrow> string" where
  "tableNamesContents m =
     addTableName RT_TABLE_LOCAL ''local'' @ addTableName RT_TABLE_MAIN ''main''
     @ addTableName ROUTE_TABLE_LOCAL_NETWORK ''local_network''
     @ addTableName ROUTE_TABLE_LEGACY_NETWORK ''legacy_network''
     @ addTableName ROUTE_TABLE_LEGACY_SYSTEM ''legacy_system''
     @ concat (map (\<lambda>(name, table). addTableName table name) m)"

definition updateTableNamesFile :: "kern \<Rightarrow> world \<Rightarrow> world" where
  "updateTableNamesFile K w =
     (let contents = tableNamesContents (sInterfaceToTable w); path = ''/data/misc/net/rt_tables''
      in log_event (EvWriteFile path contents (write_file K (trace w) path contents)) w)"

section \<open>Routing rules\<close>

definition str_bytes :: "string \<Rightarrow> bytes" where
  "str_bytes s = map of_char s"

text \<open>
  \<open>padInterfaceName\<close>: the return value, the copied name with its NUL, its length and the padding
  after it. \<open>RTA_SPACE(n) - RTA_LENGTH(n)\<close> is \<open>align4 (4 + n) - (4 + n)\<close>.
\<close>

definition padInterfaceName :: "string option \<Rightarrow> int \<times> bytes \<times> nat \<times> nat" where
  "padInterfaceName input =
     (case input of
        None \<Rightarrow> (0, [], 0, 0)
      | Some s \<Rightarrow>
          (let len = length s + 1 in
           if len > IFNAMSIZ then (- ENAMETOOLONG, [], len, 0)
           else (0, str_bytes s @ [0], len, align4 (4 + len) - (4 + len))))"

text \<open>\<open>struct rtattr\<close>, and the fixed-size attributes \<open>FRATTR_*\<close> and \<open>RTATTR_*\<close> that carry a \<open>uint32_t\<close>.\<close>

definition rta_hdr :: "nat \<Rightarrow> u16 \<Rightarrow> bytes" where
  "rta_hdr payload ty = le16 (of_nat (4 + payload)) @ le16 ty"

definition opt_bytes :: "bool \<Rightarrow> bytes \<Rightarrow> bytes" where
  "opt_bytes b bs = (if b then bs else [])"

definition fib_rule_hdr :: "u8 \<Rightarrow> u8 \<Rightarrow> bytes" where
  "fib_rule_hdr family ruleType = [family, 0, 0, 0, 0, 0, 0, ruleType, 0, 0, 0, 0]"

text \<open>The \<open>iovec\<close> array of \<open>modifyIpRule\<close>; an element whose length is 0 contributes no bytes.\<close>

definition ruleIov ::
  "u8 \<Rightarrow> u8 \<Rightarrow> u32 \<Rightarrow> u32 \<Rightarrow> u32 \<Rightarrow> u32 \<Rightarrow> string option \<Rightarrow> string option \<Rightarrow> uid_t \<Rightarrow> uid_t \<Rightarrow> bytes list" where
  "ruleIov family ruleType priority table fwmark msk iif oif uidStart uidEnd =
     (case padInterfaceName iif of (_, iifName, iifLength, iifPadding) \<Rightarrow>
      case padInterfaceName oif of (_, oifName, oifLength, oifPadding) \<Rightarrow>
      let isUidRule = (uidStart \<noteq> INVALID_UID) in
      [[],
       fib_rule_hdr family ruleType,
       rta_hdr 4 FRA_PRIORITY,
       le32 priority,
       opt_bytes (table \<noteq> RT_TABLE_UNSPEC) (rta_hdr 4 FRA_TABLE),
       opt_bytes (table \<noteq> RT_TABLE_UNSPEC) (le32 table),
       opt_bytes (msk \<noteq> 0) (rta_hdr 4 FRA_FWMARK),
       opt_bytes (msk \<noteq> 0) (le32 fwmark),
       opt_bytes (msk \<noteq> 0) (rta_hdr 4 FRA_FWMASK),
       opt_bytes (msk \<noteq> 0) (le32 msk),
       opt_bytes isUidRule (rta_hdr 8 FRA_UID_RANGE),
       opt_bytes isUidRule (le32 uidStart @ le32 uidEnd),
       opt_bytes (iif \<noteq> IIF_NONE) (rta_hdr iifLength FRA_IIFNAME),
       iifName,
       replicate iifPadding 0,
       opt_bytes (oif \<noteq> OIF_NONE) (rta_hdr oifLength FRA_OIFNAME),
       oifName,
       replicate oifPadding 0])"

definition modifyIpRule ::
  "kern \<Rightarrow> u16 \<Rightarrow> u32 \<Rightarrow> u8 \<Rightarrow> u32 \<Rightarrow> u32 \<Rightarrow> u32 \<Rightarrow> string option \<Rightarrow> string option \<Rightarrow> uid_t \<Rightarrow> uid_t
     \<Rightarrow> world act" where
  "modifyIpRule K action priority ruleType table fwmark msk iif oif uidStart uidEnd w =
     (if fwmark AND NOT msk \<noteq> 0 then (- ERANGE, w)
      else if fst (padInterfaceName iif) \<noteq> 0 then (fst (padInterfaceName iif), w)
      else if fst (padInterfaceName oif) \<noteq> 0 then (fst (padInterfaceName oif), w)
      else if (uidStart = INVALID_UID) \<noteq> (uidEnd = INVALID_UID) then (- EUSERS, w)
      else if table = RT_TABLE_UNSPEC \<and> ruleType = FR_ACT_TO_TBL \<and> action \<noteq> RTM_DELRULE
        then (- ENOTUNIQ, w)
      else
        (let flags = (if action = RTM_NEWRULE then NETLINK_RULE_CREATE_FLAGS else NETLINK_REQUEST_FLAGS)
         in chk_all (\<lambda>family. sendAcked K action flags
                (ruleIov family ruleType priority table fwmark msk iif oif uidStart uidEnd))
              AF_FAMILIES w))"

text \<open>The two overloads that fill in \<open>FR_ACT_TO_TBL\<close>, and no interfaces and no UIDs.\<close>

definition modifyIpRuleTbl ::
  "kern \<Rightarrow> u16 \<Rightarrow> u32 \<Rightarrow> u32 \<Rightarrow> u32 \<Rightarrow> u32 \<Rightarrow> string option \<Rightarrow> string option \<Rightarrow> uid_t \<Rightarrow> uid_t
     \<Rightarrow> world act" where
  "modifyIpRuleTbl K action priority table fwmark msk iif oif uidStart uidEnd =
     modifyIpRule K action priority FR_ACT_TO_TBL table fwmark msk iif oif uidStart uidEnd"

definition modifyIpRuleMark :: "kern \<Rightarrow> u16 \<Rightarrow> u32 \<Rightarrow> u32 \<Rightarrow> u32 \<Rightarrow> u32 \<Rightarrow> world act" where
  "modifyIpRuleMark K action priority table fwmark msk =
     modifyIpRuleTbl K action priority table fwmark msk IIF_NONE OIF_NONE INVALID_UID INVALID_UID"

section \<open>Routes\<close>

definition rtmsg_hdr :: "u8 \<Rightarrow> u8 \<Rightarrow> u8 \<Rightarrow> u8 \<Rightarrow> bytes" where
  "rtmsg_hdr family dst_len scope ty = [family, dst_len, 0, 0, 0, RTPROT_STATIC, scope, ty, 0, 0, 0, 0]"

definition routeIov ::
  "u8 \<Rightarrow> u8 \<Rightarrow> u8 \<Rightarrow> bytes \<Rightarrow> u32 \<Rightarrow> u32 option \<Rightarrow> bytes option \<Rightarrow> bytes list" where
  "routeIov ty family prefixLength rawAddress table ifindex rawNexthop =
     (let isDefaultThrowRoute = (ty = RTN_THROW \<and> prefixLength = 0); rawLength = length rawAddress in
      [[],
       rtmsg_hdr family prefixLength (if rawNexthop \<noteq> None then RT_SCOPE_UNIVERSE else RT_SCOPE_LINK) ty,
       rta_hdr 4 RTA_TABLE,
       le32 table,
       rta_hdr rawLength RTA_DST,
       rawAddress,
       opt_bytes (ifindex \<noteq> None) (rta_hdr 4 RTA_OIF),
       (case ifindex of None \<Rightarrow> [] | Some i \<Rightarrow> le32 i),
       opt_bytes (rawNexthop \<noteq> None) (rta_hdr rawLength RTA_GATEWAY),
       (case rawNexthop of None \<Rightarrow> [] | Some nh \<Rightarrow> take rawLength nh),
       opt_bytes isDefaultThrowRoute (rta_hdr 4 RTA_PRIORITY),
       opt_bytes isDefaultThrowRoute (le32 PRIO_THROW)])"

text \<open>
  The type of the route and what is left of \<open>interface\<close> and \<open>nexthop\<close>: nothing for the special
  next hops, the interface's index and the parsed address otherwise.
\<close>

definition routeTarget ::
  "kern \<Rightarrow> history \<Rightarrow> u8 \<Rightarrow> string option \<Rightarrow> string option \<Rightarrow> int + (u8 \<times> u32 option \<times> bytes option)" where
  "routeTarget K h family interface nexthop =
     (if nexthop = Some ''unreachable'' then Inr (RTN_UNREACHABLE, None, None)
      else if nexthop = Some ''throw'' then Inr (RTN_THROW, None, None)
      else case (case interface of None \<Rightarrow> Inr None
                 | Some i \<Rightarrow> if if_nametoindex K h i = 0 then Inl (- ENODEV)
                            else Inr (Some (if_nametoindex K h i))) of
          Inl e \<Rightarrow> Inl e
        | Inr ifindex \<Rightarrow>
            (case nexthop of
               None \<Rightarrow> Inr (RTN_UNICAST, ifindex, None)
             | Some nh \<Rightarrow> (case inet_pton K family nh of
                   None \<Rightarrow> Inl (- EINVAL)
                 | Some raw \<Rightarrow> Inr (RTN_UNICAST, ifindex, Some raw))))"

definition modifyIpRoute ::
  "kern \<Rightarrow> u16 \<Rightarrow> u32 \<Rightarrow> string option \<Rightarrow> string option \<Rightarrow> string option \<Rightarrow> world act" where
  "modifyIpRoute K action table interface destination nexthop w =
     (if destination = None then (- EFAULT, w)
      else case parsePrefix K destination 16 of
          Inl e \<Rightarrow> (e, w)
        | Inr (family, rawAddress, prefixLength) \<Rightarrow>
            if length rawAddress > 16 then (- ENOBUFS, w)
            else case routeTarget K (trace w) family interface nexthop of
                Inl e \<Rightarrow> (e, w)
              | Inr (ty, ifindex, rawNexthop) \<Rightarrow>
                  sendAcked K action
                    (if action = RTM_NEWROUTE then NETLINK_ROUTE_CREATE_FLAGS else NETLINK_REQUEST_FLAGS)
                    (routeIov ty family prefixLength rawAddress table ifindex rawNexthop) w)"

section \<open>The rules of each kind of network\<close>

definition nl_rule_action :: "bool \<Rightarrow> u16" where
  "nl_rule_action add = (if add then RTM_NEWRULE else RTM_DELRULE)"

definition modifyIncomingPacketMark :: "kern \<Rightarrow> netid \<Rightarrow> string \<Rightarrow> u32 \<Rightarrow> bool \<Rightarrow> world act" where
  "modifyIncomingPacketMark K netId interface permission add w =
     (let fwmark = fm_set_permission permission (fm_set_protectedFromVpn True
            (fm_set_explicitlySelected True (fm_set_netId netId Fwmark_new)));
          msk = NOT getUidBillingMask;
          cmd = (if add then ''-A'' else ''-D'') @ '' routectrl_mangle_INPUT -i '' @ interface
            @ '' -j MARK --set-mark 0x'' @ fmt_x fwmark @ ''/0x'' @ fmt_x msk;
          (r, w') = execIptablesRestoreCommand K V4V6 ''mangle'' cmd w
      in (if r \<noteq> 0 then - EREMOTEIO else 0, w'))"

definition modifyVpnOutputToLocalRule :: "kern \<Rightarrow> string \<Rightarrow> bool \<Rightarrow> world act" where
  "modifyVpnOutputToLocalRule K vpnInterface add =
     modifyIpRuleTbl K (nl_rule_action add) RULE_PRIORITY_VPN_OUTPUT_TO_LOCAL ROUTE_TABLE_LOCAL_NETWORK
       MARK_UNSET MARK_UNSET (Some vpnInterface) OIF_NONE INVALID_UID INVALID_UID"

definition modifyVpnUidRangeRule :: "kern \<Rightarrow> u32 \<Rightarrow> uid_t \<Rightarrow> uid_t \<Rightarrow> bool \<Rightarrow> bool \<Rightarrow> world act" where
  "modifyVpnUidRangeRule K table uidStart uidEnd secure add =
     (let fwmark = fm_set_protectedFromVpn False Fwmark_new;
          msk = fm_set_protectedFromVpn True Fwmark_new;
          priority = (if secure then RULE_PRIORITY_SECURE_VPN else RULE_PRIORITY_BYPASSABLE_VPN);
          fwmark = (if secure then fwmark else fm_set_explicitlySelected False fwmark);
          msk = (if secure then msk else fm_set_explicitlySelected True msk)
      in modifyIpRuleTbl K (nl_rule_action add) priority table fwmark msk IIF_LOOPBACK OIF_NONE
           uidStart uidEnd)"

definition modifyVpnSystemPermissionRule :: "kern \<Rightarrow> netid \<Rightarrow> u32 \<Rightarrow> bool \<Rightarrow> bool \<Rightarrow> world act" where
  "modifyVpnSystemPermissionRule K netId table secure add =
     (let fwmark = fm_set_permission PERMISSION_SYSTEM (fm_set_netId netId Fwmark_new);
          msk = fm_set_permission PERMISSION_SYSTEM (fm_set_netId FWMARK_NET_ID_MASK Fwmark_new);
          priority = (if secure then RULE_PRIORITY_SECURE_VPN else RULE_PRIORITY_BYPASSABLE_VPN)
      in modifyIpRuleMark K (nl_rule_action add) priority table fwmark msk)"

definition explicit_fwmark :: "netid \<Rightarrow> u32 \<Rightarrow> u32" where
  "explicit_fwmark netId permission =
     fm_set_permission permission (fm_set_explicitlySelected True (fm_set_netId netId Fwmark_new))"

definition explicit_mask :: "u32 \<Rightarrow> u32" where
  "explicit_mask permission = fm_set_permission permission
     (fm_set_explicitlySelected True (fm_set_netId FWMARK_NET_ID_MASK Fwmark_new))"

definition modifyExplicitNetworkRule ::
  "kern \<Rightarrow> netid \<Rightarrow> u32 \<Rightarrow> u32 \<Rightarrow> uid_t \<Rightarrow> uid_t \<Rightarrow> bool \<Rightarrow> world act" where
  "modifyExplicitNetworkRule K netId table permission uidStart uidEnd add =
     modifyIpRuleTbl K (nl_rule_action add) RULE_PRIORITY_EXPLICIT_NETWORK table
       (explicit_fwmark netId permission) (explicit_mask permission) IIF_LOOPBACK OIF_NONE
       uidStart uidEnd"

definition modifyOutputInterfaceRules ::
  "kern \<Rightarrow> string \<Rightarrow> u32 \<Rightarrow> u32 \<Rightarrow> uid_t \<Rightarrow> uid_t \<Rightarrow> bool \<Rightarrow> world act" where
  "modifyOutputInterfaceRules K interface table permission uidStart uidEnd add =
     (let fwmark = fm_set_permission permission Fwmark_new; msk = fm_set_permission permission Fwmark_new;
          last_rule = modifyIpRuleTbl K (nl_rule_action add) RULE_PRIORITY_OUTPUT_INTERFACE table
            fwmark msk IIF_LOOPBACK (Some interface) uidStart uidEnd
      in if uidStart = INVALID_UID \<and> uidEnd = INVALID_UID
         then chk (modifyIpRuleTbl K (nl_rule_action add) RULE_PRIORITY_VPN_OVERRIDE_OIF table 0 0
                IIF_LOOPBACK (Some interface) UID_ROOT UID_ROOT) last_rule
         else last_rule)"

definition modifyImplicitNetworkRule :: "kern \<Rightarrow> netid \<Rightarrow> u32 \<Rightarrow> bool \<Rightarrow> world act" where
  "modifyImplicitNetworkRule K netId table add =
     (let fwmark = fm_set_permission PERMISSION_NONE (fm_set_explicitlySelected False
            (fm_set_netId netId Fwmark_new));
          msk = fm_set_permission PERMISSION_NONE (fm_set_explicitlySelected True
            (fm_set_netId FWMARK_NET_ID_MASK Fwmark_new))
      in modifyIpRuleTbl K (nl_rule_action add) RULE_PRIORITY_IMPLICIT_NETWORK table fwmark msk
           IIF_LOOPBACK OIF_NONE INVALID_UID INVALID_UID)"

text \<open>
  Operations that first look up the interface's table: \<open>if (table == RT_TABLE_UNSPEC) return -ESRCH\<close>.
\<close>

definition with_table :: "kern \<Rightarrow> string \<Rightarrow> (u32 \<Rightarrow> world act) \<Rightarrow> world act" where
  "with_table K interface f w =
     (case getRouteTableForInterface K interface w of (table, w') \<Rightarrow>
        if table = RT_TABLE_UNSPEC then (- ESRCH, w') else f table w')"

definition modifyVpnFallthroughRule :: "kern \<Rightarrow> u16 \<Rightarrow> netid \<Rightarrow> string \<Rightarrow> u32 \<Rightarrow> world act" where
  "modifyVpnFallthroughRule K action vpnNetId physicalInterface permission =
     with_table K physicalInterface (\<lambda>table.
       let fwmark = fm_set_permission permission (fm_set_explicitlySelected False
             (fm_set_netId vpnNetId Fwmark_new));
           msk = fm_set_permission permission (fm_set_explicitlySelected True
             (fm_set_netId FWMARK_NET_ID_MASK Fwmark_new))
       in modifyIpRuleMark K action RULE_PRIORITY_VPN_FALLTHROUGH table fwmark msk)"

definition addLegacyRouteRules :: "kern \<Rightarrow> world act" where
  "addLegacyRouteRules K =
     (let fwmark = fm_set_explicitlySelected False Fwmark_new;
          msk = fm_set_explicitlySelected True Fwmark_new;
          fwmark' = fm_set_permission PERMISSION_SYSTEM fwmark;
          msk' = fm_set_permission PERMISSION_SYSTEM msk
      in chk (modifyIpRuleMark K RTM_NEWRULE RULE_PRIORITY_LEGACY_SYSTEM ROUTE_TABLE_LEGACY_SYSTEM fwmark msk)
        (chk (modifyIpRuleMark K RTM_NEWRULE RULE_PRIORITY_LEGACY_NETWORK ROUTE_TABLE_LEGACY_NETWORK fwmark msk)
          (modifyIpRuleMark K RTM_NEWRULE RULE_PRIORITY_VPN_OVERRIDE_SYSTEM ROUTE_TABLE_LEGACY_SYSTEM
            fwmark' msk')))"

definition addLocalNetworkRules :: "kern \<Rightarrow> netid \<Rightarrow> world act" where
  "addLocalNetworkRules K localNetId =
     chk (modifyExplicitNetworkRule K localNetId ROUTE_TABLE_LOCAL_NETWORK PERMISSION_NONE
            INVALID_UID INVALID_UID True)
       (modifyIpRuleMark K RTM_NEWRULE RULE_PRIORITY_LOCAL_NETWORK ROUTE_TABLE_LOCAL_NETWORK
          (fm_set_explicitlySelected False Fwmark_new) (fm_set_explicitlySelected True Fwmark_new))"

definition ifcUp :: "kern \<Rightarrow> string \<Rightarrow> world act" where
  "ifcUp K interface w =
     (let e = ifc_up K (trace w) interface in (- e, log_event (EvIfcUp interface e) w))"

definition configureDummyNetwork :: "kern \<Rightarrow> world act" where
  "configureDummyNetwork K =
     with_table K ''dummy0'' (\<lambda>table.
       chk (ifcUp K ''dummy0'')
       (chk (modifyOutputInterfaceRules K ''dummy0'' table PERMISSION_NONE INVALID_UID INVALID_UID True)
       (chk (modifyIpRoute K RTM_NEWROUTE table (Some ''dummy0'') (Some ''0.0.0.0/0'') None)
            (modifyIpRoute K RTM_NEWROUTE table (Some ''dummy0'') (Some ''::/0'') None))))"

definition addUnreachableRule :: "kern \<Rightarrow> world act" where
  "addUnreachableRule K =
     modifyIpRule K RTM_NEWRULE RULE_PRIORITY_UNREACHABLE FR_ACT_UNREACHABLE RT_TABLE_UNSPEC
       MARK_UNSET MARK_UNSET IIF_NONE OIF_NONE INVALID_UID INVALID_UID"

definition modifyLocalNetwork :: "kern \<Rightarrow> netid \<Rightarrow> string \<Rightarrow> bool \<Rightarrow> world act" where
  "modifyLocalNetwork K netId interface add =
     chk (modifyIncomingPacketMark K netId interface PERMISSION_NONE add)
       (modifyOutputInterfaceRules K interface ROUTE_TABLE_LOCAL_NETWORK PERMISSION_NONE
          INVALID_UID INVALID_UID add)"

definition modifyPhysicalNetwork :: "kern \<Rightarrow> netid \<Rightarrow> string \<Rightarrow> u32 \<Rightarrow> bool \<Rightarrow> world act" where
  "modifyPhysicalNetwork K netId interface permission add =
     with_table K interface (\<lambda>table.
       chk (modifyIncomingPacketMark K netId interface permission add)
       (chk (modifyExplicitNetworkRule K netId table permission INVALID_UID INVALID_UID add)
       (chk (modifyOutputInterfaceRules K interface table permission INVALID_UID INVALID_UID add)
         (if permission = PERMISSION_NONE then modifyImplicitNetworkRule K netId table add else ret 0))))"

definition modifyRejectNonSecureNetworkRule :: "kern \<Rightarrow> UidRanges \<Rightarrow> bool \<Rightarrow> world act" where
  "modifyRejectNonSecureNetworkRule K uidRanges add =
     (let fwmark = fm_set_protectedFromVpn False Fwmark_new;
          msk = fm_set_protectedFromVpn True Fwmark_new
      in chk_all (\<lambda>range. modifyIpRule K (nl_rule_action add) RULE_PRIORITY_PROHIBIT_NON_VPN FR_ACT_PROHIBIT
             RT_TABLE_UNSPEC fwmark msk IIF_LOOPBACK OIF_NONE
             (word_of_int (start range)) (word_of_int (stop range)))
           (getRanges uidRanges))"

definition modifyVirtualNetwork ::
  "kern \<Rightarrow> netid \<Rightarrow> string \<Rightarrow> UidRanges \<Rightarrow> bool \<Rightarrow> bool \<Rightarrow> bool \<Rightarrow> world act" where
  "modifyVirtualNetwork K netId interface uidRanges secure add modifyNonUidBasedRules =
     with_table K interface (\<lambda>table.
       chk (chk_all (\<lambda>range.
              let s = word_of_int (start range); e = word_of_int (stop range) in
              chk (modifyVpnUidRangeRule K table s e secure add)
              (chk (modifyExplicitNetworkRule K netId table PERMISSION_NONE s e add)
                (modifyOutputInterfaceRules K interface table PERMISSION_NONE s e add)))
            (getRanges uidRanges))
       (if modifyNonUidBasedRules then
          chk (modifyIncomingPacketMark K netId interface PERMISSION_NONE add)
          (chk (modifyVpnOutputToLocalRule K interface add)
          (chk (modifyVpnSystemPermissionRule K netId table secure add)
            (modifyExplicitNetworkRule K netId table PERMISSION_NONE UID_ROOT UID_ROOT add)))
        else ret 0))"

definition modifyDefaultNetwork :: "kern \<Rightarrow> u16 \<Rightarrow> string \<Rightarrow> u32 \<Rightarrow> world act" where
  "modifyDefaultNetwork K action interface permission =
     with_table K interface (\<lambda>table.
       let fwmark = fm_set_permission permission (fm_set_netId NETID_UNSET Fwmark_new);
           msk = fm_set_permission permission (fm_set_netId FWMARK_NET_ID_MASK Fwmark_new)
       in modifyIpRuleTbl K action RULE_PRIORITY_DEFAULT_NETWORK table fwmark msk
            IIF_LOOPBACK OIF_NONE INVALID_UID INVALID_UID)"

definition modifyTetheredNetwork :: "kern \<Rightarrow> u16 \<Rightarrow> string \<Rightarrow> string \<Rightarrow> world act" where
  "modifyTetheredNetwork K action inputInterface outputInterface =
     with_table K outputInterface (\<lambda>table.
       modifyIpRuleTbl K action RULE_PRIORITY_TETHERING table MARK_UNSET MARK_UNSET
         (Some inputInterface) OIF_NONE INVALID_UID INVALID_UID)"

datatype TableType = INTERFACE | LOCAL_NETWORK | LEGACY_NETWORK | LEGACY_SYSTEM

definition modifyRoute ::
  "kern \<Rightarrow> u16 \<Rightarrow> string \<Rightarrow> string option \<Rightarrow> string option \<Rightarrow> TableType \<Rightarrow> world act" where
  "modifyRoute K action interface destination nexthop tableType w =
     (let go = (\<lambda>table w. case modifyIpRoute K action table (Some interface) destination nexthop w of
            (r, w') \<Rightarrow> if r \<noteq> 0 \<and> \<not> (action = RTM_NEWROUTE \<and> r = - EEXIST) then (r, w') else (0, w'))
      in case tableType of
           INTERFACE \<Rightarrow> with_table K interface go w
         | LOCAL_NETWORK \<Rightarrow> go ROUTE_TABLE_LOCAL_NETWORK w
         | LEGACY_NETWORK \<Rightarrow> go ROUTE_TABLE_LEGACY_NETWORK w
         | LEGACY_SYSTEM \<Rightarrow> go ROUTE_TABLE_LEGACY_SYSTEM w)"

partial_function (option) clearTetheringLoop :: "kern \<Rightarrow> string \<Rightarrow> world \<Rightarrow> (int \<times> world) option" where
  "clearTetheringLoop K inputInterface w =
     (case modifyIpRuleTbl K RTM_DELRULE RULE_PRIORITY_TETHERING 0 MARK_UNSET MARK_UNSET
             (Some inputInterface) OIF_NONE INVALID_UID INVALID_UID w of
        (r, w') \<Rightarrow> if r = 0 then clearTetheringLoop K inputInterface w' else Some (r, w'))"

definition clearTetheringRules :: "kern \<Rightarrow> string \<Rightarrow> world pact" where
  "clearTetheringRules K inputInterface w =
     (case clearTetheringLoop K inputInterface w of
        None \<Rightarrow> None
      | Some (r, w') \<Rightarrow> Some (if r = - ENOENT then 0 else r, w'))"

definition getRulePriority :: "bytes \<Rightarrow> u32 option" where
  "getRulePriority nlh = getRtmU32Attribute nlh FRA_PRIORITY"

definition getRouteTable :: "bytes \<Rightarrow> u32 option" where
  "getRouteTable nlh = getRtmU32Attribute nlh RTA_TABLE"

definition flushRules :: "kern \<Rightarrow> world pact" where
  "flushRules K = rtNetlinkFlush K RTM_GETRULE RTM_DELRULE (\<lambda>nlh. map_option (\<lambda>p. p \<noteq> 0) (getRulePriority nlh))"

definition flushRoutesTable :: "kern \<Rightarrow> u32 \<Rightarrow> world pact" where
  "flushRoutesTable K table =
     rtNetlinkFlush K RTM_GETROUTE RTM_DELROUTE (\<lambda>nlh. map_option (\<lambda>t. t = table) (getRouteTable nlh))"

definition flushRoutes :: "kern \<Rightarrow> string \<Rightarrow> world pact" where
  "flushRoutes K interface w =
     (case getRouteTableForInterface K interface w of (table, w') \<Rightarrow>
        if table = RT_TABLE_UNSPEC then Some (- ESRCH, w')
        else case flushRoutesTable K table w' of
            None \<Rightarrow> None
          | Some (r, w'') \<Rightarrow>
              Some (r, if r = 0 then w''\<lparr>sInterfaceToTable := om_erase interface (sInterfaceToTable w'')\<rparr> else w''))"

section \<open>Public operations\<close>

text \<open>\<open>updateTableNamesFile(); return 0;\<close>\<close>

definition updateTables :: "kern \<Rightarrow> world act" where
  "updateTables K w = (0, updateTableNamesFile K w)"

text \<open>The result of \<open>configureDummyNetwork\<close> is ignored.\<close>

definition Init :: "kern \<Rightarrow> netid \<Rightarrow> world pact" where
  "Init K localNetId =
     pchk (flushRules K)
     (pchk (tot (addLegacyRouteRules K))
     (pchk (tot (addLocalNetworkRules K localNetId))
     (pchk (tot (addUnreachableRule K))
       (tot (\<lambda>w. updateTables K (snd (configureDummyNetwork K w)))))))"

definition addInterfaceToLocalNetwork :: "kern \<Rightarrow> netid \<Rightarrow> string \<Rightarrow> world act" where
  "addInterfaceToLocalNetwork K netId interface = modifyLocalNetwork K netId interface True"

definition removeInterfaceFromLocalNetwork :: "kern \<Rightarrow> netid \<Rightarrow> string \<Rightarrow> world act" where
  "removeInterfaceFromLocalNetwork K netId interface = modifyLocalNetwork K netId interface False"

definition addInterfaceToPhysicalNetwork :: "kern \<Rightarrow> netid \<Rightarrow> string \<Rightarrow> u32 \<Rightarrow> world act" where
  "addInterfaceToPhysicalNetwork K netId interface permission =
     chk (modifyPhysicalNetwork K netId interface permission True) (updateTables K)"

definition removeInterfaceFromPhysicalNetwork :: "kern \<Rightarrow> netid \<Rightarrow> string \<Rightarrow> u32 \<Rightarrow> world pact" where
  "removeInterfaceFromPhysicalNetwork K netId interface permission =
     pchk (tot (modifyPhysicalNetwork K netId interface permission False))
     (pchk (flushRoutes K interface)
     (pchk (clearTetheringRules K interface)
       (tot (updateTables K))))"

definition addInterfaceToVirtualNetwork :: "kern \<Rightarrow> netid \<Rightarrow> string \<Rightarrow> bool \<Rightarrow> UidRanges \<Rightarrow> world act" where
  "addInterfaceToVirtualNetwork K netId interface secure uidRanges =
     chk (modifyVirtualNetwork K netId interface uidRanges secure True True) (updateTables K)"

definition removeInterfaceFromVirtualNetwork ::
  "kern \<Rightarrow> netid \<Rightarrow> string \<Rightarrow> bool \<Rightarrow> UidRanges \<Rightarrow> world pact" where
  "removeInterfaceFromVirtualNetwork K netId interface secure uidRanges =
     pchk (tot (modifyVirtualNetwork K netId interface uidRanges secure False True))
     (pchk (flushRoutes K interface) (tot (updateTables K)))"

definition modifyPhysicalNetworkPermission ::
  "kern \<Rightarrow> netid \<Rightarrow> string \<Rightarrow> u32 \<Rightarrow> u32 \<Rightarrow> world act" where
  "modifyPhysicalNetworkPermission K netId interface oldPermission newPermission =
     chk (modifyPhysicalNetwork K netId interface newPermission True)
       (modifyPhysicalNetwork K netId interface oldPermission False)"

definition addUsersToRejectNonSecureNetworkRule :: "kern \<Rightarrow> UidRanges \<Rightarrow> world act" where
  "addUsersToRejectNonSecureNetworkRule K uidRanges = modifyRejectNonSecureNetworkRule K uidRanges True"

definition removeUsersFromRejectNonSecureNetworkRule :: "kern \<Rightarrow> UidRanges \<Rightarrow> world act" where
  "removeUsersFromRejectNonSecureNetworkRule K uidRanges = modifyRejectNonSecureNetworkRule K uidRanges False"

definition addUsersToVirtualNetwork :: "kern \<Rightarrow> netid \<Rightarrow> string \<Rightarrow> bool \<Rightarrow> UidRanges \<Rightarrow> world act" where
  "addUsersToVirtualNetwork K netId interface secure uidRanges =
     modifyVirtualNetwork K netId interface uidRanges secure True False"

definition removeUsersFromVirtualNetwork :: "kern \<Rightarrow> netid \<Rightarrow> string \<Rightarrow> bool \<Rightarrow> UidRanges \<Rightarrow> world act" where
  "removeUsersFromVirtualNetwork K netId interface secure uidRanges =
     modifyVirtualNetwork K netId interface uidRanges secure False False"

definition addInterfaceToDefaultNetwork :: "kern \<Rightarrow> string \<Rightarrow> u32 \<Rightarrow> world act" where
  "addInterfaceToDefaultNetwork K interface permission = modifyDefaultNetwork K RTM_NEWRULE interface permission"

definition removeInterfaceFromDefaultNetwork :: "kern \<Rightarrow> string \<Rightarrow> u32 \<Rightarrow> world act" where
  "removeInterfaceFromDefaultNetwork K interface permission = modifyDefaultNetwork K RTM_DELRULE interface permission"

definition addRoute :: "kern \<Rightarrow> string \<Rightarrow> string option \<Rightarrow> string option \<Rightarrow> TableType \<Rightarrow> world act" where
  "addRoute K interface destination nexthop tableType =
     modifyRoute K RTM_NEWROUTE interface destination nexthop tableType"

definition removeRoute :: "kern \<Rightarrow> string \<Rightarrow> string option \<Rightarrow> string option \<Rightarrow> TableType \<Rightarrow> world act" where
  "removeRoute K interface destination nexthop tableType =
     modifyRoute K RTM_DELROUTE interface destination nexthop tableType"

definition enableTethering :: "kern \<Rightarrow> string \<Rightarrow> string \<Rightarrow> world act" where
  "enableTethering K inputInterface outputInterface = modifyTetheredNetwork K RTM_NEWRULE inputInterface outputInterface"

definition disableTethering :: "kern \<Rightarrow> string \<Rightarrow> string \<Rightarrow> world act" where
  "disableTethering K inputInterface outputInterface = modifyTetheredNetwork K RTM_DELRULE inputInterface outputInterface"

definition addVirtualNetworkFallthrough :: "kern \<Rightarrow> netid \<Rightarrow> string \<Rightarrow> u32 \<Rightarrow> world act" where
  "addVirtualNetworkFallthrough K vpnNetId physicalInterface permission =
     modifyVpnFallthroughRule K RTM_NEWRULE vpnNetId physicalInterface permission"

definition removeVirtualNetworkFallthrough :: "kern \<Rightarrow> netid \<Rightarrow> string \<Rightarrow> u32 \<Rightarrow> world act" where
  "removeVirtualNetworkFallthrough K vpnNetId physicalInterface permission =
     modifyVpnFallthroughRule K RTM_DELRULE vpnNetId physicalInterface permission"

end
