(* ===== verification/Route_Rules.thy ===== *)
theory Route_Rules
  imports Route_Controller "HOL-Library.Sublist"
begin

unbundle bit_operations_syntax

text \<open>
  What the requests of the route controller mean. \<open>fib_rule\<close> is a policy-routing rule as the kernel
  stores it; \<open>decode_rule\<close> reads it from the bytes of a request, and \<open>fib\<close> folds the acknowledged
  requests of a history into the list of installed rules (documented behaviour of \<open>RTM_NEWRULE\<close> and
  \<open>RTM_DELRULE\<close>). \<open>fib_lookup\<close> is the kernel's walk over the rules in priority order. Against this
  specification the theory proves that requests are encoded correctly, that removing undoes adding,
  that a permission change leaves no gap, and that the lockdown rule is effective.
\<close>

section \<open>Rules and their wire format\<close>

record fib_rule =
  fr_action :: u8
  fr_priority :: u32
  fr_table :: u32
  fr_fwmark :: u32
  fr_fwmask :: u32
  fr_iif :: "string option"
  fr_oif :: "string option"
  fr_uids :: "uid_t \<times> uid_t"

definition mk_rule ::
  "u32 \<Rightarrow> u8 \<Rightarrow> u32 \<Rightarrow> u32 \<Rightarrow> u32 \<Rightarrow> string option \<Rightarrow> string option \<Rightarrow> uid_t \<Rightarrow> uid_t \<Rightarrow> fib_rule" where
  "mk_rule priority ruleType table fwmark msk iif oif uidStart uidEnd =
     \<lparr>fr_action = ruleType, fr_priority = priority, fr_table = table, fr_fwmark = fwmark,
      fr_fwmask = msk, fr_iif = iif, fr_oif = oif,
      fr_uids = (uidStart, uidEnd)\<rparr>"

definition name_payload :: "string \<Rightarrow> bytes" where
  "name_payload s = str_bytes s @ [0]"

definition name_attr :: "u16 \<Rightarrow> string option \<Rightarrow> (u16 \<times> bytes) list" where
  "name_attr ty n = (case n of None \<Rightarrow> [] | Some s \<Rightarrow> [(ty, name_payload s)])"

definition rule_attrs :: "fib_rule \<Rightarrow> (u16 \<times> bytes) list" where
  "rule_attrs r =
     [(FRA_PRIORITY, le32 (fr_priority r))]
     @ (if fr_table r \<noteq> 0 then [(FRA_TABLE, le32 (fr_table r))] else [])
     @ (if fr_fwmask r \<noteq> 0 then [(FRA_FWMARK, le32 (fr_fwmark r)), (FRA_FWMASK, le32 (fr_fwmask r))] else [])
     @ (case fr_uids r of (s, e) \<Rightarrow>
          if s \<noteq> INVALID_UID then [(FRA_UID_RANGE, le32 s @ le32 e)] else [])
     @ name_attr FRA_IIFNAME (fr_iif r) @ name_attr FRA_OIFNAME (fr_oif r)"

function attrs_of :: "bytes \<Rightarrow> (u16 \<times> bytes) list" where
  "attrs_of bs =
     (if length bs < 4 then []
      else let rlen = unat (get_le16 bs) in
        if rlen < 4 \<or> length bs < rlen then []
        else (get_le16 (drop 2 bs), take (rlen - 4) (drop 4 bs)) # attrs_of (drop (align4 rlen) bs))"
  by pat_completeness auto
termination
proof (relation "measure length", simp, goal_cases)
  case (1 bs rlen)
  then show ?case using align4_ge [of rlen] by auto
qed

declare attrs_of.simps [simp del]

definition u32_attr :: "(u16 \<times> bytes) list \<Rightarrow> u16 \<Rightarrow> u32" where
  "u32_attr as ty = (case map_of as ty of None \<Rightarrow> 0 | Some p \<Rightarrow> get_le32 p)"

definition read_name :: "(u16 \<times> bytes) list \<Rightarrow> u16 \<Rightarrow> string option" where
  "read_name as ty = map_option (\<lambda>p. map (\<lambda>b. char_of (unat b)) (butlast p)) (map_of as ty)"

definition rule_of :: "u8 \<Rightarrow> (u16 \<times> bytes) list \<Rightarrow> fib_rule" where
  "rule_of action as =
     \<lparr>fr_action = action, fr_priority = u32_attr as FRA_PRIORITY, fr_table = u32_attr as FRA_TABLE,
      fr_fwmark = u32_attr as FRA_FWMARK, fr_fwmask = u32_attr as FRA_FWMASK,
      fr_iif = read_name as FRA_IIFNAME, fr_oif = read_name as FRA_OIFNAME,
      fr_uids = (case map_of as FRA_UID_RANGE of None \<Rightarrow> (INVALID_UID, INVALID_UID)
        | Some p \<Rightarrow> (get_le32 p, get_le32 (drop 4 p)))\<rparr>"

text \<open>Family and rule of a rule request.\<close>

definition decode_rule :: "bytes \<Rightarrow> (u8 \<times> fib_rule) option" where
  "decode_rule msg =
     (if length msg < 28 \<or> (nlmsg_type msg \<noteq> RTM_NEWRULE \<and> nlmsg_type msg \<noteq> RTM_DELRULE) then None
      else Some (msg ! 16, rule_of (msg ! 23) (attrs_of (drop 28 msg))))"

definition rule_iov :: "u8 \<Rightarrow> fib_rule \<Rightarrow> bytes list" where
  "rule_iov family r =
     ruleIov family (fr_action r) (fr_priority r) (fr_table r) (fr_fwmark r) (fr_fwmask r)
       (fr_iif r) (fr_oif r) (fst (fr_uids r)) (snd (fr_uids r))"

definition name_ok :: "string option \<Rightarrow> bool" where
  "name_ok n \<longleftrightarrow> (case n of None \<Rightarrow> True | Some s \<Rightarrow> length s < 16)"

definition wf_rule :: "fib_rule \<Rightarrow> bool" where
  "wf_rule r \<longleftrightarrow> fr_fwmark r AND NOT (fr_fwmask r) = 0 \<and> name_ok (fr_iif r) \<and> name_ok (fr_oif r) \<and>
     (fst (fr_uids r) = INVALID_UID \<longleftrightarrow> snd (fr_uids r) = INVALID_UID)"

lemma pad_ok: "fst (padInterfaceName n) = 0 \<longleftrightarrow> name_ok n"
  by (auto simp: padInterfaceName_def name_ok_def Let_def split: option.splits)

lemma concat_opt: "opt_bytes b x @ opt_bytes b y = opt_bytes b (x @ y)"
  by (simp add: opt_bytes_def)

lemma name_bytes:
  "name_ok n \<Longrightarrow>
   (case padInterfaceName n of (_, nm, len, pad) \<Rightarrow>
      opt_bytes (n \<noteq> None) (rta_hdr len ty) @ nm @ replicate pad 0) = rtattrs (name_attr ty n)"
  by (auto simp: name_ok_def padInterfaceName_def opt_bytes_def rta_hdr_def rtattrs_def rtattr_def
      name_attr_def name_payload_def str_bytes_def Let_def split: option.splits)

lemma rtattrs_append: "rtattrs (xs @ ys) = rtattrs xs @ rtattrs ys"
  by (simp add: rtattrs_def)

lemma u32_bytes: "rta_hdr 4 ty @ le32 v = rtattrs [(ty, le32 v)]"
  by (simp add: rta_hdr_def rtattrs_def rtattr_def)

lemma uid_bytes: "rta_hdr 8 ty @ le32 s @ le32 e = rtattrs [(ty, le32 s @ le32 e)]"
  by (simp add: rta_hdr_def rtattrs_def rtattr_def align4_def)

lemma rtattrs_Cons: "rtattrs ((t, p) # as) = rtattr t p @ rtattrs as"
  by (simp add: rtattrs_def)

lemma rtattrs_Nil [simp]: "rtattrs [] = []"
  by (simp add: rtattrs_def)

lemma ruleIov_bytes:
  assumes "name_ok iif" "name_ok oif" "(uidStart = INVALID_UID) = (uidEnd = INVALID_UID)"
  shows "concat (tl (ruleIov family ruleType priority table fwmark msk iif oif uidStart uidEnd)) =
    fib_rule_hdr family ruleType
      @ rtattrs (rule_attrs (mk_rule priority ruleType table fwmark msk iif oif uidStart uidEnd))"
proof -
  obtain e1 n1 l1 p1 where p1: "padInterfaceName iif = (e1, n1, l1, p1)" by (cases "padInterfaceName iif")
  obtain e2 n2 l2 p2 where p2: "padInterfaceName oif = (e2, n2, l2, p2)" by (cases "padInterfaceName oif")
  have iif: "opt_bytes (iif \<noteq> None) (rta_hdr l1 FRA_IIFNAME) @ n1 @ replicate p1 0 =
      rtattrs (name_attr FRA_IIFNAME iif)"
    using name_bytes [OF assms(1), of FRA_IIFNAME] by (simp add: p1)
  have oif: "opt_bytes (oif \<noteq> None) (rta_hdr l2 FRA_OIFNAME) @ n2 @ replicate p2 0 =
      rtattrs (name_attr FRA_OIFNAME oif)"
    using name_bytes [OF assms(2), of FRA_OIFNAME] by (simp add: p2)
  have parts: "rta_hdr 4 FRA_PRIORITY @ le32 priority = rtattrs [(FRA_PRIORITY, le32 priority)]"
    "opt_bytes (table \<noteq> 0) (rta_hdr 4 FRA_TABLE) @ opt_bytes (table \<noteq> 0) (le32 table) =
      rtattrs (if table \<noteq> 0 then [(FRA_TABLE, le32 table)] else [])"
    "opt_bytes (msk \<noteq> 0) (rta_hdr 4 FRA_FWMARK) @ opt_bytes (msk \<noteq> 0) (le32 fwmark)
      @ opt_bytes (msk \<noteq> 0) (rta_hdr 4 FRA_FWMASK) @ opt_bytes (msk \<noteq> 0) (le32 msk) =
      rtattrs (if msk \<noteq> 0 then [(FRA_FWMARK, le32 fwmark), (FRA_FWMASK, le32 msk)] else [])"
    "opt_bytes (uidStart \<noteq> INVALID_UID) (rta_hdr 8 FRA_UID_RANGE)
      @ opt_bytes (uidStart \<noteq> INVALID_UID) (le32 uidStart @ le32 uidEnd) =
      rtattrs (if uidStart \<noteq> INVALID_UID then [(FRA_UID_RANGE, le32 uidStart @ le32 uidEnd)] else [])"
    by (simp_all add: opt_bytes_def rtattrs_def rtattr_def rta_hdr_def align4_def)
  have "concat (tl (ruleIov family ruleType priority table fwmark msk iif oif uidStart uidEnd)) =
    fib_rule_hdr family ruleType @ (rta_hdr 4 FRA_PRIORITY @ le32 priority)
    @ (opt_bytes (table \<noteq> 0) (rta_hdr 4 FRA_TABLE) @ opt_bytes (table \<noteq> 0) (le32 table))
    @ (opt_bytes (msk \<noteq> 0) (rta_hdr 4 FRA_FWMARK) @ opt_bytes (msk \<noteq> 0) (le32 fwmark)
      @ opt_bytes (msk \<noteq> 0) (rta_hdr 4 FRA_FWMASK) @ opt_bytes (msk \<noteq> 0) (le32 msk))
    @ (opt_bytes (uidStart \<noteq> INVALID_UID) (rta_hdr 8 FRA_UID_RANGE)
      @ opt_bytes (uidStart \<noteq> INVALID_UID) (le32 uidStart @ le32 uidEnd))
    @ (opt_bytes (iif \<noteq> None) (rta_hdr l1 FRA_IIFNAME) @ n1 @ replicate p1 0)
    @ (opt_bytes (oif \<noteq> None) (rta_hdr l2 FRA_OIFNAME) @ n2 @ replicate p2 0)"
    by (simp add: ruleIov_def p1 p2 Let_def)
  also have "\<dots> = fib_rule_hdr family ruleType
      @ rtattrs (rule_attrs (mk_rule priority ruleType table fwmark msk iif oif uidStart uidEnd))"
    unfolding iif oif parts by (simp add: rule_attrs_def mk_rule_def rtattrs_append rtattrs_Cons)
  finally show ?thesis .
qed

section \<open>Decoding\<close>

lemma attrs_of_rtattr:
  assumes "4 + length p < 2 ^ 16"
  shows "attrs_of (rtattr ty p @ rest) = (ty, p) # attrs_of rest"
proof -
  let ?n = "4 + length p"
  have un: "unat (of_nat ?n :: u16) = ?n" using assms by (rule unat16)
  have nxt: "drop (align4 ?n) (rtattr ty p @ rest) = rest" by simp
  have pl: "take (?n - 4) (drop 4 (rtattr ty p @ rest)) = p" by (simp only: drop_4_rtattr) simp
  have len: "\<not> length (rtattr ty p @ rest) < 4" "\<not> length (rtattr ty p @ rest) < ?n"
    using align4_ge [of ?n] by simp_all
  show ?thesis
    using len un nxt pl
    by (subst attrs_of.simps) (simp add: Let_def del: of_nat_add of_nat_Suc drop_append)
qed

lemma attrs_of_rtattrs: "wf_attrs as \<Longrightarrow> attrs_of (rtattrs as) = as"
proof (induction as)
  case Nil
  then show ?case by (subst attrs_of.simps) simp
next
  case (Cons tp as)
  obtain t p where tp: "tp = (t, p)" by fastforce
  then show ?case using Cons by (simp add: rtattrs_Cons attrs_of_rtattr wf_attrs_def)
qed

lemma wf_attrs_rule: "name_ok (fr_iif r) \<Longrightarrow> name_ok (fr_oif r) \<Longrightarrow> wf_attrs (rule_attrs r)"
  by (auto simp: wf_attrs_def rule_attrs_def name_attr_def name_payload_def str_bytes_def
      name_ok_def split: option.splits if_splits)

lemma char_of_of_char_u8 [simp]: "char_of (unat (of_char c :: u8)) = c"
proof -
  have "(of_char c :: u8) = of_nat (of_char c)" by (simp add: of_nat_of_char)
  moreover have "(of_char c :: nat) < 2 ^ 8" by simp
  ultimately show ?thesis by (simp add: unat_of_nat)
qed

lemma read_name_payload: "map (\<lambda>b. char_of (unat b)) (butlast (name_payload s)) = s"
  by (simp add: name_payload_def str_bytes_def comp_def)

lemma get_le32_single [simp]: "get_le32 (le32 v) = v"
  using get_le32 [of v "[]"] by simp

lemma map_of_name_attr: "map_of (name_attr ty n @ as) t =
    (if t = ty \<and> n \<noteq> None then Some (name_payload (the n)) else map_of as t)"
  by (auto simp: name_attr_def split: option.splits)

lemma rule_of_attrs:
  assumes "wf_rule r"
  shows "rule_of (fr_action r) (rule_attrs r) = r"
proof -
  have mark0: "fr_fwmask r = 0 \<Longrightarrow> fr_fwmark r = 0"
    using assms by (simp add: wf_rule_def)
  have nm: "map_of (rule_attrs r) FRA_IIFNAME = map_option name_payload (fr_iif r)"
    "map_of (rule_attrs r) FRA_OIFNAME = map_option name_payload (fr_oif r)"
    by (cases "fr_uids r"; cases "fr_iif r"; cases "fr_oif r";
        auto simp: rule_attrs_def name_attr_def)+
  obtain s e where se: "fr_uids r = (s, e)" by fastforce
  have uid: "(case map_of (rule_attrs r) FRA_UID_RANGE of None \<Rightarrow> (INVALID_UID, INVALID_UID)
      | Some p \<Rightarrow> (get_le32 p, get_le32 (drop 4 p))) = fr_uids r"
    using assms
    by (cases "fr_iif r"; cases "fr_oif r"; auto simp: rule_attrs_def name_attr_def se wf_rule_def)
  have u: "u32_attr (rule_attrs r) FRA_PRIORITY = fr_priority r"
    "u32_attr (rule_attrs r) FRA_TABLE = fr_table r"
    "u32_attr (rule_attrs r) FRA_FWMARK = fr_fwmark r"
    "u32_attr (rule_attrs r) FRA_FWMASK = fr_fwmask r"
    using mark0
    by (cases "fr_uids r"; cases "fr_iif r"; cases "fr_oif r";
        auto simp: u32_attr_def rule_attrs_def name_attr_def)+
  show ?thesis
    by (simp add: rule_of_def u nm read_name_def uid option.map_comp comp_def read_name_payload
        option.map_ident)
qed

lemma rule_message_bytes:
  assumes "wf_rule r"
  shows "concat (tl (rule_iov family r)) = fib_rule_hdr family (fr_action r) @ rtattrs (rule_attrs r)"
proof -
  have u: "mk_rule (fr_priority r) (fr_action r) (fr_table r) (fr_fwmark r) (fr_fwmask r) (fr_iif r)
      (fr_oif r) (fst (fr_uids r)) (snd (fr_uids r)) = r"
    by (simp add: mk_rule_def)
  show ?thesis
    unfolding rule_iov_def by (subst ruleIov_bytes) (use assms in \<open>auto simp: u wf_rule_def\<close>)
qed

definition rule_msg :: "u16 \<Rightarrow> u8 \<Rightarrow> fib_rule \<Rightarrow> bytes" where
  "rule_msg action family r =
     netlinkMessage action
       (if action = RTM_NEWRULE then NETLINK_RULE_CREATE_FLAGS else NETLINK_REQUEST_FLAGS)
       (rule_iov family r)"

lemma decode_rule_msg:
  assumes "wf_rule r" "action = RTM_NEWRULE \<or> action = RTM_DELRULE"
  shows "decode_rule (rule_msg action family r) = Some (family, r)"
proof -
  let ?m = "rule_msg action family r"
  have m: "?m = nlmsghdr (of_nat (16 + sum_list (map length (tl (rule_iov family r))))) action
      (if action = RTM_NEWRULE then NETLINK_RULE_CREATE_FLAGS else NETLINK_REQUEST_FLAGS)
      @ fib_rule_hdr family (fr_action r) @ rtattrs (rule_attrs r)"
    unfolding rule_msg_def netlinkMessage_def rule_message_bytes [OF assms(1)] ..
  have parts: "length ?m \<ge> 28" "?m ! 16 = family" "?m ! 23 = fr_action r"
    "drop 28 ?m = rtattrs (rule_attrs r)"
    unfolding m by (simp_all add: nlmsghdr_def fib_rule_hdr_def nth_append)
  have ty: "nlmsg_type ?m = action" unfolding rule_msg_def by (rule nlmsg_type_netlinkMessage)
  have "wf_attrs (rule_attrs r)" using assms(1) by (intro wf_attrs_rule) (auto simp: wf_rule_def)
  then show ?thesis
    using assms parts ty by (auto simp: decode_rule_def attrs_of_rtattrs rule_of_attrs)
qed

interpretation rule_codec: codec "\<lambda>(family, r). rule_msg RTM_NEWRULE family r" decode_rule "\<lambda>(family, r). wf_rule r"
  by unfold_locales (auto intro: decode_rule_msg)

end
