(* ===== verification/Route_Fib.thy ===== *)
theory Route_Fib
  imports Route_Rules
begin

unbundle bit_operations_syntax

text \<open>
  The installed rules as a function of the history, the kernel's rule walk, and the effect of the
  route controller's operations on both. Every \<open>modify...\<close> operation is a sequence of requests for a
  list of rules (\<open>physical_rules\<close>, \<open>vpn_user_rules\<close>, ...), the same list for adding and removing.
\<close>

section \<open>Installed rules\<close>

type_synonym fib = "(u8 \<times> fib_rule) list"

definition acked_ok :: "nl_outcome \<Rightarrow> bool" where
  "acked_ok out = (case out of Acked r \<Rightarrow> recvNetlinkAck r = 0 | _ \<Rightarrow> False)"

text \<open>
  A delete request removes the first rule that agrees with it on the action, the priority and every
  attribute the request carries; \<open>rule_attrs\<close> leaves out a zero table, a zero mask and absent names
  and UIDs, which therefore match anything.
\<close>

definition del_matches :: "fib_rule \<Rightarrow> fib_rule \<Rightarrow> bool" where
  "del_matches d r \<longleftrightarrow>
     fr_action d = fr_action r \<and> fr_priority d = fr_priority r \<and>
     (fr_table d \<noteq> 0 \<longrightarrow> fr_table d = fr_table r) \<and>
     (fr_fwmask d \<noteq> 0 \<longrightarrow> fr_fwmark d = fr_fwmark r \<and> fr_fwmask d = fr_fwmask r) \<and>
     (fr_iif d \<noteq> None \<longrightarrow> fr_iif d = fr_iif r) \<and>
     (fr_oif d \<noteq> None \<longrightarrow> fr_oif d = fr_oif r) \<and>
     (fst (fr_uids d) \<noteq> INVALID_UID \<longrightarrow> fr_uids d = fr_uids r)"

lemma del_matches_refl [simp]: "del_matches r r"
  by (simp add: del_matches_def)

fun remove_first :: "('a \<Rightarrow> bool) \<Rightarrow> 'a list \<Rightarrow> 'a list" where
  "remove_first P [] = []"
| "remove_first P (x # xs) = (if P x then xs else x # remove_first P xs)"

definition fib_step :: "fib \<Rightarrow> event \<Rightarrow> fib" where
  "fib_step F e = (case e of
       EvNetlink msg out \<Rightarrow>
         (case decode_rule msg of
            None \<Rightarrow> F
          | Some (family, r) \<Rightarrow>
              if \<not> acked_ok out then F
              else if nlmsg_type msg = RTM_NEWRULE then F @ [(family, r)]
              else remove_first (\<lambda>(f, r'). f = family \<and> del_matches r r') F)
     | _ \<Rightarrow> F)"

definition fib :: "fib \<Rightarrow> history \<Rightarrow> fib" where
  "fib F h = foldl fib_step F h"

lemma fib_Nil [simp]: "fib F [] = F"
  by (simp add: fib_def)

lemma fib_append [simp]: "fib F (h @ h') = fib (fib F h) h'"
  by (simp add: fib_def)

lemma fib_Cons [simp]: "fib F (e # h) = fib (fib_step F e) h"
  by (simp add: fib_def)

lemma remove_first_append: "\<forall>x \<in> set xs. \<not> P x \<Longrightarrow> remove_first P (xs @ ys) = xs @ remove_first P ys"
  by (induction xs) auto

lemma remove_first_subset: "set (remove_first P xs) \<subseteq> set xs"
  by (induction xs) auto

lemma remove_first_keeps: "x \<in> set xs \<Longrightarrow> \<not> P x \<Longrightarrow> x \<in> set (remove_first P xs)"
  by (induction xs) auto

section \<open>Sending one rule\<close>

definition send_rule :: "kern \<Rightarrow> u16 \<Rightarrow> fib_rule \<Rightarrow> world act" where
  "send_rule K action r =
     modifyIpRule K action (fr_priority r) (fr_action r) (fr_table r) (fr_fwmark r) (fr_fwmask r)
       (fr_iif r) (fr_oif r) (fst (fr_uids r)) (snd (fr_uids r))"

definition sendable :: "u16 \<Rightarrow> fib_rule \<Rightarrow> bool" where
  "sendable action r \<longleftrightarrow> wf_rule r \<and> \<not> (fr_table r = 0 \<and> fr_action r = FR_ACT_TO_TBL \<and> action \<noteq> RTM_DELRULE)"

lemma modifyIpRule_send_rule:
  "modifyIpRule K action priority ruleType table fwmark msk iif oif uidStart uidEnd =
     send_rule K action (mk_rule priority ruleType table fwmark msk iif oif uidStart uidEnd)"
  by (simp add: send_rule_def mk_rule_def)

definition rule_flags :: "u16 \<Rightarrow> u16" where
  "rule_flags action = (if action = RTM_NEWRULE then NETLINK_RULE_CREATE_FLAGS else NETLINK_REQUEST_FLAGS)"

lemma send_rule_sendable:
  "sendable action r \<Longrightarrow>
   send_rule K action r = chk_all (\<lambda>family. sendAcked K action (rule_flags action) (rule_iov family r)) AF_FAMILIES"
  by (auto simp: send_rule_def modifyIpRule_def sendable_def wf_rule_def pad_ok rule_iov_def
      rule_flags_def Let_def)

lemma send_rule_not_sendable:
  "\<not> sendable action r \<Longrightarrow> fst (send_rule K action r w) \<noteq> 0 \<and> snd (send_rule K action r w) = w"
proof -
  have neg: "fst (padInterfaceName n) \<noteq> 0 \<longleftrightarrow> \<not> name_ok n" for n using pad_ok [of n] by simp
  assume "\<not> sendable action r"
  then show ?thesis
    by (auto simp: send_rule_def modifyIpRule_def sendable_def wf_rule_def neg)
qed

lemma sendAcked_outcome:
  assumes "flags AND NLM_F_ACK \<noteq> 0"
  shows "\<exists>out. trace (snd (sendAcked K action flags iov w)) =
      trace w @ [EvNetlink (netlinkMessage action flags iov) out] \<and>
    (fst (sendAcked K action flags iov w) = 0 \<longleftrightarrow> acked_ok out)"
  using assms
  by (auto simp: sendAcked_def sendNetlinkRequest_def openNetlinkSocket_def close_sock_def Let_def
      acked_ok_def split: open_result.splits)

lemma rule_flags_ack: "rule_flags action AND NLM_F_ACK \<noteq> 0"
  by (simp add: rule_flags_def nl_flag_defs)

definition rule_event :: "u16 \<Rightarrow> u8 \<Rightarrow> fib_rule \<Rightarrow> nl_outcome \<Rightarrow> event" where
  "rule_event action family r out = EvNetlink (rule_msg action family r) out"

lemma send_family:
  "\<exists>out. trace (snd (sendAcked K action (rule_flags action) (rule_iov family r) w)) =
      trace w @ [rule_event action family r out] \<and>
    (fst (sendAcked K action (rule_flags action) (rule_iov family r) w) = 0 \<longleftrightarrow> acked_ok out)"
  using sendAcked_outcome [OF rule_flags_ack [of action], of K action "rule_iov family r" w]
  by (simp add: rule_event_def rule_msg_def rule_flags_def)

lemma fib_step_rule_event:
  assumes "wf_rule r" "action = RTM_NEWRULE \<or> action = RTM_DELRULE"
  shows "fib_step F (rule_event action family r out) =
    (if \<not> acked_ok out then F
     else if action = RTM_NEWRULE then F @ [(family, r)]
     else remove_first (\<lambda>(f, r'). f = family \<and> del_matches r r') F)"
proof -
  have "nlmsg_type (rule_msg action family r) = action"
    unfolding rule_msg_def by (rule nlmsg_type_netlinkMessage)
  then show ?thesis
    using decode_rule_msg [OF assms] by (simp add: fib_step_def rule_event_def)
qed

text \<open>
  The trace of sending one rule: nothing if it is refused, the IPv4 request, and the IPv6 request
  once the first is acknowledged.
\<close>

definition rule_events :: "u16 \<Rightarrow> fib_rule \<Rightarrow> history \<Rightarrow> bool" where
  "rule_events action r es \<longleftrightarrow>
     es = [] \<or> (\<exists>o4. es = [rule_event action AF_INET r o4]) \<or>
     (\<exists>o4 o6. acked_ok o4 \<and> es = [rule_event action AF_INET r o4, rule_event action AF_INET6 r o6])"

definition installed :: "u16 \<Rightarrow> fib_rule \<Rightarrow> history \<Rightarrow> bool" where
  "installed action r es \<longleftrightarrow>
     sendable action r \<and>
     (\<exists>o4 o6. acked_ok o4 \<and> acked_ok o6 \<and>
        es = [rule_event action AF_INET r o4, rule_event action AF_INET6 r o6])"

lemma send_rule_trace:
  "\<exists>es. trace (snd (send_rule K action r w)) = trace w @ es \<and> rule_events action r es \<and>
     (es \<noteq> [] \<longrightarrow> sendable action r) \<and> (fst (send_rule K action r w) = 0 \<longleftrightarrow> installed action r es)"
proof (cases "sendable action r")
  case False
  then show ?thesis
    using send_rule_not_sendable [OF False, of K w] by (auto simp: rule_events_def installed_def)
next
  case True
  let ?f = "\<lambda>family. sendAcked K action (rule_flags action) (rule_iov family r)"
  let ?w1 = "snd (?f AF_INET w)"
  obtain o4 where o4: "trace ?w1 = trace w @ [rule_event action AF_INET r o4]"
    "fst (?f AF_INET w) = 0 \<longleftrightarrow> acked_ok o4"
    using send_family [of K action AF_INET r w] by blast
  obtain o6 where o6: "trace (snd (?f AF_INET6 ?w1)) = trace ?w1 @ [rule_event action AF_INET6 r o6]"
    "fst (?f AF_INET6 ?w1) = 0 \<longleftrightarrow> acked_ok o6"
    using send_family [of K action AF_INET6 r ?w1] by blast
  have s: "send_rule K action r w = chk (?f AF_INET) (chk (?f AF_INET6) (\<lambda>s. (0, s))) w"
    unfolding send_rule_sendable [OF True] AF_FAMILIES_def by (simp add: chk_def split: prod.splits)
  show ?thesis
  proof (cases "acked_ok o4")
    case ok4: True
    then have s4: "send_rule K action r w = chk (?f AF_INET6) (\<lambda>s. (0, s)) ?w1"
      using o4 s by simp
    show ?thesis
    proof (cases "acked_ok o6")
      case ok6: True
      then have "send_rule K action r w = (0, snd (?f AF_INET6 ?w1))" using s4 o6 by simp
      then show ?thesis
        using o4 o6 ok4 ok6 True by (auto simp: rule_events_def installed_def)
    next
      case no6: False
      then have "send_rule K action r w = ?f AF_INET6 ?w1" using s4 o6 by simp
      then show ?thesis
        using o4 o6 ok4 no6 True by (auto simp: rule_events_def installed_def rule_event_def)
    qed
  next
    case no4: False
    then have "send_rule K action r w = ?f AF_INET w" using s o4 by simp
    then show ?thesis
      using o4 no4 True by (auto simp: rule_events_def installed_def)
  qed
qed

lemma fib_installed_add: "installed RTM_NEWRULE r es \<Longrightarrow> fib F es = F @ [(AF_INET, r), (AF_INET6, r)]"
  by (auto simp: installed_def fib_step_rule_event sendable_def)



lemma fib_installed_del:
  assumes "installed RTM_DELRULE r es" "\<forall>(f, r') \<in> set G. \<not> del_matches r r'"
  shows "fib (G @ (AF_INET, r) # (AF_INET6, r) # H) es = G @ H"
proof -
  have G: "\<forall>x \<in> set G. \<not> (case x of (f, r') \<Rightarrow> f = family \<and> del_matches r r')" for family :: u8
    using assms(2) by auto
  have a: "wf_rule r" using assms(1) by (auto simp: installed_def sendable_def)
  obtain o4 o6 where es: "es = [rule_event RTM_DELRULE AF_INET r o4, rule_event RTM_DELRULE AF_INET6 r o6]"
    "acked_ok o4" "acked_ok o6"
    using assms(1) by (auto simp: installed_def)
  then show ?thesis
    by (simp add: fib_step_rule_event [OF a] remove_first_append [OF G])
qed


section \<open>Effects of operations on the installed rules\<close>

text \<open>
  \<open>effects True rs f\<close>: when \<open>f\<close> returns 0 it has appended the rules \<open>rs\<close> for both families.
  \<open>effects False rs f\<close>: when \<open>f\<close> returns 0 and the rules \<open>rs\<close> were the first that match its
  requests, exactly they are gone.
\<close>

definition both :: "fib_rule list \<Rightarrow> fib" where
  "both rs = concat (map (\<lambda>r. [(AF_INET, r), (AF_INET6, r)]) rs)"

lemma both_simps [simp]:
  "both [] = []" "both (r # rs) = (AF_INET, r) # (AF_INET6, r) # both rs" "both (rs @ rs') = both rs @ both rs'"
  by (simp_all add: both_def)

lemma set_both: "(f, r) \<in> set (both rs) \<longleftrightarrow> (f = AF_INET \<or> f = AF_INET6) \<and> r \<in> set rs"
  by (auto simp: both_def)

definition unmatched :: "fib_rule list \<Rightarrow> fib \<Rightarrow> bool" where
  "unmatched rs G \<longleftrightarrow> (\<forall>r \<in> set rs. \<forall>(f, r') \<in> set G. \<not> del_matches r r')"

definition effects :: "bool \<Rightarrow> fib_rule list \<Rightarrow> world act \<Rightarrow> bool" where
  "effects add rs f \<longleftrightarrow>
     (\<forall>w F. fst (f w) = 0 \<longrightarrow>
        (if add then fib F (trace (snd (f w))) = fib F (trace w) @ both rs
         else \<forall>G H. fib F (trace w) = G @ both rs @ H \<longrightarrow> unmatched rs G \<longrightarrow>
                fib F (trace (snd (f w))) = G @ H))"

named_theorems effect_rules "effects of the operations on the installed rules"

lemma effects_addD:
  "effects True rs f \<Longrightarrow> fst (f w) = 0 \<Longrightarrow> fib F (trace (snd (f w))) = fib F (trace w) @ both rs"
  by (simp add: effects_def)

lemma effects_delD:
  "effects False rs f \<Longrightarrow> fst (f w) = 0 \<Longrightarrow> fib F (trace w) = G @ both rs @ H \<Longrightarrow> unmatched rs G
   \<Longrightarrow> fib F (trace (snd (f w))) = G @ H"
  by (simp add: effects_def)

lemma effects_send_rule [effect_rules]: "effects add [r] (send_rule K (nl_rule_action add) r)"
  unfolding effects_def
proof (intro allI impI)
  fix w F
  assume ok: "fst (send_rule K (nl_rule_action add) r w) = 0"
  obtain es where es: "trace (snd (send_rule K (nl_rule_action add) r w)) = trace w @ es"
    "installed (nl_rule_action add) r es"
    using send_rule_trace [of K "nl_rule_action add" r w] ok by blast
  show "if add then fib F (trace (snd (send_rule K (nl_rule_action add) r w))) = fib F (trace w) @ both [r]
    else \<forall>G H. fib F (trace w) = G @ both [r] @ H \<longrightarrow> unmatched [r] G \<longrightarrow>
      fib F (trace (snd (send_rule K (nl_rule_action add) r w))) = G @ H"
    using es fib_installed_del [of r es] 
    by (cases add) (auto simp: nl_rule_action_def fib_installed_add unmatched_def)
qed

lemma effects_chk [effect_rules]:
  assumes "effects add rs f" "effects add rs' g"
  shows "effects add (rs @ rs') (chk f g)"
  unfolding effects_def
proof (intro allI impI)
  fix w F
  assume "fst (chk f g w) = 0"
  then have f: "fst (f w) = 0" and g: "fst (g (snd (f w))) = 0" and c: "chk f g w = g (snd (f w))"
    by (simp_all add: chk_zero)
  show "if add then fib F (trace (snd (chk f g w))) = fib F (trace w) @ both (rs @ rs')
    else \<forall>G H. fib F (trace w) = G @ both (rs @ rs') @ H \<longrightarrow> unmatched (rs @ rs') G \<longrightarrow>
      fib F (trace (snd (chk f g w))) = G @ H"
  proof (cases add)
    case True
    have "fib F (trace (snd (f w))) = fib F (trace w) @ both rs"
      "fib F (trace (snd (g (snd (f w))))) = fib F (trace (snd (f w))) @ both rs'"
      using assms f g True by (auto intro: effects_addD)
    then show ?thesis using True by (simp add: c)
  next
    case False
    have "fib F (trace (snd (g (snd (f w))))) = G @ H"
      if G: "fib F (trace w) = G @ both (rs @ rs') @ H" "unmatched (rs @ rs') G" for G H
    proof -
      have u: "unmatched rs G" "unmatched rs' G" using G(2) by (auto simp: unmatched_def)
      have "fib F (trace (snd (f w))) = G @ both rs' @ H"
        using assms(1) f G(1) u(1) False by (auto intro: effects_delD [where rs = rs])
      then show ?thesis using assms(2) g u(2) False by (auto intro: effects_delD [where rs = rs'])
    qed
    then show ?thesis using False by (simp add: c)
  qed
qed

lemma effects_none:
  assumes "\<And>w F. fib F (trace (snd (f w))) = fib F (trace w)"
  shows "effects add [] f"
  using assms by (simp add: effects_def)

lemma effects_ret [effect_rules]: "effects add [] (ret r)"
  by (rule effects_none) simp

lemma effects_chk_all [effect_rules]:
  assumes "\<And>x. effects add (rs x) (f x)"
  shows "effects add (concat (map rs xs)) (chk_all f xs)"
proof (induction xs)
  case Nil
  show ?case unfolding list.map concat.simps by (rule effects_none) simp
next
  case (Cons x xs)
  have "effects add (rs x @ concat (map rs xs)) (chk (f x) (chk_all f xs))"
    using assms Cons by (rule effects_chk)
  moreover have eq: "chk_all f (x # xs) = chk (f x) (chk_all f xs)" by (rule ext) simp
  ultimately show ?case by (simp only: eq list.map concat.simps)
qed

lemma effects_incoming [effect_rules]: "effects add [] (modifyIncomingPacketMark K netId interface permission b)"
  by (rule effects_none) (simp add: modifyIncomingPacketMark_def exec_defs Let_def fib_step_def)

text \<open>The rules of each operation, with the table of the interface as a parameter.\<close>

definition explicit_rule :: "netid \<Rightarrow> u32 \<Rightarrow> u32 \<Rightarrow> uid_t \<Rightarrow> uid_t \<Rightarrow> fib_rule" where
  "explicit_rule netId table permission uidStart uidEnd =
     mk_rule RULE_PRIORITY_EXPLICIT_NETWORK FR_ACT_TO_TBL table (explicit_fwmark netId permission)
       (explicit_mask permission) IIF_LOOPBACK OIF_NONE uidStart uidEnd"

definition output_rules :: "string \<Rightarrow> u32 \<Rightarrow> u32 \<Rightarrow> uid_t \<Rightarrow> uid_t \<Rightarrow> fib_rule list" where
  "output_rules interface table permission uidStart uidEnd =
     (if uidStart = INVALID_UID \<and> uidEnd = INVALID_UID
      then [mk_rule RULE_PRIORITY_VPN_OVERRIDE_OIF FR_ACT_TO_TBL table 0 0 IIF_LOOPBACK (Some interface)
              UID_ROOT UID_ROOT] else [])
     @ [mk_rule RULE_PRIORITY_OUTPUT_INTERFACE FR_ACT_TO_TBL table (fm_set_permission permission Fwmark_new)
          (fm_set_permission permission Fwmark_new) IIF_LOOPBACK (Some interface) uidStart uidEnd]"

definition implicit_rule :: "netid \<Rightarrow> u32 \<Rightarrow> fib_rule" where
  "implicit_rule netId table =
     mk_rule RULE_PRIORITY_IMPLICIT_NETWORK FR_ACT_TO_TBL table
       (fm_set_netId netId Fwmark_new)
       (fm_set_explicitlySelected True (fm_set_netId FWMARK_NET_ID_MASK Fwmark_new))
       IIF_LOOPBACK OIF_NONE INVALID_UID INVALID_UID"

definition physical_rules :: "netid \<Rightarrow> string \<Rightarrow> u32 \<Rightarrow> u32 \<Rightarrow> fib_rule list" where
  "physical_rules netId interface permission table =
     explicit_rule netId table permission INVALID_UID INVALID_UID
     # output_rules interface table permission INVALID_UID INVALID_UID
     @ (if permission = PERMISSION_NONE then [implicit_rule netId table] else [])"

definition vpn_uid_rule :: "bool \<Rightarrow> u32 \<Rightarrow> uid_t \<Rightarrow> uid_t \<Rightarrow> fib_rule" where
  "vpn_uid_rule secure table uidStart uidEnd =
     mk_rule (if secure then RULE_PRIORITY_SECURE_VPN else RULE_PRIORITY_BYPASSABLE_VPN) FR_ACT_TO_TBL table 0
       (if secure then fm_set_protectedFromVpn True Fwmark_new
        else fm_set_explicitlySelected True (fm_set_protectedFromVpn True Fwmark_new))
       IIF_LOOPBACK OIF_NONE uidStart uidEnd"

definition range_rules :: "netid \<Rightarrow> string \<Rightarrow> bool \<Rightarrow> u32 \<Rightarrow> UidRangeParcel \<Rightarrow> fib_rule list" where
  "range_rules netId interface secure table rng =
     (let s = word_of_int (start rng); e = word_of_int (stop rng)
      in vpn_uid_rule secure table s e # explicit_rule netId table PERMISSION_NONE s e
         # output_rules interface table PERMISSION_NONE s e)"

definition vpn_rules :: "netid \<Rightarrow> string \<Rightarrow> bool \<Rightarrow> u32 \<Rightarrow> fib_rule list" where
  "vpn_rules netId interface secure table =
     [mk_rule RULE_PRIORITY_VPN_OUTPUT_TO_LOCAL FR_ACT_TO_TBL ROUTE_TABLE_LOCAL_NETWORK MARK_UNSET MARK_UNSET
        (Some interface) OIF_NONE INVALID_UID INVALID_UID,
      mk_rule (if secure then RULE_PRIORITY_SECURE_VPN else RULE_PRIORITY_BYPASSABLE_VPN) FR_ACT_TO_TBL table
        (fm_set_permission PERMISSION_SYSTEM (fm_set_netId netId Fwmark_new))
        (fm_set_permission PERMISSION_SYSTEM (fm_set_netId FWMARK_NET_ID_MASK Fwmark_new))
        IIF_NONE OIF_NONE INVALID_UID INVALID_UID,
      explicit_rule netId table PERMISSION_NONE UID_ROOT UID_ROOT]"

definition virtual_rules :: "netid \<Rightarrow> string \<Rightarrow> UidRanges \<Rightarrow> bool \<Rightarrow> bool \<Rightarrow> u32 \<Rightarrow> fib_rule list" where
  "virtual_rules netId interface uidRanges secure modifyNonUidBasedRules table =
     concat (map (range_rules netId interface secure table) (getRanges uidRanges))
     @ (if modifyNonUidBasedRules then vpn_rules netId interface secure table else [])"

definition reject_rule :: "UidRangeParcel \<Rightarrow> fib_rule" where
  "reject_rule rng =
     mk_rule RULE_PRIORITY_PROHIBIT_NON_VPN FR_ACT_PROHIBIT RT_TABLE_UNSPEC 0
       (fm_set_protectedFromVpn True Fwmark_new) IIF_LOOPBACK OIF_NONE
       (word_of_int (start rng)) (word_of_int (stop rng))"

definition default_rule :: "u32 \<Rightarrow> u32 \<Rightarrow> fib_rule" where
  "default_rule permission table =
     mk_rule RULE_PRIORITY_DEFAULT_NETWORK FR_ACT_TO_TBL table (fm_set_permission permission Fwmark_new)
       (fm_set_permission permission (fm_set_netId FWMARK_NET_ID_MASK Fwmark_new))
       IIF_LOOPBACK OIF_NONE INVALID_UID INVALID_UID"


lemmas to_send_rule = modifyIpRuleTbl_def modifyIpRuleMark_def modifyIpRule_send_rule

lemma fm_set_zero_False:
  "fm_set_protectedFromVpn False 0 = 0" "fm_set_explicitlySelected False 0 = 0"
  "fm_set_netId 0 0 = 0" "fm_set_permission 0 0 = 0"
  "fm_permission m = 0 \<Longrightarrow> fm_set_permission 0 m = m"
  "fm_explicitlySelected m = False \<Longrightarrow> fm_set_explicitlySelected False m = m"
  by (rule mark_eqI; simp add: mark_simps)+

lemma explicit_send:
  "modifyExplicitNetworkRule K netId table permission s e add =
     send_rule K (nl_rule_action add) (explicit_rule netId table permission s e)"
  by (simp add: modifyExplicitNetworkRule_def to_send_rule explicit_rule_def)

lemma output_send:
  "modifyOutputInterfaceRules K interface table permission s e add =
     (if s = INVALID_UID \<and> e = INVALID_UID
      then chk (send_rule K (nl_rule_action add) (hd (output_rules interface table permission s e)))
             (send_rule K (nl_rule_action add) (last (output_rules interface table permission s e)))
      else send_rule K (nl_rule_action add) (last (output_rules interface table permission s e)))"
  by (simp add: modifyOutputInterfaceRules_def to_send_rule output_rules_def Let_def)

lemma implicit_send:
  "modifyImplicitNetworkRule K netId table add = send_rule K (nl_rule_action add) (implicit_rule netId table)"
  by (simp add: modifyImplicitNetworkRule_def implicit_rule_def to_send_rule Let_def
      Fwmark_new_def fm_set_zero_False mark_simps)

lemma vpn_uid_send:
  "modifyVpnUidRangeRule K table s e secure add =
     send_rule K (nl_rule_action add) (vpn_uid_rule secure table s e)"
  by (cases secure) (simp_all add: modifyVpnUidRangeRule_def vpn_uid_rule_def to_send_rule Let_def
      Fwmark_new_def fm_set_zero_False mark_simps)

lemma reject_send:
  "modifyRejectNonSecureNetworkRule K uidRanges add =
     chk_all (\<lambda>rng. send_rule K (nl_rule_action add) (reject_rule rng)) (getRanges uidRanges)"
  by (simp add: modifyRejectNonSecureNetworkRule_def to_send_rule reject_rule_def [abs_def] Let_def
      Fwmark_new_def fm_set_zero_False)

lemma default_send:
  "modifyDefaultNetwork K action interface permission =
     with_table K interface (\<lambda>table. send_rule K action (default_rule permission table))"
  by (simp add: modifyDefaultNetwork_def to_send_rule default_rule_def Let_def Fwmark_new_def
      fm_set_zero_False)

lemmas rule_sends = explicit_send output_send implicit_send vpn_uid_send reject_send default_send

lemma effects_explicit [effect_rules]:
  "effects add [explicit_rule netId table permission s e]
     (modifyExplicitNetworkRule K netId table permission s e add)"
  unfolding explicit_send by (rule effects_send_rule)

lemma effects_output [effect_rules]:
  "effects add (output_rules interface table permission s e)
     (modifyOutputInterfaceRules K interface table permission s e add)"
  unfolding modifyOutputInterfaceRules_def to_send_rule output_rules_def Let_def
  by (cases "s = INVALID_UID \<and> e = INVALID_UID")
    (simp_all only: if_True if_False append_Nil effects_chk effects_send_rule simp_thms)

lemma effects_implicit [effect_rules]:
  "effects add [implicit_rule netId table] (modifyImplicitNetworkRule K netId table add)"
  unfolding implicit_send by (rule effects_send_rule)

lemma effects_vpn_uid [effect_rules]:
  "effects add [vpn_uid_rule secure table s e] (modifyVpnUidRangeRule K table s e secure add)"
  unfolding vpn_uid_send by (rule effects_send_rule)

lemma effects_physical_body:
  "effects add (physical_rules netId interface permission table)
     (chk (modifyIncomingPacketMark K netId interface permission add)
       (chk (modifyExplicitNetworkRule K netId table permission INVALID_UID INVALID_UID add)
       (chk (modifyOutputInterfaceRules K interface table permission INVALID_UID INVALID_UID add)
         (if permission = PERMISSION_NONE then modifyImplicitNetworkRule K netId table add else ret 0))))"
proof -
  have "effects add (if permission = PERMISSION_NONE then [implicit_rule netId table] else [])
    (if permission = PERMISSION_NONE then modifyImplicitNetworkRule K netId table add else ret 0)"
    using effects_implicit effects_ret by simp
  from effects_chk [OF effects_incoming effects_chk [OF effects_explicit effects_chk [OF effects_output this]]]
  show ?thesis by (simp add: physical_rules_def)
qed

lemma effects_reject [effect_rules]:
  "effects add (map reject_rule (getRanges uidRanges)) (modifyRejectNonSecureNetworkRule K uidRanges add)"
  using effects_chk_all [where rs = "\<lambda>rng. [reject_rule rng]"
      and f = "\<lambda>rng. send_rule K (nl_rule_action add) (reject_rule rng)", OF effects_send_rule]
  by (simp add: reject_send)

lemma effects_range:
  "effects add (range_rules netId interface secure table rng)
     (let s = word_of_int (start rng); e = word_of_int (stop rng) in
      chk (modifyVpnUidRangeRule K table s e secure add)
      (chk (modifyExplicitNetworkRule K netId table PERMISSION_NONE s e add)
        (modifyOutputInterfaceRules K interface table PERMISSION_NONE s e add)))"
  using effects_chk [OF effects_vpn_uid effects_chk [OF effects_explicit effects_output]]
  by (simp add: range_rules_def Let_def)

lemma effects_vpn_common:
  "effects add (vpn_rules netId interface secure table)
     (chk (modifyIncomingPacketMark K netId interface PERMISSION_NONE add)
       (chk (modifyVpnOutputToLocalRule K interface add)
       (chk (modifyVpnSystemPermissionRule K netId table secure add)
         (modifyExplicitNetworkRule K netId table PERMISSION_NONE UID_ROOT UID_ROOT add))))"
proof -
  have split: "vpn_rules netId interface secure table =
    [] @ [vpn_rules netId interface secure table ! 0] @ [vpn_rules netId interface secure table ! 1]
    @ [explicit_rule netId table PERMISSION_NONE UID_ROOT UID_ROOT]"
    by (simp add: vpn_rules_def)
  have "effects add [vpn_rules netId interface secure table ! 0] (modifyVpnOutputToLocalRule K interface add)"
    using effects_send_rule [of add "vpn_rules netId interface secure table ! 0" K]
    by (simp add: vpn_rules_def modifyVpnOutputToLocalRule_def to_send_rule)
  moreover have "effects add [vpn_rules netId interface secure table ! 1]
      (modifyVpnSystemPermissionRule K netId table secure add)"
    using effects_send_rule [of add "vpn_rules netId interface secure table ! 1" K]
    by (simp add: vpn_rules_def modifyVpnSystemPermissionRule_def to_send_rule Let_def)
  ultimately show ?thesis
    by (subst split) (intro effects_chk effects_incoming effects_explicit)
qed

lemma effects_virtual_body:
  "effects add (virtual_rules netId interface uidRanges secure nonUid table)
     (chk (chk_all (\<lambda>rng.
              let s = word_of_int (start rng); e = word_of_int (stop rng) in
              chk (modifyVpnUidRangeRule K table s e secure add)
              (chk (modifyExplicitNetworkRule K netId table PERMISSION_NONE s e add)
                (modifyOutputInterfaceRules K interface table PERMISSION_NONE s e add)))
            (getRanges uidRanges))
       (if nonUid then
          chk (modifyIncomingPacketMark K netId interface PERMISSION_NONE add)
          (chk (modifyVpnOutputToLocalRule K interface add)
          (chk (modifyVpnSystemPermissionRule K netId table secure add)
            (modifyExplicitNetworkRule K netId table PERMISSION_NONE UID_ROOT UID_ROOT add)))
        else ret 0))"
  unfolding virtual_rules_def
  by (intro effects_chk effects_chk_all effects_range, cases nonUid)
    (simp_all only: if_True if_False effects_vpn_common effects_ret)


section \<open>Properties of every intermediate history\<close>

text \<open>
  \<open>always I f\<close>: if the history satisfies \<open>I\<close> when \<open>f\<close> starts, it does so after each single event of
  \<open>f\<close>, whatever \<open>f\<close> returns.
\<close>

definition always :: "(history \<Rightarrow> bool) \<Rightarrow> world act \<Rightarrow> bool" where
  "always I f \<longleftrightarrow> (\<forall>w. I (trace w) \<longrightarrow>
     (\<exists>es. trace (snd (f w)) = trace w @ es \<and> (\<forall>pre. prefix pre es \<longrightarrow> I (trace w @ pre))))"

named_theorems always_rules "rules for properties of every intermediate history"

lemma alwaysD:
  "always I f \<Longrightarrow> I (trace w) \<Longrightarrow> prefix (trace w) h \<Longrightarrow> prefix h (trace (snd (f w))) \<Longrightarrow> I h"
  by (fastforce simp: always_def prefix_def)

lemma always_end: "always I f \<Longrightarrow> I (trace w) \<Longrightarrow> I (trace (snd (f w)))"
  by (fastforce simp: always_def)

lemma always_extends: "always I f \<Longrightarrow> I (trace w) \<Longrightarrow> \<exists>es. trace (snd (f w)) = trace w @ es"
  by (auto simp: always_def)

lemma always_phases:
  assumes "always I f" "always J g" "\<And>h. J h \<Longrightarrow> I h"
    "\<And>w. I (trace w) \<Longrightarrow> fst (f w) = 0 \<Longrightarrow> J (trace (snd (f w)))"
  shows "always I (chk f g)"
  unfolding always_def
proof (intro allI impI)
  fix w :: world assume I: "I (trace w)"
  obtain es where es: "trace (snd (f w)) = trace w @ es" "\<And>pre. prefix pre es \<Longrightarrow> I (trace w @ pre)"
    using assms(1) I unfolding always_def by blast
  show "\<exists>es. trace (snd (chk f g w)) = trace w @ es \<and> (\<forall>pre. prefix pre es \<longrightarrow> I (trace w @ pre))"
  proof (cases "fst (f w) = 0")
    case True
    then obtain es' where es': "trace (snd (g (snd (f w)))) = (trace w @ es) @ es'"
      "\<And>pre. prefix pre es' \<Longrightarrow> J ((trace w @ es) @ pre)"
      using assms(2) assms(4) [OF I] es unfolding always_def by metis
    have "I (trace w @ pre)" if "prefix pre (es @ es')" for pre
      using that es(2) assms(3) [OF es'(2)] by (auto simp: prefix_append)
    then show ?thesis using True es'(1) by (intro exI [of _ "es @ es'"]) simp
  qed (use es in auto)
qed

lemma always_chk [always_rules]: "always I f \<Longrightarrow> always I g \<Longrightarrow> always I (chk f g)"
  by (rule always_phases [where J = I]) (auto intro: always_end)

lemma always_no_event: "(\<And>w. trace (snd (f w)) = trace w) \<Longrightarrow> always I f"
  by (auto simp: always_def)

lemma always_ret [always_rules]: "always I (ret r)"
  by (rule always_no_event) simp

lemma always_if [always_rules]: "(b \<Longrightarrow> always I f) \<Longrightarrow> (\<not> b \<Longrightarrow> always I g) \<Longrightarrow> always I (if b then f else g)"
  by simp

lemma always_ex: "(\<And>x. always (I x) f) \<Longrightarrow> always (\<lambda>h. \<exists>x. I x h) f"
  unfolding always_def by blast

lemma always_send_rule:
  assumes "\<And>h family out. wf_rule r \<Longrightarrow> I h \<Longrightarrow> I (h @ [rule_event action family r out])"
  shows "always I (send_rule K action r)"
  unfolding always_def
proof (intro allI impI)
  fix w :: world assume I: "I (trace w)"
  obtain es where es: "trace (snd (send_rule K action r w)) = trace w @ es" "rule_events action r es"
    "es \<noteq> [] \<longrightarrow> sendable action r"
    using send_rule_trace by blast
  have two: "prefix pre [a, b] \<longleftrightarrow> pre = [] \<or> pre = [a] \<or> pre = [a, b]" for pre and a b :: event
    by (auto simp: prefix_Cons)
  have "I (trace w @ pre)" if "prefix pre es" for pre
  proof (cases "es = []")
    case False
    then have wf: "wf_rule r" using es(3) by (simp add: sendable_def)
    have "I (trace w @ [rule_event action f r x])" "I (trace w @ [rule_event action f r x, rule_event action g r y])"
      for f g x y
      using assms [OF wf I] assms [OF wf assms [OF wf I]] by simp_all
    then show ?thesis using I es(2) that by (auto simp: rule_events_def two prefix_Cons)
  qed (use I that in simp)
  then show "\<exists>es. trace (snd (send_rule K action r w)) = trace w @ es \<and>
      (\<forall>pre. prefix pre es \<longrightarrow> I (trace w @ pre))"
    using es(1) by blast
qed

text \<open>Additions keep every rule; a deletion keeps every rule it does not match.\<close>

lemma always_add_keeps:
  assumes "\<And>G G'. P G \<Longrightarrow> P (G @ G')"
  shows "always (\<lambda>h. P (fib F h)) (send_rule K RTM_NEWRULE r)"
  by (rule always_send_rule) (simp add: fib_step_rule_event assms)

lemma always_del_keeps:
  assumes "\<not> del_matches r x"
  shows "always (\<lambda>h. (family, x) \<in> set (fib F h)) (send_rule K RTM_DELRULE r)"
  by (rule always_send_rule) (auto simp: fib_step_rule_event assms remove_first_keeps)

lemma always_incoming:
  assumes "\<And>h t cmd res. I h \<Longrightarrow> I (h @ [EvIptables t cmd res])"
  shows "always I (modifyIncomingPacketMark K netId interface permission add)"
  unfolding always_def
proof (intro allI impI)
  fix w :: world assume "I (trace w)"
  moreover obtain e where e: "trace (snd (modifyIncomingPacketMark K netId interface permission add w)) = trace w @ [e]"
    "\<exists>t cmd res. e = EvIptables t cmd res"
    by (simp add: modifyIncomingPacketMark_def exec_defs Let_def)
  ultimately show "\<exists>es. trace (snd (modifyIncomingPacketMark K netId interface permission add w)) = trace w @ es \<and>
      (\<forall>pre. prefix pre es \<longrightarrow> I (trace w @ pre))"
    using assms by (intro exI [of _ "[e]"]) (auto simp: prefix_Cons)
qed

lemma fib_step_iptables [simp]: "fib_step F (EvIptables t cmd res) = F"
  by (simp add: fib_step_def)

lemma always_with_table: "(\<And>t. always I (f t)) \<Longrightarrow> always I (with_table K interface f)"
proof -
  assume f: "\<And>t. always I (f t)"
  have tr: "trace (snd (getRouteTableForInterface K interface w)) = trace w" for w
    by (simp add: getRouteTableForInterface_def Let_def split: option.splits)
  show ?thesis
    unfolding always_def
  proof (intro allI impI)
    fix w :: world assume I: "I (trace w)"
    obtain t w' where g: "getRouteTableForInterface K interface w = (t, w')" by fastforce
    then have w': "trace w' = trace w" using tr [of w] by simp
    show "\<exists>es. trace (snd (with_table K interface f w)) = trace w @ es \<and> (\<forall>pre. prefix pre es \<longrightarrow> I (trace w @ pre))"
      using f [of t, unfolded always_def, rule_format, of w'] I w' by (auto simp: with_table_def g)
  qed
qed

section \<open>The interface's table\<close>

definition table_of :: "kern \<Rightarrow> string \<Rightarrow> world \<Rightarrow> u32" where
  "table_of K interface w = fst (getRouteTableForInterface K interface w)"

lemma with_table_ok:
  assumes "fst (with_table K interface f w) = 0"
  obtains w' where "trace w' = trace w" "table_of K interface w \<noteq> 0"
    "with_table K interface f w = f (table_of K interface w) w'"
    "map_of (sInterfaceToTable w') interface = Some (table_of K interface w)"
proof -
  obtain t w' where g: "getRouteTableForInterface K interface w = (t, w')" by fastforce
  have t: "t \<noteq> 0" "with_table K interface f w = f t w'"
    using assms by (auto simp: with_table_def g split: if_splits)
  then have "trace w' = trace w" "map_of (sInterfaceToTable w') interface = Some t"
    using g by (auto simp: getRouteTableForInterface_def map_of_om_put Let_def
        split: if_splits option.splits)
  then show thesis using that [of w'] t by (simp add: table_of_def g)
qed

lemma table_of_cached:
  assumes "map_of (sInterfaceToTable w) interface = Some t" "t \<noteq> 0"
    "if_nametoindex K (trace w) interface = 0 \<or> if_nametoindex K (trace w) interface + ROUTE_TABLE_OFFSET_FROM_INDEX = t"
  shows "table_of K interface w = t"
  using assms by (auto simp: table_of_def getRouteTableForInterface_def Let_def)

text \<open>Sending rules leaves the table cache alone.\<close>

lemma keeps_cache_send [keeps_rules]: "keeps (\<lambda>w. sInterfaceToTable w = m) (send_rule K action r)"
proof (cases "sendable action r")
  case True
  then show ?thesis
    unfolding send_rule_sendable [OF True] by (intro keeps_rules keepsI) (simp add: sendAcked_table)
qed (simp add: keepsI send_rule_not_sendable)

lemma keeps_cache_incoming [keeps_rules]:
  "keeps (\<lambda>w. sInterfaceToTable w = m) (modifyIncomingPacketMark K netId interface permission add)"
  by (rule keepsI) (simp add: modifyIncomingPacketMark_def exec_defs Let_def)

lemmas op_unfolds = modifyExplicitNetworkRule_def modifyOutputInterfaceRules_def
  modifyImplicitNetworkRule_def modifyVpnUidRangeRule_def modifyVpnOutputToLocalRule_def
  modifyVpnSystemPermissionRule_def to_send_rule Let_def

lemma keeps_if [keeps_rules]: "keeps P f \<Longrightarrow> keeps P g \<Longrightarrow> keeps P (if b then f else g)"
  by simp

lemma cache_after_table_op:
  assumes "fst (with_table K interface f w) = 0"
    "\<And>t m. keeps (\<lambda>w. sInterfaceToTable w = m) (f t)"
  shows "map_of (sInterfaceToTable (snd (with_table K interface f w))) interface = Some (table_of K interface w)"
proof -
  obtain w' where w': "with_table K interface f w = f (table_of K interface w) w'"
    "map_of (sInterfaceToTable w') interface = Some (table_of K interface w)"
    using with_table_ok [OF assms(1)] by blast
  have "sInterfaceToTable (snd (f (table_of K interface w) w')) = sInterfaceToTable w'"
    using keepsD [OF assms(2), of w' "sInterfaceToTable w'" "table_of K interface w"] by simp
  then show ?thesis using w' by simp
qed

text \<open>
  Removing undoes adding, for every operation of the form "look up the table, send these rules":
  the table is the same the second time, even if the interface has gone in between.
\<close>

lemma table_op_undo:
  assumes "\<And>t. effects True (rs t) (f t)" "\<And>t. effects False (rs t) (g t)"
    "\<And>t m. keeps (\<lambda>w. sInterfaceToTable w = m) (f t)"
    "with_table K interface f w = (0, w1)" "with_table K interface g w1 = (0, w2)"
    "if_nametoindex K (trace w1) interface \<in> {0, if_nametoindex K (trace w) interface}"
    "unmatched (rs (table_of K interface w)) (fib F (trace w))"
  shows "fib F (trace w1) = fib F (trace w) @ both (rs (table_of K interface w)) \<and>
    fib F (trace w2) = fib F (trace w)"
proof -
  let ?t = "table_of K interface w"
  obtain u1 where u1: "trace u1 = trace w" "f ?t u1 = (0, w1)" "?t \<noteq> 0"
    using with_table_ok [of K interface f w] assms(4) by (metis fst_conv)
  have one: "fib F (trace w1) = fib F (trace w) @ both (rs ?t)"
    using effects_addD [OF assms(1), of ?t u1 F] u1 by simp
  have "map_of (sInterfaceToTable w1) interface = Some ?t"
    using cache_after_table_op [where f = f and K = K and interface = interface and w = w] assms(3,4) by simp
  moreover have "if_nametoindex K (trace w) interface = 0 \<or>
      if_nametoindex K (trace w) interface + ROUTE_TABLE_OFFSET_FROM_INDEX = ?t"
    by (simp add: table_of_def getRouteTableForInterface_def Let_def)
  ultimately have t: "table_of K interface w1 = ?t"
    using u1(3) assms(6) by (intro table_of_cached) auto
  obtain u2 where u2: "trace u2 = trace w1" "g ?t u2 = (0, w2)"
    using with_table_ok [of K interface g w1] assms(5) t by (metis fst_conv)
  have "fib F (trace w2) = fib F (trace w) @ []"
    using effects_delD [OF assms(2), of ?t u2 F "fib F (trace w)" "[]"] u2 one assms(7) by simp
  then show ?thesis using one by simp
qed


section \<open>The rule walk\<close>

record packet =
  pk_family :: u8
  pk_uid :: uid_t
  pk_mark :: u32
  pk_iif :: string
  pk_oif :: "string option"

definition rule_matches :: "fib_rule \<Rightarrow> packet \<Rightarrow> bool" where
  "rule_matches r p \<longleftrightarrow>
     mark_selects (fr_fwmark r) (fr_fwmask r) (pk_mark p) \<and>
     (fr_iif r = None \<or> fr_iif r = Some (pk_iif p)) \<and>
     (fr_oif r = None \<or> fr_oif r = pk_oif p) \<and>
     (fst (fr_uids r) = INVALID_UID \<or> (fst (fr_uids r) \<le> pk_uid p \<and> pk_uid p \<le> snd (fr_uids r)))"

datatype verdict = RoutedVia fib_rule | Rejected fib_rule | NoRoute

text \<open>
  \<open>routes t\<close> says whether table \<open>t\<close> has a route for the packet; a table without one sends the walk
  to the next rule.
\<close>

fun rule_walk :: "(u32 \<Rightarrow> bool) \<Rightarrow> packet \<Rightarrow> fib_rule list \<Rightarrow> verdict" where
  "rule_walk routes p [] = NoRoute"
| "rule_walk routes p (r # rs) =
     (if \<not> rule_matches r p then rule_walk routes p rs
      else if fr_action r \<noteq> FR_ACT_TO_TBL then Rejected r
      else if routes (fr_table r) then RoutedVia r
      else rule_walk routes p rs)"

definition fib_lookup :: "(u32 \<Rightarrow> bool) \<Rightarrow> fib \<Rightarrow> packet \<Rightarrow> verdict" where
  "fib_lookup routes F p =
     rule_walk routes p (sort_key fr_priority (map snd (filter (\<lambda>(f, r). f = pk_family p) F)))"

fun deciding_rule :: "verdict \<Rightarrow> fib_rule option" where
  "deciding_rule (RoutedVia r) = Some r"
| "deciding_rule (Rejected r) = Some r"
| "deciding_rule NoRoute = None"

text \<open>A matching rule that rejects stops the walk at its priority at the latest.\<close>

lemma walk_stops:
  assumes "sorted (map fr_priority rs)" "r \<in> set rs" "rule_matches r p" "fr_action r \<noteq> FR_ACT_TO_TBL"
  shows "\<exists>d. deciding_rule (rule_walk routes p rs) = Some d \<and> fr_priority d \<le> fr_priority r"
  using assms by (induction rs) auto

lemma lookup_stops:
  assumes "(pk_family p, r) \<in> set F" "rule_matches r p" "fr_action r \<noteq> FR_ACT_TO_TBL"
  shows "\<exists>d. deciding_rule (fib_lookup routes F p) = Some d \<and> fr_priority d \<le> fr_priority r"
  unfolding fib_lookup_def
proof (rule walk_stops)
  show "r \<in> set (sort_key fr_priority (map snd (filter (\<lambda>(f, r). f = pk_family p) F)))"
    using assms(1) by force
qed (use assms in simp_all)

section \<open>Kernels for concrete runs\<close>

text \<open>One that acknowledges every request, and one that answers deletions according to the rules.\<close>

definition kern_acks :: kern where
  "kern_acks = \<lparr>if_nametoindex = \<lambda>h i. 5, nl_open = \<lambda>h. SockOpen, nl_write = \<lambda>h m. 0,
     nl_recv = \<lambda>h m. RecvBytes 36 0, nl_read = \<lambda>h m. [], iptables = \<lambda>h t cmd. 0,
     ifc_up = \<lambda>h i. 0, write_file = \<lambda>h path contents. True, getaddrinfo = \<lambda>s. None,
     inet_pton = \<lambda>f s. None, sd_open = \<lambda>h. True, sock_destroy = \<lambda>h a. 0\<rparr>"

definition kern_rules :: "fib \<Rightarrow> kern" where
  "kern_rules F = kern_acks\<lparr>nl_recv := \<lambda>h m. RecvBytes 36
     (case decode_rule m of None \<Rightarrow> 0 | Some (family, r) \<Rightarrow>
        if nlmsg_type m = RTM_DELRULE \<and> \<not> list_ex (\<lambda>(f, r'). f = family \<and> del_matches r r') (fib F h)
        then - ENOENT else 0)\<rparr>"

lemma sendAcked_acks [simp]: "fst (sendAcked kern_acks action flags iov w) = 0"
  by (simp add: sendAcked_def sendNetlinkRequest_def openNetlinkSocket_def kern_acks_def
      recvNetlinkAck_def Let_def)

lemma send_rule_acks: "fst (send_rule kern_acks action r w) = 0 \<longleftrightarrow> sendable action r"
proof (cases "sendable action r")
  case True
  then show ?thesis by (simp add: send_rule_sendable AF_FAMILIES_def chk_all_zero)
qed (simp add: send_rule_not_sendable)

lemma incoming_acks [simp]: "fst (modifyIncomingPacketMark kern_acks netId interface permission add w) = 0"
  by (simp add: modifyIncomingPacketMark_def exec_defs kern_acks_def Let_def)

lemma index_acks [simp]: "if_nametoindex kern_acks h i = 5"
  by (simp add: kern_acks_def)

lemma table_acks [simp]:
  "getRouteTableForInterface kern_acks i w = (1005, w\<lparr>sInterfaceToTable := om_put i 1005 (sInterfaceToTable w)\<rparr>)"
  "table_of kern_acks i w = 1005"
  by (simp_all add: getRouteTableForInterface_def table_of_def)

lemma chk_all_acks: "(\<And>x w. x \<in> set xs \<Longrightarrow> fst (f x w) = 0) \<Longrightarrow> fst (chk_all f xs w) = 0"
  by (induction xs arbitrary: w) (simp_all add: chk_zero)

end
