(* ===== verification/Route_Properties.thy ===== *)
theory Route_Properties
  imports Route_Fib
begin

unbundle bit_operations_syntax

text \<open>
  What the route controller guarantees, over the rule semantics of \<open>Route_Fib\<close>: requests carry the
  intended rules, removing undoes adding, permission changes leave no gap, the lockdown rule stops
  covered packets, the flush deletes what it was shown, and the tethering loop ends.
\<close>

section \<open>Requests\<close>

text \<open>
  \<open>modifyIpRule\<close> returns 0 only if it sent exactly two requests, the intended rule for IPv4
  and then for IPv6, and both were acknowledged; arguments that fail its checks (a mark outside its
  mask, a name too long, half a UID range, a new rule without a table) give an error and send nothing.
\<close>

theorem modifyIpRule_requests:
  assumes "action = RTM_NEWRULE \<or> action = RTM_DELRULE"
    and run: "modifyIpRule K action priority ruleType table fwmark msk iif oif uidStart uidEnd w = (res, w')"
    and rule: "r = mk_rule priority ruleType table fwmark msk iif oif uidStart uidEnd"
  shows "(res = 0 \<longrightarrow> (\<exists>m4 m6 o4 o6. trace w' = trace w @ [EvNetlink m4 o4, EvNetlink m6 o6] \<and>
            acked_ok o4 \<and> acked_ok o6 \<and> nlmsg_type m4 = action \<and> nlmsg_type m6 = action \<and>
            decode_rule m4 = Some (AF_INET, r) \<and> decode_rule m6 = Some (AF_INET6, r))) \<and>
    (\<not> sendable action r \<longrightarrow> res \<noteq> 0 \<and> w' = w)"
proof -
  have send: "send_rule K action r w = (res, w')" using run rule by (simp add: modifyIpRule_send_rule)
  obtain es where es: "trace w' = trace w @ es" "res = 0 \<longleftrightarrow> installed action r es"
    using send_rule_trace [of K action r w] send by auto
  have ty: "nlmsg_type (rule_msg action family r) = action" for family
    unfolding rule_msg_def by (rule nlmsg_type_netlinkMessage)
  have "\<not> sendable action r \<longrightarrow> res \<noteq> 0 \<and> w' = w"
    using send_rule_not_sendable [of action r K w] send by auto
  moreover have "wf_rule r" if "sendable action r" using that by (simp add: sendable_def)
  ultimately show ?thesis
    using es assms(1) ty by (auto simp: installed_def rule_event_def decode_rule_msg)
qed

theorem modifyIpRule_requests_witness:
  "\<exists>w' m4 m6 o4 o6.
     modifyIpRule kern_acks RTM_NEWRULE 22000 FR_ACT_TO_TBL 1005 0 0xffff (Some ''lo'') None INVALID_UID INVALID_UID
       \<lparr>trace = [], nl_fds = 0, sInterfaceToTable = []\<rparr> = (0, w') \<and>
     trace w' = [EvNetlink m4 o4, EvNetlink m6 o6] \<and>
     decode_rule m6 = Some (AF_INET6, mk_rule 22000 FR_ACT_TO_TBL 1005 0 0xffff (Some ''lo'') None INVALID_UID INVALID_UID)"
proof -
  let ?r = "mk_rule 22000 FR_ACT_TO_TBL 1005 0 0xffff (Some ''lo'') None INVALID_UID INVALID_UID"
  let ?w = "\<lparr>trace = [], nl_fds = 0, sInterfaceToTable = []\<rparr> :: world"
  obtain res w' where run: "modifyIpRule kern_acks RTM_NEWRULE 22000 FR_ACT_TO_TBL 1005 0 0xffff (Some ''lo'') None
      INVALID_UID INVALID_UID ?w = (res, w')" by fastforce
  have "sendable RTM_NEWRULE ?r" by (simp add: sendable_def wf_rule_def mk_rule_def name_ok_def)
  then have "res = 0"
    using run send_rule_acks [of RTM_NEWRULE ?r ?w] by (simp add: modifyIpRule_send_rule)
  then show ?thesis
    using modifyIpRule_requests [OF _ run refl] run by auto
qed

section \<open>Which packets the rules of a network select\<close>

lemma explicit_rule_matches:
  assumes "netId < 0x10000" "is_permission permission"
  shows "rule_matches (explicit_rule netId table permission INVALID_UID INVALID_UID) p \<longleftrightarrow>
    pk_iif p = ''lo'' \<and> fm_netId (pk_mark p) = netId \<and> fm_explicitlySelected (pk_mark p) \<and>
    fm_permission (pk_mark p) AND permission = permission"
proof -
  have "take_bit 16 netId = netId"
    using assms(1) by (rule take_bit_netid)
  then have "mark_selects (explicit_fwmark netId permission) (explicit_mask permission) (pk_mark p) \<longleftrightarrow>
      fm_netId (pk_mark p) = netId \<and> fm_explicitlySelected (pk_mark p) \<and>
      fm_permission (pk_mark p) AND permission = permission"
    using assms(2)
    by (simp add: mark_selects_iff explicit_fwmark_def explicit_mask_def Fwmark_new_def
        FWMARK_NET_ID_MASK_def mark_simps)
  then show ?thesis by (auto simp: rule_matches_def explicit_rule_def mk_rule_def)
qed

text \<open>
  The explicit-network rule of a physical network matches exactly the locally generated
  packets whose mark names the network, is explicitly selected, and carries every permission bit the
  network requires, whatever the other members of the mark are.
\<close>

theorem explicit_rule_selects:
  assumes "netId < 0x10000" "is_permission permission"
  shows "rule_matches (explicit_rule netId table permission INVALID_UID INVALID_UID) p \<longleftrightarrow>
    pk_iif p = ''lo'' \<and> fm_netId (pk_mark p) = netId \<and> fm_explicitlySelected (pk_mark p) \<and>
    fm_permission (pk_mark p) AND permission = permission"
  using assms by (rule explicit_rule_matches)

theorem explicit_rule_selects_witness:
  "rule_matches (explicit_rule 100 1005 PERMISSION_NETWORK INVALID_UID INVALID_UID)
     \<lparr>pk_family = AF_INET, pk_uid = 10001,
      pk_mark = fm_set_permission PERMISSION_SYSTEM (fm_set_explicitlySelected True (fm_set_netId 100 0)),
      pk_iif = ''lo'', pk_oif = None\<rparr> \<and>
   \<not> rule_matches (explicit_rule 100 1005 PERMISSION_NETWORK INVALID_UID INVALID_UID)
     \<lparr>pk_family = AF_INET, pk_uid = 10001,
      pk_mark = fm_set_explicitlySelected True (fm_set_netId 100 0), pk_iif = ''lo'', pk_oif = None\<rparr>"
  by (simp add: explicit_rule_selects is_permission_def mark_simps)

text \<open>
  The default-network rule matches exactly the locally generated packets whose mark names no
  network and carries the permission bits the network requires, for every UID.
\<close>

theorem default_rule_selects:
  assumes "is_permission permission"
  shows "rule_matches (default_rule permission table) p \<longleftrightarrow>
    pk_iif p = ''lo'' \<and> fm_netId (pk_mark p) = NETID_UNSET \<and>
    fm_permission (pk_mark p) AND permission = permission"
proof -
  have "mark_selects (fm_set_permission permission Fwmark_new)
      (fm_set_permission permission (fm_set_netId FWMARK_NET_ID_MASK Fwmark_new)) (pk_mark p) \<longleftrightarrow>
      fm_netId (pk_mark p) = 0 \<and> fm_permission (pk_mark p) AND permission = permission"
    using assms by (simp add: mark_selects_iff Fwmark_new_def FWMARK_NET_ID_MASK_def mark_simps)
  then show ?thesis by (auto simp: rule_matches_def default_rule_def mk_rule_def)
qed

theorem default_rule_selects_witness:
  "rule_matches (default_rule PERMISSION_NONE 1005)
     \<lparr>pk_family = AF_INET6, pk_uid = 10001, pk_mark = fm_set_permission PERMISSION_SYSTEM 0, pk_iif = ''lo'',
      pk_oif = None\<rparr> \<and>
   \<not> rule_matches (default_rule PERMISSION_NONE 1005)
     \<lparr>pk_family = AF_INET6, pk_uid = 10001, pk_mark = fm_set_netId 100 0, pk_iif = ''lo'', pk_oif = None\<rparr>"
  by (simp add: default_rule_selects is_permission_def mark_simps)

section \<open>Removing undoes adding\<close>

lemma keeps_cache_physical:
  "keeps (\<lambda>w. sInterfaceToTable w = m)
     (chk (modifyIncomingPacketMark K netId interface permission add)
       (chk (modifyExplicitNetworkRule K netId table permission INVALID_UID INVALID_UID add)
       (chk (modifyOutputInterfaceRules K interface table permission INVALID_UID INVALID_UID add)
         (if permission = PERMISSION_NONE then modifyImplicitNetworkRule K netId table add else ret 0))))"
  unfolding op_unfolds by (intro keeps_rules)

text \<open>
  Claim C36. After \<open>modifyPhysicalNetwork\<close> has added the rules of an interface and then removed them
  again, both successfully, the installed rules are the ones from before, in the same order; this
  holds even if the interface has disappeared in between, because the cached table number is used.
  In between, exactly the rules of \<open>physical_rules\<close> were added, for IPv4 and IPv6.
\<close>

theorem modifyPhysicalNetwork_undo:
  assumes "modifyPhysicalNetwork K netId interface permission True w = (0, w1)"
    and "modifyPhysicalNetwork K netId interface permission False w1 = (0, w2)"
    and "if_nametoindex K (trace w1) interface \<in> {0, if_nametoindex K (trace w) interface}"
    and "unmatched (physical_rules netId interface permission (table_of K interface w)) (fib F (trace w))"
  shows "fib F (trace w1) =
      fib F (trace w) @ both (physical_rules netId interface permission (table_of K interface w)) \<and>
    fib F (trace w2) = fib F (trace w)"
  using table_op_undo [OF effects_physical_body effects_physical_body keeps_cache_physical
      assms(1,2) [unfolded modifyPhysicalNetwork_def] assms(3,4)] .

text \<open>The marks and masks of network 100, as numbers.\<close>

lemma marks_100:
  "explicit_fwmark 100 PERMISSION_NONE = 0x10064" "explicit_mask PERMISSION_NONE = 0x1ffff"
  "explicit_fwmark 100 PERMISSION_NETWORK = 0x50064" "explicit_mask PERMISSION_NETWORK = 0x5ffff"
  "fm_set_netId 100 Fwmark_new = 0x64"
  "fm_set_explicitlySelected True (fm_set_netId FWMARK_NET_ID_MASK Fwmark_new) = 0x1ffff"
  "fm_set_protectedFromVpn True Fwmark_new = 0x20000"
  "fm_set_permission PERMISSION_NONE Fwmark_new = 0"
  "fm_set_permission PERMISSION_NETWORK Fwmark_new = 0x40000"
  by (simp_all add: explicit_fwmark_def explicit_mask_def fm_defs bf_set_def Fwmark_new_def
      FWMARK_NET_ID_MASK_def mask_eq_exp_minus_1)

lemmas sendable_simps = sendable_def wf_rule_def name_ok_def mk_rule_def

lemma physical_rules_sendable:
  "permission = PERMISSION_NONE \<or> permission = PERMISSION_NETWORK \<Longrightarrow>
   r \<in> set (physical_rules 100 ''wlan0'' permission 1005) \<Longrightarrow> sendable action r"
  by (auto simp: physical_rules_def explicit_rule_def output_rules_def implicit_rule_def marks_100
      sendable_simps split: if_splits)

lemma physical_acks:
  "permission = PERMISSION_NONE \<or> permission = PERMISSION_NETWORK \<Longrightarrow>
   fst (modifyPhysicalNetwork kern_acks 100 ''wlan0'' permission add w) = 0"
  using physical_rules_sendable [of permission]
  by (simp add: modifyPhysicalNetwork_def with_table_def chk_zero rule_sends send_rule_acks
      physical_rules_def output_rules_def)

theorem modifyPhysicalNetwork_undo_witness:
  "\<exists>w1 w2.
     modifyPhysicalNetwork kern_acks 100 ''wlan0'' PERMISSION_NONE True \<lparr>trace = [], nl_fds = 0, sInterfaceToTable = []\<rparr>
       = (0, w1) \<and>
     modifyPhysicalNetwork kern_acks 100 ''wlan0'' PERMISSION_NONE False w1 = (0, w2) \<and>
     length (fib [] (trace w1)) = 8 \<and> fib [] (trace w2) = []"
proof -
  let ?w = "\<lparr>trace = [], nl_fds = 0, sInterfaceToTable = []\<rparr> :: world"
  obtain w1 where w1: "modifyPhysicalNetwork kern_acks 100 ''wlan0'' PERMISSION_NONE True ?w = (0, w1)"
    using physical_acks [of PERMISSION_NONE True ?w] by (metis prod.collapse)
  obtain w2 where w2: "modifyPhysicalNetwork kern_acks 100 ''wlan0'' PERMISSION_NONE False w1 = (0, w2)"
    using physical_acks [of PERMISSION_NONE False w1] by (metis prod.collapse)
  show ?thesis
    using modifyPhysicalNetwork_undo [OF w1 w2, of "[]"] w1 w2
    by (simp add: unmatched_def physical_rules_def output_rules_def)
qed

lemma keeps_cache_virtual:
  "keeps (\<lambda>w. sInterfaceToTable w = m)
     (chk (chk_all (\<lambda>rng.
              let s = word_of_int (start rng); e = word_of_int (stop rng) in
              chk (modifyVpnUidRangeRule K table s e secure add)
              (chk (modifyExplicitNetworkRule K netId table PERMISSION_NONE s e add)
                (modifyOutputInterfaceRules K interface table PERMISSION_NONE s e add)))
            (getRanges uidRanges))
       (if nonUid then
          chk (modifyIncomingPacketMark K netId interface PERMISSION_NONE add)
          (chk (modifyVpnOutputToLocalRule K interface add)
          (chk (modifyVpnSystemPermissionRule K netId table secure add)
            (modifyExplicitNetworkRule K netId table PERMISSION_NONE UID_ROOT UID_ROOT add)))
        else ret 0))"
  unfolding op_unfolds by (intro keeps_rules)

text \<open>
  Adding users to a VPN and removing the same users restores the installed rules exactly:
  for every UID range, the VPN rule, the explicit rule and the output-interface rule are added for
  both families, and the removal takes away just these.
\<close>

theorem usersVirtualNetwork_undo:
  assumes "addUsersToVirtualNetwork K netId interface secure uidRanges w = (0, w1)"
    and "removeUsersFromVirtualNetwork K netId interface secure uidRanges w1 = (0, w2)"
    and "if_nametoindex K (trace w1) interface \<in> {0, if_nametoindex K (trace w) interface}"
    and "unmatched (virtual_rules netId interface uidRanges secure False (table_of K interface w)) (fib F (trace w))"
  shows "fib F (trace w1) =
      fib F (trace w) @ both (concat (map (range_rules netId interface secure (table_of K interface w))
        (getRanges uidRanges))) \<and>
    fib F (trace w2) = fib F (trace w)"
  using table_op_undo [OF effects_virtual_body effects_virtual_body keeps_cache_virtual
      assms(1,2) [unfolded addUsersToVirtualNetwork_def removeUsersFromVirtualNetwork_def
        modifyVirtualNetwork_def] assms(3,4)]
  by (simp add: virtual_rules_def)


lemma range_rules_sendable:
  "r \<in> set (range_rules 100 ''tun0'' True 1005 (UidRangeParcel 10000 19999)) \<Longrightarrow> sendable action r"
  by (auto simp: range_rules_def vpn_uid_rule_def explicit_rule_def output_rules_def marks_100
      sendable_simps)

lemma users_acks:
  "fst (modifyVirtualNetwork kern_acks 100 ''tun0'' [UidRangeParcel 10000 19999] True add False w) = 0"
  using range_rules_sendable
  by (simp add: modifyVirtualNetwork_def with_table_def chk_zero rule_sends send_rule_acks
      range_rules_def output_rules_def getRanges_def)

theorem usersVirtualNetwork_undo_witness:
  "\<exists>w1 w2.
     addUsersToVirtualNetwork kern_acks 100 ''tun0'' True [UidRangeParcel 10000 19999]
       \<lparr>trace = [], nl_fds = 0, sInterfaceToTable = []\<rparr> = (0, w1) \<and>
     removeUsersFromVirtualNetwork kern_acks 100 ''tun0'' True [UidRangeParcel 10000 19999] w1 = (0, w2) \<and>
     length (fib [] (trace w1)) = 6 \<and> fib [] (trace w2) = []"
proof -
  let ?w = "\<lparr>trace = [], nl_fds = 0, sInterfaceToTable = []\<rparr> :: world" and ?U = "[UidRangeParcel 10000 19999]"
  obtain w1 where w1: "addUsersToVirtualNetwork kern_acks 100 ''tun0'' True ?U ?w = (0, w1)"
    using users_acks [of True ?w] unfolding addUsersToVirtualNetwork_def by (metis prod.collapse)
  obtain w2 where w2: "removeUsersFromVirtualNetwork kern_acks 100 ''tun0'' True ?U w1 = (0, w2)"
    using users_acks [of False w1] unfolding removeUsersFromVirtualNetwork_def by (metis prod.collapse)
  show ?thesis
    using usersVirtualNetwork_undo [OF w1 w2, of "[]"] w1 w2
    by (simp add: unmatched_def range_rules_def output_rules_def getRanges_def)
qed

section \<open>Permission changes\<close>

lemma explicit_mask_inject:
  assumes "is_permission p" "is_permission q" "explicit_mask p = explicit_mask q"
  shows "p = q"
proof -
  have "fm_permission (explicit_mask p) = fm_permission (explicit_mask q)" using assms(3) by simp
  then show ?thesis using assms(1,2) by (simp add: explicit_mask_def mark_simps)
qed

lemma explicit_mask_nonzero: "explicit_mask p \<noteq> 0"
proof
  assume "explicit_mask p = 0"
  then have "fm_explicitlySelected (explicit_mask p) = fm_explicitlySelected 0" by simp
  then show False by (simp add: explicit_mask_def mark_simps)
qed

lemma physical_rules_other_permission:
  assumes "is_permission p" "is_permission q" "p \<noteq> q" "r \<in> set (physical_rules netId interface p t)"
  shows "\<not> del_matches r (explicit_rule netId t' q INVALID_UID INVALID_UID)"
  using assms explicit_mask_inject [of p q] explicit_mask_nonzero [of p]
  by (auto simp: physical_rules_def output_rules_def explicit_rule_def implicit_rule_def
      del_matches_def mk_rule_def split: if_splits)

lemma always_physical_add:
  assumes "\<And>G G'. P G \<Longrightarrow> P (G @ G')"
  shows "always (\<lambda>h. P (fib F h)) (modifyPhysicalNetwork K netId interface permission True)"
  unfolding modifyPhysicalNetwork_def rule_sends nl_rule_action_def
  by (intro always_with_table always_rules always_incoming)
    (simp_all add: always_add_keeps assms always_ret always_chk)

lemma always_physical_del:
  assumes "\<And>t r. r \<in> set (physical_rules netId interface permission t) \<Longrightarrow> \<not> del_matches r x"
  shows "always (\<lambda>h. (family, x) \<in> set (fib F h)) (modifyPhysicalNetwork K netId interface permission False)"
proof -
  have d: "always (\<lambda>h. (family, x) \<in> set (fib F h)) (send_rule K RTM_DELRULE r)"
    if "r \<in> set (physical_rules netId interface permission t)" for r t
    using assms [OF that] by (rule always_del_keeps)
  show ?thesis
    unfolding modifyPhysicalNetwork_def rule_sends nl_rule_action_def
    by (intro always_with_table always_rules always_incoming)
      (auto intro!: d always_chk always_ret simp: physical_rules_def output_rules_def)
qed


definition has_explicit :: "netid \<Rightarrow> u32 set \<Rightarrow> u8 \<Rightarrow> fib \<Rightarrow> bool" where
  "has_explicit netId ps family F \<longleftrightarrow>
     (\<exists>table. \<exists>p \<in> ps. (family, explicit_rule netId table p INVALID_UID INVALID_UID) \<in> set F)"

lemma physical_add_explicit:
  assumes "fst (modifyPhysicalNetwork K netId interface p True w) = 0" "family = AF_INET \<or> family = AF_INET6"
  shows "\<exists>table. (family, explicit_rule netId table p INVALID_UID INVALID_UID) \<in>
    set (fib F (trace (snd (modifyPhysicalNetwork K netId interface p True w))))"
proof -
  let ?t = "table_of K interface w"
  obtain w' where w': "trace w' = trace w"
    "modifyPhysicalNetwork K netId interface p True w = (\<lambda>table.
       chk (modifyIncomingPacketMark K netId interface p True)
       (chk (modifyExplicitNetworkRule K netId table p INVALID_UID INVALID_UID True)
       (chk (modifyOutputInterfaceRules K interface table p INVALID_UID INVALID_UID True)
         (if p = PERMISSION_NONE then modifyImplicitNetworkRule K netId table True else ret 0)))) ?t w'"
    using assms(1) unfolding modifyPhysicalNetwork_def by (blast elim: with_table_ok)
  have "fib F (trace (snd (modifyPhysicalNetwork K netId interface p True w))) =
      fib F (trace w') @ both (physical_rules netId interface p ?t)"
    using effects_addD [OF effects_physical_body, of K netId interface p ?t w' F] assms(1) w' by simp
  then show ?thesis using assms(2) by (auto simp: physical_rules_def set_both)
qed

text \<open>
  Claim C7. While \<open>modifyPhysicalNetworkPermission\<close> changes the permission of an interface there is, in
  every intermediate state and for both families, an explicit-network rule for the network with the
  old or the new permission, whichever requests fail and whatever the operation returns: sockets that
  selected the network explicitly never lose it on the way.
\<close>

theorem modifyPhysicalNetworkPermission_no_gap:
  assumes "is_permission oldPermission" "is_permission newPermission" "oldPermission \<noteq> newPermission"
    and "family = AF_INET \<or> family = AF_INET6"
    and "has_explicit netId {oldPermission} family (fib F (trace w))"
    and "modifyPhysicalNetworkPermission K netId interface oldPermission newPermission w = (res, w')"
    and "prefix (trace w) h" "prefix h (trace w')"
  shows "has_explicit netId {oldPermission, newPermission} family (fib F h)"
proof -
  let ?I = "\<lambda>h. has_explicit netId {oldPermission, newPermission} family (fib F h)"
  let ?J = "\<lambda>h. \<exists>t. (family, explicit_rule netId t newPermission INVALID_UID INVALID_UID) \<in> set (fib F h)"
  have "always ?I (modifyPhysicalNetworkPermission K netId interface oldPermission newPermission)"
    unfolding modifyPhysicalNetworkPermission_def
  proof (rule always_phases)
    show "always ?I (modifyPhysicalNetwork K netId interface newPermission True)"
      by (rule always_physical_add) (auto simp: has_explicit_def)
    show "always ?J (modifyPhysicalNetwork K netId interface oldPermission False)"
      using assms(1-3) by (intro always_ex always_physical_del physical_rules_other_permission)
    show "?I h" if "?J h" for h using that by (auto simp: has_explicit_def)
    show "?J (trace (snd (modifyPhysicalNetwork K netId interface newPermission True w)))"
      if "fst (modifyPhysicalNetwork K netId interface newPermission True w) = 0" for w
      using physical_add_explicit [OF that assms(4)] .
  qed
  moreover have "?I (trace w)" using assms(5) by (auto simp: has_explicit_def)
  ultimately show ?thesis using assms(6-8) by (auto dest: alwaysD)
qed

theorem modifyPhysicalNetworkPermission_no_gap_witness:
  "\<exists>w'. modifyPhysicalNetworkPermission kern_acks 100 ''wlan0'' PERMISSION_NONE PERMISSION_NETWORK
       \<lparr>trace = [], nl_fds = 0, sInterfaceToTable = []\<rparr> = (0, w') \<and>
     has_explicit 100 {PERMISSION_NONE, PERMISSION_NETWORK} AF_INET6
       (fib (both (physical_rules 100 ''wlan0'' PERMISSION_NONE 1005)) (trace w'))"
proof -
  let ?w = "\<lparr>trace = [], nl_fds = 0, sInterfaceToTable = []\<rparr> :: world"
  let ?F = "both (physical_rules 100 ''wlan0'' PERMISSION_NONE 1005)"
  have "fst (modifyPhysicalNetworkPermission kern_acks 100 ''wlan0'' PERMISSION_NONE PERMISSION_NETWORK ?w) = 0"
    by (simp add: modifyPhysicalNetworkPermission_def chk_zero physical_acks)
  then obtain w' where w': "modifyPhysicalNetworkPermission kern_acks 100 ''wlan0'' PERMISSION_NONE
      PERMISSION_NETWORK ?w = (0, w')" by (metis prod.collapse)
  have "has_explicit 100 {PERMISSION_NONE} AF_INET6 (fib ?F (trace ?w))"
    by (auto simp: has_explicit_def physical_rules_def)
  from modifyPhysicalNetworkPermission_no_gap [OF _ _ _ _ this w', of "trace w'"]
  show ?thesis using w' by (simp add: is_permission_def)
qed

section \<open>Lockdown\<close>

lemma reject_rule_matches:
  assumes "0 \<le> start rng" "start rng \<le> uint (pk_uid p)" "uint (pk_uid p) \<le> stop rng" "stop rng < 2 ^ 31"
    "pk_iif p = ''lo''" "\<not> fm_protectedFromVpn (pk_mark p)"
  shows "rule_matches (reject_rule rng) p"
proof -
  have "mark_selects 0 (fm_set_protectedFromVpn True Fwmark_new) (pk_mark p)"
    using assms(6) by (simp add: mark_selects_iff Fwmark_new_def mark_simps)
  moreover have "uint (word_of_int (start rng) :: u32) = start rng" "uint (word_of_int (stop rng) :: u32) = stop rng"
    using assms(1-4) by (simp_all add: uint_word_of_int_eq take_bit_int_eq_self)
  ultimately show ?thesis
    using assms by (simp add: rule_matches_def reject_rule_def mk_rule_def word_le_def)
qed

lemma lockdown_stops:
  assumes "addUsersToRejectNonSecureNetworkRule K uidRanges w = (0, w')"
    and "rng \<in> set (getRanges uidRanges)" "0 \<le> start rng" "stop rng < 2 ^ 31"
    and "start rng \<le> uint (pk_uid p)" "uint (pk_uid p) \<le> stop rng"
    and "pk_iif p = ''lo''" "\<not> fm_protectedFromVpn (pk_mark p)"
    and "pk_family p = AF_INET \<or> pk_family p = AF_INET6"
  shows "\<exists>r. deciding_rule (fib_lookup routes (fib F (trace w')) p) = Some r \<and>
    fr_priority r \<le> RULE_PRIORITY_PROHIBIT_NON_VPN"
proof -
  have "(pk_family p, reject_rule rng) \<in> set (fib F (trace w'))"
    using effects_addD [OF effects_reject, of K uidRanges w F] assms(1,2,9)
    by (auto simp: addUsersToRejectNonSecureNetworkRule_def set_both)
  moreover have "rule_matches (reject_rule rng) p"
    using assms by (intro reject_rule_matches) auto
  ultimately show ?thesis
    using lookup_stops [of p "reject_rule rng" "fib F (trace w')" routes]
    by (simp add: reject_rule_def mk_rule_def)
qed

text \<open>
  Once \<open>addUsersToRejectNonSecureNetworkRule\<close> has returned 0, no locally generated packet of a
  covered UID whose mark is not protected from VPNs gets past priority 12500: the walk ends in a rule
  of at most that priority (a secure VPN or an override), or the packet is rejected. It never reaches
  the explicit, output-interface, implicit or default network rules.
\<close>

theorem lockdown_effective:
  assumes "addUsersToRejectNonSecureNetworkRule K uidRanges w = (0, w')"
    and "rng \<in> set (getRanges uidRanges)" "0 \<le> start rng" "stop rng < 2 ^ 31"
    and "start rng \<le> uint (pk_uid p)" "uint (pk_uid p) \<le> stop rng"
    and "pk_iif p = ''lo''" "\<not> fm_protectedFromVpn (pk_mark p)"
    and "pk_family p = AF_INET \<or> pk_family p = AF_INET6"
  shows "\<exists>r. deciding_rule (fib_lookup routes (fib F (trace w')) p) = Some r \<and>
    fr_priority r \<le> RULE_PRIORITY_PROHIBIT_NON_VPN"
  using assms by (rule lockdown_stops)

theorem lockdown_effective_witness:
  "\<exists>w' r. addUsersToRejectNonSecureNetworkRule kern_acks [UidRangeParcel 10000 19999]
       \<lparr>trace = [], nl_fds = 0, sInterfaceToTable = []\<rparr> = (0, w') \<and>
     deciding_rule (fib_lookup (\<lambda>t. True) (fib [(AF_INET, default_rule PERMISSION_NONE 1005)] (trace w'))
       \<lparr>pk_family = AF_INET, pk_uid = 10005, pk_mark = 0, pk_iif = ''lo'', pk_oif = None\<rparr>) = Some r \<and>
     fr_priority r \<le> RULE_PRIORITY_PROHIBIT_NON_VPN"
proof -
  let ?w = "\<lparr>trace = [], nl_fds = 0, sInterfaceToTable = []\<rparr> :: world" and ?U = "[UidRangeParcel 10000 19999]"
  have "sendable action (reject_rule (UidRangeParcel 10000 19999))" for action
    by (simp add: reject_rule_def sendable_simps marks_100)
  then have "fst (addUsersToRejectNonSecureNetworkRule kern_acks ?U ?w) = 0"
    by (simp add: addUsersToRejectNonSecureNetworkRule_def reject_send getRanges_def chk_zero send_rule_acks)
  then obtain w' where w': "addUsersToRejectNonSecureNetworkRule kern_acks ?U ?w = (0, w')"
    by (metis prod.collapse)
  show ?thesis
    using lockdown_effective [OF w', of "UidRangeParcel 10000 19999"
        "\<lparr>pk_family = AF_INET, pk_uid = 10005, pk_mark = 0, pk_iif = ''lo'', pk_oif = None\<rparr>"
        "\<lambda>t. True" "[(AF_INET, default_rule PERMISSION_NONE 1005)]"] w'
    by (auto simp: getRanges_def mark_simps)
qed

section \<open>Flushing\<close>

lemma length_rtattrs_le: "\<forall>(t, p) \<in> set as. length p \<le> 16 \<Longrightarrow> length (rtattrs as) \<le> 24 * length as"
proof (induction as)
  case (Cons tp as)
  obtain t p where "tp = (t, p)" by fastforce
  then show ?case using Cons align4_less [of "4 + length p"] by (simp add: rtattrs_Cons)
qed simp

lemma length_rule_attrs:
  assumes "wf_rule r"
  shows "length (rtattrs (rule_attrs r)) \<le> 168"
proof -
  have "\<forall>(t, p) \<in> set (rule_attrs r). length p \<le> 16"
    using assms by (auto simp: rule_attrs_def name_attr_def name_payload_def str_bytes_def wf_rule_def
        name_ok_def split: option.splits if_splits)
  moreover have "length (rule_attrs r) \<le> 7"
    by (simp add: rule_attrs_def name_attr_def split: option.splits prod.splits)
  ultimately show ?thesis using length_rtattrs_le [of "rule_attrs r"] by linarith
qed

lemma getRulePriority_rule_msg:
  assumes "wf_rule r"
  shows "getRulePriority (rule_msg action family r) = Some (fr_priority r)"
proof -
  have m: "map_of (rule_attrs r) FRA_PRIORITY = Some (le32 (fr_priority r))"
    by (simp add: rule_attrs_def)
  have "wf_attrs (rule_attrs r)" using assms by (intro wf_attrs_rule) (auto simp: wf_rule_def)
  then show ?thesis
    unfolding getRulePriority_def rule_msg_def
    using getRtmU32Attribute_message [OF rule_message_bytes [OF assms, of family], of FRA_PRIORITY]
      length_rule_attrs [OF assms] m by (simp add: fib_rule_hdr_def)
qed

lemma flushMessage_rule:
  "flushMessage RTM_DELRULE (rule_msg RTM_NEWRULE family r) = rule_msg RTM_DELRULE family r"
  by (simp add: flushMessage_def rule_msg_def netlinkMessage_def nlmsghdr_def nl_flag_defs numeral_2_eq_2)

text \<open>
  Shown a rule in a dump, the callback of \<open>flushRules\<close> leaves a rule of priority 0 (the
  kernel's own local-table rule) alone, and for every other rule sends exactly one request, which is
  the deletion of that very rule for its family.
\<close>

theorem flushRules_callback:
  assumes "wf_rule r"
    and "cb = flushCallback K RTM_DELRULE (\<lambda>nlh. map_option (\<lambda>p. p \<noteq> 0) (getRulePriority nlh))"
  shows "\<exists>w'. cb (rule_msg RTM_NEWRULE family r) w = Some w' \<and>
    (if fr_priority r = 0 then w' = w
     else \<exists>msg out. trace w' = trace w @ [EvNetlink msg out] \<and> nlmsg_type msg = RTM_DELRULE \<and>
       decode_rule msg = Some (family, r))"
proof -
  let ?m = "rule_msg RTM_DELRULE family r"
  have "nlmsg_type ?m = RTM_DELRULE"
    unfolding rule_msg_def by (rule nlmsg_type_netlinkMessage)
  then show ?thesis
    using getRulePriority_rule_msg [OF assms(1), of RTM_NEWRULE family] decode_rule_msg [OF assms(1)]
    by (cases "fr_priority r = 0") (auto simp: assms(2) flushCallback_def flushMessage_rule Let_def)
qed

theorem flushRules_callback_witness:
  "\<exists>w' msg out. flushCallback kern_acks RTM_DELRULE (\<lambda>nlh. map_option (\<lambda>p. p \<noteq> 0) (getRulePriority nlh))
       (rule_msg RTM_NEWRULE AF_INET6 (default_rule PERMISSION_NONE 1005))
       \<lparr>trace = [], nl_fds = 1, sInterfaceToTable = []\<rparr> = Some w' \<and>
     trace w' = [EvNetlink msg out] \<and> decode_rule msg = Some (AF_INET6, default_rule PERMISSION_NONE 1005)"
proof -
  have "wf_rule (default_rule PERMISSION_NONE 1005)"
    by (simp add: default_rule_def sendable_simps marks_100)
  from flushRules_callback [OF this refl, of kern_acks AF_INET6 "\<lparr>trace = [], nl_fds = 1, sInterfaceToTable = []\<rparr>"]
  show ?thesis by (auto simp: default_rule_def mk_rule_def)
qed


section \<open>The tethering loop\<close>

text \<open>
  A kernel whose sockets work and which answers a deletion by the rules it has: 0 if one matches, and
  \<open>ENOENT\<close> otherwise.
\<close>

definition deletes_by_rules :: "fib \<Rightarrow> kern \<Rightarrow> bool" where
  "deletes_by_rules F K \<longleftrightarrow>
     (\<forall>h. nl_open K h = SockOpen) \<and> (\<forall>h m. nl_write K h m = 0) \<and>
     (\<forall>h m family r. decode_rule m = Some (family, r) \<longrightarrow> nlmsg_type m = RTM_DELRULE \<longrightarrow>
        nl_recv K h m = RecvBytes 36
          (if \<exists>r'. (family, r') \<in> set (fib F h) \<and> del_matches r r' then 0 else - ENOENT))"

definition tethering_key :: "string \<Rightarrow> fib_rule" where
  "tethering_key inputInterface =
     mk_rule RULE_PRIORITY_TETHERING FR_ACT_TO_TBL 0 MARK_UNSET MARK_UNSET (Some inputInterface) OIF_NONE
       INVALID_UID INVALID_UID"

definition matching :: "fib_rule \<Rightarrow> u8 \<Rightarrow> fib \<Rightarrow> nat" where
  "matching d family F = length (filter (\<lambda>(f, r). f = family \<and> del_matches d r) F)"

lemma matching_zero: "matching d family F = 0 \<longleftrightarrow> \<not> (\<exists>r. (family, r) \<in> set F \<and> del_matches d r)"
  by (auto simp: matching_def filter_empty_conv)

lemma matching_remove_first:
  "matching d family (remove_first (\<lambda>(f, r). f = family' \<and> del_matches d r) F) =
     (if family = family' then matching d family F - 1 else matching d family F)"
  by (induction F) (auto simp: matching_def)

text \<open>One deletion with such a kernel.\<close>

lemma sendAcked_deletes:
  assumes K: "deletes_by_rules F K" and wf: "wf_rule d"
  shows "\<exists>w'. sendAcked K RTM_DELRULE (rule_flags RTM_DELRULE) (rule_iov family d) w =
      (if matching d family (fib F (trace w)) = 0 then - ENOENT else 0, w') \<and>
    fib F (trace w') = remove_first (\<lambda>(f, r). f = family \<and> del_matches d r) (fib F (trace w))"
proof -
  let ?m = "netlinkMessage RTM_DELRULE (rule_flags RTM_DELRULE) (rule_iov family d)"
  have m: "?m = rule_msg RTM_DELRULE family d" by (simp add: rule_msg_def rule_flags_def)
  have ty: "nlmsg_type ?m = RTM_DELRULE" by (rule nlmsg_type_netlinkMessage)
  have r: "nl_recv K (trace w) ?m =
      RecvBytes 36 (if matching d family (fib F (trace w)) = 0 then - ENOENT else 0)"
    using K ty decode_rule_msg [OF wf, of RTM_DELRULE family] by (auto simp: deletes_by_rules_def matching_zero m)
  have none: "matching d family G = 0 \<Longrightarrow> remove_first (\<lambda>(f, r). f = family \<and> del_matches d r) G = G" for G
    by (induction G) (auto simp: matching_def split: if_splits)
  have run: "sendAcked K RTM_DELRULE (rule_flags RTM_DELRULE) (rule_iov family d) w =
      (recvNetlinkAck (nl_recv K (trace w) ?m),
       close_sock (log_event (EvNetlink ?m (Acked (nl_recv K (trace w) ?m))) (w\<lparr>nl_fds := nl_fds w + 1\<rparr>)))"
    using K rule_flags_ack [of RTM_DELRULE]
    by (simp add: sendAcked_def sendNetlinkRequest_def openNetlinkSocket_def deletes_by_rules_def Let_def)
  have ev: "EvNetlink ?m out = rule_event RTM_DELRULE family d out" for out
    by (simp add: m rule_event_def)
  show ?thesis
    unfolding run r ev
    by (auto simp: close_sock_def recvNetlinkAck_def fib_step_rule_event [OF wf] acked_ok_def none)
qed


lemma send_rule_deletes:
  assumes K: "deletes_by_rules F K" and d: "sendable RTM_DELRULE d"
    and eq: "matching d AF_INET (fib F (trace w)) = n" "matching d AF_INET6 (fib F (trace w)) = n"
  shows "\<exists>w'. send_rule K RTM_DELRULE d w = (if n = 0 then - ENOENT else 0, w') \<and>
    matching d AF_INET (fib F (trace w')) = n - 1 \<and> matching d AF_INET6 (fib F (trace w')) = n - 1"
proof -
  let ?f = "\<lambda>family. sendAcked K RTM_DELRULE (rule_flags RTM_DELRULE) (rule_iov family d)"
  have wf: "wf_rule d" using d by (simp add: sendable_def)
  obtain w1 where w1: "?f AF_INET w = (if n = 0 then - ENOENT else 0, w1)"
    "fib F (trace w1) = remove_first (\<lambda>(f, r). f = AF_INET \<and> del_matches d r) (fib F (trace w))"
    using sendAcked_deletes [OF K wf, of AF_INET w] eq by auto
  have m1: "matching d AF_INET (fib F (trace w1)) = n - 1" "matching d AF_INET6 (fib F (trace w1)) = n"
    by (simp_all add: w1(2) matching_remove_first eq)
  obtain w2 where w2: "?f AF_INET6 w1 = (if n = 0 then - ENOENT else 0, w2)"
    "fib F (trace w2) = remove_first (\<lambda>(f, r). f = AF_INET6 \<and> del_matches d r) (fib F (trace w1))"
    using sendAcked_deletes [OF K wf, of AF_INET6 w1] m1 by auto
  have m2: "matching d AF_INET (fib F (trace w2)) = n - 1" "matching d AF_INET6 (fib F (trace w2)) = n - 1"
    by (simp_all add: w2(2) matching_remove_first m1)
  show ?thesis
    using w1 w2 m1 m2 by (cases "n = 0") (simp_all add: send_rule_sendable [OF d] AF_FAMILIES_def chk_def)
qed

lemma sendable_tethering: "length inputInterface < 16 \<Longrightarrow> sendable RTM_DELRULE (tethering_key inputInterface)"
  by (simp add: tethering_key_def sendable_simps)

lemma clearTetheringLoop_ends:
  assumes K: "deletes_by_rules F K" and i: "length inputInterface < 16"
    and "matching (tethering_key inputInterface) AF_INET (fib F (trace w)) = n"
    and "matching (tethering_key inputInterface) AF_INET6 (fib F (trace w)) = n"
  shows "\<exists>w'. clearTetheringLoop K inputInterface w = Some (- ENOENT, w') \<and>
    matching (tethering_key inputInterface) AF_INET (fib F (trace w')) = 0 \<and>
    matching (tethering_key inputInterface) AF_INET6 (fib F (trace w')) = 0"
  using assms(3,4)
proof (induction n arbitrary: w)
  case 0
  then show ?case
    using send_rule_deletes [OF K sendable_tethering [OF i], of w 0]
    by (subst clearTetheringLoop.simps) (auto simp: to_send_rule tethering_key_def)
next
  case (Suc n)
  obtain w' where w': "send_rule K RTM_DELRULE (tethering_key inputInterface) w = (0, w')"
    "matching (tethering_key inputInterface) AF_INET (fib F (trace w')) = n"
    "matching (tethering_key inputInterface) AF_INET6 (fib F (trace w')) = n"
    using send_rule_deletes [OF K sendable_tethering [OF i] Suc.prems] by auto
  have "clearTetheringLoop K inputInterface w = clearTetheringLoop K inputInterface w'"
    using w'(1) by (subst clearTetheringLoop.simps) (simp add: to_send_rule tethering_key_def)
  then show ?case using Suc.IH [OF w'(2,3)] by simp
qed

text \<open>
  Claim C37. With a kernel that answers a deletion by the rules it has, the loop of
  \<open>clearTetheringRules\<close> ends for every interface name that fits and every installed rule set in which
  the tethering rules come in IPv4/IPv6 pairs: the operation returns 0, and no tethering rule for the
  interface, to any upstream table, is left in either family.
\<close>

theorem clearTetheringRules_clears:
  assumes "deletes_by_rules F K" "length inputInterface < 16"
    and "matching (tethering_key inputInterface) AF_INET (fib F (trace w)) =
      matching (tethering_key inputInterface) AF_INET6 (fib F (trace w))"
  shows "\<exists>w'. clearTetheringRules K inputInterface w = Some (0, w') \<and>
    (\<forall>(family, r) \<in> set (fib F (trace w')). (family = AF_INET \<or> family = AF_INET6) \<longrightarrow>
       \<not> del_matches (tethering_key inputInterface) r)"
proof -
  obtain w' where w': "clearTetheringLoop K inputInterface w = Some (- ENOENT, w')"
    "matching (tethering_key inputInterface) AF_INET (fib F (trace w')) = 0"
    "matching (tethering_key inputInterface) AF_INET6 (fib F (trace w')) = 0"
    using clearTetheringLoop_ends [OF assms(1,2) refl assms(3) [symmetric]] by blast
  then show ?thesis unfolding matching_zero by (auto simp: clearTetheringRules_def)
qed

theorem clearTetheringRules_clears_witness:
  "\<exists>w'. clearTetheringRules (kern_rules (both [mk_rule 18000 1 1005 0 0 (Some ''wlan0'') None INVALID_UID INVALID_UID,
       mk_rule 18000 1 1006 0 0 (Some ''wlan0'') None INVALID_UID INVALID_UID])) ''wlan0''
       \<lparr>trace = [], nl_fds = 0, sInterfaceToTable = []\<rparr> = Some (0, w')"
proof -
  let ?F = "both [mk_rule 18000 1 1005 0 0 (Some ''wlan0'') None INVALID_UID INVALID_UID,
       mk_rule 18000 1 1006 0 0 (Some ''wlan0'') None INVALID_UID INVALID_UID]"
  have "deletes_by_rules F (kern_rules F)" for F
    by (auto simp: deletes_by_rules_def kern_rules_def kern_acks_def list_ex_iff)
  moreover have "matching (tethering_key ''wlan0'') AF_INET ?F = 2" "matching (tethering_key ''wlan0'') AF_INET6 ?F = 2"
    by (simp_all add: matching_def tethering_key_def del_matches_def mk_rule_def)
  ultimately show ?thesis
    using clearTetheringRules_clears [of ?F "kern_rules ?F" "''wlan0''"
        "\<lparr>trace = [], nl_fds = 0, sInterfaceToTable = []\<rparr>"] by auto
qed

end
