(* ===== verification/Networks.thy ===== *)
theory Networks
  imports Route_Controller
begin

unbundle bit_operations_syntax

text \<open>
  server/Network.cpp and its four subclasses. A network object is a record of the members of
  \<open>Network\<close> and, in its \<open>kind\<close>, those of the subclass; virtual methods dispatch on the kind. An
  operation acts on the object and the \<open>world\<close>; \<open>None\<close> means that it does not return, or that a
  method of a subclass was called on an object of another class (undefined behaviour). The locale
  \<open>interface_set\<close> is the contract of \<open>addInterface\<close> and \<open>removeInterface\<close> on which
  \<open>clearInterfaces\<close> relies.
\<close>

section \<open>Objects\<close>

datatype net_type = DUMMY | LOCAL | PHYSICAL | VIRTUAL

datatype net_kind =
    DummyNetwork
  | LocalNetwork
  | PhysicalNetwork (mPermission: u32) (mIsDefault: bool)
  | VirtualNetwork (mSecure: bool) (mUidRanges: UidRanges)

record network =
  mNetId :: netid
  mInterfaces :: "string list"
  kind :: net_kind

definition DummyNetwork_new :: "netid \<Rightarrow> network" where
  "DummyNetwork_new netId = \<lparr>mNetId = netId, mInterfaces = os_insert ''dummy0'' [], kind = DummyNetwork\<rparr>"

definition LocalNetwork_new :: "netid \<Rightarrow> network" where
  "LocalNetwork_new netId = \<lparr>mNetId = netId, mInterfaces = [], kind = LocalNetwork\<rparr>"

definition PhysicalNetwork_new :: "netid \<Rightarrow> network" where
  "PhysicalNetwork_new netId = \<lparr>mNetId = netId, mInterfaces = [], kind = PhysicalNetwork PERMISSION_NONE False\<rparr>"

definition VirtualNetwork_new :: "netid \<Rightarrow> bool \<Rightarrow> network" where
  "VirtualNetwork_new netId secure = \<lparr>mNetId = netId, mInterfaces = [], kind = VirtualNetwork secure []\<rparr>"

definition getType :: "network \<Rightarrow> net_type" where
  "getType n = (case kind n of DummyNetwork \<Rightarrow> DUMMY | LocalNetwork \<Rightarrow> LOCAL
     | PhysicalNetwork _ _ \<Rightarrow> PHYSICAL | VirtualNetwork _ _ \<Rightarrow> VIRTUAL)"

definition hasInterface :: "network \<Rightarrow> string \<Rightarrow> bool" where
  "hasInterface n interface \<longleftrightarrow> interface \<in> set (mInterfaces n)"

fun join :: "string \<Rightarrow> string list \<Rightarrow> string" where
  "join sep [] = []"
| "join sep [x] = x"
| "join sep (x # xs) = x @ sep @ join sep xs"

definition network_toString :: "network \<Rightarrow> string" where
  "network_toString n = fmt_u (mNetId n) @ '' ''
     @ (case getType n of DUMMY \<Rightarrow> ''DUMMY'' | LOCAL \<Rightarrow> ''LOCAL'' | PHYSICAL \<Rightarrow> ''PHYSICAL'' | VIRTUAL \<Rightarrow> ''VIRTUAL'')
     @ (if mInterfaces n \<noteq> [] then '' '' @ join '','' (mInterfaces n) else [])"

section \<open>Actions on an object\<close>

type_synonym nstate = "network \<times> world"

definition on_world :: "world pact \<Rightarrow> nstate pact" where
  "on_world f s = (case f (snd s) of None \<Rightarrow> None | Some (r, w) \<Rightarrow> Some (r, fst s, w))"

definition update_obj :: "(network \<Rightarrow> network) \<Rightarrow> nstate pact" where
  "update_obj f s = Some (0, f (fst s), snd s)"

definition insert_interface :: "string \<Rightarrow> network \<Rightarrow> network" where
  "insert_interface interface n = n\<lparr>mInterfaces := os_insert interface (mInterfaces n)\<rparr>"

definition erase_interface :: "string \<Rightarrow> network \<Rightarrow> network" where
  "erase_interface interface n = n\<lparr>mInterfaces := os_erase interface (mInterfaces n)\<rparr>"

section \<open>PhysicalNetwork\<close>

text \<open>\<open>PhysicalNetwork::Delegate\<close>: \<open>True\<close> is \<open>addFallthrough\<close>, \<open>False\<close> is \<open>removeFallthrough\<close>.\<close>

type_synonym delegate = "bool \<Rightarrow> string \<Rightarrow> u32 \<Rightarrow> world act"

definition addToDefault :: "kern \<Rightarrow> delegate \<Rightarrow> string \<Rightarrow> u32 \<Rightarrow> world act" where
  "addToDefault K delegate interface permission =
     chk (addInterfaceToDefaultNetwork K interface permission) (delegate True interface permission)"

definition removeFromDefault :: "kern \<Rightarrow> delegate \<Rightarrow> string \<Rightarrow> u32 \<Rightarrow> world act" where
  "removeFromDefault K delegate interface permission =
     chk (removeInterfaceFromDefaultNetwork K interface permission) (delegate False interface permission)"

definition destroySocketsLackingPermission :: "kern \<Rightarrow> netid \<Rightarrow> u32 \<Rightarrow> world act" where
  "destroySocketsLackingPermission K netId permission w =
     (if permission = PERMISSION_NONE then (0, w)
      else if \<not> sd_open K (trace w) then (- EBADFD, w)
      else let req = LackingPermission netId permission; r = sock_destroy K (trace w) req
           in (r, log_event (EvDestroySockets req r) w))"

definition invalidateRouteCache :: "kern \<Rightarrow> string \<Rightarrow> world \<Rightarrow> world" where
  "invalidateRouteCache K interface w =
     foldl (\<lambda>w dst. snd (removeRoute K interface (Some dst) (Some ''throw'') INTERFACE
              (snd (addRoute K interface (Some dst) (Some ''throw'') INTERFACE w))))
       w [''0.0.0.0/0'', ''::/0'']"

definition set_permission_loops :: "kern \<Rightarrow> delegate \<Rightarrow> netid \<Rightarrow> string list \<Rightarrow> bool \<Rightarrow> u32 \<Rightarrow> u32 \<Rightarrow> world act" where
  "set_permission_loops K delegate netId interfaces isDefault old permission =
     chk (chk_all (\<lambda>interface. chk (modifyPhysicalNetworkPermission K netId interface old permission)
              (\<lambda>w. (0, invalidateRouteCache K interface w))) interfaces)
       (if isDefault
        then chk_all (\<lambda>interface. chk (addToDefault K delegate interface permission)
                (removeFromDefault K delegate interface old)) interfaces
        else ret 0)"

definition setPermission :: "kern \<Rightarrow> delegate \<Rightarrow> u32 \<Rightarrow> nstate pact" where
  "setPermission K delegate permission s =
     (case s of (n, w) \<Rightarrow>
      case kind n of
        PhysicalNetwork old isDefault \<Rightarrow>
          if permission = old then Some (0, n, w)
          else if mInterfaces n = [] then Some (0, n\<lparr>kind := PhysicalNetwork permission isDefault\<rparr>, w)
          else
            (let w1 = snd (destroySocketsLackingPermission K (mNetId n) permission w) in
             case set_permission_loops K delegate (mNetId n) (mInterfaces n) isDefault old permission w1 of
               (r, w2) \<Rightarrow>
                 if r \<noteq> 0 then Some (r, n, w2)
                 else Some (0, n\<lparr>kind := PhysicalNetwork permission isDefault\<rparr>,
                        snd (destroySocketsLackingPermission K (mNetId n) permission w2)))
      | _ \<Rightarrow> None)"

definition addAsDefault :: "kern \<Rightarrow> delegate \<Rightarrow> nstate pact" where
  "addAsDefault K delegate s =
     (case kind (fst s) of
        PhysicalNetwork permission isDefault \<Rightarrow>
          if isDefault then Some (0, s)
          else pchk (on_world (tot (chk_all (\<lambda>i. addToDefault K delegate i permission) (mInterfaces (fst s)))))
                 (update_obj (kind_update (\<lambda>_. PhysicalNetwork permission True))) s
      | _ \<Rightarrow> None)"

definition removeAsDefault :: "kern \<Rightarrow> delegate \<Rightarrow> nstate pact" where
  "removeAsDefault K delegate s =
     (case kind (fst s) of
        PhysicalNetwork permission isDefault \<Rightarrow>
          if \<not> isDefault then Some (0, s)
          else pchk (on_world (tot (chk_all (\<lambda>i. removeFromDefault K delegate i permission) (mInterfaces (fst s)))))
                 (update_obj (kind_update (\<lambda>_. PhysicalNetwork permission False))) s
      | _ \<Rightarrow> None)"

definition PhysicalNetwork_addInterface :: "kern \<Rightarrow> delegate \<Rightarrow> string \<Rightarrow> nstate pact" where
  "PhysicalNetwork_addInterface K delegate interface s =
     (case kind (fst s) of
        PhysicalNetwork permission isDefault \<Rightarrow>
          if hasInterface (fst s) interface then Some (0, s)
          else pchk (on_world (tot (addInterfaceToPhysicalNetwork K (mNetId (fst s)) interface permission)))
            (pchk (on_world (tot (if isDefault then addToDefault K delegate interface permission else ret 0)))
              (update_obj (insert_interface interface))) s
      | _ \<Rightarrow> None)"

definition PhysicalNetwork_removeInterface :: "kern \<Rightarrow> delegate \<Rightarrow> string \<Rightarrow> nstate pact" where
  "PhysicalNetwork_removeInterface K delegate interface s =
     (case kind (fst s) of
        PhysicalNetwork permission isDefault \<Rightarrow>
          if \<not> hasInterface (fst s) interface then Some (0, s)
          else pchk (on_world (tot (if isDefault then removeFromDefault K delegate interface permission else ret 0)))
            (pchk (on_world (removeInterfaceFromPhysicalNetwork K (mNetId (fst s)) interface permission))
              (update_obj (erase_interface interface))) s
      | _ \<Rightarrow> None)"

section \<open>VirtualNetwork\<close>

definition appliesToUser :: "network \<Rightarrow> uid_t \<Rightarrow> bool" where
  "appliesToUser n uid = (case kind n of VirtualNetwork _ ranges \<Rightarrow> hasUid ranges uid | _ \<Rightarrow> False)"

definition maybeCloseSockets :: "kern \<Rightarrow> bool \<Rightarrow> UidRanges \<Rightarrow> uid_t list \<Rightarrow> world act" where
  "maybeCloseSockets K secure uidRanges protectableUsers w =
     (if \<not> secure then (0, w)
      else if \<not> sd_open K (trace w) then (- EBADFD, w)
      else let req = OfUsers uidRanges protectableUsers; r = sock_destroy K (trace w) req
           in (r, log_event (EvDestroySockets req r) w))"

definition addUsers :: "kern \<Rightarrow> UidRanges \<Rightarrow> uid_t list \<Rightarrow> nstate pact" where
  "addUsers K uidRanges protectableUsers s =
     (case kind (fst s) of
        VirtualNetwork secure ranges \<Rightarrow>
          pchk (on_world (tot (\<lambda>w. chk_all (\<lambda>i. addUsersToVirtualNetwork K (mNetId (fst s)) i secure uidRanges)
                 (mInterfaces (fst s)) (snd (maybeCloseSockets K secure uidRanges protectableUsers w)))))
            (update_obj (kind_update (\<lambda>_. VirtualNetwork secure (ranges_add ranges uidRanges)))) s
      | _ \<Rightarrow> None)"

definition removeUsers :: "kern \<Rightarrow> UidRanges \<Rightarrow> uid_t list \<Rightarrow> nstate pact" where
  "removeUsers K uidRanges protectableUsers s =
     (case kind (fst s) of
        VirtualNetwork secure ranges \<Rightarrow>
          pchk (on_world (tot (\<lambda>w. chk_all (\<lambda>i. removeUsersFromVirtualNetwork K (mNetId (fst s)) i secure uidRanges)
                 (mInterfaces (fst s)) (snd (maybeCloseSockets K secure uidRanges protectableUsers w)))))
            (update_obj (kind_update (\<lambda>_. VirtualNetwork secure (ranges_remove ranges uidRanges)))) s
      | _ \<Rightarrow> None)"

definition VirtualNetwork_addInterface :: "kern \<Rightarrow> string \<Rightarrow> nstate pact" where
  "VirtualNetwork_addInterface K interface s =
     (case kind (fst s) of
        VirtualNetwork secure ranges \<Rightarrow>
          if hasInterface (fst s) interface then Some (0, s)
          else pchk (on_world (tot (addInterfaceToVirtualNetwork K (mNetId (fst s)) interface secure ranges)))
            (update_obj (insert_interface interface)) s
      | _ \<Rightarrow> None)"

definition VirtualNetwork_removeInterface :: "kern \<Rightarrow> string \<Rightarrow> nstate pact" where
  "VirtualNetwork_removeInterface K interface s =
     (case kind (fst s) of
        VirtualNetwork secure ranges \<Rightarrow>
          if \<not> hasInterface (fst s) interface then Some (0, s)
          else pchk (on_world (removeInterfaceFromVirtualNetwork K (mNetId (fst s)) interface secure ranges))
            (update_obj (erase_interface interface)) s
      | _ \<Rightarrow> None)"

section \<open>LocalNetwork and DummyNetwork\<close>

definition LocalNetwork_addInterface :: "kern \<Rightarrow> string \<Rightarrow> nstate pact" where
  "LocalNetwork_addInterface K interface s =
     (if hasInterface (fst s) interface then Some (0, s)
      else pchk (on_world (tot (addInterfaceToLocalNetwork K (mNetId (fst s)) interface)))
        (update_obj (insert_interface interface)) s)"

definition LocalNetwork_removeInterface :: "kern \<Rightarrow> string \<Rightarrow> nstate pact" where
  "LocalNetwork_removeInterface K interface s =
     (if \<not> hasInterface (fst s) interface then Some (0, s)
      else pchk (on_world (tot (removeInterfaceFromLocalNetwork K (mNetId (fst s)) interface)))
        (update_obj (erase_interface interface)) s)"

definition DummyNetwork_addInterface :: "string \<Rightarrow> nstate pact" where
  "DummyNetwork_addInterface interface s = Some (- EINVAL, s)"

definition DummyNetwork_removeInterface :: "string \<Rightarrow> nstate pact" where
  "DummyNetwork_removeInterface interface s = Some (- EINVAL, s)"

section \<open>Virtual dispatch\<close>

definition addInterface :: "kern \<Rightarrow> delegate \<Rightarrow> string \<Rightarrow> nstate pact" where
  "addInterface K delegate interface s =
     (case getType (fst s) of
        DUMMY \<Rightarrow> DummyNetwork_addInterface interface s
      | LOCAL \<Rightarrow> LocalNetwork_addInterface K interface s
      | PHYSICAL \<Rightarrow> PhysicalNetwork_addInterface K delegate interface s
      | VIRTUAL \<Rightarrow> VirtualNetwork_addInterface K interface s)"

definition removeInterface :: "kern \<Rightarrow> delegate \<Rightarrow> string \<Rightarrow> nstate pact" where
  "removeInterface K delegate interface s =
     (case getType (fst s) of
        DUMMY \<Rightarrow> DummyNetwork_removeInterface interface s
      | LOCAL \<Rightarrow> LocalNetwork_removeInterface K interface s
      | PHYSICAL \<Rightarrow> PhysicalNetwork_removeInterface K delegate interface s
      | VIRTUAL \<Rightarrow> VirtualNetwork_removeInterface K interface s)"

text \<open>\<open>Network::clearInterfaces\<close>, with the virtual \<open>removeInterface\<close> as a parameter.\<close>

partial_function (option) clearInterfaces :: "(string \<Rightarrow> nstate pact) \<Rightarrow> nstate \<Rightarrow> (int \<times> nstate) option" where
  "clearInterfaces rm s =
     (case mInterfaces (fst s) of
        [] \<Rightarrow> Some (0, s)
      | interface # _ \<Rightarrow>
          (case rm interface s of
             None \<Rightarrow> None
           | Some (r, s') \<Rightarrow> if r \<noteq> 0 then Some (r, s') else clearInterfaces rm s'))"


section \<open>The contract of the interface operations\<close>

locale interface_set =
  fixes add :: "string \<Rightarrow> nstate pact"
    and rm :: "string \<Rightarrow> nstate pact"
    and cls :: "network \<Rightarrow> bool"
  assumes add_result: "cls n \<Longrightarrow> os_inv (mInterfaces n) \<Longrightarrow> add i (n, w) = Some (r, n', w') \<Longrightarrow>
      n' = (if r = 0 then insert_interface i n else n)"
    and rm_result: "cls n \<Longrightarrow> os_inv (mInterfaces n) \<Longrightarrow> rm i (n, w) = Some (r, n', w') \<Longrightarrow>
      n' = (if r = 0 then erase_interface i n else n)"
    and cls_kind: "cls n \<Longrightarrow> kind n' = kind n \<Longrightarrow> cls n'"
begin

lemma erase_kind [simp]: "kind (erase_interface i n) = kind n" "mNetId (erase_interface i n) = mNetId n"
  by (simp_all add: erase_interface_def)

lemma cls_erase: "cls n \<Longrightarrow> cls (erase_interface i n)"
  by (rule cls_kind) simp_all

text \<open>Clearing ends as soon as each single removal does, and only ever removes interfaces.\<close>

lemma erase_step:
  assumes "cls n" "os_inv (mInterfaces n)" "mInterfaces n = i # rest"
    "rm i (n, w) = Some (0, n', w')"
  shows "cls n'" "os_inv (mInterfaces n')" "set (mInterfaces n') \<subseteq> set (mInterfaces n)"
    "length (mInterfaces n') < length (mInterfaces n)" "kind n' = kind n" "mNetId n' = mNetId n"
    "clearInterfaces rm (n, w) = clearInterfaces rm (n', w')"
proof -
  have n': "n' = erase_interface i n" using rm_result [OF assms(1,2,4)] by simp
  show "cls n'" "kind n' = kind n" "mNetId n' = mNetId n" using n' cls_erase assms(1) by simp_all
  show "os_inv (mInterfaces n')" "set (mInterfaces n') \<subseteq> set (mInterfaces n)"
    using n' os.inv_del [OF assms(2), of i] os.elems_del [of i "mInterfaces n"] by (auto simp: erase_interface_def)
  show "length (mInterfaces n') < length (mInterfaces n)"
    using n' os_erase_length [of i "mInterfaces n"] assms(3) by (simp add: erase_interface_def)
  show "clearInterfaces rm (n, w) = clearInterfaces rm (n', w')"
    using assms(3,4) by (subst clearInterfaces.simps) simp
qed

lemma clear_frame:
  assumes "cls n" "os_inv (mInterfaces n)" "clearInterfaces rm (n, w) = Some (r, n', w')"
  shows "kind n' = kind n \<and> mNetId n' = mNetId n \<and> set (mInterfaces n') \<subseteq> set (mInterfaces n) \<and>
    os_inv (mInterfaces n') \<and> (r = 0 \<longleftrightarrow> mInterfaces n' = [])"
  using assms
proof (induction "length (mInterfaces n)" arbitrary: n w rule: less_induct)
  case less
  show ?case
  proof (cases "mInterfaces n")
    case Nil
    then show ?thesis using less.prems by (subst (asm) clearInterfaces.simps) auto
  next
    case (Cons i rest)
    obtain r1 n1 w1 where rm: "rm i (n, w) = Some (r1, n1, w1)"
      using less.prems(3) Cons by (subst (asm) clearInterfaces.simps) (auto split: option.splits)
    show ?thesis
    proof (cases "r1 = 0")
      case False
      then have "n1 = n" using rm rm_result less.prems by fastforce
      then show ?thesis
        using rm False Cons less.prems by (subst (asm) clearInterfaces.simps) auto
    next
      case True
      note step = erase_step [OF less.prems(1,2) Cons rm [unfolded True]]
      have "clearInterfaces rm (n1, w1) = Some (r, n', w')" using less.prems(3) step(7) by simp
      from less.hyps [OF step(4) step(1,2) this] show ?thesis using step by auto
    qed
  qed
qed

lemma clear_returns:
  assumes "cls n" "os_inv (mInterfaces n)" "\<And>i n w. cls n \<Longrightarrow> rm i (n, w) \<noteq> None"
  shows "clearInterfaces rm (n, w) \<noteq> None"
  using assms(1,2)
proof (induction "length (mInterfaces n)" arbitrary: n w rule: less_induct)
  case less
  show ?case
  proof (cases "mInterfaces n")
    case Nil
    then show ?thesis by (subst clearInterfaces.simps) simp
  next
    case (Cons i rest)
    obtain r1 n1 w1 where rm: "rm i (n, w) = Some (r1, n1, w1)"
      using assms(3) less.prems(1) by (metis option.exhaust prod.exhaust)
    show ?thesis
    proof (cases "r1 = 0")
      case False
      then show ?thesis using rm Cons by (subst clearInterfaces.simps) simp
    next
      case True
      note step = erase_step [OF less.prems(1,2) Cons rm [unfolded True]]
      show ?thesis using less.hyps [OF step(4) step(1,2)] step(7) by simp
    qed
  qed
qed

end

lemmas obj_defs = on_world_def update_obj_def pchk_def insert_interface_def erase_interface_def hasInterface_def

lemma insert_present: "os_inv (mInterfaces n) \<Longrightarrow> hasInterface n i \<Longrightarrow> insert_interface i n = n"
  using os.ins_present [of "mInterfaces n" i] by (simp add: insert_interface_def hasInterface_def)

lemma erase_absent: "os_inv (mInterfaces n) \<Longrightarrow> \<not> hasInterface n i \<Longrightarrow> erase_interface i n = n"
  using os.del_absent [of "mInterfaces n" i] by (simp add: erase_interface_def hasInterface_def)

lemma on_world_Some: "on_world f (n, w) = Some (r, n', w') \<longleftrightarrow> f w = Some (r, w') \<and> n' = n"
  by (auto simp: on_world_def split: option.splits)

lemma guarded_update:
  "pchk (on_world f) (update_obj g) (n, w) = Some (r, n', w') \<Longrightarrow> n' = (if r = 0 then g n else n)"
  by (auto simp: pchk_Some_iff on_world_Some update_obj_def)

lemma guarded_update2:
  "pchk (on_world f) (pchk (on_world f') (update_obj g)) (n, w) = Some (r, n', w') \<Longrightarrow>
   n' = (if r = 0 then g n else n)"
  by (auto simp: pchk_Some_iff on_world_Some update_obj_def)

lemma physical_result:
  "os_inv (mInterfaces n) \<Longrightarrow> PhysicalNetwork_addInterface K d i (n, w) = Some (r, n', w') \<Longrightarrow>
   n' = (if r = 0 then insert_interface i n else n)"
  "os_inv (mInterfaces n) \<Longrightarrow> PhysicalNetwork_removeInterface K d i (n, w) = Some (r, n', w') \<Longrightarrow>
   n' = (if r = 0 then erase_interface i n else n)"
  by (auto simp: PhysicalNetwork_addInterface_def PhysicalNetwork_removeInterface_def insert_present
      erase_absent split: net_kind.splits if_splits dest: guarded_update2)

lemma virtual_result:
  "os_inv (mInterfaces n) \<Longrightarrow> VirtualNetwork_addInterface K i (n, w) = Some (r, n', w') \<Longrightarrow>
   n' = (if r = 0 then insert_interface i n else n)"
  "os_inv (mInterfaces n) \<Longrightarrow> VirtualNetwork_removeInterface K i (n, w) = Some (r, n', w') \<Longrightarrow>
   n' = (if r = 0 then erase_interface i n else n)"
  by (auto simp: VirtualNetwork_addInterface_def VirtualNetwork_removeInterface_def insert_present
      erase_absent split: net_kind.splits if_splits dest: guarded_update)

lemma local_result:
  "os_inv (mInterfaces n) \<Longrightarrow> LocalNetwork_addInterface K i (n, w) = Some (r, n', w') \<Longrightarrow>
   n' = (if r = 0 then insert_interface i n else n)"
  "os_inv (mInterfaces n) \<Longrightarrow> LocalNetwork_removeInterface K i (n, w) = Some (r, n', w') \<Longrightarrow>
   n' = (if r = 0 then erase_interface i n else n)"
  by (auto simp: LocalNetwork_addInterface_def LocalNetwork_removeInterface_def insert_present
      erase_absent split: if_splits dest: guarded_update)

interpretation physical_ifaces: interface_set "PhysicalNetwork_addInterface K d"
  "PhysicalNetwork_removeInterface K d" "\<lambda>n. getType n = PHYSICAL" for K d
  by unfold_locales (use physical_result in \<open>auto simp: getType_def\<close>)

interpretation virtual_ifaces: interface_set "VirtualNetwork_addInterface K"
  "VirtualNetwork_removeInterface K" "\<lambda>n. getType n = VIRTUAL" for K
  by unfold_locales (use virtual_result in \<open>auto simp: getType_def\<close>)

interpretation local_ifaces: interface_set "LocalNetwork_addInterface K"
  "LocalNetwork_removeInterface K" "\<lambda>n. getType n = LOCAL" for K
  by unfold_locales (use local_result in \<open>auto simp: getType_def\<close>)

interpretation dummy_ifaces: interface_set DummyNetwork_addInterface
  DummyNetwork_removeInterface "\<lambda>n. getType n = DUMMY"
  by unfold_locales (auto simp: DummyNetwork_addInterface_def DummyNetwork_removeInterface_def getType_def)

interpretation ifaces: interface_set "addInterface K d" "removeInterface K d" "\<lambda>n. True" for K d
proof unfold_locales
  fix n :: network and i r n' and w w' :: world
  assume inv: "os_inv (mInterfaces n)"
  show "addInterface K d i (n, w) = Some (r, n', w') \<Longrightarrow> n' = (if r = 0 then insert_interface i n else n)"
    using inv physical_ifaces.add_result virtual_ifaces.add_result local_ifaces.add_result
      dummy_ifaces.add_result
    by (cases "getType n") (auto simp: addInterface_def)
  show "removeInterface K d i (n, w) = Some (r, n', w') \<Longrightarrow> n' = (if r = 0 then erase_interface i n else n)"
    using inv physical_ifaces.rm_result virtual_ifaces.rm_result local_ifaces.rm_result
      dummy_ifaces.rm_result
    by (cases "getType n") (auto simp: removeInterface_def)
qed simp

end
