(* ===== verification/Network_Controller.thy ===== *)
theory Network_Controller
  imports Networks
begin

unbundle bit_operations_syntax

text \<open>
  server/NetworkController.cpp. The state is the record \<open>ctrl\<close> of the members that \<open>mRWLock\<close> guards,
  next to the \<open>world\<close>; every public method runs under the lock, so it is one action. The map
  \<open>mNetworks\<close> of pointers is an ordered map from NetIds to objects, written back after a method of
  the object has run. The resolver library's \<open>resolv_has_nameservers\<close> is a parameter.
\<close>

section \<open>State\<close>

record ctrl =
  mDefaultNetId :: netid
  mNetworks :: "(netid \<times> network) list"
  mUsers :: "(uid_t \<times> u32) list"
  mProtectableUsers :: "uid_t list"
  mIfindexToLastNetId :: "(u32 \<times> netid) list"
  mAddressToIfindices :: "(string \<times> u32 list) list"

type_synonym cstate = "ctrl \<times> world"

definition MIN_NET_ID :: netid where [simp]: "MIN_NET_ID = 100"
definition MAX_NET_ID :: netid where [simp]: "MAX_NET_ID = 65535"
definition MIN_OEM_ID :: netid where [simp]: "MIN_OEM_ID = 1"
definition MAX_OEM_ID :: netid where [simp]: "MAX_OEM_ID = 50"
definition DUMMY_NET_ID :: netid where [simp]: "DUMMY_NET_ID = 51"
definition LOCAL_NET_ID :: netid where [simp]: "LOCAL_NET_ID = 99"

abbreviation (input) FIRST_APPLICATION_UID :: uid_t where "FIRST_APPLICATION_UID \<equiv> 10000"
abbreviation (input) AID_VPN :: uid_t where "AID_VPN \<equiv> 1016"

definition NetworkController_new :: ctrl where
  "NetworkController_new =
     \<lparr>mDefaultNetId = NETID_UNSET,
      mNetworks = om_put DUMMY_NET_ID (DummyNetwork_new DUMMY_NET_ID)
        (om_put LOCAL_NET_ID (LocalNetwork_new LOCAL_NET_ID) []),
      mUsers = [], mProtectableUsers = [AID_VPN], mIfindexToLastNetId = [], mAddressToIfindices = []\<rparr>"

section \<open>Network handles\<close>

abbreviation (input) kHandleMagic :: u32 where "kHandleMagic \<equiv> 0xcafed00d"
abbreviation (input) NETWORK_UNSPECIFIED :: u64 where "NETWORK_UNSPECIFIED \<equiv> 0"

definition netHandleToNetId :: "u64 \<Rightarrow> netid" where
  "netHandleToNetId fromNetHandle =
     (if fromNetHandle \<noteq> NETWORK_UNSPECIFIED \<and> fromNetHandle AND 0xffffffff \<noteq> ucast kHandleMagic then 0
      else ucast (drop_bit 32 fromNetHandle AND 0xffffffff))"

definition netIdToNetHandle :: "netid \<Rightarrow> u64" where
  "netIdToNetHandle fromNetId =
     (if fromNetId = 0 then NETWORK_UNSPECIFIED else push_bit 32 (ucast fromNetId) OR ucast kHandleMagic)"

section \<open>Queries\<close>

definition getNetworkLocked :: "ctrl \<Rightarrow> netid \<Rightarrow> network option" where
  "getNetworkLocked c netId = map_of (mNetworks c) netId"

definition isValidNetworkLocked :: "ctrl \<Rightarrow> netid \<Rightarrow> bool" where
  "isValidNetworkLocked c netId \<longleftrightarrow> getNetworkLocked c netId \<noteq> None"

definition isVirtualNetworkLocked :: "ctrl \<Rightarrow> netid \<Rightarrow> bool" where
  "isVirtualNetworkLocked c netId =
     (case getNetworkLocked c netId of None \<Rightarrow> False | Some n \<Rightarrow> getType n = VIRTUAL)"

definition getVirtualNetworkForUserLocked :: "ctrl \<Rightarrow> uid_t \<Rightarrow> network option" where
  "getVirtualNetworkForUserLocked c uid =
     map_option snd (find (\<lambda>entry. getType (snd entry) = VIRTUAL \<and> appliesToUser (snd entry) uid) (mNetworks c))"

definition isSecure :: "network \<Rightarrow> bool" where
  "isSecure n = (case kind n of VirtualNetwork secure _ \<Rightarrow> secure | _ \<Rightarrow> False)"

definition getPermissionForUserLocked :: "ctrl \<Rightarrow> uid_t \<Rightarrow> u32" where
  "getPermissionForUserLocked c uid =
     (case map_of (mUsers c) uid of
        Some permission \<Rightarrow> permission
      | None \<Rightarrow> if uid < FIRST_APPLICATION_UID then PERMISSION_SYSTEM else PERMISSION_NONE)"

definition canProtectLocked :: "ctrl \<Rightarrow> uid_t \<Rightarrow> bool" where
  "canProtectLocked c uid \<longleftrightarrow>
     getPermissionForUserLocked c uid AND PERMISSION_SYSTEM = PERMISSION_SYSTEM \<or>
     uid \<in> set (mProtectableUsers c)"

text \<open>
  \<open>None\<close>: the cast to \<open>PhysicalNetwork\<close> at the end is applied to an object of another class, whose
  memory it then reads.
\<close>

definition getPermission :: "network \<Rightarrow> u32 option" where
  "getPermission n = (case kind n of PhysicalNetwork permission _ \<Rightarrow> Some permission | _ \<Rightarrow> None)"

definition checkUserNetworkAccessLocked :: "ctrl \<Rightarrow> uid_t \<Rightarrow> netid \<Rightarrow> int option" where
  "checkUserNetworkAccessLocked c uid netId =
     (case getNetworkLocked c netId of
        None \<Rightarrow> Some (- ENONET)
      | Some network \<Rightarrow>
          if uid = INVALID_UID then Some (- EREMOTEIO)
          else let userPermission = getPermissionForUserLocked c uid in
          if userPermission AND PERMISSION_SYSTEM = PERMISSION_SYSTEM then Some 0
          else if getType network = VIRTUAL
            then Some (if appliesToUser network uid then 0 else - EPERM)
          else if (case getVirtualNetworkForUserLocked c uid of
                 None \<Rightarrow> False | Some v \<Rightarrow> isSecure v \<and> uid \<notin> set (mProtectableUsers c))
            then Some (- EPERM)
          else map_option (\<lambda>networkPermission.
                 if userPermission AND networkPermission = networkPermission then 0 else - EACCES)
               (getPermission network))"

definition getNetworkForUser :: "ctrl \<Rightarrow> uid_t \<Rightarrow> netid" where
  "getNetworkForUser c uid =
     (case getVirtualNetworkForUserLocked c uid of Some v \<Rightarrow> mNetId v | None \<Rightarrow> mDefaultNetId c)"

definition getNetworkForConnectLocked :: "ctrl \<Rightarrow> uid_t \<Rightarrow> netid" where
  "getNetworkForConnectLocked c uid =
     (case getVirtualNetworkForUserLocked c uid of
        Some v \<Rightarrow> if \<not> isSecure v then mNetId v else mDefaultNetId c
      | None \<Rightarrow> mDefaultNetId c)"

text \<open>The result is the new value of \<open>*netId\<close> and the mark.\<close>

definition getNetworkForDnsLocked :: "(netid \<Rightarrow> bool) \<Rightarrow> ctrl \<Rightarrow> netid \<Rightarrow> uid_t \<Rightarrow> (netid \<times> u32) option" where
  "getNetworkForDnsLocked has_nameservers c netId uid =
     (let fwmark = fm_set_permission PERMISSION_SYSTEM (fm_set_protectedFromVpn True Fwmark_new) in
      if netId = NETID_UNSET \<and> getVirtualNetworkForUserLocked c uid = None
      then Some (mDefaultNetId c, fm_set_explicitlySelected True (fm_set_netId (mDefaultNetId c) fwmark))
      else case checkUserNetworkAccessLocked c uid netId of
          None \<Rightarrow> None
        | Some access \<Rightarrow>
            if access = 0 then
              (let netId' = (case getNetworkLocked c netId of
                     Some network \<Rightarrow>
                       if getType network = VIRTUAL \<and> \<not> has_nameservers netId then mDefaultNetId c else netId
                   | None \<Rightarrow> netId)
               in Some (netId', fm_set_netId netId' (fm_set_explicitlySelected True fwmark)))
            else
              (let netId' = (case getVirtualNetworkForUserLocked c uid of
                     Some v \<Rightarrow> if has_nameservers (mNetId v) then mNetId v else mDefaultNetId c
                   | None \<Rightarrow> mDefaultNetId c)
               in Some (netId', fm_set_netId netId' fwmark)))"

record net_context =
  app_netid :: netid
  app_mark :: u32
  dns_netid :: netid
  dns_mark :: u32
  nc_uid :: uid_t

definition getNetworkContext :: "(netid \<Rightarrow> bool) \<Rightarrow> ctrl \<Rightarrow> netid \<Rightarrow> uid_t \<Rightarrow> net_context option" where
  "getNetworkContext has_nameservers c netId uid =
     (let explicitlySelected = (netId \<noteq> NETID_UNSET);
          app = (if \<not> explicitlySelected then getNetworkForConnectLocked c uid else netId);
          fwmark = fm_set_permission (getPermissionForUserLocked c uid)
            (fm_set_protectedFromVpn (explicitlySelected \<and> canProtectLocked c uid)
              (fm_set_explicitlySelected explicitlySelected (fm_set_netId app Fwmark_new)))
      in map_option (\<lambda>(dns, mark).
           \<lparr>app_netid = app, app_mark = fwmark, dns_netid = dns, dns_mark = mark, nc_uid = uid\<rparr>)
         (getNetworkForDnsLocked has_nameservers c netId uid))"

definition getNetworkForInterfaceLocked :: "ctrl \<Rightarrow> string \<Rightarrow> netid" where
  "getNetworkForInterfaceLocked c interface =
     (case find (\<lambda>entry. hasInterface (snd entry) interface) (mNetworks c) of
        Some (netId, _) \<Rightarrow> netId | None \<Rightarrow> NETID_UNSET)"

section \<open>Fallthrough rules and the socket monitor\<close>

definition modifyFallthroughOne :: "kern \<Rightarrow> netid \<Rightarrow> string \<Rightarrow> u32 \<Rightarrow> bool \<Rightarrow> world act" where
  "modifyFallthroughOne K vpnNetId physicalInterface permission add =
     (if add then addVirtualNetworkFallthrough K vpnNetId physicalInterface permission
      else removeVirtualNetworkFallthrough K vpnNetId physicalInterface permission)"

definition DelegateImpl :: "kern \<Rightarrow> ctrl \<Rightarrow> delegate" where
  "DelegateImpl K c add physicalInterface permission =
     chk_all (\<lambda>entry. if getType (snd entry) = VIRTUAL
         then modifyFallthroughOne K (fst entry) physicalInterface permission add else ret 0)
       (mNetworks c)"

definition modifyFallthroughLocked :: "kern \<Rightarrow> ctrl \<Rightarrow> netid \<Rightarrow> bool \<Rightarrow> world act" where
  "modifyFallthroughLocked K c vpnNetId add w =
     (if mDefaultNetId c = NETID_UNSET then (0, w)
      else case getNetworkLocked c (mDefaultNetId c) of
          None \<Rightarrow> (- ESRCH, w)
        | Some network \<Rightarrow>
            (case getPermission network of
               None \<Rightarrow> (- EINVAL, w)
             | Some permission \<Rightarrow>
                 chk_all (\<lambda>physicalInterface. modifyFallthroughOne K vpnNetId physicalInterface permission add)
                   (mInterfaces network) w))"

definition updateTcpSocketMonitorPolling :: "ctrl \<Rightarrow> world \<Rightarrow> world" where
  "updateTcpSocketMonitorPolling c w =
     log_event (EvTcpPolling (list_ex (\<lambda>entry. getType (snd entry) = PHYSICAL \<and> mNetId (snd entry) \<ge> MIN_NET_ID)
       (mNetworks c))) w"

section \<open>Changing the set of networks\<close>

text \<open>Runs a method of the object stored under \<open>netId\<close> and writes the object back.\<close>

definition on_network :: "netid \<Rightarrow> nstate pact \<Rightarrow> cstate pact" where
  "on_network netId f s =
     (case getNetworkLocked (fst s) netId of
        None \<Rightarrow> None
      | Some n \<Rightarrow> (case f (n, snd s) of
            None \<Rightarrow> None
          | Some (r, n', w') \<Rightarrow> Some (r, (fst s)\<lparr>mNetworks := om_put netId n' (mNetworks (fst s))\<rparr>, w')))"

definition createPhysicalNetworkLocked :: "kern \<Rightarrow> netid \<Rightarrow> u32 \<Rightarrow> cstate pact" where
  "createPhysicalNetworkLocked K netId permission s =
     (case s of (c, w) \<Rightarrow>
      if \<not> ((MIN_NET_ID \<le> netId \<and> netId \<le> MAX_NET_ID) \<or> (MIN_OEM_ID \<le> netId \<and> netId \<le> MAX_OEM_ID))
      then Some (- EINVAL, s)
      else if isValidNetworkLocked c netId then Some (- EEXIST, s)
      else case setPermission K (DelegateImpl K c) permission (PhysicalNetwork_new netId, w) of
          None \<Rightarrow> None
        | Some (r, n, w') \<Rightarrow>
            if r \<noteq> 0 then Some (r, c, w')
            else let c' = c\<lparr>mNetworks := om_put netId n (mNetworks c)\<rparr>
                 in Some (0, c', updateTcpSocketMonitorPolling c' w'))"

text \<open>
  The search for a free NetId, and the operation, which returns its result, \<open>*pNetId\<close> (0 on every
  error) and the state. The fuel 50 is the number of NetIds between the bounds.
\<close>

fun free_oem_id :: "ctrl \<Rightarrow> nat \<Rightarrow> netid \<Rightarrow> netid" where
  "free_oem_id c 0 i = i"
| "free_oem_id c (Suc n) i =
     (if i \<le> MAX_OEM_ID \<and> isValidNetworkLocked c i then free_oem_id c n (i + 1) else i)"

definition createPhysicalOemNetwork :: "kern \<Rightarrow> u32 \<Rightarrow> cstate \<Rightarrow> (int \<times> netid \<times> cstate) option" where
  "createPhysicalOemNetwork K permission s =
     (let pNetId = free_oem_id (fst s) 50 MIN_OEM_ID in
      if pNetId > MAX_OEM_ID then Some (- ENONET, 0, s)
      else case createPhysicalNetworkLocked K pNetId permission s of
          None \<Rightarrow> None
        | Some (r, s') \<Rightarrow> Some (r, if r \<noteq> 0 then 0 else pNetId, s'))"

definition createVirtualNetwork :: "kern \<Rightarrow> netid \<Rightarrow> bool \<Rightarrow> cstate act" where
  "createVirtualNetwork K netId secure s =
     (case s of (c, w) \<Rightarrow>
      if \<not> (MIN_NET_ID \<le> netId \<and> netId \<le> MAX_NET_ID) then (- EINVAL, s)
      else if isValidNetworkLocked c netId then (- EEXIST, s)
      else case modifyFallthroughLocked K c netId True w of (r, w') \<Rightarrow>
        if r \<noteq> 0 then (r, c, w')
        else (0, c\<lparr>mNetworks := om_put netId (VirtualNetwork_new netId secure) (mNetworks c)\<rparr>, w'))"

text \<open>
  \<open>clearInterfaces\<close> runs on the object in the map, so its effect is written back before the rest of
  \<open>destroyNetwork\<close> looks at the map again.
\<close>

definition destroyNetwork :: "kern \<Rightarrow> netid \<Rightarrow> cstate pact" where
  "destroyNetwork K netId s =
     (if netId = LOCAL_NET_ID then Some (- EINVAL, s)
      else if \<not> isValidNetworkLocked (fst s) netId then Some (- ENONET, s)
      else case on_network netId (clearInterfaces (removeInterface K (DelegateImpl K (fst s)))) s of
        None \<Rightarrow> None
      | Some (r1, c1, w1) \<Rightarrow>
        (case (if mDefaultNetId c1 = netId then
                 map_option (\<lambda>(r, c, w). (r, c\<lparr>mDefaultNetId := NETID_UNSET\<rparr>, w))
                   (on_network netId (removeAsDefault K (DelegateImpl K c1)) (c1, w1))
               else if isVirtualNetworkLocked c1 netId then
                 (case modifyFallthroughLocked K c1 netId False w1 of (r, w) \<Rightarrow> Some (r, c1, w))
               else Some (0, c1, w1)) of
           None \<Rightarrow> None
         | Some (r2, c2, w2) \<Rightarrow>
             let c3 = c2\<lparr>mNetworks := om_erase netId (mNetworks c2),
                         mIfindexToLastNetId := filter (\<lambda>e. snd e \<noteq> netId) (mIfindexToLastNetId c2)\<rparr>;
                 w3 = log_event (EvResolvDeleteCache netId) w2
             in Some (if r1 \<noteq> 0 then r1 else r2, c3, updateTcpSocketMonitorPolling c3 w3)))"

section \<open>Other operations\<close>

definition setDefaultNetwork :: "kern \<Rightarrow> netid \<Rightarrow> cstate pact" where
  "setDefaultNetwork K netId s =
     (if netId = mDefaultNetId (fst s) then Some (0, s)
      else pchk
        (\<lambda>s. if netId \<noteq> NETID_UNSET then
               (case getNetworkLocked (fst s) netId of
                  None \<Rightarrow> Some (- ENONET, s)
                | Some network \<Rightarrow>
                    if getType network \<noteq> PHYSICAL then Some (- EINVAL, s)
                    else on_network netId (addAsDefault K (DelegateImpl K (fst s))) s)
             else Some (0, s))
        (pchk
          (\<lambda>s. if mDefaultNetId (fst s) \<noteq> NETID_UNSET then
                 (case getNetworkLocked (fst s) (mDefaultNetId (fst s)) of
                    None \<Rightarrow> Some (- ESRCH, s)
                  | Some network \<Rightarrow>
                      if getType network \<noteq> PHYSICAL then Some (- ESRCH, s)
                      else on_network (mDefaultNetId (fst s)) (removeAsDefault K (DelegateImpl K (fst s))) s)
               else Some (0, s))
          (\<lambda>s. Some (0, (fst s)\<lparr>mDefaultNetId := netId\<rparr>, snd s))) s)"

definition addInterfaceToNetwork :: "kern \<Rightarrow> netid \<Rightarrow> string \<Rightarrow> cstate pact" where
  "addInterfaceToNetwork K netId interface s =
     (let existingNetId = getNetworkForInterfaceLocked (fst s) interface in
      if \<not> isValidNetworkLocked (fst s) netId then Some (- ENONET, s)
      else if existingNetId \<noteq> NETID_UNSET \<and> existingNetId \<noteq> netId then Some (- EBUSY, s)
      else pchk (on_network netId (addInterface K (DelegateImpl K (fst s)) interface))
        (\<lambda>(c, w). let ifIndex = getIfIndex interface w in
           Some (0, (if ifIndex \<noteq> 0
                     then c\<lparr>mIfindexToLastNetId := om_put ifIndex netId (mIfindexToLastNetId c)\<rparr> else c), w)) s)"

definition removeInterfaceFromNetwork :: "kern \<Rightarrow> netid \<Rightarrow> string \<Rightarrow> cstate pact" where
  "removeInterfaceFromNetwork K netId interface s =
     (if \<not> isValidNetworkLocked (fst s) netId then Some (- ENONET, s)
      else on_network netId (removeInterface K (DelegateImpl K (fst s)) interface) s)"

definition setPermissionForUsers :: "u32 \<Rightarrow> uid_t list \<Rightarrow> ctrl \<Rightarrow> ctrl" where
  "setPermissionForUsers permission uids c = c\<lparr>mUsers := foldl (\<lambda>m uid. om_put uid permission m) (mUsers c) uids\<rparr>"

fun setPermissionForNetworks :: "kern \<Rightarrow> u32 \<Rightarrow> netid list \<Rightarrow> cstate pact" where
  "setPermissionForNetworks K permission [] s = Some (0, s)"
| "setPermissionForNetworks K permission (netId # netIds) s =
     (case getNetworkLocked (fst s) netId of
        None \<Rightarrow> Some (- ENONET, s)
      | Some network \<Rightarrow>
          if getType network \<noteq> PHYSICAL then Some (- EINVAL, s)
          else pchk (on_network netId (setPermission K (DelegateImpl K (fst s)) permission))
            (setPermissionForNetworks K permission netIds) s)"

definition addUsersToNetwork :: "kern \<Rightarrow> netid \<Rightarrow> UidRanges \<Rightarrow> cstate pact" where
  "addUsersToNetwork K netId uidRanges s =
     (case getNetworkLocked (fst s) netId of
        None \<Rightarrow> Some (- ENONET, s)
      | Some network \<Rightarrow>
          if getType network \<noteq> VIRTUAL then Some (- EINVAL, s)
          else on_network netId (addUsers K uidRanges (mProtectableUsers (fst s))) s)"

definition removeUsersFromNetwork :: "kern \<Rightarrow> netid \<Rightarrow> UidRanges \<Rightarrow> cstate pact" where
  "removeUsersFromNetwork K netId uidRanges s =
     (case getNetworkLocked (fst s) netId of
        None \<Rightarrow> Some (- ENONET, s)
      | Some network \<Rightarrow>
          if getType network \<noteq> VIRTUAL then Some (- EINVAL, s)
          else on_network netId (removeUsers K uidRanges (mProtectableUsers (fst s))) s)"

definition modifyRouteNet ::
  "kern \<Rightarrow> netid \<Rightarrow> string \<Rightarrow> string option \<Rightarrow> string option \<Rightarrow> bool \<Rightarrow> bool \<Rightarrow> uid_t \<Rightarrow> cstate act" where
  "modifyRouteNet K netId interface destination nexthop add legacy uid s =
     (case s of (c, w) \<Rightarrow>
      if \<not> isValidNetworkLocked c netId then (- ENONET, s)
      else let existingNetId = getNetworkForInterfaceLocked c interface in
      if existingNetId = NETID_UNSET then (- ENODEV, s)
      else if existingNetId \<noteq> netId then (- ENOENT, s)
      else
        (let tableType =
               (if netId = LOCAL_NET_ID then LOCAL_NETWORK
                else if legacy then
                  (if getPermissionForUserLocked c uid AND PERMISSION_SYSTEM = PERMISSION_SYSTEM
                   then LEGACY_SYSTEM else LEGACY_NETWORK)
                else INTERFACE)
         in case (if add then addRoute K interface destination nexthop tableType w
                  else removeRoute K interface destination nexthop tableType w) of
              (r, w') \<Rightarrow> (r, c, w')))"

section \<open>Interface addresses\<close>

definition addInterfaceAddress :: "u32 \<Rightarrow> string \<Rightarrow> ctrl \<Rightarrow> ctrl" where
  "addInterfaceAddress ifIndex address c =
     (if ifIndex = 0 then c
      else let old = (case map_of (mAddressToIfindices c) address of None \<Rightarrow> [] | Some ifindices \<Rightarrow> ifindices)
           in c\<lparr>mAddressToIfindices := om_put address (os_insert ifIndex old) (mAddressToIfindices c)\<rparr>)"

text \<open>
  The loop over the other interfaces with the address. \<open>operator[]\<close> adds an entry 0 for an index that
  has none. The order in which an \<open>unordered_set\<close> is visited is the argument \<open>order\<close>.
\<close>

fun vpn_handover :: "ctrl \<Rightarrow> netid \<Rightarrow> u32 list \<Rightarrow> bool \<times> ctrl" where
  "vpn_handover c lastNetId [] = (True, c)"
| "vpn_handover c lastNetId (idx # rest) =
     (let activeNetId = (case map_of (mIfindexToLastNetId c) idx of None \<Rightarrow> 0 | Some n \<Rightarrow> n);
          c' = c\<lparr>mIfindexToLastNetId := om_put idx activeNetId (mIfindexToLastNetId c)\<rparr>
      in if lastNetId = activeNetId \<and> isVirtualNetworkLocked c' activeNetId then (False, c')
         else vpn_handover c' lastNetId rest)"

definition removeInterfaceAddress :: "(u32 list \<Rightarrow> u32 list) \<Rightarrow> u32 \<Rightarrow> string \<Rightarrow> ctrl \<Rightarrow> bool \<times> ctrl" where
  "removeInterfaceAddress order ifindex address c =
     (case map_of (mAddressToIfindices c) address of
        None \<Rightarrow> (True, c)
      | Some ifindices \<Rightarrow>
          if ifindex \<notin> set ifindices then (True, c)
          else let ifindices' = os_erase ifindex ifindices in
          if ifindices' = [] then (True, c\<lparr>mAddressToIfindices := om_erase address (mAddressToIfindices c)\<rparr>)
          else let c' = c\<lparr>mAddressToIfindices := om_put address ifindices' (mAddressToIfindices c)\<rparr> in
          (case map_of (mIfindexToLastNetId c') ifindex of
             None \<Rightarrow> (True, c')
           | Some lastNetId \<Rightarrow> vpn_handover c' lastNetId (order ifindices')))"

section \<open>Protection from VPNs\<close>

definition allowProtect :: "uid_t list \<Rightarrow> ctrl \<Rightarrow> ctrl" where
  "allowProtect uids c = c\<lparr>mProtectableUsers := foldl (\<lambda>s uid. os_insert uid s) (mProtectableUsers c) uids\<rparr>"

definition denyProtect :: "uid_t list \<Rightarrow> ctrl \<Rightarrow> ctrl" where
  "denyProtect uids c = c\<lparr>mProtectableUsers := foldl (\<lambda>s uid. os_erase uid s) (mProtectableUsers c) uids\<rparr>"

end
