(* ===== verification/Network_Invariant.thy ===== *)
theory Network_Invariant
  imports Network_Controller
begin

unbundle bit_operations_syntax

text \<open>
  The invariant of the network controller: the table of networks, the default network, the assignment
  of interfaces and the index map stay consistent under every public operation, whatever the kernel
  answers and wherever an operation fails half way.
\<close>

section \<open>What the methods of a network object do to the object\<close>

lemma setPermission_obj:
  assumes "setPermission K d p (n, w) = Some (r, n', w')"
  shows "\<exists>old isDefault. kind n = PhysicalNetwork old isDefault \<and>
    n' = (if r = 0 then n\<lparr>kind := PhysicalNetwork p isDefault\<rparr> else n)"
  using assms by (cases n) (auto simp: setPermission_def Let_def split: net_kind.splits if_splits prod.splits)

lemma addAsDefault_obj:
  assumes "addAsDefault K d (n, w) = Some (r, n', w')"
  shows "\<exists>p isDefault. kind n = PhysicalNetwork p isDefault \<and>
    n' = (if r = 0 then n\<lparr>kind := PhysicalNetwork p True\<rparr> else n)"
  using assms by (cases n) (auto simp: addAsDefault_def split: net_kind.splits if_splits dest!: guarded_update)

lemma removeAsDefault_obj:
  assumes "removeAsDefault K d (n, w) = Some (r, n', w')"
  shows "\<exists>p isDefault. kind n = PhysicalNetwork p isDefault \<and>
    n' = (if r = 0 then n\<lparr>kind := PhysicalNetwork p False\<rparr> else n)"
  using assms by (cases n) (auto simp: removeAsDefault_def split: net_kind.splits if_splits dest!: guarded_update)

lemma addUsers_obj:
  assumes "addUsers K u ps (n, w) = Some (r, n', w')"
  shows "\<exists>secure ranges. kind n = VirtualNetwork secure ranges \<and>
    n' = (if r = 0 then n\<lparr>kind := VirtualNetwork secure (ranges_add ranges u)\<rparr> else n)"
  using assms by (cases n; cases "r = 0") (auto simp: addUsers_def split: net_kind.splits dest!: guarded_update)

lemma removeUsers_obj:
  assumes "removeUsers K u ps (n, w) = Some (r, n', w')"
  shows "\<exists>secure ranges. kind n = VirtualNetwork secure ranges \<and>
    n' = (if r = 0 then n\<lparr>kind := VirtualNetwork secure (ranges_remove ranges u)\<rparr> else n)"
  using assms by (cases n; cases "r = 0") (auto simp: removeUsers_def split: net_kind.splits dest!: guarded_update)

section \<open>The invariant\<close>

definition net_ok :: "netid \<Rightarrow> network \<Rightarrow> bool" where
  "net_ok netId n \<longleftrightarrow> mNetId n = netId \<and> os_inv (mInterfaces n) \<and>
     (case getType n of
        DUMMY \<Rightarrow> netId = DUMMY_NET_ID
      | LOCAL \<Rightarrow> netId = LOCAL_NET_ID
      | PHYSICAL \<Rightarrow> (MIN_NET_ID \<le> netId \<and> netId \<le> MAX_NET_ID) \<or> (MIN_OEM_ID \<le> netId \<and> netId \<le> MAX_OEM_ID)
      | VIRTUAL \<Rightarrow> MIN_NET_ID \<le> netId \<and> netId \<le> MAX_NET_ID)"

definition nets_ok :: "(netid \<rightharpoonup> network) \<Rightarrow> bool" where
  "nets_ok M \<longleftrightarrow>
     (\<forall>i n. M i = Some n \<longrightarrow> net_ok i n) \<and>
     (\<forall>i j m n. M i = Some m \<longrightarrow> M j = Some n \<longrightarrow> i \<noteq> j \<longrightarrow> set (mInterfaces m) \<inter> set (mInterfaces n) = {}) \<and>
     (\<exists>n. M LOCAL_NET_ID = Some n)"

definition default_ok :: "netid \<Rightarrow> (netid \<rightharpoonup> network) \<Rightarrow> bool" where
  "default_ok d M \<longleftrightarrow> d = NETID_UNSET \<or> (\<exists>n p. M d = Some n \<and> kind n = PhysicalNetwork p True)"

definition last_ok :: "(u32 \<times> netid) list \<Rightarrow> (netid \<rightharpoonup> network) \<Rightarrow> bool" where
  "last_ok L M \<longleftrightarrow> (\<forall>(idx, netId) \<in> set L. netId = NETID_UNSET \<or> M netId \<noteq> None)"

definition ctrl_inv :: "ctrl \<Rightarrow> bool" where
  "ctrl_inv c \<longleftrightarrow> om_inv (mNetworks c) \<and> nets_ok (map_of (mNetworks c)) \<and>
     default_ok (mDefaultNetId c) (map_of (mNetworks c)) \<and>
     last_ok (mIfindexToLastNetId c) (map_of (mNetworks c))"

lemma ctrl_invD:
  assumes "ctrl_inv c" "getNetworkLocked c netId = Some n"
  shows "net_ok netId n" "mNetId n = netId" "os_inv (mInterfaces n)" "netId \<noteq> 0"
proof -
  show ok: "net_ok netId n" using assms by (auto simp: ctrl_inv_def nets_ok_def getNetworkLocked_def)
  then show "mNetId n = netId" "os_inv (mInterfaces n)" by (simp_all add: net_ok_def)
  show "netId \<noteq> 0" using ok by (auto simp: net_ok_def split: net_type.splits)
qed

lemma ctrl_inv_new: "ctrl_inv NetworkController_new"
  by (simp add: ctrl_inv_def NetworkController_new_def nets_ok_def default_ok_def last_ok_def om_inv_def
      net_ok_def LocalNetwork_new_def DummyNetwork_new_def getType_def os_inv_def)

text \<open>Replacing an object by one of the same class with the same or fewer interfaces.\<close>

lemma nets_ok_upd:
  assumes "nets_ok M" "M i = Some n" "net_ok i n'" "set (mInterfaces n') \<subseteq> set (mInterfaces n) \<union> I"
    "\<And>j m. M j = Some m \<Longrightarrow> j \<noteq> i \<Longrightarrow> I \<inter> set (mInterfaces m) = {}"
  shows "nets_ok (M(i \<mapsto> n'))"
proof -
  have "set (mInterfaces n') \<inter> set (mInterfaces m) = {}" if "M j = Some m" "j \<noteq> i" for j m
  proof -
    have "set (mInterfaces n) \<inter> set (mInterfaces m) = {}"
      using assms(1,2) that unfolding nets_ok_def by metis
    then show ?thesis using assms(4) assms(5) [OF that] by blast
  qed
  then show ?thesis
    using assms(1-3) unfolding nets_ok_def by (auto simp: Int_commute)
qed

lemma ctrl_inv_put:
  assumes inv: "ctrl_inv c" and n: "getNetworkLocked c i = Some n" and "net_ok i n'"
    and "set (mInterfaces n') \<subseteq> set (mInterfaces n) \<union> I"
    and "\<And>j m. getNetworkLocked c j = Some m \<Longrightarrow> j \<noteq> i \<Longrightarrow> I \<inter> set (mInterfaces m) = {}"
    and "mDefaultNetId c = i \<Longrightarrow> \<exists>p. kind n' = PhysicalNetwork p True"
  shows "ctrl_inv (c\<lparr>mNetworks := om_put i n' (mNetworks c)\<rparr>)"
proof -
  have "nets_ok ((map_of (mNetworks c))(i \<mapsto> n'))"
    using assms(1-5) by (intro nets_ok_upd) (auto simp: ctrl_inv_def getNetworkLocked_def)
  then show ?thesis
    using inv n assms(6)
    by (auto simp: ctrl_inv_def om_inv_put map_of_om_put default_ok_def last_ok_def getNetworkLocked_def)
qed

lemma ctrl_inv_put_same:
  assumes "ctrl_inv c" "getNetworkLocked c i = Some n" "mNetId n' = mNetId n" "mInterfaces n' = mInterfaces n"
    "getType n' = getType n" "mDefaultNetId c = i \<Longrightarrow> \<exists>p. kind n' = PhysicalNetwork p True"
  shows "ctrl_inv (c\<lparr>mNetworks := om_put i n' (mNetworks c)\<rparr>)"
  using ctrl_invD [OF assms(1,2)] assms
  by (intro ctrl_inv_put [where I = "{}" and n = n]) (auto simp: net_ok_def)

lemma default_kind:
  "ctrl_inv c \<Longrightarrow> getNetworkLocked c (mDefaultNetId c) = Some n \<Longrightarrow> \<exists>p. kind n = PhysicalNetwork p True"
  using ctrl_invD(4) by (fastforce simp: ctrl_inv_def default_ok_def getNetworkLocked_def)

lemma on_network_cases:
  assumes "on_network i f (c, w) = Some (r, c', w')"
  obtains n n' where "getNetworkLocked c i = Some n" "f (n, w) = Some (r, n', w')"
    "c' = c\<lparr>mNetworks := om_put i n' (mNetworks c)\<rparr>"
  using assms that by (auto simp: on_network_def split: option.splits)

lemma ctrl_inv_same [simp]: "ctrl_inv c \<Longrightarrow> getNetworkLocked c i = Some n \<Longrightarrow>
    ctrl_inv (c\<lparr>mNetworks := om_put i n (mNetworks c)\<rparr>)"
  using default_kind by (rule_tac ctrl_inv_put_same) auto


section \<open>Every operation keeps it\<close>

lemma createPhysical_inv:
  assumes inv: "ctrl_inv c" and run: "createPhysicalNetworkLocked K netId p (c, w) = Some (r, c', w')"
  shows "ctrl_inv c'"
proof (cases "r = 0")
  case False
  then show ?thesis using assms
    by (auto simp: createPhysicalNetworkLocked_def Let_def split: if_splits option.splits)
next
  case True
  then obtain n w1 where n: "setPermission K (DelegateImpl K c) p (PhysicalNetwork_new netId, w) = Some (0, n, w1)"
    and c': "c' = c\<lparr>mNetworks := om_put netId n (mNetworks c)\<rparr>" and fresh: "map_of (mNetworks c) netId = None"
    and range: "(MIN_NET_ID \<le> netId \<and> netId \<le> MAX_NET_ID) \<or> (MIN_OEM_ID \<le> netId \<and> netId \<le> MAX_OEM_ID)"
    using run by (auto simp: createPhysicalNetworkLocked_def Let_def isValidNetworkLocked_def
        getNetworkLocked_def split: if_splits option.splits)
  have "n = (PhysicalNetwork_new netId)\<lparr>kind := PhysicalNetwork p False\<rparr>"
    using setPermission_obj [OF n] by (auto simp: PhysicalNetwork_new_def)
  then have n': "net_ok netId n" "mInterfaces n = []"
    using range by (auto simp: PhysicalNetwork_new_def net_ok_def getType_def os_inv_def)
  then show ?thesis
    using inv fresh
    by (auto simp: c' ctrl_inv_def om_inv_put map_of_om_put nets_ok_def default_ok_def last_ok_def)
qed

lemma createOem_inv:
  assumes "ctrl_inv c" "createPhysicalOemNetwork K p (c, w) = Some (r, i, c', w')"
  shows "ctrl_inv c'"
  using assms createPhysical_inv by (fastforce simp: createPhysicalOemNetwork_def Let_def split: if_splits option.splits)

lemma createVirtual_inv:
  assumes inv: "ctrl_inv c" and run: "createVirtualNetwork K netId secure (c, w) = (r, c', w')"
  shows "ctrl_inv c'"
proof (cases "c' = c")
  case False
  then have c': "c' = c\<lparr>mNetworks := om_put netId (VirtualNetwork_new netId secure) (mNetworks c)\<rparr>"
    and fresh: "map_of (mNetworks c) netId = None" and range: "MIN_NET_ID \<le> netId \<and> netId \<le> MAX_NET_ID"
    using run by (auto simp: createVirtualNetwork_def isValidNetworkLocked_def getNetworkLocked_def
        split: if_splits prod.splits)
  have "net_ok netId (VirtualNetwork_new netId secure)" "mInterfaces (VirtualNetwork_new netId secure) = []"
    using range by (auto simp: VirtualNetwork_new_def net_ok_def getType_def os_inv_def)
  then show ?thesis
    using inv fresh
    by (auto simp: c' ctrl_inv_def om_inv_put map_of_om_put nets_ok_def default_ok_def last_ok_def)
qed (use inv in simp)

text \<open>Taking a network out, once the default network is another one.\<close>

lemma ctrl_inv_erase:
  assumes "ctrl_inv c" "i \<noteq> LOCAL_NET_ID" "mDefaultNetId c \<noteq> i"
  shows "ctrl_inv (c\<lparr>mNetworks := om_erase i (mNetworks c),
    mIfindexToLastNetId := filter (\<lambda>e. snd e \<noteq> i) (mIfindexToLastNetId c)\<rparr>)"
  using assms om.inv_erase [of "mNetworks c" i]
  by (auto simp: ctrl_inv_def map_of_om_erase nets_ok_def default_ok_def last_ok_def)

lemma clear_network_inv:
  assumes inv: "ctrl_inv c"
    and run: "on_network i (clearInterfaces (removeInterface K d)) (c, w) = Some (r, c', w')"
  shows "ctrl_inv c' \<and> mDefaultNetId c' = mDefaultNetId c"
proof -
  obtain n n' where n: "getNetworkLocked c i = Some n"
    "clearInterfaces (removeInterface K d) (n, w) = Some (r, n', w')"
    and c': "c' = c\<lparr>mNetworks := om_put i n' (mNetworks c)\<rparr>"
    using run by (rule on_network_cases)
  note ok = ctrl_invD [OF inv n(1)]
  have f: "kind n' = kind n" "mNetId n' = mNetId n" "set (mInterfaces n') \<subseteq> set (mInterfaces n)" "os_inv (mInterfaces n')"
    using ifaces.clear_frame [OF _ ok(3) n(2)] by simp_all
  then have "net_ok i n'" using ok(1) by (simp add: net_ok_def getType_def)
  moreover have "mDefaultNetId c = i \<Longrightarrow> \<exists>p. kind n' = PhysicalNetwork p True"
    using default_kind [OF inv] n(1) f(1) by auto
  ultimately show ?thesis
    using ctrl_inv_put [OF inv n(1), of n' "{}"] f(3) by (auto simp: c')
qed

lemma removeAsDefault_then_unset_inv:
  assumes inv: "ctrl_inv c"
    and run: "on_network (mDefaultNetId c) (removeAsDefault K d) (c, w) = Some (r, c', w')"
    and dflt: "default_ok e (map_of (mNetworks c'))"
  shows "ctrl_inv (c'\<lparr>mDefaultNetId := e\<rparr>)"
proof -
  obtain n n' where n: "getNetworkLocked c (mDefaultNetId c) = Some n"
    "removeAsDefault K d (n, w) = Some (r, n', w')"
    and c': "c' = c\<lparr>mNetworks := om_put (mDefaultNetId c) n' (mNetworks c)\<rparr>"
    using run by (rule on_network_cases)
  have "net_ok (mDefaultNetId c) n'" "set (mInterfaces n') \<subseteq> set (mInterfaces n) \<union> {}"
    using removeAsDefault_obj [OF n(2)] ctrl_invD(1) [OF inv n(1)] by (auto simp: net_ok_def getType_def split: if_splits)
  then have "nets_ok ((map_of (mNetworks c))(mDefaultNetId c \<mapsto> n'))"
    using inv n(1) by (intro nets_ok_upd [where I = "{}"]) (auto simp: ctrl_inv_def getNetworkLocked_def)
  then show ?thesis
    using inv dflt by (auto simp: c' ctrl_inv_def om_inv_put map_of_om_put last_ok_def)
qed

lemma destroy_inv:
  assumes inv: "ctrl_inv c" and run: "destroyNetwork K netId (c, w) = Some (r, c', w')"
  shows "ctrl_inv c'"
proof (cases "netId = LOCAL_NET_ID \<or> \<not> isValidNetworkLocked c netId")
  case True
  then show ?thesis using inv run by (auto simp: destroyNetwork_def split: if_splits)
next
  case False
  then obtain r1 c1 w1 r2 c2 w2
    where one: "on_network netId (clearInterfaces (removeInterface K (DelegateImpl K c))) (c, w) = Some (r1, c1, w1)"
    and two: "(if mDefaultNetId c1 = netId then
                 map_option (\<lambda>(r, c, w). (r, c\<lparr>mDefaultNetId := NETID_UNSET\<rparr>, w))
                   (on_network netId (removeAsDefault K (DelegateImpl K c1)) (c1, w1))
               else if isVirtualNetworkLocked c1 netId then
                 (case modifyFallthroughLocked K c1 netId False w1 of (r, w) \<Rightarrow> Some (r, c1, w))
               else Some (0, c1, w1)) = Some (r2, c2, w2)"
    and c': "c' = c2\<lparr>mNetworks := om_erase netId (mNetworks c2),
                   mIfindexToLastNetId := filter (\<lambda>e. snd e \<noteq> netId) (mIfindexToLastNetId c2)\<rparr>"
    using run by (auto simp: destroyNetwork_def Let_def simp del: LOCAL_NET_ID_def split: option.splits)
  have inv1: "ctrl_inv c1" "mDefaultNetId c1 = mDefaultNetId c" using clear_network_inv [OF inv one] by simp_all
  have nz: "netId \<noteq> 0" using False ctrl_invD(4) [OF inv] by (auto simp: isValidNetworkLocked_def)
  have "ctrl_inv c2 \<and> mDefaultNetId c2 \<noteq> netId"
  proof (cases "mDefaultNetId c1 = netId")
    case True
    then obtain c3 where "on_network (mDefaultNetId c1) (removeAsDefault K (DelegateImpl K c1)) (c1, w1) = Some (r2, c3, w2)"
      "c2 = c3\<lparr>mDefaultNetId := NETID_UNSET\<rparr>"
      using two by auto
    then show ?thesis
      using removeAsDefault_then_unset_inv [OF inv1(1), of K "DelegateImpl K c1" w1 r2 c3 w2 NETID_UNSET] nz
      by (simp add: default_ok_def)
  next
    case False
    then show ?thesis using two inv1 by (auto split: if_splits prod.splits)
  qed
  then show ?thesis using ctrl_inv_erase [of c2 netId] False by (simp add: c')
qed


text \<open>Methods that change only the flag, the permission or the users of an object.\<close>

lemma same_class_inv:
  assumes inv: "ctrl_inv c" and run: "on_network i f (c, w) = Some (r, c', w')"
    and obj: "\<And>n n'. f (n, w) = Some (r, n', w') \<Longrightarrow> mNetId n' = mNetId n \<and> mInterfaces n' = mInterfaces n \<and>
      getType n' = getType n \<and> (\<forall>p. kind n = PhysicalNetwork p True \<longrightarrow> (\<exists>q. kind n' = PhysicalNetwork q True))"
  shows "ctrl_inv c' \<and> mDefaultNetId c' = mDefaultNetId c"
proof -
  obtain n n' where n: "getNetworkLocked c i = Some n" "f (n, w) = Some (r, n', w')"
    and c': "c' = c\<lparr>mNetworks := om_put i n' (mNetworks c)\<rparr>"
    using run by (rule on_network_cases)
  have "mDefaultNetId c = i \<Longrightarrow> \<exists>p. kind n' = PhysicalNetwork p True"
    using default_kind [OF inv] n(1) obj [OF n(2)] by blast
  then show ?thesis
    using ctrl_inv_put_same [OF inv n(1), of n'] obj [OF n(2)] by (auto simp: c')
qed

lemma addAsDefault_inv:
  assumes "ctrl_inv c" "on_network i (addAsDefault K d) (c, w) = Some (r, c', w')"
  shows "ctrl_inv c' \<and> mDefaultNetId c' = mDefaultNetId c"
  using assms(1,2) by (rule same_class_inv) (auto dest!: addAsDefault_obj simp: getType_def)

lemma setPermission_inv:
  assumes "ctrl_inv c" "on_network i (setPermission K d p) (c, w) = Some (r, c', w')"
  shows "ctrl_inv c' \<and> mDefaultNetId c' = mDefaultNetId c"
  using assms(1,2) by (rule same_class_inv) (auto dest!: setPermission_obj simp: getType_def)

lemma addUsers_inv:
  assumes "ctrl_inv c" "on_network i (addUsers K u ps) (c, w) = Some (r, c', w')"
  shows "ctrl_inv c' \<and> mDefaultNetId c' = mDefaultNetId c"
  using assms(1,2) by (rule same_class_inv) (auto dest!: addUsers_obj simp: getType_def)

lemma removeUsers_inv:
  assumes "ctrl_inv c" "on_network i (removeUsers K u ps) (c, w) = Some (r, c', w')"
  shows "ctrl_inv c' \<and> mDefaultNetId c' = mDefaultNetId c"
  using assms(1,2) by (rule same_class_inv) (auto dest!: removeUsers_obj simp: getType_def)

lemma setPermissionForNetworks_inv:
  "ctrl_inv c \<Longrightarrow> setPermissionForNetworks K p ids (c, w) = Some (r, c', w') \<Longrightarrow> ctrl_inv c'"
proof (induction ids arbitrary: c w)
  case (Cons i ids)
  show ?case
  proof (cases "\<exists>n. getNetworkLocked c i = Some n \<and> getType n = PHYSICAL")
    case True
    then have run: "pchk (on_network i (setPermission K (DelegateImpl K c) p)) (setPermissionForNetworks K p ids) (c, w)
        = Some (r, c', w')"
      using Cons.prems(2) by auto
    consider "on_network i (setPermission K (DelegateImpl K c) p) (c, w) = Some (r, c', w')"
      | u v where "on_network i (setPermission K (DelegateImpl K c) p) (c, w) = Some (0, u, v)"
          "setPermissionForNetworks K p ids (u, v) = Some (r, c', w')"
      using run unfolding pchk_Some_iff by force
    then show ?thesis
      by cases (use setPermission_inv [OF Cons.prems(1)] Cons.IH in blast)+
  next
    case False
    then show ?thesis using Cons.prems by (auto split: option.splits if_splits)
  qed
qed simp

text \<open>An interface belongs to at most one network, which the lookup finds.\<close>

lemma interface_owner:
  assumes inv: "ctrl_inv c" and m: "getNetworkLocked c j = Some m" "interface \<in> set (mInterfaces m)"
  shows "getNetworkForInterfaceLocked c interface = j"
proof -
  have "(j, m) \<in> set (mNetworks c)" using m(1) by (auto simp: getNetworkLocked_def dest: map_of_SomeD)
  then have "find (\<lambda>entry. hasInterface (snd entry) interface) (mNetworks c) \<noteq> None"
    using m(2) unfolding find_None_iff hasInterface_def by force
  then obtain k q where kq: "find (\<lambda>entry. hasInterface (snd entry) interface) (mNetworks c) = Some (k, q)" by auto
  then have "(k, q) \<in> set (mNetworks c)" and qi: "interface \<in> set (mInterfaces q)"
    by (auto simp: find_Some_iff hasInterface_def in_set_conv_nth) (metis snd_conv)
  then have "map_of (mNetworks c) k = Some q"
    using inv mem_map_of [of "mNetworks c" k q] by (simp add: ctrl_inv_def)
  then have "k = j"
    using inv m qi unfolding ctrl_inv_def nets_ok_def getNetworkLocked_def by blast
  then show ?thesis using kq by (simp add: getNetworkForInterfaceLocked_def)
qed

lemma addInterface_network_inv:
  assumes inv: "ctrl_inv c" and on: "on_network netId (addInterface K d interface) (c, w) = Some (r, c', w')"
    and free: "getNetworkForInterfaceLocked c interface \<in> {0, netId}"
  shows "ctrl_inv c' \<and> map_of (mNetworks c') netId \<noteq> None"
proof -
  obtain n n' where n: "getNetworkLocked c netId = Some n" "addInterface K d interface (n, w) = Some (r, n', w')"
    and c': "c' = c\<lparr>mNetworks := om_put netId n' (mNetworks c)\<rparr>"
    using on by (rule on_network_cases)
  note ok = ctrl_invD [OF inv n(1)]
  have n': "n' = (if r = 0 then insert_interface interface n else n)" using ifaces.add_result [OF _ ok(3) n(2)] by simp
  have other: "{interface} \<inter> set (mInterfaces m) = {}" if m: "getNetworkLocked c j = Some m" "j \<noteq> netId" for j m
    using interface_owner [OF inv m(1), of interface] ctrl_invD(4) [OF inv m(1)] m(2) free by auto
  have "net_ok netId n'" "set (mInterfaces n') \<subseteq> set (mInterfaces n) \<union> {interface}" "kind n' = kind n"
    using ok(1) n' os.inv_ins [OF ok(3), of interface] os.elems_ins [of interface "mInterfaces n"]
    by (auto simp: net_ok_def insert_interface_def getType_def)
  then have "ctrl_inv c'"
    unfolding c' using default_kind [OF inv] n(1) other by (intro ctrl_inv_put [OF inv n(1), where I = "{interface}"]) auto
  then show ?thesis by (simp add: c' map_of_om_put)
qed

lemma set_om_put: "set (om_put k v m) \<subseteq> insert (k, v) (set m)"
  by (induction k v m rule: om_put.induct) auto

lemma addInterfaceToNetwork_inv:
  assumes inv: "ctrl_inv c" and run: "addInterfaceToNetwork K netId interface (c, w) = Some (r, c', w')"
  shows "ctrl_inv c'"
proof (cases "isValidNetworkLocked c netId \<and> getNetworkForInterfaceLocked c interface \<in> {0, netId}")
  case False
  then show ?thesis using inv run by (auto simp: addInterfaceToNetwork_def Let_def split: if_splits)
next
  case True
  let ?on = "on_network netId (addInterface K (DelegateImpl K c) interface) (c, w)"
  obtain r1 c1 w1 where on: "?on = Some (r1, c1, w1)"
    using run True by (auto simp: addInterfaceToNetwork_def Let_def pchk_def split: option.splits)
  have inv1: "ctrl_inv c1" "map_of (mNetworks c1) netId \<noteq> None"
    using addInterface_network_inv [OF inv on] True by auto
  have "c' = c1 \<or> c' = c1\<lparr>mIfindexToLastNetId := om_put (getIfIndex interface w1) netId (mIfindexToLastNetId c1)\<rparr>"
    using run True on by (auto simp: addInterfaceToNetwork_def Let_def pchk_def split: if_splits)
  then show ?thesis
    using inv1 set_om_put [of "getIfIndex interface w1" netId "mIfindexToLastNetId c1"]
    by (fastforce simp: ctrl_inv_def last_ok_def)
qed

lemma removeInterfaceFromNetwork_inv:
  assumes inv: "ctrl_inv c" and run: "removeInterfaceFromNetwork K netId interface (c, w) = Some (r, c', w')"
  shows "ctrl_inv c'"
proof (cases "isValidNetworkLocked c netId")
  case True
  then have "on_network netId (removeInterface K (DelegateImpl K c) interface) (c, w) = Some (r, c', w')"
    using run by (simp add: removeInterfaceFromNetwork_def)
  then obtain n n' where n: "getNetworkLocked c netId = Some n"
    "removeInterface K (DelegateImpl K c) interface (n, w) = Some (r, n', w')"
    and c': "c' = c\<lparr>mNetworks := om_put netId n' (mNetworks c)\<rparr>"
    by (rule on_network_cases)
  note ok = ctrl_invD [OF inv n(1)]
  have "n' = (if r = 0 then erase_interface interface n else n)" using ifaces.rm_result [OF _ ok(3) n(2)] by simp
  then have "net_ok netId n'" "set (mInterfaces n') \<subseteq> set (mInterfaces n)" "kind n' = kind n"
    using ok(1) os.inv_del [OF ok(3), of interface] os.elems_del [of interface "mInterfaces n"]
    by (auto simp: net_ok_def erase_interface_def getType_def)
  then show ?thesis
    unfolding c' using default_kind [OF inv] n(1) by (intro ctrl_inv_put [OF inv n(1), where I = "{}"]) auto
qed (use inv run in \<open>auto simp: removeInterfaceFromNetwork_def\<close>)

lemma getNetwork_put_other:
  "j \<noteq> i \<Longrightarrow> getNetworkLocked (c\<lparr>mNetworks := om_put i n (mNetworks c)\<rparr>) j = getNetworkLocked c j"
  by (simp add: getNetworkLocked_def map_of_om_put)

lemma setDefault_second_inv:
  assumes inv: "ctrl_inv c" and ne: "netId \<noteq> mDefaultNetId c" and new: "default_ok netId (map_of (mNetworks c))"
    and run: "pchk
      (\<lambda>s. if mDefaultNetId (fst s) \<noteq> NETID_UNSET then
             (case getNetworkLocked (fst s) (mDefaultNetId (fst s)) of
                None \<Rightarrow> Some (- ESRCH, s)
              | Some network \<Rightarrow>
                  if getType network \<noteq> PHYSICAL then Some (- ESRCH, s)
                  else on_network (mDefaultNetId (fst s)) (removeAsDefault K (DelegateImpl K (fst s))) s)
           else Some (0, s))
      (\<lambda>s. Some (0, (fst s)\<lparr>mDefaultNetId := netId\<rparr>, snd s)) (c, w) = Some (r, c', w')"
  shows "ctrl_inv c'"
proof (cases "mDefaultNetId c = 0")
  case True
  then show ?thesis using run inv new by (auto simp: pchk_def ctrl_inv_def)
next
  case False
  then obtain n p where n: "getNetworkLocked c (mDefaultNetId c) = Some n" "kind n = PhysicalNetwork p True"
    using inv by (auto simp: ctrl_inv_def default_ok_def getNetworkLocked_def)
  then obtain r1 c1 w1 where on: "on_network (mDefaultNetId c) (removeAsDefault K (DelegateImpl K c)) (c, w) = Some (r1, c1, w1)"
    and c': "c' = (if r1 = 0 then c1\<lparr>mDefaultNetId := netId\<rparr> else c1)"
    using run False by (auto simp: pchk_def getType_def split: option.splits if_splits)
  obtain m n' where m: "getNetworkLocked c (mDefaultNetId c) = Some m"
    "removeAsDefault K (DelegateImpl K c) (m, w) = Some (r1, n', w1)"
    and c1: "c1 = c\<lparr>mNetworks := om_put (mDefaultNetId c) n' (mNetworks c)\<rparr>"
    using on by (rule on_network_cases)
  show ?thesis
  proof (cases "r1 = 0")
    case True
    have "default_ok netId (map_of (mNetworks c1))"
      using new ne by (auto simp: c1 map_of_om_put default_ok_def)
    then show ?thesis using removeAsDefault_then_unset_inv [OF inv on] True by (simp add: c')
  next
    case False
    then have "n' = m" using removeAsDefault_obj [OF m(2)] by simp
    then show ?thesis using False inv m(1) by (simp add: c' c1)
  qed
qed

lemma setDefaultNetwork_inv:
  assumes inv: "ctrl_inv c" and run: "setDefaultNetwork K netId (c, w) = Some (r, c', w')"
  shows "ctrl_inv c'"
proof (cases "netId = mDefaultNetId c")
  case True
  then show ?thesis using inv run by (simp add: setDefaultNetwork_def)
next
  case ne: False
  note run' = run [unfolded setDefaultNetwork_def, simplified fst_conv if_not_P [OF ne]]
  show ?thesis
  proof (cases "netId = 0")
    case True
    then show ?thesis
      using setDefault_second_inv [OF inv ne, of K w r c' w'] run' by (simp add: default_ok_def pchk_def)
  next
    case nz: False
    show ?thesis
    proof (cases "\<exists>n. getNetworkLocked c netId = Some n \<and> getType n = PHYSICAL")
      case False
      then show ?thesis using run' inv nz by (auto simp: pchk_def split: option.splits if_splits)
    next
      case True
      then obtain r1 c1 w1 where on: "on_network netId (addAsDefault K (DelegateImpl K c)) (c, w) = Some (r1, c1, w1)"
        using run' nz by (auto simp: pchk_def split: option.splits)
      obtain m n' where m: "getNetworkLocked c netId = Some m" "addAsDefault K (DelegateImpl K c) (m, w) = Some (r1, n', w1)"
        and c1: "c1 = c\<lparr>mNetworks := om_put netId n' (mNetworks c)\<rparr>"
        using on by (rule on_network_cases)
      note inv1 = addAsDefault_inv [OF inv on]
      show ?thesis
      proof (cases "r1 = 0")
        case False
        then show ?thesis using run' on True nz inv1 by (auto simp: pchk_def)
      next
        case ok: True
        have "default_ok netId (map_of (mNetworks c1))"
          using addAsDefault_obj [OF m(2)] ok by (auto simp: default_ok_def c1 map_of_om_put)
        then show ?thesis
          using setDefault_second_inv [of c1 netId K w1 r c' w'] run' on True nz ok inv1 ne
          by (auto simp: pchk_def)
      qed
    qed
  qed
qed


lemma vpn_handover_inv: "ctrl_inv c \<Longrightarrow> ctrl_inv (snd (vpn_handover c l idxs))"
proof (induction idxs arbitrary: c)
  case (Cons idx idxs)
  let ?a = "case map_of (mIfindexToLastNetId c) idx of None \<Rightarrow> 0 | Some n \<Rightarrow> n"
  have "?a = NETID_UNSET \<or> map_of (mNetworks c) ?a \<noteq> None"
    using Cons.prems map_of_SomeD [of "mIfindexToLastNetId c" idx]
    by (fastforce simp: ctrl_inv_def last_ok_def split: option.splits)
  then have "ctrl_inv (c\<lparr>mIfindexToLastNetId := om_put idx ?a (mIfindexToLastNetId c)\<rparr>)"
    using Cons.prems set_om_put [of idx ?a "mIfindexToLastNetId c"]
    by (fastforce simp: ctrl_inv_def last_ok_def)
  then show ?case using Cons.IH by (simp add: Let_def)
qed simp

lemma ctrl_inv_frame [simp]:
  "ctrl_inv (c\<lparr>mUsers := u\<rparr>) = ctrl_inv c" "ctrl_inv (c\<lparr>mProtectableUsers := p\<rparr>) = ctrl_inv c"
  "ctrl_inv (c\<lparr>mAddressToIfindices := a\<rparr>) = ctrl_inv c"
  by (simp_all add: ctrl_inv_def)

lemma address_inv:
  "ctrl_inv c \<Longrightarrow> ctrl_inv (addInterfaceAddress idx a c)"
  "ctrl_inv c \<Longrightarrow> ctrl_inv (snd (removeInterfaceAddress order idx a c))"
  by (auto simp: addInterfaceAddress_def removeInterfaceAddress_def Let_def vpn_handover_inv split: option.splits)

section \<open>Sequences of operations\<close>

inductive ctrl_step :: "kern \<Rightarrow> cstate \<Rightarrow> cstate \<Rightarrow> bool" for K where
  create_physical: "createPhysicalNetworkLocked K netId p s = Some (r, s') \<Longrightarrow> ctrl_step K s s'"
| create_oem: "createPhysicalOemNetwork K p s = Some (r, netId, s') \<Longrightarrow> ctrl_step K s s'"
| create_virtual: "createVirtualNetwork K netId secure s = (r, s') \<Longrightarrow> ctrl_step K s s'"
| destroy: "destroyNetwork K netId s = Some (r, s') \<Longrightarrow> ctrl_step K s s'"
| set_default: "setDefaultNetwork K netId s = Some (r, s') \<Longrightarrow> ctrl_step K s s'"
| add_interface: "addInterfaceToNetwork K netId interface s = Some (r, s') \<Longrightarrow> ctrl_step K s s'"
| remove_interface: "removeInterfaceFromNetwork K netId interface s = Some (r, s') \<Longrightarrow> ctrl_step K s s'"
| user_permissions: "ctrl_step K (c, w) (setPermissionForUsers p uids c, w)"
| network_permissions: "setPermissionForNetworks K p netIds s = Some (r, s') \<Longrightarrow> ctrl_step K s s'"
| add_users: "addUsersToNetwork K netId ranges s = Some (r, s') \<Longrightarrow> ctrl_step K s s'"
| remove_users: "removeUsersFromNetwork K netId ranges s = Some (r, s') \<Longrightarrow> ctrl_step K s s'"
| route: "modifyRouteNet K netId interface dst nexthop add legacy uid s = (r, s') \<Longrightarrow> ctrl_step K s s'"
| add_address: "ctrl_step K (c, w) (addInterfaceAddress idx a c, w)"
| remove_address: "ctrl_step K (c, w) (snd (removeInterfaceAddress order idx a c), w)"
| allow: "ctrl_step K (c, w) (allowProtect uids c, w)"
| deny: "ctrl_step K (c, w) (denyProtect uids c, w)"

inductive_cases ctrl_stepE: "ctrl_step K s s'"

lemma step_inv:
  assumes step: "ctrl_step K (c, w) (c', w')" and inv: "ctrl_inv c"
  shows "ctrl_inv c'"
proof -
  from step show ?thesis
  proof cases
    case create_physical then show ?thesis using createPhysical_inv [OF inv] by simp
  next
    case create_oem then show ?thesis using createOem_inv [OF inv] by simp
  next
    case create_virtual then show ?thesis using createVirtual_inv [OF inv] by simp
  next
    case destroy then show ?thesis using destroy_inv [OF inv] by simp
  next
    case set_default then show ?thesis using setDefaultNetwork_inv [OF inv] by simp
  next
    case add_interface then show ?thesis using addInterfaceToNetwork_inv [OF inv] by simp
  next
    case remove_interface then show ?thesis using removeInterfaceFromNetwork_inv [OF inv] by simp
  next
    case network_permissions then show ?thesis using setPermissionForNetworks_inv [OF inv] by simp
  next
    case add_users
    then show ?thesis
      using inv addUsers_inv [OF inv] by (auto simp: addUsersToNetwork_def split: option.splits if_splits)
  next
    case remove_users
    then show ?thesis
      using inv removeUsers_inv [OF inv] by (auto simp: removeUsersFromNetwork_def split: option.splits if_splits)
  next
    case route
    then show ?thesis using inv by (auto simp: modifyRouteNet_def Let_def split: prod.splits if_splits)
  qed (use inv address_inv in \<open>simp_all add: setPermissionForUsers_def allowProtect_def denyProtect_def\<close>)
qed

end
