(* ===== verification/Network_Properties.thy ===== *)
theory Network_Properties
  imports Network_Invariant Route_Fib
begin

unbundle bit_operations_syntax

text \<open>
  What the network controller guarantees: a consistent state in every run, complete clean-up of
  destroyed networks, the access rules, the choice of a network for DNS, and the hand-over rule for
  addresses that move between interfaces of a VPN.
\<close>

section \<open>Every run keeps the state consistent\<close>

text \<open>
  Claim C3. In every state that any sequence of public operations can reach from the constructor, with
  any kernel and whichever requests fail: the local network exists; each network is stored under its
  own NetId, in the range of its class; no interface is in two networks; a default NetId names a
  physical network that is marked as default; and the index map refers only to existing networks.
\<close>

theorem reachable_consistent:
  assumes "(ctrl_step K)\<^sup>*\<^sup>* (NetworkController_new, w0) (c, w)"
  shows "ctrl_inv c"
  using assms
proof (induction "(c, w)" arbitrary: c w rule: rtranclp_induct)
  case base
  then show ?case by (simp add: ctrl_inv_new)
next
  case (step s)
  then show ?case using step_inv by (cases s) blast
qed

lemma create_fresh_ok:
  assumes "MIN_NET_ID \<le> netId \<and> netId \<le> MAX_NET_ID \<or> MIN_OEM_ID \<le> netId \<and> netId \<le> MAX_OEM_ID"
    "\<not> isValidNetworkLocked c netId"
  shows "\<exists>w'. createPhysicalNetworkLocked K netId p (c, w) =
    Some (0, c\<lparr>mNetworks := om_put netId ((PhysicalNetwork_new netId)\<lparr>kind := PhysicalNetwork p False\<rparr>) (mNetworks c)\<rparr>, w')"
  using assms
  by (auto simp: createPhysicalNetworkLocked_def setPermission_def PhysicalNetwork_new_def Let_def)

theorem reachable_consistent_witness:
  "\<exists>c w. (ctrl_step kern_acks)\<^sup>*\<^sup>* (NetworkController_new, \<lparr>trace = [], nl_fds = 0, sInterfaceToTable = []\<rparr>) (c, w) \<and>
     isValidNetworkLocked c 100 \<and> ctrl_inv c"
proof -
  let ?w = "\<lparr>trace = [], nl_fds = 0, sInterfaceToTable = []\<rparr> :: world"
  have "\<not> isValidNetworkLocked NetworkController_new 100"
    by (simp add: isValidNetworkLocked_def getNetworkLocked_def NetworkController_new_def)
  then obtain c w where run: "createPhysicalNetworkLocked kern_acks 100 PERMISSION_NONE (NetworkController_new, ?w) = Some (0, c, w)"
    and c: "isValidNetworkLocked c 100"
    using create_fresh_ok [of 100 NetworkController_new kern_acks PERMISSION_NONE ?w]
    by (auto simp: isValidNetworkLocked_def getNetworkLocked_def map_of_om_put)
  have "(ctrl_step kern_acks)\<^sup>*\<^sup>* (NetworkController_new, ?w) (c, w)"
    using ctrl_step.create_physical [OF run] by blast
  then show ?thesis using reachable_consistent c by blast
qed

section \<open>Destroying a network\<close>

lemma on_network_other:
  "on_network i f (c, w) = Some (r, c', w') \<Longrightarrow> j \<noteq> i \<Longrightarrow> getNetworkLocked c' j = getNetworkLocked c j"
  by (erule on_network_cases) (simp add: getNetwork_put_other)

text \<open>
  Claim C6. Whenever \<open>destroyNetwork\<close> returns on an existing network other than the local one, and
  even if it returns an error because rules could not be removed, the NetId is free again, it is not
  the default network, no interface index refers to it, its resolver cache has just been dropped, and
  every other network is untouched.
\<close>

theorem destroyNetwork_cleans:
  assumes "ctrl_inv c" "netId \<noteq> LOCAL_NET_ID" "isValidNetworkLocked c netId"
    and run: "destroyNetwork K netId (c, w) = Some (r, c', w')"
  shows "\<not> isValidNetworkLocked c' netId \<and> mDefaultNetId c' \<noteq> netId \<and>
    (\<forall>(idx, n) \<in> set (mIfindexToLastNetId c'). n \<noteq> netId) \<and>
    (\<exists>h polling. trace w' = h @ [EvResolvDeleteCache netId, EvTcpPolling polling]) \<and>
    (\<forall>j. j \<noteq> netId \<longrightarrow> getNetworkLocked c' j = getNetworkLocked c j)"
proof -
  obtain r1 c1 w1 r2 c2 w2
    where one: "on_network netId (clearInterfaces (removeInterface K (DelegateImpl K c))) (c, w) = Some (r1, c1, w1)"
    and two: "(if mDefaultNetId c1 = netId then
                 map_option (\<lambda>(r, c, w). (r, c\<lparr>mDefaultNetId := NETID_UNSET\<rparr>, w))
                   (on_network netId (removeAsDefault K (DelegateImpl K c1)) (c1, w1))
               else if isVirtualNetworkLocked c1 netId then
                 (case modifyFallthroughLocked K c1 netId False w1 of (r, w) \<Rightarrow> Some (r, c1, w))
               else Some (0, c1, w1)) = Some (r2, c2, w2)"
    and c': "c' = c2\<lparr>mNetworks := om_erase netId (mNetworks c2),
                   mIfindexToLastNetId := filter (\<lambda>e. snd e \<noteq> netId) (mIfindexToLastNetId c2)\<rparr>"
      "w' = updateTcpSocketMonitorPolling c' (log_event (EvResolvDeleteCache netId) w2)"
    using assms(2,3) run by (auto simp: destroyNetwork_def Let_def simp del: LOCAL_NET_ID_def split: option.splits)
  have nz: "netId \<noteq> 0" using assms(1,3) ctrl_invD(4) by (auto simp: isValidNetworkLocked_def)
  have other: "mDefaultNetId c2 \<noteq> netId \<and> (\<forall>j. j \<noteq> netId \<longrightarrow> getNetworkLocked c2 j = getNetworkLocked c1 j)"
  proof (cases "mDefaultNetId c1 = netId")
    case True
    then obtain c3 where "on_network netId (removeAsDefault K (DelegateImpl K c1)) (c1, w1) = Some (r2, c3, w2)"
      "c2 = c3\<lparr>mDefaultNetId := NETID_UNSET\<rparr>"
      using two by auto
    then show ?thesis using nz on_network_other [of netId _ c1 w1 r2 c3 w2] by (auto simp: getNetworkLocked_def)
  qed (use two in \<open>auto split: if_splits prod.splits\<close>)
  have "\<forall>j. j \<noteq> netId \<longrightarrow> getNetworkLocked c' j = getNetworkLocked c j"
    using other on_network_other [OF one] by (simp add: c' getNetworkLocked_def map_of_om_erase)
  then show ?thesis
    using other by (auto simp: c' isValidNetworkLocked_def getNetworkLocked_def map_of_om_erase
        updateTcpSocketMonitorPolling_def)
qed


text \<open>A controller with one physical network, 100, as the default, and one VPN, 101.\<close>

definition demo_ctrl :: ctrl where
  "demo_ctrl = \<lparr>mDefaultNetId = 100,
     mNetworks = [(51, DummyNetwork_new 51), (99, LocalNetwork_new 99),
       (100, \<lparr>mNetId = 100, mInterfaces = [], kind = PhysicalNetwork PERMISSION_NONE True\<rparr>),
       (101, \<lparr>mNetId = 101, mInterfaces = [''tun0''], kind = VirtualNetwork True [UidRangeParcel 10000 19999]\<rparr>)],
     mUsers = [(10009, PERMISSION_SYSTEM)], mProtectableUsers = [AID_VPN],
     mIfindexToLastNetId = [(7, 100), (8, 101), (9, 101)],
     mAddressToIfindices = [(''10.0.0.1'', [8, 9])]\<rparr>"

lemma demo_nets: "getNetworkLocked demo_ctrl i =
    (if i = 51 then Some (DummyNetwork_new 51) else if i = 99 then Some (LocalNetwork_new 99)
     else if i = 100 then Some \<lparr>mNetId = 100, mInterfaces = [], kind = PhysicalNetwork PERMISSION_NONE True\<rparr>
     else if i = 101 then Some \<lparr>mNetId = 101, mInterfaces = [''tun0''], kind = VirtualNetwork True [UidRangeParcel 10000 19999]\<rparr>
     else None)"
  by (simp add: getNetworkLocked_def demo_ctrl_def)

lemma demo_fields:
  "mDefaultNetId demo_ctrl = 100" "mProtectableUsers demo_ctrl = [1016]"
  "map_of (mUsers demo_ctrl) 10001 = None"
  by (simp_all add: demo_ctrl_def)

lemma demo_inv: "ctrl_inv demo_ctrl"
proof -
  have M: "map_of (mNetworks demo_ctrl) = getNetworkLocked demo_ctrl" by (simp add: getNetworkLocked_def fun_eq_iff)
  have "nets_ok (getNetworkLocked demo_ctrl)"
    by (auto simp: nets_ok_def demo_nets net_ok_def getType_def os_inv_def DummyNetwork_new_def
        LocalNetwork_new_def split: if_splits)
  then show ?thesis
    unfolding ctrl_inv_def M by (simp add: default_ok_def last_ok_def demo_nets) (simp add: demo_ctrl_def om_inv_def demo_nets)
qed

theorem destroyNetwork_cleans_witness:
  "\<exists>c' w'. destroyNetwork kern_acks 100 (demo_ctrl, \<lparr>trace = [], nl_fds = 0, sInterfaceToTable = []\<rparr>) = Some (0, c', w') \<and>
     \<not> isValidNetworkLocked c' 100 \<and> mDefaultNetId c' \<noteq> 100 \<and> getNetworkLocked c' 101 = getNetworkLocked demo_ctrl 101"
proof -
  let ?w = "\<lparr>trace = [], nl_fds = 0, sInterfaceToTable = []\<rparr> :: world"
  have v: "isValidNetworkLocked demo_ctrl 100" by (simp add: isValidNetworkLocked_def demo_nets)
  let ?n = "\<lparr>mNetId = 100, mInterfaces = [], kind = PhysicalNetwork PERMISSION_NONE True\<rparr>"
  let ?c = "demo_ctrl\<lparr>mNetworks := om_put 100 ?n (mNetworks demo_ctrl)\<rparr>"
  have "clearInterfaces rm (?n, ?w) = Some (0, ?n, ?w)" for rm by (subst clearInterfaces.simps) simp
  then have "on_network 100 (clearInterfaces rm) (demo_ctrl, ?w) = Some (0, ?c, ?w)" for rm
    by (simp add: on_network_def demo_nets)
  moreover have "getNetworkLocked ?c 100 = Some ?n" by (simp add: getNetworkLocked_def map_of_om_put)
  ultimately have "\<exists>c' w'. destroyNetwork kern_acks 100 (demo_ctrl, ?w) = Some (0, c', w')"
    using v by (simp add: destroyNetwork_def demo_fields on_network_def [of _ "removeAsDefault _ _"] removeAsDefault_def
        on_world_def update_obj_def pchk_def Let_def)
  then obtain c' w' where run: "destroyNetwork kern_acks 100 (demo_ctrl, ?w) = Some (0, c', w')" by blast
  show ?thesis using destroyNetwork_cleans [OF demo_inv _ v run] run by auto
qed

lemma demo_vpn: "getVirtualNetworkForUserLocked demo_ctrl 10001 =
    Some \<lparr>mNetId = 101, mInterfaces = [''tun0''], kind = VirtualNetwork True [UidRangeParcel 10000 19999]\<rparr>"
proof -
  have "hasUid [UidRangeParcel 10000 19999] 10001"
    by (subst hasUid_iff_covers) (simp_all add: disjoint_ranges_def covers_def)
  then show ?thesis
    by (simp add: getVirtualNetworkForUserLocked_def demo_ctrl_def DummyNetwork_new_def LocalNetwork_new_def
        getType_def appliesToUser_def)
qed

section \<open>Access to networks\<close>

text \<open>
  When \<open>checkUserNetworkAccessLocked\<close> returns 0: for an existing network and a known
  UID which either has the system permission; or asks for a VPN that applies to it; or asks for a
  physical network whose permission it has, while no secure VPN applies to it or it may protect its
  sockets from VPNs. Where the bad cast is reached the result is \<open>None\<close> and nothing is said about it.
\<close>

lemma checkUserNetworkAccess_grants:
  "checkUserNetworkAccessLocked c uid netId = Some 0 \<longleftrightarrow>
    (\<exists>n. getNetworkLocked c netId = Some n \<and> uid \<noteq> INVALID_UID \<and>
      (getPermissionForUserLocked c uid AND PERMISSION_SYSTEM = PERMISSION_SYSTEM \<or>
       getType n = VIRTUAL \<and> appliesToUser n uid \<or>
       (\<exists>p d. kind n = PhysicalNetwork p d \<and> getPermissionForUserLocked c uid AND p = p) \<and>
         (uid \<in> set (mProtectableUsers c) \<or>
          \<not> (\<exists>v. getVirtualNetworkForUserLocked c uid = Some v \<and> isSecure v))))"
proof (cases "getNetworkLocked c netId")
  case None
  then show ?thesis by (simp add: checkUserNetworkAccessLocked_def)
next
  case (Some n)
  then show ?thesis
    by (cases "kind n"; cases "getVirtualNetworkForUserLocked c uid")
      (auto simp: checkUserNetworkAccessLocked_def Let_def getType_def getPermission_def appliesToUser_def)
qed

text \<open>
  The final cast of \<open>checkUserNetworkAccessLocked\<close> assumes a physical network, but the local network
  reaches it as well: for an ordinary application the permission is read from an object that has none.
\<close>

lemma checkUserNetworkAccess_bad_cast:
  "checkUserNetworkAccessLocked NetworkController_new 10001 LOCAL_NET_ID = None"
  by (simp add: checkUserNetworkAccessLocked_def NetworkController_new_def getNetworkLocked_def
      LocalNetwork_new_def DummyNetwork_new_def getPermissionForUserLocked_def getType_def
      getVirtualNetworkForUserLocked_def getPermission_def)

text \<open>
  The network chosen for DNS: the mark always names the chosen network and is protected and
  privileged. A network the user has no access to is never selected explicitly: without access the
  explicit bit is clear and the choice is the user's VPN, if it has nameservers, or else the default
  network. With access the choice is the requested network, except that a VPN without nameservers is
  replaced by the default network.
\<close>

theorem getNetworkForDns_choice:
  assumes "getNetworkForDnsLocked has_nameservers c netId uid = Some (dns, mark)"
    and "\<not> (netId = NETID_UNSET \<and> getVirtualNetworkForUserLocked c uid = None)"
  shows "fm_netId mark = take_bit 16 dns \<and> fm_protectedFromVpn mark \<and> fm_permission mark = PERMISSION_SYSTEM \<and>
    (if checkUserNetworkAccessLocked c uid netId = Some 0
     then fm_explicitlySelected mark \<and>
       dns = (if isVirtualNetworkLocked c netId \<and> \<not> has_nameservers netId then mDefaultNetId c else netId)
     else \<not> fm_explicitlySelected mark \<and>
       (dns = mDefaultNetId c \<or>
        (\<exists>v. getVirtualNetworkForUserLocked c uid = Some v \<and> has_nameservers (mNetId v) \<and> dns = mNetId v)))"
proof -
  obtain access where a: "checkUserNetworkAccessLocked c uid netId = Some access"
    using assms by (auto simp: getNetworkForDnsLocked_def Let_def split: if_splits option.splits)
  show ?thesis
    using assms a
    by (cases "access = 0"; cases "getNetworkLocked c netId"; cases "getVirtualNetworkForUserLocked c uid")
      (auto simp: getNetworkForDnsLocked_def Let_def isVirtualNetworkLocked_def Fwmark_new_def mark_simps
        split: if_splits)
qed

theorem getNetworkForDns_choice_witness:
  "\<exists>mark. getNetworkForDnsLocked (\<lambda>n. n = 101) demo_ctrl 100 10001 = Some (101, mark) \<and>
     \<not> fm_explicitlySelected mark \<and> fm_netId mark = 101"
proof -
  have acc: "checkUserNetworkAccessLocked demo_ctrl 10001 100 = Some (- EPERM)"
    by (simp add: checkUserNetworkAccessLocked_def demo_nets demo_vpn demo_fields isSecure_def getType_def
        getPermissionForUserLocked_def)
  then obtain mark where run: "getNetworkForDnsLocked (\<lambda>n. n = 101) demo_ctrl 100 10001 = Some (101, mark)"
    by (simp add: getNetworkForDnsLocked_def demo_vpn Let_def)
  show ?thesis using getNetworkForDns_choice [OF run] run acc by simp
qed


section \<open>Addresses that move between interfaces\<close>

definition last_net :: "ctrl \<Rightarrow> u32 \<Rightarrow> netid" where
  "last_net c idx = (case map_of (mIfindexToLastNetId c) idx of None \<Rightarrow> NETID_UNSET | Some n \<Rightarrow> n)"

lemma last_net_put:
  "last_net (c\<lparr>mIfindexToLastNetId := om_put idx (last_net c idx) (mIfindexToLastNetId c)\<rparr>) = last_net c"
  by (rule ext) (simp add: last_net_def map_of_om_put split: option.splits)

lemma virtual_frame [simp]:
  "isVirtualNetworkLocked (c\<lparr>mIfindexToLastNetId := m\<rparr>) = isVirtualNetworkLocked c"
  "isVirtualNetworkLocked (c\<lparr>mAddressToIfindices := a\<rparr>) = isVirtualNetworkLocked c"
  by (simp_all add: fun_eq_iff isVirtualNetworkLocked_def getNetworkLocked_def)

lemma vpn_handover_result:
  "fst (vpn_handover c l idxs) \<longleftrightarrow> \<not> (isVirtualNetworkLocked c l \<and> (\<exists>j \<in> set idxs. last_net c j = l))"
proof (induction idxs arbitrary: c)
  case (Cons idx idxs)
  let ?c = "c\<lparr>mIfindexToLastNetId := om_put idx (last_net c idx) (mIfindexToLastNetId c)\<rparr>"
  have "vpn_handover c l (idx # idxs) =
      (if l = last_net c idx \<and> isVirtualNetworkLocked c l then (False, ?c) else vpn_handover ?c l idxs)"
    by (auto simp: Let_def last_net_def)
  then show ?case using Cons.IH [of ?c] by (auto simp: last_net_put)
qed simp

lemma unset_not_virtual: "ctrl_inv c \<Longrightarrow> \<not> isVirtualNetworkLocked c NETID_UNSET"
  using ctrl_invD(4) [of c 0] by (auto simp: isVirtualNetworkLocked_def split: option.splits)

text \<open>
  \<open>removeInterfaceAddress\<close> tells the caller to spare the sockets of a removed address exactly
  when the address was recorded on the interface, the interface was last in a network that is a VPN
  now, and the address is still recorded on another interface last in the same network. The answer
  does not depend on the order in which the hash set is visited.
\<close>

theorem removeInterfaceAddress_spares:
  assumes "ctrl_inv c" "\<And>xs. set (order xs) = set xs"
  shows "\<not> fst (removeInterfaceAddress order ifindex address c) \<longleftrightarrow>
    (\<exists>ifindices net. map_of (mAddressToIfindices c) address = Some ifindices \<and> ifindex \<in> set ifindices \<and>
       map_of (mIfindexToLastNetId c) ifindex = Some net \<and> isVirtualNetworkLocked c net \<and>
       (\<exists>j \<in> set ifindices. j \<noteq> ifindex \<and> map_of (mIfindexToLastNetId c) j = Some net))"
proof (cases "map_of (mAddressToIfindices c) address")
  case (Some ifindices)
  have "last_net c j = net \<longleftrightarrow> map_of (mIfindexToLastNetId c) j = Some net" if "isVirtualNetworkLocked c net" for j net
    using unset_not_virtual [OF assms(1)] that by (auto simp: last_net_def split: option.splits)
  moreover have "last_net (c\<lparr>mAddressToIfindices := a\<rparr>) = last_net c" for a by (simp add: fun_eq_iff last_net_def)
  moreover have "set (os_erase ifindex ifindices) = set ifindices - {ifindex}" by (auto simp: os_erase_def)
  ultimately show ?thesis
    using Some assms(2)
    by (cases "map_of (mIfindexToLastNetId c) ifindex"; cases "os_erase ifindex ifindices = []")
      (auto simp: removeInterfaceAddress_def Let_def vpn_handover_result)
qed (simp add: removeInterfaceAddress_def)

theorem removeInterfaceAddress_spares_witness:
  "\<not> fst (removeInterfaceAddress rev 8 ''10.0.0.1'' demo_ctrl) \<and>
   fst (removeInterfaceAddress rev 7 ''10.0.0.1'' demo_ctrl)"
proof -
  have "isVirtualNetworkLocked demo_ctrl 101" by (simp add: isVirtualNetworkLocked_def demo_nets getType_def)
  then show ?thesis
    using removeInterfaceAddress_spares [OF demo_inv, of rev 8 "''10.0.0.1''"]
      removeInterfaceAddress_spares [OF demo_inv, of rev 7 "''10.0.0.1''"] by (simp add: demo_ctrl_def)
qed

section \<open>OEM networks\<close>

lemma free_oem_id_spec:
  "uint i + int n \<le> 51 \<Longrightarrow>
   i \<le> free_oem_id c n i \<and> uint (free_oem_id c n i) \<le> uint i + int n \<and>
   (\<forall>j. i \<le> j \<longrightarrow> j < free_oem_id c n i \<longrightarrow> isValidNetworkLocked c j) \<and>
   (uint (free_oem_id c n i) < uint i + int n \<longrightarrow> free_oem_id c n i \<le> MAX_OEM_ID \<longrightarrow>
      \<not> isValidNetworkLocked c (free_oem_id c n i))"
proof (induction n arbitrary: i)
  case (Suc n)
  have i: "uint (i + 1) = uint i + 1"
    using Suc.prems by (simp add: uint_plus_if')
  have step: "j = i \<or> i + 1 \<le> j" if "i \<le> j" for j
    using that i by (auto simp: word_le_def word_uint_eq_iff)
  show ?case
  proof (cases "i \<le> MAX_OEM_ID \<and> isValidNetworkLocked c i")
    case True
    have "uint (i + 1) + int n \<le> 51" using Suc.prems i by simp
    from Suc.IH [OF this] show ?thesis using True i step by (auto simp: word_le_def)
  qed (use Suc.prems in auto)
qed (auto dest: leD)

text \<open>
  \<open>createPhysicalOemNetwork\<close> always returns. If one of the NetIds 1 to 50 is free it succeeds
  with the smallest free one, which then exists; otherwise it fails with \<open>ENONET\<close>, reports NetId 0 and
  changes nothing.
\<close>

theorem createPhysicalOemNetwork_smallest:
  "\<exists>r netId c' w'. createPhysicalOemNetwork K permission (c, w) = Some (r, netId, c', w') \<and>
    (if \<exists>i. MIN_OEM_ID \<le> i \<and> i \<le> MAX_OEM_ID \<and> \<not> isValidNetworkLocked c i
     then r = 0 \<and> MIN_OEM_ID \<le> netId \<and> netId \<le> MAX_OEM_ID \<and> \<not> isValidNetworkLocked c netId \<and>
       (\<forall>j. MIN_OEM_ID \<le> j \<longrightarrow> j < netId \<longrightarrow> isValidNetworkLocked c j) \<and>
       (\<exists>n. getNetworkLocked c' netId = Some n \<and> kind n = PhysicalNetwork permission False)
     else r = - ENONET \<and> netId = NETID_UNSET \<and> c' = c \<and> w' = w)"
proof -
  let ?i = "free_oem_id c 50 MIN_OEM_ID"
  note spec = free_oem_id_spec [of MIN_OEM_ID 50 c, simplified]
  show ?thesis
  proof (cases "?i \<le> MAX_OEM_ID")
    case True
    then have free: "\<not> isValidNetworkLocked c ?i" and i: "1 \<le> ?i" using spec by (auto simp: word_le_def)
    then obtain w' where "createPhysicalNetworkLocked K ?i permission (c, w) =
      Some (0, c\<lparr>mNetworks := om_put ?i ((PhysicalNetwork_new ?i)\<lparr>kind := PhysicalNetwork permission False\<rparr>) (mNetworks c)\<rparr>, w')"
      using create_fresh_ok [of ?i c K permission w] True by auto
    then show ?thesis
      using True free i spec by (auto simp: createPhysicalOemNetwork_def Let_def getNetworkLocked_def map_of_om_put)
  next
    case False
    then have "\<forall>j. 1 \<le> j \<longrightarrow> j \<le> 50 \<longrightarrow> isValidNetworkLocked c j" using spec by auto
    then show ?thesis using False by (auto simp: createPhysicalOemNetwork_def Let_def)
  qed
qed

theorem createPhysicalOemNetwork_smallest_witness:
  "\<exists>c' w'. createPhysicalOemNetwork kern_acks PERMISSION_SYSTEM
      (NetworkController_new, \<lparr>trace = [], nl_fds = 0, sInterfaceToTable = []\<rparr>) = Some (0, 1, c', w') \<and>
    isValidNetworkLocked c' 1"
proof -
  have free: "\<not> isValidNetworkLocked NetworkController_new 1"
    by (simp add: isValidNetworkLocked_def getNetworkLocked_def NetworkController_new_def)
  then have ex: "\<exists>i. MIN_OEM_ID \<le> i \<and> i \<le> MAX_OEM_ID \<and> \<not> isValidNetworkLocked NetworkController_new i"
    by (intro exI [of _ 1]) simp
  obtain netId c' w' where run: "createPhysicalOemNetwork kern_acks PERMISSION_SYSTEM
      (NetworkController_new, \<lparr>trace = [], nl_fds = 0, sInterfaceToTable = []\<rparr>) = Some (0, netId, c', w')"
    and res: "1 \<le> netId" "\<forall>j. 1 \<le> j \<longrightarrow> j < netId \<longrightarrow> isValidNetworkLocked NetworkController_new j"
      "isValidNetworkLocked c' netId"
    using createPhysicalOemNetwork_smallest [of kern_acks PERMISSION_SYSTEM NetworkController_new
        "\<lparr>trace = [], nl_fds = 0, sInterfaceToTable = []\<rparr>"] unfolding if_P [OF ex]
    by (auto simp: isValidNetworkLocked_def)
  have "netId = 1" using res(1,2) free by force
  then show ?thesis using run res by simp
qed

section \<open>Network handles\<close>

lemma handle_halves:
  fixes n m :: u32
  shows "drop_bit 32 (push_bit 32 (ucast n) OR ucast m :: u64) = ucast n"
    "(push_bit 32 (ucast n) OR ucast m :: u64) AND 0xffffffff = ucast m"
    "ucast (ucast n :: u64) = n" "(ucast n :: u64) AND 0xffffffff = ucast n"
proof -
  have m: "(0xffffffff :: u64) = mask 32" by (simp add: mask_eq_exp_minus_1)
  show "drop_bit 32 (push_bit 32 (ucast n) OR ucast m :: u64) = ucast n"
    by (rule bit_eqI) (auto simp: bit_drop_bit_eq bit_or_iff bit_push_bit_iff bit_unsigned_iff possible_bit_word dest: bit_imp_le_length)
  show "(push_bit 32 (ucast n) OR ucast m :: u64) AND 0xffffffff = ucast m"
    unfolding m by (rule bit_eqI) (auto simp: bit_mask_iff bit_and_iff bit_or_iff bit_push_bit_iff bit_unsigned_iff possible_bit_word
        dest: bit_imp_le_length)
  show "ucast (ucast n :: u64) = n"
    by (rule bit_eqI) (auto simp: bit_unsigned_iff possible_bit_word dest: bit_imp_le_length)
  show "(ucast n :: u64) AND 0xffffffff = ucast n"
    unfolding m by (rule bit_eqI) (auto simp: bit_mask_iff bit_and_iff bit_unsigned_iff possible_bit_word dest: bit_imp_le_length)
qed

text \<open>
  Network handles round-trip: converting any NetId to a handle and back gives the NetId.
\<close>

theorem netHandle_roundtrip: "netHandleToNetId (netIdToNetHandle netId) = netId"
proof (cases "netId = 0")
  case False
  let ?h = "push_bit 32 (ucast netId) OR ucast kHandleMagic :: u64"
  have "netHandleToNetId ?h = ucast (drop_bit 32 ?h AND 0xffffffff)"
    unfolding netHandleToNetId_def handle_halves(2) by simp
  also have "\<dots> = netId" unfolding handle_halves ..
  finally show ?thesis using False unfolding netIdToNetHandle_def by (simp only: if_False)
qed (simp add: netHandleToNetId_def netIdToNetHandle_def)

section \<open>The default network\<close>

abbreviation (input) net_shape :: "ctrl \<Rightarrow> netid \<Rightarrow> (net_type \<times> string list) option" where
  "net_shape c i \<equiv> map_option (\<lambda>n. (getType n, mInterfaces n)) (getNetworkLocked c i)"

lemma on_network_default:
  assumes "on_network i f (c, w) = Some (r, c', w')"
    "f = addAsDefault K d \<and> b \<or> f = removeAsDefault K d \<and> \<not> b"
  shows "mDefaultNetId c' = mDefaultNetId c" "\<And>j. net_shape c' j = net_shape c j"
    "\<And>j. j \<noteq> i \<Longrightarrow> getNetworkLocked c' j = getNetworkLocked c j"
    "r = 0 \<Longrightarrow> \<exists>n p. getNetworkLocked c' i = Some n \<and> kind n = PhysicalNetwork p b"
proof -
  obtain m n' where m: "getNetworkLocked c i = Some m" "f (m, w) = Some (r, n', w')"
    and c': "c' = c\<lparr>mNetworks := om_put i n' (mNetworks c)\<rparr>"
    using assms(1) by (rule on_network_cases)
  obtain p old where obj: "kind m = PhysicalNetwork p old" "n' = (if r = 0 then m\<lparr>kind := PhysicalNetwork p b\<rparr> else m)"
    using m(2) assms(2) addAsDefault_obj removeAsDefault_obj by metis
  show "mDefaultNetId c' = mDefaultNetId c" by (simp add: c')
  show "net_shape c' j = net_shape c j" for j
    using m(1) obj by (simp add: c' getNetworkLocked_def map_of_om_put getType_def)
  show "j \<noteq> i \<Longrightarrow> getNetworkLocked c' j = getNetworkLocked c j" for j
    by (simp add: c' getNetworkLocked_def map_of_om_put)
  show "r = 0 \<Longrightarrow> \<exists>n p. getNetworkLocked c' i = Some n \<and> kind n = PhysicalNetwork p b"
    using obj by (simp add: c' getNetworkLocked_def map_of_om_put)
qed

abbreviation (input) becomes_default :: "kern \<Rightarrow> netid \<Rightarrow> cstate pact" where
  "becomes_default K netId \<equiv> \<lambda>s. if netId \<noteq> NETID_UNSET then
               (case getNetworkLocked (fst s) netId of
                  None \<Rightarrow> Some (- ENONET, s)
                | Some network \<Rightarrow>
                    if getType network \<noteq> PHYSICAL then Some (- EINVAL, s)
                    else on_network netId (addAsDefault K (DelegateImpl K (fst s))) s)
             else Some (0, s)"

abbreviation (input) leaves_default :: "kern \<Rightarrow> cstate pact" where
  "leaves_default K \<equiv> \<lambda>s. if mDefaultNetId (fst s) \<noteq> NETID_UNSET then
                 (case getNetworkLocked (fst s) (mDefaultNetId (fst s)) of
                    None \<Rightarrow> Some (- ESRCH, s)
                  | Some network \<Rightarrow>
                      if getType network \<noteq> PHYSICAL then Some (- ESRCH, s)
                      else on_network (mDefaultNetId (fst s)) (removeAsDefault K (DelegateImpl K (fst s))) s)
               else Some (0, s)"

lemma becomes_default_frame:
  assumes "becomes_default K netId (c, w) = Some (r1, c1, w1)"
  shows "mDefaultNetId c1 = mDefaultNetId c \<and> (\<forall>j. net_shape c1 j = net_shape c j)"
  using assms by (auto split: if_splits option.splits dest: on_network_default(1,2) [where b = True])

lemma leaves_default_frame:
  assumes "leaves_default K (c, w) = Some (r1, c1, w1)"
  shows "mDefaultNetId c1 = mDefaultNetId c \<and> (\<forall>j. net_shape c1 j = net_shape c j) \<and>
      (r1 = 0 \<and> mDefaultNetId c \<noteq> NETID_UNSET \<longrightarrow>
        (\<exists>n p. getNetworkLocked c1 (mDefaultNetId c) = Some n \<and> kind n = PhysicalNetwork p False))"
  using assms by (auto split: if_splits option.splits dest: on_network_default(1,2,4) [where b = False])

text \<open>
  \<open>setDefaultNetwork\<close> moves the default or leaves it: if it returns 0 the requested NetId is
  the default, and a previous default network that was replaced is no longer marked as default; if it
  returns an error the default NetId is the previous one. In both cases no network appears or
  disappears, and none changes its class or its interfaces.
\<close>

theorem setDefaultNetwork_moves:
  assumes run: "setDefaultNetwork K netId (c, w) = Some (r, c', w')"
  shows "mDefaultNetId c' = (if r = 0 then netId else mDefaultNetId c) \<and>
    (r = 0 \<and> netId \<noteq> mDefaultNetId c \<and> mDefaultNetId c \<noteq> NETID_UNSET \<longrightarrow>
       (\<exists>n p. getNetworkLocked c' (mDefaultNetId c) = Some n \<and> kind n = PhysicalNetwork p False)) \<and>
    (\<forall>i. map_option (\<lambda>n. (getType n, mInterfaces n)) (getNetworkLocked c' i) =
         map_option (\<lambda>n. (getType n, mInterfaces n)) (getNetworkLocked c i))"
proof (cases "netId = mDefaultNetId c")
  case True
  then show ?thesis using run by (simp add: setDefaultNetwork_def)
next
  case False
  let ?first = "becomes_default K netId" and ?second = "leaves_default K"
  have "pchk ?first (pchk ?second (\<lambda>s. Some (0, (fst s)\<lparr>mDefaultNetId := netId\<rparr>, snd s))) (c, w) = Some (r, c', w')"
    using run False by (simp add: setDefaultNetwork_def)
  then consider "r \<noteq> 0" "?first (c, w) = Some (r, c', w')"
    | c1 w1 where "?first (c, w) = Some (0, c1, w1)" "r \<noteq> 0" "?second (c1, w1) = Some (r, c', w')"
    | c1 w1 c2 where "?first (c, w) = Some (0, c1, w1)" "r = 0" "?second (c1, w1) = Some (0, c2, w')"
        "c' = c2\<lparr>mDefaultNetId := netId\<rparr>"
    unfolding pchk_Some_iff by fastforce
  then show ?thesis
  proof cases
    case 1
    then show ?thesis using becomes_default_frame [OF 1(2)] by simp
  next
    case 2
    show ?thesis using becomes_default_frame [OF 2(1)] leaves_default_frame [OF 2(3)] 2(2) by simp
  next
    case 3
    show ?thesis
      using becomes_default_frame [OF 3(1)] leaves_default_frame [OF 3(3)] 3(2,4) by (simp add: getNetworkLocked_def)
  qed
qed

theorem setDefaultNetwork_moves_witness:
  "\<exists>c' w'. setDefaultNetwork kern_acks 0 (demo_ctrl, \<lparr>trace = [], nl_fds = 0, sInterfaceToTable = []\<rparr>) = Some (0, c', w') \<and>
     mDefaultNetId c' = 0 \<and> (\<exists>n p. getNetworkLocked c' 100 = Some n \<and> kind n = PhysicalNetwork p False)"
proof -
  let ?w = "\<lparr>trace = [], nl_fds = 0, sInterfaceToTable = []\<rparr> :: world"
  obtain c' w' where run: "setDefaultNetwork kern_acks 0 (demo_ctrl, ?w) = Some (0, c', w')"
    by (simp add: setDefaultNetwork_def demo_fields demo_nets getType_def on_network_def removeAsDefault_def
        on_world_def update_obj_def pchk_def)
  show ?thesis using setDefaultNetwork_moves [OF run] run by (simp add: demo_fields)
qed

end
