(* ===== verification/Fwmark_Server.thy ===== *)
theory Fwmark_Server
  imports Network_Controller
begin

unbundle bit_operations_syntax

text \<open>
  server/FwmarkServer.cpp: the daemon side of socket marking. \<open>processClient\<close> handles one command of a
  client. What it receives (the bytes of the command, the descriptor that came with it) and what the
  system calls on the client's socket answer are inputs; what it does to the socket, and the calls
  into the traffic controller and the event listener, are the list of effects it returns.
\<close>

section \<open>Commands\<close>

datatype fw_cmd = ON_ACCEPT | ON_CONNECT | SELECT_NETWORK | PROTECT_FROM_VPN | SELECT_FOR_USER
  | QUERY_USER_ACCESS | ON_CONNECT_COMPLETE | TAG_SOCKET | UNTAG_SOCKET | SET_COUNTERSET | DELETE_TAGDATA
  | UNKNOWN_COMMAND u32

record fw_command =
  cmdId :: fw_cmd
  cmd_netId :: netid
  cmd_uid :: uid_t
  trafficCtrlInfo :: u32

record connect_info =
  ci_error :: int
  latencyMs :: u32
  addr_bytes :: bytes

text \<open>
  What \<open>recvmsg\<close> returned. \<open>msg_control\<close> is the control message of \<open>CMSG_FIRSTHDR\<close>, if any. The data of an
  \<open>SCM_RIGHTS\<close> message are the descriptors that the kernel installed, four bytes each; the buffer of
  \<open>CMSG_SPACE(4)\<close> bytes holds two of them where \<open>size_t\<close> has 64 bits. \<open>CMSG_LEN\<close> is for that size.
\<close>

record cmsghdr =
  cmsg_level :: int
  cmsg_type :: int
  cmsg_data :: "int list"

record fw_message =
  messageLength :: int
  recv_errno :: int
  command :: fw_command
  connectInfo :: connect_info
  msg_control :: "cmsghdr option"

abbreviation (input) SOL_SOCKET :: int where "SOL_SOCKET \<equiv> 1"
abbreviation (input) SCM_RIGHTS :: int where "SCM_RIGHTS \<equiv> 1"

definition CMSG_LEN :: "nat \<Rightarrow> nat" where
  "CMSG_LEN n = 16 + n"

definition cmsg_len :: "cmsghdr \<Rightarrow> nat" where
  "cmsg_len h = CMSG_LEN (4 * length (cmsg_data h))"

text \<open>The value copied to \<open>*socketFd\<close>, or \<open>None\<close> where the header does not pass the checks.\<close>

definition passed_fd :: "fw_message \<Rightarrow> int option" where
  "passed_fd msg =
     (case msg_control msg of
        None \<Rightarrow> None
      | Some cmsgh \<Rightarrow>
          if cmsg_level cmsgh = SOL_SOCKET \<and> cmsg_type cmsgh = SCM_RIGHTS \<and> cmsg_len cmsgh = CMSG_LEN 4
          then Some (cmsg_data cmsgh ! 0) else None)"

text \<open>Answers of \<open>getsockopt\<close> and \<open>setsockopt\<close> (\<open>Inl\<close> is \<open>errno\<close>), and of the other callees.\<close>

record sock_env =
  so_domain :: "int + int"
  so_mark :: "int + u32"
  so_protocol :: "int + int"
  set_mark_errno :: "u32 \<Rightarrow> int"
  has_listener :: bool
  nameinfo :: "bytes \<Rightarrow> (string \<times> string) option"
  tc_setCounterSet :: "u32 \<Rightarrow> uid_t \<Rightarrow> uid_t \<Rightarrow> int"
  tc_deleteTagData :: "u32 \<Rightarrow> uid_t \<Rightarrow> uid_t \<Rightarrow> int"
  tc_tagSocket :: "int \<Rightarrow> u32 \<Rightarrow> uid_t \<Rightarrow> uid_t \<Rightarrow> int"
  tc_untagSocket :: "int \<Rightarrow> int"

datatype fw_effect =
    SetMark u32
  | OnConnectEvent netid int u32 string u64 uid_t
  | SetCounterSet u32 uid_t uid_t
  | DeleteTagData u32 uid_t uid_t
  | TagSocket int u32 uid_t uid_t
  | UntagSocket int

abbreviation (input) SIZEOF_COMMAND :: int where "SIZEOF_COMMAND \<equiv> 16"
abbreviation (input) SIZEOF_CONNECT_INFO :: int where "SIZEOF_CONNECT_INFO \<equiv> 36"
abbreviation (input) IPPROTO_UDP :: int where "IPPROTO_UDP \<equiv> 17"

definition isSupportedFamily :: "int \<Rightarrow> bool" where
  "isSupportedFamily socketFamily \<longleftrightarrow> socketFamily = 2 \<or> socketFamily = 10"

section \<open>Choosing the mark\<close>

text \<open>
  The cases of the \<open>switch\<close> that go on to set the mark: \<open>Inl\<close> returns an error, \<open>Inr\<close> gives the mark
  and the permission to put into it. \<open>None\<close> is the bad cast of \<open>checkUserNetworkAccessLocked\<close>.
\<close>

definition onConnect :: "ctrl \<Rightarrow> uid_t \<Rightarrow> u32 \<Rightarrow> u32" where
  "onConnect c uid fwmark =
     (if \<not> fm_explicitlySelected fwmark then
        (if \<not> fm_protectedFromVpn fwmark then fm_set_netId (getNetworkForConnectLocked c uid) fwmark
         else if \<not> isVirtualNetworkLocked c (fm_netId fwmark) then fm_set_netId (mDefaultNetId c) fwmark
         else fwmark)
      else fwmark)"

definition selectNetwork :: "ctrl \<Rightarrow> uid_t \<Rightarrow> netid \<Rightarrow> u32 \<Rightarrow> u32 \<Rightarrow> (int + u32 \<times> u32) option" where
  "selectNetwork c uid netId permission fwmark =
     (let fwmark = fm_set_netId netId fwmark in
      if netId = NETID_UNSET
      then Some (Inr (fm_set_protectedFromVpn False (fm_set_explicitlySelected False fwmark), PERMISSION_NONE))
      else case checkUserNetworkAccessLocked c uid netId of
          None \<Rightarrow> None
        | Some r \<Rightarrow>
            if r \<noteq> 0 then Some (Inl r)
            else Some (Inr (fm_set_protectedFromVpn (canProtectLocked c uid)
                   (fm_set_explicitlySelected True fwmark), permission)))"

definition protectFromVpn :: "ctrl \<Rightarrow> uid_t \<Rightarrow> u32 \<Rightarrow> u32 \<Rightarrow> int + u32 \<times> u32" where
  "protectFromVpn c uid permission fwmark =
     (if \<not> canProtectLocked c uid then Inl (- EPERM)
      else let fwmark' = (if \<not> fm_explicitlySelected fwmark \<and> isVirtualNetworkLocked c (fm_netId fwmark)
                          then fm_set_netId (mDefaultNetId c) fwmark else fwmark)
           in Inr (fm_set_protectedFromVpn True fwmark', permission OR fm_permission fwmark))"

definition selectForUser :: "ctrl \<Rightarrow> uid_t \<Rightarrow> u32 \<Rightarrow> u32 \<Rightarrow> int + u32 \<times> u32" where
  "selectForUser c uid permission fwmark =
     (if permission AND PERMISSION_SYSTEM \<noteq> PERMISSION_SYSTEM then Inl (- EPERM)
      else Inr (fm_set_protectedFromVpn True (fm_set_netId (getNetworkForUser c uid) fwmark), permission))"

definition choose_mark :: "ctrl \<Rightarrow> uid_t \<Rightarrow> fw_command \<Rightarrow> u32 \<Rightarrow> (int + u32 \<times> u32) option" where
  "choose_mark c uid cmd fwmark =
     (let permission = getPermissionForUserLocked c uid in
      case cmdId cmd of
        ON_ACCEPT \<Rightarrow> Some (Inr (fwmark, permission OR fm_permission fwmark))
      | ON_CONNECT \<Rightarrow> Some (Inr (onConnect c uid fwmark, permission))
      | ON_CONNECT_COMPLETE \<Rightarrow> Some (Inr (fwmark, permission))
      | SELECT_NETWORK \<Rightarrow> selectNetwork c uid (cmd_netId cmd) permission fwmark
      | PROTECT_FROM_VPN \<Rightarrow> Some (protectFromVpn c uid permission fwmark)
      | SELECT_FOR_USER \<Rightarrow> Some (selectForUser c (cmd_uid cmd) permission fwmark)
      | _ \<Rightarrow> Some (Inl (- EPROTO)))"

section \<open>Handling a client\<close>

definition connect_report :: "sock_env \<Rightarrow> uid_t \<Rightarrow> connect_info \<Rightarrow> u32 \<Rightarrow> fw_effect list" where
  "connect_report E uid ci fwmark =
     (case so_protocol E of
        Inl _ \<Rightarrow> []
      | Inr socketProto \<Rightarrow>
          if socketProto = IPPROTO_UDP then []
          else if \<not> has_listener E then []
          else case nameinfo E (addr_bytes ci) of
              Some (addrstr, portstr) \<Rightarrow>
                [OnConnectEvent (fm_netId fwmark) (ci_error ci) (latencyMs ci) addrstr (fst (strtoul portstr 10)) uid]
            | None \<Rightarrow> [OnConnectEvent (fm_netId fwmark) (ci_error ci) (latencyMs ci) [] 0 uid])"

text \<open>From \<open>getsockopt(SO_DOMAIN)\<close> on, with a valid descriptor.\<close>

definition processSocket ::
  "sock_env \<Rightarrow> ctrl \<Rightarrow> uid_t \<Rightarrow> fw_command \<Rightarrow> connect_info \<Rightarrow> int \<Rightarrow> (int \<times> fw_effect list) option" where
  "processSocket E c uid cmd ci socketFd =
     (case so_domain E of
        Inl e \<Rightarrow> Some (- e, [])
      | Inr family \<Rightarrow>
          if \<not> isSupportedFamily family then Some (- EAFNOSUPPORT, [])
          else case so_mark E of
              Inl e \<Rightarrow> Some (- e, [])
            | Inr fwmark \<Rightarrow>
                if cmdId cmd = TAG_SOCKET then
                  (let tagUid = (if cmd_uid cmd = INVALID_UID then uid else cmd_uid cmd)
                   in Some (tc_tagSocket E socketFd (trafficCtrlInfo cmd) tagUid uid,
                            [TagSocket socketFd (trafficCtrlInfo cmd) tagUid uid]))
                else if cmdId cmd = UNTAG_SOCKET then
                  Some (tc_untagSocket E socketFd, [UntagSocket socketFd])
                else
                  (let report = (if cmdId cmd = ON_CONNECT_COMPLETE then connect_report E uid ci fwmark else [])
                   in case choose_mark c uid cmd fwmark of
                        None \<Rightarrow> None
                      | Some (Inl r) \<Rightarrow> Some (r, [])
                      | Some (Inr (fwmark', permission)) \<Rightarrow>
                          (let m = fm_set_permission permission fwmark' in
                           if set_mark_errno E m \<noteq> 0 then Some (- set_mark_errno E m, report)
                           else Some (0, report @ [SetMark m]))))"

text \<open>
  The result, the value left in \<open>*socketFd\<close> (initially -1), and the effects. Each call into the
  controller takes its lock for itself; here they all see the same state \<open>c\<close>, as they do when no other
  thread changes the controller while a command is handled.
\<close>

definition processClient ::
  "sock_env \<Rightarrow> ctrl \<Rightarrow> uid_t \<Rightarrow> fw_message \<Rightarrow> (int \<times> int \<times> fw_effect list) option" where
  "processClient E c uid msg =
     (let cmd = command msg in
      if messageLength msg \<le> 0 then Some (- recv_errno msg, -1, [])
      else if \<not> ((cmdId cmd \<noteq> ON_CONNECT_COMPLETE \<and> messageLength msg = SIZEOF_COMMAND) \<or>
                 (cmdId cmd = ON_CONNECT_COMPLETE \<and> messageLength msg = SIZEOF_COMMAND + SIZEOF_CONNECT_INFO))
      then Some (- EBADMSG, -1, [])
      else if cmdId cmd = QUERY_USER_ACCESS then
        (if getPermissionForUserLocked c uid AND PERMISSION_SYSTEM \<noteq> PERMISSION_SYSTEM then Some (- EPERM, -1, [])
         else map_option (\<lambda>r. (r, -1, [])) (checkUserNetworkAccessLocked c (cmd_uid cmd) (cmd_netId cmd)))
      else if cmdId cmd = SET_COUNTERSET then
        Some (tc_setCounterSet E (trafficCtrlInfo cmd) (cmd_uid cmd) uid, -1,
              [SetCounterSet (trafficCtrlInfo cmd) (cmd_uid cmd) uid])
      else if cmdId cmd = DELETE_TAGDATA then
        Some (tc_deleteTagData E (trafficCtrlInfo cmd) (cmd_uid cmd) uid, -1,
              [DeleteTagData (trafficCtrlInfo cmd) (cmd_uid cmd) uid])
      else let socketFd = (case passed_fd msg of None \<Rightarrow> -1 | Some fd \<Rightarrow> fd) in
        if socketFd < 0 then Some (- EBADF, socketFd, [])
        else map_option (\<lambda>(r, es). (r, socketFd, es)) (processSocket E c uid cmd (connectInfo msg) socketFd))"

text \<open>
  \<open>onDataAvailable\<close>: the descriptor it closes, the answer it sends, and the return value, which is
  always false.
\<close>

definition onDataAvailable ::
  "sock_env \<Rightarrow> ctrl \<Rightarrow> uid_t \<Rightarrow> fw_message \<Rightarrow> (int option \<times> int \<times> fw_effect list \<times> bool) option" where
  "onDataAvailable E c uid msg =
     map_option (\<lambda>(error, socketFd, es). (if socketFd \<ge> 0 then Some socketFd else None, error, es, False))
       (processClient E c uid msg)"


section \<open>Which marks are set\<close>

lemma report_no_mark: "SetMark m \<notin> set (connect_report E uid ci fwmark)"
  by (auto simp: connect_report_def split: sum.splits option.splits if_splits)

lemma processSocket_mark:
  assumes "processSocket E c uid cmd ci fd = Some (r, es)" "SetMark m \<in> set es"
  shows "\<exists>old new p. so_mark E = Inr old \<and> choose_mark c uid cmd old = Some (Inr (new, p)) \<and>
    m = fm_set_permission p new \<and> r = 0 \<and> es = filter (\<lambda>e. e \<noteq> SetMark m) es @ [SetMark m]"
  using assms report_no_mark
  by (fastforce simp: processSocket_def Let_def filter_empty_conv
      split: sum.splits if_splits option.splits intro!: filter_True [symmetric])

lemma processClient_mark:
  assumes "processClient E c uid msg = Some (r, fd, es)" "SetMark m \<in> set es"
  shows "\<exists>old new p. so_mark E = Inr old \<and> choose_mark c uid (command msg) old = Some (Inr (new, p)) \<and>
    m = fm_set_permission p new \<and> r = 0"
proof -
  have "\<exists>fd. processSocket E c uid (command msg) (connectInfo msg) fd = Some (r, es)"
    using assms by (auto simp: processClient_def Let_def split: if_splits option.splits)
  then show ?thesis using processSocket_mark assms(2) by blast
qed

text \<open>Everything the switch may do to a mark, case by case.\<close>

lemma choose_mark_cases:
  assumes "choose_mark c uid cmd old = Some (Inr (new, p))"
  obtains
    (accept) "cmdId cmd = ON_ACCEPT" "new = old" "p = getPermissionForUserLocked c uid OR fm_permission old"
  | (connect) "cmdId cmd = ON_CONNECT" "new = onConnect c uid old" "p = getPermissionForUserLocked c uid"
  | (complete) "cmdId cmd = ON_CONNECT_COMPLETE" "new = old" "p = getPermissionForUserLocked c uid"
  | (unset) "cmdId cmd = SELECT_NETWORK" "cmd_netId cmd = 0" "p = PERMISSION_NONE"
      "new = fm_set_protectedFromVpn False (fm_set_explicitlySelected False (fm_set_netId 0 old))"
  | (select) "cmdId cmd = SELECT_NETWORK" "cmd_netId cmd \<noteq> 0" "p = getPermissionForUserLocked c uid"
      "checkUserNetworkAccessLocked c uid (cmd_netId cmd) = Some 0"
      "new = fm_set_protectedFromVpn (canProtectLocked c uid)
         (fm_set_explicitlySelected True (fm_set_netId (cmd_netId cmd) old))"
  | (protect) "cmdId cmd = PROTECT_FROM_VPN" "canProtectLocked c uid"
      "p = getPermissionForUserLocked c uid OR fm_permission old"
      "new = fm_set_protectedFromVpn True
         (if \<not> fm_explicitlySelected old \<and> isVirtualNetworkLocked c (fm_netId old)
          then fm_set_netId (mDefaultNetId c) old else old)"
  | (for_user) "cmdId cmd = SELECT_FOR_USER" "p = getPermissionForUserLocked c uid"
      "getPermissionForUserLocked c uid AND PERMISSION_SYSTEM = PERMISSION_SYSTEM"
      "new = fm_set_protectedFromVpn True (fm_set_netId (getNetworkForUser c (cmd_uid cmd)) old)"
proof (cases "cmdId cmd")
  case ON_ACCEPT then show ?thesis using assms by (intro accept) (auto simp: choose_mark_def)
next
  case ON_CONNECT then show ?thesis using assms by (intro connect) (simp_all add: choose_mark_def)
next
  case ON_CONNECT_COMPLETE then show ?thesis using assms by (intro complete) (simp_all add: choose_mark_def)
next
  case SELECT_NETWORK
  then have s: "selectNetwork c uid (cmd_netId cmd) (getPermissionForUserLocked c uid) old = Some (Inr (new, p))"
    using assms by (simp add: choose_mark_def)
  show ?thesis
  proof (cases "cmd_netId cmd = 0")
    case True
    then show ?thesis using s SELECT_NETWORK by (intro unset) (simp_all add: selectNetwork_def)
  next
    case False
    then show ?thesis
      using s SELECT_NETWORK
      by (intro select) (simp_all add: selectNetwork_def Let_def split: option.splits if_splits)
  qed
next
  case PROTECT_FROM_VPN
  then show ?thesis
    using assms by (intro protect) (auto simp: choose_mark_def protectFromVpn_def Let_def split: if_splits)
next
  case SELECT_FOR_USER
  then show ?thesis
    using assms by (intro for_user) (simp_all add: choose_mark_def selectForUser_def Let_def split: if_splits)
qed (use assms in \<open>simp_all add: choose_mark_def\<close>)

text \<open>The parts of a mark that a command never touches.\<close>

lemma onConnect_frame [simp]:
  "fm_explicitlySelected (onConnect c uid m) = fm_explicitlySelected m"
  "fm_protectedFromVpn (onConnect c uid m) = fm_protectedFromVpn m"
  "fm_permission (onConnect c uid m) = fm_permission m"
  "fm_uidBillingDone (onConnect c uid m) = fm_uidBillingDone m"
  "fm_unused (onConnect c uid m) = fm_unused m"
  "fm_explicitlySelected m \<Longrightarrow> fm_netId (onConnect c uid m) = fm_netId m"
  by (simp_all add: onConnect_def mark_simps)

text \<open>
  Claim C4. No client can give a socket more than its user has. Whenever a command sets a mark, it
  succeeded, and: the permission bits are among those of the user and those the socket already had;
  protection from VPNs is new only if the user may protect sockets; an explicitly selected network is
  new, or different, only if the user was granted access to it or is privileged; and the billing bit
  and the unused bits are unchanged.
\<close>

theorem marks_authorised:
  assumes "processClient E c uid msg = Some (r, fd, es)" "SetMark m \<in> set es" "so_mark E = Inr old"
  shows "r = 0 \<and>
    fm_permission m AND NOT (getPermissionForUserLocked c uid OR fm_permission old) = 0 \<and>
    (fm_protectedFromVpn m \<longrightarrow> fm_protectedFromVpn old \<or> canProtectLocked c uid) \<and>
    (fm_explicitlySelected m \<longrightarrow>
       (fm_explicitlySelected old \<and> fm_netId m = fm_netId old) \<or>
       getPermissionForUserLocked c uid AND PERMISSION_SYSTEM = PERMISSION_SYSTEM \<or>
       (fm_netId m = take_bit 16 (cmd_netId (command msg)) \<and>
        checkUserNetworkAccessLocked c uid (cmd_netId (command msg)) = Some 0)) \<and>
    fm_uidBillingDone m = fm_uidBillingDone old \<and> fm_unused m = fm_unused old"
proof -
  obtain new p where c: "choose_mark c uid (command msg) old = Some (Inr (new, p))"
    and m: "m = fm_set_permission p new" and r: "r = 0"
    using processClient_mark [OF assms(1,2)] assms(3) by auto
  let ?P = "getPermissionForUserLocked c uid" and ?Q = "fm_permission old"
  have "p = ?P OR ?Q \<or> p = ?P \<or> p = 0"
    using c by (cases rule: choose_mark_cases) simp_all
  then have "take_bit 2 p AND NOT (?P OR ?Q) = 0"
    by (elim disjE; intro bit_eqI) (auto simp only: bit_and_iff bit_or_iff bit_not_iff bit_take_bit_iff bit_0_eq bot_apply bot_bool_def)
  then have perm: "fm_permission m AND NOT (?P OR ?Q) = 0" unfolding m fm_get_set .
  have sys: "?P AND PERMISSION_SYSTEM = PERMISSION_SYSTEM \<Longrightarrow> canProtectLocked c uid"
    by (simp add: canProtectLocked_def)
  have rest: "(fm_protectedFromVpn m \<longrightarrow> fm_protectedFromVpn old \<or> canProtectLocked c uid) \<and>
    (fm_explicitlySelected m \<longrightarrow>
       (fm_explicitlySelected old \<and> fm_netId m = fm_netId old) \<or>
       ?P AND PERMISSION_SYSTEM = PERMISSION_SYSTEM \<or>
       (fm_netId m = take_bit 16 (cmd_netId (command msg)) \<and>
        checkUserNetworkAccessLocked c uid (cmd_netId (command msg)) = Some 0)) \<and>
    fm_uidBillingDone m = fm_uidBillingDone old \<and> fm_unused m = fm_unused old"
    using c by (cases rule: choose_mark_cases) (use sys in \<open>simp_all add: m mark_simps\<close>)
  show ?thesis using r perm rest by blast
qed

text \<open>A client socket without a mark, and a controller that knows one network.\<close>

definition demo_env :: "u32 \<Rightarrow> sock_env" where
  "demo_env m = \<lparr>so_domain = Inr 2, so_mark = Inr m, so_protocol = Inr 6, set_mark_errno = \<lambda>_. 0,
     has_listener = False, nameinfo = \<lambda>_. None, tc_setCounterSet = \<lambda>_ _ _. 0, tc_deleteTagData = \<lambda>_ _ _. 0,
     tc_tagSocket = \<lambda>_ _ _ _. 0, tc_untagSocket = \<lambda>_. 0\<rparr>"

definition demo_msg :: "fw_cmd \<Rightarrow> netid \<Rightarrow> fw_message" where
  "demo_msg cmd netId = \<lparr>messageLength = 16, recv_errno = 0,
     command = \<lparr>cmdId = cmd, cmd_netId = netId, cmd_uid = 0, trafficCtrlInfo = 0\<rparr>,
     connectInfo = \<lparr>ci_error = 0, latencyMs = 0, addr_bytes = []\<rparr>, msg_control = Some \<lparr>cmsg_level = 1, cmsg_type = 1, cmsg_data = [7]\<rparr>\<rparr>"

lemma demo_msg_fd [simp]: "passed_fd (demo_msg cmd netId) = Some 7"
  by (simp add: passed_fd_def demo_msg_def cmsg_len_def)

lemma demo_msg_simps:
  "messageLength (demo_msg cmd netId) = 16"
  "command (demo_msg cmd netId) = \<lparr>cmdId = cmd, cmd_netId = netId, cmd_uid = 0, trafficCtrlInfo = 0\<rparr>"
  by (simp_all add: demo_msg_def)

definition one_network :: ctrl where
  "one_network = NetworkController_new\<lparr>mDefaultNetId := 100,
     mNetworks := [(100, \<lparr>mNetId = 100, mInterfaces = [''wlan0''], kind = PhysicalNetwork PERMISSION_NONE True\<rparr>)]\<rparr>"

lemma one_network_simps:
  "getNetworkLocked one_network 100 = Some \<lparr>mNetId = 100, mInterfaces = [''wlan0''], kind = PhysicalNetwork PERMISSION_NONE True\<rparr>"
  "getPermissionForUserLocked one_network 10001 = 0" "canProtectLocked one_network 10001 = False"
  "getVirtualNetworkForUserLocked one_network uid = None" "mDefaultNetId one_network = 100"
  by (simp_all add: one_network_def NetworkController_new_def getNetworkLocked_def getPermissionForUserLocked_def
      canProtectLocked_def getVirtualNetworkForUserLocked_def getType_def)

lemma one_network_access: "checkUserNetworkAccessLocked one_network 10001 100 = Some 0"
  by (simp add: checkUserNetworkAccessLocked_def one_network_simps getType_def getPermission_def)

theorem marks_authorised_witness:
  "\<exists>m. processClient (demo_env 0) one_network 10001 (demo_msg SELECT_NETWORK 100) = Some (0, 7, [SetMark m]) \<and>
     fm_permission m AND NOT (getPermissionForUserLocked one_network 10001 OR fm_permission 0) = 0 \<and>
     \<not> fm_protectedFromVpn m"
proof -
  have run: "processClient (demo_env 0) one_network 10001 (demo_msg SELECT_NETWORK 100) =
      Some (0, 7, [SetMark (fm_set_permission 0 (fm_set_protectedFromVpn False
        (fm_set_explicitlySelected True (fm_set_netId 100 0))))])"
    by (simp add: processClient_def demo_msg_simps demo_env_def processSocket_def isSupportedFamily_def choose_mark_def
        selectNetwork_def one_network_simps one_network_access Let_def)
  show ?thesis
    using marks_authorised [OF run _ ] run by (auto simp: demo_env_def mark_simps one_network_simps)
qed

section \<open>connect()\<close>

text \<open>
  Connecting a socket that has neither an explicit network nor protection gives it the NetId
  of the bypassable VPN that applies to the user, or else of the default network, and never the NetId
  of a secure VPN; an explicitly selected network is never changed by connecting.
\<close>

theorem onConnect_network:
  assumes "processClient E c uid msg = Some (0, fd, es)" "cmdId (command msg) = ON_CONNECT"
    and "so_mark E = Inr old" "SetMark m \<in> set es"
  shows "if fm_explicitlySelected old then fm_netId m = fm_netId old
    else if fm_protectedFromVpn old then
      fm_netId m = (if isVirtualNetworkLocked c (fm_netId old) then fm_netId old else take_bit 16 (mDefaultNetId c))
    else (case getVirtualNetworkForUserLocked c uid of
        Some v \<Rightarrow> if isSecure v then fm_netId m = take_bit 16 (mDefaultNetId c) else fm_netId m = take_bit 16 (mNetId v)
      | None \<Rightarrow> fm_netId m = take_bit 16 (mDefaultNetId c))"
proof -
  obtain new p where c: "choose_mark c uid (command msg) old = Some (Inr (new, p))" and m: "m = fm_set_permission p new"
    using processClient_mark [OF assms(1,4)] assms(3) by auto
  have new: "new = onConnect c uid old" using c assms(2) by (simp add: choose_mark_def)
  show ?thesis
    by (auto simp: m new onConnect_def mark_simps getNetworkForConnectLocked_def split: option.splits)
qed

theorem onConnect_network_witness:
  "\<exists>m. processClient (demo_env 0) one_network 10001 (demo_msg ON_CONNECT 0) = Some (0, 7, [SetMark m]) \<and> fm_netId m = 100"
proof -
  have run: "processClient (demo_env 0) one_network 10001 (demo_msg ON_CONNECT 0) =
      Some (0, 7, [SetMark (fm_set_permission 0 (onConnect one_network 10001 0))])"
    by (simp add: processClient_def demo_msg_simps demo_env_def processSocket_def isSupportedFamily_def choose_mark_def
        one_network_simps Let_def)
  show ?thesis
    using onConnect_network [OF run, of 0 "fm_set_permission 0 (onConnect one_network 10001 0)"] run
    by (auto simp: demo_env_def demo_msg_def mark_simps one_network_simps)
qed

section \<open>Descriptors\<close>

text \<open>The descriptors that the kernel installed in the daemon, and those that are open after the message.\<close>

definition received_fds :: "fw_message \<Rightarrow> int list" where
  "received_fds msg =
     (case msg_control msg of
        None \<Rightarrow> []
      | Some h \<Rightarrow> if cmsg_level h = SOL_SOCKET \<and> cmsg_type h = SCM_RIGHTS then cmsg_data h else [])"

lemma passed_fd_received: "passed_fd msg = (case received_fds msg of [n] \<Rightarrow> Some n | _ \<Rightarrow> None)"
  by (auto simp: passed_fd_def received_fds_def cmsg_len_def CMSG_LEN_def split: option.splits list.splits)

lemma processClient_fd:
  assumes "processClient E c uid msg = Some (r, fd, es)"
  shows "fd = (if cmdId (command msg) \<notin> {QUERY_USER_ACCESS, SET_COUNTERSET, DELETE_TAGDATA} \<and>
      messageLength msg = (if cmdId (command msg) = ON_CONNECT_COMPLETE then 52 else 16)
    then (case passed_fd msg of None \<Rightarrow> -1 | Some n \<Rightarrow> n) else -1)"
  using assms by (auto simp: processClient_def Let_def split: if_splits)

text \<open>
  Claim C40. Which descriptors received with a message are still open after \<open>onDataAvailable\<close>: none of them if
  the command got as far as the extraction and there was exactly one, and all of them otherwise. So a
  client that attaches two descriptors, or attaches one to a command that is answered before the
  extraction (a malformed one, a query, a counter set or tag deletion), makes the daemon keep them
  open for ever.
\<close>

theorem passed_fd_closed_iff:
  assumes "list_all (\<lambda>n. 0 \<le> n) (received_fds msg)" "onDataAvailable E c uid msg = Some (closed, res, es, again)"
  shows "\<not> again \<and> filter (\<lambda>n. closed \<noteq> Some n) (received_fds msg) =
    (if length (received_fds msg) = 1 \<and>
        cmdId (command msg) \<notin> {QUERY_USER_ACCESS, SET_COUNTERSET, DELETE_TAGDATA} \<and>
        messageLength msg = (if cmdId (command msg) = ON_CONNECT_COMPLETE then 52 else 16)
     then [] else received_fds msg)"
proof -
  obtain r fd where run: "processClient E c uid msg = Some (r, fd, es)" and closed: "closed = (if fd \<ge> 0 then Some fd else None)"
    and again: "\<not> again"
    using assms(2) by (auto simp: onDataAvailable_def)
  show ?thesis
    using processClient_fd [OF run] again assms(1) unfolding closed passed_fd_received
    by (auto split: list.splits)
qed

theorem passed_fd_closed_iff_witness:
  "received_fds (demo_msg QUERY_USER_ACCESS 100) = [7] \<and>
   (\<exists>res. onDataAvailable (demo_env 0) one_network 10001 (demo_msg QUERY_USER_ACCESS 100) = Some (None, res, [], False)) \<and>
   filter (\<lambda>n. None \<noteq> Some n) (received_fds (demo_msg QUERY_USER_ACCESS 100)) = [7]"
proof -
  have run: "onDataAvailable (demo_env 0) one_network 10001 (demo_msg QUERY_USER_ACCESS 100) = Some (None, - EPERM, [], False)"
    by (simp add: onDataAvailable_def processClient_def demo_msg_simps one_network_simps)
  moreover have fds: "received_fds (demo_msg QUERY_USER_ACCESS 100) = [7]" by (simp add: received_fds_def demo_msg_def)
  ultimately show ?thesis using passed_fd_closed_iff [OF _ run] by (simp add: demo_msg_simps)
qed

end
