(* ===== verification/Bpf_Maps.thy ===== *)
theory Bpf_Maps
  imports Netd_Prelude
begin

text \<open>
  The interface of \<open>android::bpf::BpfMap\<close>, the library class through which the daemon works on the
  hash maps it shares with the kernel's packet filters. Its code is not part of the repository: what
  each call answers is the parameter \<open>bpf_kern\<close>, an arbitrary function of the history of the changes
  the daemon asked for, which is all that a value of type \<open>bpf_map\<close> records. A call returns the code of
  its \<open>Status\<close>, 0 for success and a positive \<open>errno\<close> otherwise. \<open>bpf_hash\<close> states the documented
  behaviour of a hash map that nobody else writes to.
\<close>

datatype bpf_flag = BPF_ANY | BPF_EXIST

datatype ('k, 'v) bpf_op = BpfWrite 'k 'v bpf_flag int | BpfDelete 'k int | BpfClear int

type_synonym ('k, 'v) bpf_map = "('k, 'v) bpf_op list"

record ('k, 'v) bpf_kern =
  bpf_read :: "('k, 'v) bpf_map \<Rightarrow> 'k \<Rightarrow> int + 'v"
  bpf_write :: "('k, 'v) bpf_map \<Rightarrow> 'k \<Rightarrow> 'v \<Rightarrow> bpf_flag \<Rightarrow> int"
  bpf_delete :: "('k, 'v) bpf_map \<Rightarrow> 'k \<Rightarrow> int"
  bpf_clear :: "('k, 'v) bpf_map \<Rightarrow> int"
  bpf_visit :: "('k, 'v) bpf_map \<Rightarrow> ('k \<times> 'v) list \<times> int"

definition readValue :: "('k, 'v) bpf_kern \<Rightarrow> 'k \<Rightarrow> ('k, 'v) bpf_map \<Rightarrow> int + 'v" where
  "readValue B k m = bpf_read B m k"

definition writeValue :: "('k, 'v) bpf_kern \<Rightarrow> 'k \<Rightarrow> 'v \<Rightarrow> bpf_flag \<Rightarrow> ('k, 'v) bpf_map act" where
  "writeValue B k v flag m = (let r = bpf_write B m k v flag in (r, m @ [BpfWrite k v flag r]))"

definition deleteValue :: "('k, 'v) bpf_kern \<Rightarrow> 'k \<Rightarrow> ('k, 'v) bpf_map act" where
  "deleteValue B k m = (let r = bpf_delete B m k in (r, m @ [BpfDelete k r]))"

definition clearMap :: "('k, 'v) bpf_kern \<Rightarrow> ('k, 'v) bpf_map act" where
  "clearMap B m = (let r = bpf_clear B m in (r, m @ [BpfClear r]))"

text \<open>
  \<open>iterate\<close> and \<open>iterateWithValue\<close> hand the entries of the map to a callback, which may delete the entry
  it is given, and stop at the first callback that fails.
\<close>

definition iterateMap :: "('k, 'v) bpf_kern \<Rightarrow> ('k \<Rightarrow> 'v \<Rightarrow> 's act) \<Rightarrow> ('k, 'v) bpf_map \<Rightarrow> 's act" where
  "iterateMap B f m =
     chk (chk_all (\<lambda>e. f (fst e) (snd e)) (fst (bpf_visit B m))) (ret (snd (bpf_visit B m)))"

section \<open>What a map holds\<close>

fun bpf_step :: "('k \<rightharpoonup> 'v) \<Rightarrow> ('k, 'v) bpf_op \<Rightarrow> ('k \<rightharpoonup> 'v)" where
  "bpf_step c (BpfWrite k v flag r) = (if r = 0 then c(k \<mapsto> v) else c)"
| "bpf_step c (BpfDelete k r) = (if r = 0 then c(k := None) else c)"
| "bpf_step c (BpfClear r) = (if r = 0 then Map.empty else c)"

definition contents :: "('k, 'v) bpf_map \<Rightarrow> 'k \<rightharpoonup> 'v" where
  "contents m = foldl bpf_step Map.empty m"

lemma contents_simps [simp]:
  "contents [] = Map.empty"
  "contents (m @ [e]) = bpf_step (contents m) e"
  by (simp_all add: contents_def)

definition bpf_hash :: "('k, 'v) bpf_kern \<Rightarrow> bool" where
  "bpf_hash B \<longleftrightarrow>
     (\<forall>m k. bpf_read B m k = (case contents m k of Some v \<Rightarrow> Inr v | None \<Rightarrow> Inl ENOENT)) \<and>
     (\<forall>m k. contents m k = None \<longrightarrow> bpf_delete B m k = ENOENT) \<and>
     (\<forall>m. snd (bpf_visit B m) = 0 \<longrightarrow>
        distinct (map fst (fst (bpf_visit B m))) \<and> map_of (fst (bpf_visit B m)) = contents m)"

lemma bpf_hash_read: "bpf_hash B \<Longrightarrow>
    readValue B k m = (case contents m k of Some v \<Rightarrow> Inr v | None \<Rightarrow> Inl ENOENT)"
  by (simp add: bpf_hash_def readValue_def)

lemma bpf_hash_visit:
  "bpf_hash B \<Longrightarrow> snd (bpf_visit B m) = 0 \<Longrightarrow> fst ` set (fst (bpf_visit B m)) = dom (contents m)"
  unfolding bpf_hash_def by (metis dom_map_of_conv_image_fst)

lemma write_contents:
  "writeValue B k v flag m = (r, m') \<Longrightarrow> contents m' = (if r = 0 then (contents m)(k \<mapsto> v) else contents m)"
  by (auto simp: writeValue_def Let_def)

lemma delete_contents:
  "deleteValue B k m = (r, m') \<Longrightarrow> contents m' = (if r = 0 then (contents m)(k := None) else contents m)"
  by (auto simp: deleteValue_def Let_def)

text \<open>A map whose calls fail only for a missing key, as long as memory lasts.\<close>

definition bpf_reliable :: "('k, 'v) bpf_kern \<Rightarrow> bool" where
  "bpf_reliable B \<longleftrightarrow>
     (\<forall>m k v. bpf_write B m k v BPF_ANY = 0) \<and>
     (\<forall>m k. contents m k \<noteq> None \<longrightarrow> bpf_delete B m k = 0) \<and>
     (\<forall>m. snd (bpf_visit B m) = 0)"

text \<open>A hash map on which no call fails for lack of memory, in terms of a list of its entries.\<close>

definition visit_all :: "('k::linorder, 'v) bpf_map \<Rightarrow> ('k \<times> 'v) list" where
  "visit_all m = map (\<lambda>k. (k, the (contents m k)))
     (sorted_list_of_set (dom (contents m)))"

definition plain_hash :: "('k::linorder, 'v) bpf_kern" where
  "plain_hash = \<lparr>bpf_read = \<lambda>m k. (case contents m k of Some v \<Rightarrow> Inr v | None \<Rightarrow> Inl ENOENT),
     bpf_write = \<lambda>m k v flag. if flag = BPF_EXIST \<and> contents m k = None then ENOENT else 0,
     bpf_delete = \<lambda>m k. if contents m k = None then ENOENT else 0,
     bpf_clear = \<lambda>m. 0,
     bpf_visit = \<lambda>m. (visit_all m, 0)\<rparr>"

lemma finite_contents [simp]: "finite (dom (contents m))"
proof (induction m rule: rev_induct)
  case (snoc e m)
  then show ?case by (cases e) auto
qed simp

lemma plain_hash_ok: "bpf_hash plain_hash"
proof -
  have "map_of (visit_all m) = contents m" for m :: "('a, 'b) bpf_map"
  proof (rule ext)
    fix k
    have "map_of (map (\<lambda>k. (k, the (contents m k))) ks) k = (if k \<in> set ks then Some (the (contents m k)) else None)" for ks
      by (induction ks) auto
    then show "map_of (visit_all m) k = contents m k"
      by (auto simp: visit_all_def domIff)
  qed
  moreover have "distinct (map fst (visit_all m))" for m :: "('a, 'b) bpf_map"
    by (simp add: visit_all_def comp_def)
  ultimately show ?thesis by (simp add: bpf_hash_def plain_hash_def)
qed

lemma plain_hash_reliable: "bpf_reliable plain_hash"
  by (simp add: bpf_reliable_def plain_hash_def)

end
