(* ===== verification/Traffic_Controller.thy ===== *)
theory Traffic_Controller
  imports Bpf_Maps C_Library "HOL-Library.Product_Lexorder"
begin

unbundle bit_operations_syntax

text \<open>
  server/TrafficController.cpp: the daemon's side of the per-UID accounting and filtering done by the
  kernel's packet filters. The state is the record \<open>traffic\<close> of the maps shared with the kernel and of
  the privileged UIDs. Without BPF support the operations on sockets and counters go to the legacy
  library, which is a parameter; its answers depend on the calls made so far.
\<close>

section \<open>Types\<close>

text \<open>
  The enumerations of server/FirewallController.h and server/BandwidthController.h. The binder service
  casts integers to the first two without a check, so they have a value that stands for all others.
\<close>

datatype FirewallRule = ALLOW | DENY | UnknownRule
datatype FirewallType = WHITELIST | BLACKLIST | UnknownType
datatype ChildChain = NONE | DOZABLE | STANDBY | POWERSAVE | INVALID_CHAIN
datatype IptJumpOp = IptJumpReject | IptJumpReturn | IptJumpNoAdd
datatype IptOp = IptOpInsert | IptOpDelete

definition NO_MATCH :: u8 where "NO_MATCH = 0"
definition HAPPY_BOX_MATCH :: u8 where "HAPPY_BOX_MATCH = 1"
definition PENALTY_BOX_MATCH :: u8 where "PENALTY_BOX_MATCH = 2"
definition DOZABLE_MATCH :: u8 where "DOZABLE_MATCH = 4"
definition STANDBY_MATCH :: u8 where "STANDBY_MATCH = 8"
definition POWERSAVE_MATCH :: u8 where "POWERSAVE_MATCH = 16"

lemmas match_defs = NO_MATCH_def HAPPY_BOX_MATCH_def PENALTY_BOX_MATCH_def DOZABLE_MATCH_def
  STANDBY_MATCH_def POWERSAVE_MATCH_def

definition ALLOW_SOCK_CREATE :: u8 where "ALLOW_SOCK_CREATE = 1"
definition DEFAULT_CONFIG :: u8 where "DEFAULT_CONFIG = 0"
definition SELECT_MAP_A :: u8 where "SELECT_MAP_A = 0"
definition SELECT_MAP_B :: u8 where "SELECT_MAP_B = 1"
definition UID_RULES_CONFIGURATION_KEY :: u32 where "UID_RULES_CONFIGURATION_KEY = 1"
definition CURRENT_STATS_MAP_CONFIGURATION_KEY :: u32 where "CURRENT_STATS_MAP_CONFIGURATION_KEY = 2"

record uid_tag =
  ut_uid :: u32
  ut_tag :: u32

datatype stats_key = StatsKey (sk_uid: u32) (sk_tag: u32) (sk_counterSet: u32) (sk_ifaceIndex: u32)

text \<open>Keys are ordered by their fields, for the sorted enumeration of a map of statistics.\<close>

definition sk_tuple :: "stats_key \<Rightarrow> u32 \<times> u32 \<times> u32 \<times> u32" where
  "sk_tuple k = (sk_uid k, sk_tag k, sk_counterSet k, sk_ifaceIndex k)"

lemma sk_tuple_inject: "sk_tuple a = sk_tuple b \<longleftrightarrow> a = b"
  by (cases a; cases b) (simp add: sk_tuple_def)

instantiation stats_key :: linorder
begin
definition less_eq_stats_key :: "stats_key \<Rightarrow> stats_key \<Rightarrow> bool" where
  "less_eq_stats_key a b \<longleftrightarrow> sk_tuple a \<le> sk_tuple b"
definition less_stats_key :: "stats_key \<Rightarrow> stats_key \<Rightarrow> bool" where
  "less_stats_key a b \<longleftrightarrow> sk_tuple a < sk_tuple b"
instance
  by standard (auto simp: less_eq_stats_key_def less_stats_key_def sk_tuple_inject order.strict_iff_order)
end

record stats_value =
  sv_rxPackets :: u64
  sv_rxBytes :: u64
  sv_txPackets :: u64
  sv_txBytes :: u64

datatype legacy_call = LegacyTag int u32 uid_t | LegacyUntag int | LegacyCounterSet int uid_t | LegacyDelete u32 uid_t

record traffic =
  ebpfSupported :: bool
  mCookieTagMap :: "(u64, uid_tag) bpf_map"
  mUidCounterSetMap :: "(u32, u8) bpf_map"
  mAppUidStatsMap :: "(u32, stats_value) bpf_map"
  mStatsMapA :: "(stats_key, stats_value) bpf_map"
  mStatsMapB :: "(stats_key, stats_value) bpf_map"
  mIfaceIndexNameMap :: "(u32, string) bpf_map"
  mConfigurationMap :: "(u32, u8) bpf_map"
  mUidOwnerMap :: "(u32, u8) bpf_map"
  mUidPermissionMap :: "(u32, u8) bpf_map"
  mPrivilegedUser :: "uid_t list"
  legacy_calls :: "legacy_call list"

text \<open>
  What the code calls outside the repository. \<open>sock_cookie\<close> is \<open>getSocketCookie\<close>, \<open>Inl\<close> with \<open>errno\<close> if it
  answers \<open>NONEXISTENT_COOKIE\<close>; \<open>legacy\<close> answers the \<open>errno\<close> of a failing call or 0;
  \<open>map_open\<close> is \<open>BpfMap::getOrCreate\<close> and \<open>chown_path\<close> and \<open>chmod_path\<close> are the system calls, which
  answer \<open>errno\<close> or 0.
\<close>

record traffic_env =
  b_cookie :: "(u64, uid_tag) bpf_kern"
  b_counter :: "(u32, u8) bpf_kern"
  b_app :: "(u32, stats_value) bpf_kern"
  b_statsA :: "(stats_key, stats_value) bpf_kern"
  b_statsB :: "(stats_key, stats_value) bpf_kern"
  b_iface :: "(u32, string) bpf_kern"
  b_config :: "(u32, u8) bpf_kern"
  b_owner :: "(u32, u8) bpf_kern"
  b_permission :: "(u32, u8) bpf_kern"
  sock_cookie :: "int \<Rightarrow> int + u64"
  legacy :: "legacy_call list \<Rightarrow> legacy_call \<Rightarrow> int"
  OVERFLOW_COUNTERSET :: int
  map_open :: "string \<Rightarrow> nat \<Rightarrow> int"
  chown_path :: "string \<Rightarrow> string \<Rightarrow> int"
  chmod_path :: "string \<Rightarrow> nat \<Rightarrow> int"

text \<open>Actions on one of the maps, as actions of the controller.\<close>

definition on_cookie :: "(u64, uid_tag) bpf_map act \<Rightarrow> traffic act" where
  "on_cookie f s = (case f (mCookieTagMap s) of (r, m) \<Rightarrow> (r, s\<lparr>mCookieTagMap := m\<rparr>))"

definition on_counter :: "(u32, u8) bpf_map act \<Rightarrow> traffic act" where
  "on_counter f s = (case f (mUidCounterSetMap s) of (r, m) \<Rightarrow> (r, s\<lparr>mUidCounterSetMap := m\<rparr>))"

definition on_app :: "(u32, stats_value) bpf_map act \<Rightarrow> traffic act" where
  "on_app f s = (case f (mAppUidStatsMap s) of (r, m) \<Rightarrow> (r, s\<lparr>mAppUidStatsMap := m\<rparr>))"

definition on_statsA :: "(stats_key, stats_value) bpf_map act \<Rightarrow> traffic act" where
  "on_statsA f s = (case f (mStatsMapA s) of (r, m) \<Rightarrow> (r, s\<lparr>mStatsMapA := m\<rparr>))"

definition on_statsB :: "(stats_key, stats_value) bpf_map act \<Rightarrow> traffic act" where
  "on_statsB f s = (case f (mStatsMapB s) of (r, m) \<Rightarrow> (r, s\<lparr>mStatsMapB := m\<rparr>))"

definition on_iface :: "(u32, string) bpf_map act \<Rightarrow> traffic act" where
  "on_iface f s = (case f (mIfaceIndexNameMap s) of (r, m) \<Rightarrow> (r, s\<lparr>mIfaceIndexNameMap := m\<rparr>))"

definition on_config :: "(u32, u8) bpf_map act \<Rightarrow> traffic act" where
  "on_config f s = (case f (mConfigurationMap s) of (r, m) \<Rightarrow> (r, s\<lparr>mConfigurationMap := m\<rparr>))"

definition on_owner :: "(u32, u8) bpf_map act \<Rightarrow> traffic act" where
  "on_owner f s = (case f (mUidOwnerMap s) of (r, m) \<Rightarrow> (r, s\<lparr>mUidOwnerMap := m\<rparr>))"

definition on_permission :: "(u32, u8) bpf_map act \<Rightarrow> traffic act" where
  "on_permission f s = (case f (mUidPermissionMap s) of (r, m) \<Rightarrow> (r, s\<lparr>mUidPermissionMap := m\<rparr>))"

definition on_legacy :: "traffic_env \<Rightarrow> legacy_call \<Rightarrow> traffic act" where
  "on_legacy T call s = (- legacy T (legacy_calls s) call, s\<lparr>legacy_calls := legacy_calls s @ [call]\<rparr>)"

text \<open>The result \<open>-res.code()\<close>, and a status that the caller ignores.\<close>

definition negated :: "'s act \<Rightarrow> 's act" where
  "negated f s = (case f s of (r, s') \<Rightarrow> (- r, s'))"

definition ignored :: "'s act \<Rightarrow> 's act" where
  "ignored f s = (0, snd (f s))"

definition unless_missing :: "'s act \<Rightarrow> 's act" where
  "unless_missing f s = (case f s of (r, s') \<Rightarrow> (if r = ENOENT then 0 else r, s'))"

section \<open>Initialisation\<close>

text \<open>Groups are the names of their \<open>AID_\<close> constants. The modes are \<open>S_IRWXU\<close>, and with \<open>S_IRGRP | S_IWGRP\<close> added.\<close>

definition changeOwnerAndMode :: "traffic_env \<Rightarrow> string \<Rightarrow> string \<Rightarrow> bool \<Rightarrow> traffic act" where
  "changeOwnerAndMode T path grp netdOnly =
     chk (ret (chown_path T path grp)) (ret (chmod_path T path (if netdOnly then 448 else 496)))"

definition initMaps :: "traffic_env \<Rightarrow> traffic act" where
  "initMaps T =
     chk (ret (map_open T ''/sys/fs/bpf/map_netd_cookie_tag_map'' 10000))
     (chk (changeOwnerAndMode T ''/sys/fs/bpf/map_netd_cookie_tag_map'' ''AID_NET_BW_ACCT'' False)
     (chk (ret (map_open T ''/sys/fs/bpf/map_netd_uid_counterset_map'' 2000))
     (chk (changeOwnerAndMode T ''/sys/fs/bpf/map_netd_uid_counterset_map'' ''AID_NET_BW_ACCT'' False)
     (chk (ret (map_open T ''/sys/fs/bpf/map_netd_app_uid_stats_map'' 10000))
     (chk (changeOwnerAndMode T ''/sys/fs/bpf/map_netd_app_uid_stats_map'' ''AID_NET_BW_STATS'' False)
     (chk (ret (map_open T ''/sys/fs/bpf/map_netd_stats_map_A'' 5000))
     (chk (changeOwnerAndMode T ''/sys/fs/bpf/map_netd_stats_map_A'' ''AID_NET_BW_STATS'' False)
     (chk (ret (map_open T ''/sys/fs/bpf/map_netd_stats_map_B'' 5000))
     (chk (changeOwnerAndMode T ''/sys/fs/bpf/map_netd_stats_map_B'' ''AID_NET_BW_STATS'' False)
     (chk (ret (map_open T ''/sys/fs/bpf/map_netd_iface_index_name_map'' 1000))
     (chk (changeOwnerAndMode T ''/sys/fs/bpf/map_netd_iface_index_name_map'' ''AID_NET_BW_STATS'' False)
     (chk (ret (map_open T ''/sys/fs/bpf/map_netd_iface_stats_map'' 1000))
     (chk (changeOwnerAndMode T ''/sys/fs/bpf/map_netd_iface_stats_map'' ''AID_NET_BW_STATS'' False)
     (chk (ret (map_open T ''/sys/fs/bpf/map_netd_configuration_map'' 2))
     (chk (changeOwnerAndMode T ''/sys/fs/bpf/map_netd_configuration_map'' ''AID_NET_BW_STATS'' False)
     (chk (on_config (writeValue (b_config T) UID_RULES_CONFIGURATION_KEY DEFAULT_CONFIG BPF_ANY))
     (chk (on_config (writeValue (b_config T) CURRENT_STATS_MAP_CONFIGURATION_KEY SELECT_MAP_A BPF_ANY))
     (chk (ret (map_open T ''/sys/fs/bpf/map_netd_uid_owner_map'' 2000))
     (chk (changeOwnerAndMode T ''/sys/fs/bpf/map_netd_uid_owner_map'' ''AID_ROOT'' True)
     (chk (on_owner (clearMap (b_owner T)))
     (ret (map_open T ''/sys/fs/bpf/map_netd_uid_permission_map'' 2000))))))))))))))))))))))"

section \<open>Sockets and counters\<close>

definition hasUpdateDeviceStatsPermission :: "traffic \<Rightarrow> uid_t \<Rightarrow> bool" where
  "hasUpdateDeviceStatsPermission s uid \<longleftrightarrow> uid \<in> set (mPrivilegedUser s)"

definition tagSocket :: "traffic_env \<Rightarrow> int \<Rightarrow> u32 \<Rightarrow> uid_t \<Rightarrow> uid_t \<Rightarrow> traffic act" where
  "tagSocket T sockFd tag uid callingUid s =
     (if uid \<noteq> callingUid \<and> \<not> hasUpdateDeviceStatsPermission s callingUid then (- EPERM, s)
      else if \<not> ebpfSupported s then on_legacy T (LegacyTag sockFd tag uid) s
      else case sock_cookie T sockFd of
          Inl e \<Rightarrow> (- e, s)
        | Inr cookie \<Rightarrow>
            negated (on_cookie (writeValue (b_cookie T) cookie \<lparr>ut_uid = uid, ut_tag = tag\<rparr> BPF_ANY)) s)"

definition untagSocket :: "traffic_env \<Rightarrow> int \<Rightarrow> traffic act" where
  "untagSocket T sockFd s =
     (if \<not> ebpfSupported s then on_legacy T (LegacyUntag sockFd) s
      else case sock_cookie T sockFd of
          Inl e \<Rightarrow> (- e, s)
        | Inr cookie \<Rightarrow> negated (on_cookie (deleteValue (b_cookie T) cookie)) s)"

text \<open>The handler of the socket-destroy listener set up by \<open>start\<close>.\<close>

definition rxHandler :: "traffic_env \<Rightarrow> u32 \<Rightarrow> u32 \<Rightarrow> traffic \<Rightarrow> traffic" where
  "rxHandler T cookie0 cookie1 s =
     snd (on_cookie (deleteValue (b_cookie T) (ucast cookie0 OR push_bit 32 (ucast cookie1))) s)"

definition setCounterSet :: "traffic_env \<Rightarrow> int \<Rightarrow> uid_t \<Rightarrow> uid_t \<Rightarrow> traffic act" where
  "setCounterSet T counterSetNum uid callingUid s =
     (if counterSetNum < 0 \<or> counterSetNum \<ge> OVERFLOW_COUNTERSET T then (- EINVAL, s)
      else if \<not> hasUpdateDeviceStatsPermission s callingUid then (- EPERM, s)
      else if \<not> ebpfSupported s then on_legacy T (LegacyCounterSet counterSetNum uid) s
      else if counterSetNum = 0 then
        negated (unless_missing (on_counter (deleteValue (b_counter T) uid))) s
      else negated (on_counter (writeValue (b_counter T) uid (of_int counterSetNum) BPF_ANY)) s)"

text \<open>The callbacks that \<open>deleteTagData\<close> runs over the maps; they never fail.\<close>

definition deleteMatchedCookieEntries :: "traffic_env \<Rightarrow> uid_t \<Rightarrow> u32 \<Rightarrow> u64 \<Rightarrow> uid_tag \<Rightarrow> (u64, uid_tag) bpf_map act" where
  "deleteMatchedCookieEntries T uid tag key value m =
     (if ut_uid value = uid \<and> (ut_tag value = tag \<or> tag = 0)
      then ignored (deleteValue (b_cookie T) key) m else (0, m))"

definition deleteMatchedUidTagEntries ::
  "(stats_key, stats_value) bpf_kern \<Rightarrow> uid_t \<Rightarrow> u32 \<Rightarrow> stats_key \<Rightarrow> stats_value \<Rightarrow> (stats_key, stats_value) bpf_map act" where
  "deleteMatchedUidTagEntries B uid tag key value m =
     (if sk_uid key = uid \<and> (sk_tag key = tag \<or> tag = 0) then ignored (deleteValue B key) m else (0, m))"

definition deleteAppUidStatsEntry :: "traffic_env \<Rightarrow> uid_t \<Rightarrow> u32 \<Rightarrow> stats_value \<Rightarrow> (u32, stats_value) bpf_map act" where
  "deleteAppUidStatsEntry T uid key value m = (if key = uid then ignored (deleteValue (b_app T) key) m else (0, m))"

definition deleteTagData :: "traffic_env \<Rightarrow> u32 \<Rightarrow> uid_t \<Rightarrow> uid_t \<Rightarrow> traffic act" where
  "deleteTagData T tag uid callingUid s =
     (if \<not> hasUpdateDeviceStatsPermission s callingUid then (- EPERM, s)
      else if \<not> ebpfSupported s then on_legacy T (LegacyDelete tag uid) s
      else
        chk (ignored (on_cookie (\<lambda>m. iterateMap (b_cookie T) (deleteMatchedCookieEntries T uid tag) m m)))
        (chk (ignored (on_statsB (\<lambda>m. iterateMap (b_statsB T) (deleteMatchedUidTagEntries (b_statsB T) uid tag) m m)))
        (chk (ignored (on_statsA (\<lambda>m. iterateMap (b_statsA T) (deleteMatchedUidTagEntries (b_statsA T) uid tag) m m)))
        (if tag \<noteq> 0 then ret 0
         else chk (ignored (on_counter (deleteValue (b_counter T) uid)))
          (ignored (on_app (\<lambda>m. iterateMap (b_app T) (deleteAppUidStatsEntry T uid) m m)))))) s)"

definition addInterfaceName :: "traffic_env \<Rightarrow> string \<Rightarrow> u32 \<Rightarrow> traffic act" where
  "addInterfaceName T name ifaceIndex s =
     (if \<not> ebpfSupported s then (0, s)
      else if ifaceIndex = 0 then (- 1, s)
      else negated (on_iface (writeValue (b_iface T) ifaceIndex (take 15 name) BPF_ANY)) s)"

section \<open>The owner map\<close>

definition addMatch :: "(u32, u8) bpf_kern \<Rightarrow> u8 \<Rightarrow> u32 \<Rightarrow> (u32, u8) bpf_map act" where
  "addMatch B match uid m =
     (case readValue B uid m of
        Inr old \<Rightarrow> writeValue B uid (old OR match) BPF_ANY m
      | Inl _ \<Rightarrow> writeValue B uid match BPF_ANY m)"

definition removeMatch :: "(u32, u8) bpf_kern \<Rightarrow> u8 \<Rightarrow> u32 \<Rightarrow> (u32, u8) bpf_map act" where
  "removeMatch B match uid m =
     (case readValue B uid m of
        Inr old \<Rightarrow>
          let newMatch = old AND NOT match in
          if newMatch = 0 then deleteValue B uid m else writeValue B uid newMatch BPF_ANY m
      | Inl _ \<Rightarrow> (ENOENT, m))"

definition updateOwnerMapEntry :: "traffic_env \<Rightarrow> u8 \<Rightarrow> uid_t \<Rightarrow> FirewallRule \<Rightarrow> FirewallType \<Rightarrow> traffic act" where
  "updateOwnerMapEntry T match uid rule type =
     (if rule = ALLOW \<and> type = WHITELIST \<or> rule = DENY \<and> type = BLACKLIST
      then on_owner (addMatch (b_owner T) match uid)
      else if rule = ALLOW \<and> type = BLACKLIST \<or> rule = DENY \<and> type = WHITELIST
      then on_owner (removeMatch (b_owner T) match uid)
      else ret (- EINVAL))"

definition jumpOpToMatch :: "IptJumpOp \<Rightarrow> u8" where
  "jumpOpToMatch jumpHandling =
     (case jumpHandling of IptJumpReject \<Rightarrow> PENALTY_BOX_MATCH | IptJumpReturn \<Rightarrow> HAPPY_BOX_MATCH
      | IptJumpNoAdd \<Rightarrow> NO_MATCH)"

text \<open>
  \<open>errno\<close> is not cleared before \<open>strtol\<close>, which leaves it alone unless the number is out of range; the
  value before the call is the argument \<open>errno\<close>.
\<close>

fun ownerMapLoop :: "traffic_env \<Rightarrow> u8 \<Rightarrow> IptOp \<Rightarrow> int \<Rightarrow> string list \<Rightarrow> traffic act" where
  "ownerMapLoop T match opr errno [] s = (0, s)"
| "ownerMapLoop T match opr errno (appStrUid # rest) s =
     (case strtol appStrUid 10 of (uid, overflow, endPtr) \<Rightarrow>
      let errno' = (if overflow then ERANGE else errno) in
      if errno' = ERANGE \<and> (uid = LONG_MAX \<or> uid = LONG_MIN) \<or> endPtr = appStrUid \<or> endPtr \<noteq> []
      then (errno', s)
      else chk (on_owner (case opr of IptOpDelete \<Rightarrow> removeMatch (b_owner T) match (of_int uid)
                 | IptOpInsert \<Rightarrow> addMatch (b_owner T) match (of_int uid)))
             (ownerMapLoop T match opr errno' rest) s)"

definition updateUidOwnerMap :: "traffic_env \<Rightarrow> int \<Rightarrow> string list \<Rightarrow> IptJumpOp \<Rightarrow> IptOp \<Rightarrow> traffic act" where
  "updateUidOwnerMap T errno appStrUids jumpHandling opr =
     (let match = jumpOpToMatch jumpHandling in
      if match = NO_MATCH then ret EINVAL else ownerMapLoop T match opr errno appStrUids)"

definition chain_match :: "ChildChain \<Rightarrow> u8 option" where
  "chain_match chain = (case chain of DOZABLE \<Rightarrow> Some DOZABLE_MATCH | STANDBY \<Rightarrow> Some STANDBY_MATCH
     | POWERSAVE \<Rightarrow> Some POWERSAVE_MATCH | _ \<Rightarrow> None)"

definition changeUidOwnerRule :: "traffic_env \<Rightarrow> ChildChain \<Rightarrow> uid_t \<Rightarrow> FirewallRule \<Rightarrow> FirewallType \<Rightarrow> traffic act" where
  "changeUidOwnerRule T chain uid rule type s =
     (if \<not> ebpfSupported s then (- ENOSYS, s)
      else case chain_match chain of
          None \<Rightarrow> (- EINVAL, s)
        | Some match \<Rightarrow> negated (updateOwnerMapEntry T match uid rule type) s)"

definition replaceUidsInMap :: "(u32, u8) bpf_kern \<Rightarrow> u8 \<Rightarrow> u32 list \<Rightarrow> (u32, u8) bpf_map act" where
  "replaceUidsInMap B match uids m =
     (let (r, uidsToDelete) = iterateMap B (\<lambda>key _ acc. (0, if key \<in> set uids then acc else acc @ [key])) m [] in
      if r \<noteq> 0 then (r, m)
      else chk (chk_all (removeMatch B match) uidsToDelete) (chk_all (addMatch B match) uids) m)"

definition replaceUidOwnerMap :: "traffic_env \<Rightarrow> string \<Rightarrow> bool \<Rightarrow> u32 list \<Rightarrow> traffic act" where
  "replaceUidOwnerMap T name isWhitelist uids s =
     (if name = ''fw_dozable'' then negated (on_owner (replaceUidsInMap (b_owner T) DOZABLE_MATCH uids)) s
      else if name = ''fw_standby'' then negated (on_owner (replaceUidsInMap (b_owner T) STANDBY_MATCH uids)) s
      else if name = ''fw_powersave'' then negated (on_owner (replaceUidsInMap (b_owner T) POWERSAVE_MATCH uids)) s
      else (- EINVAL, s))"

definition toggleUidOwnerMap :: "traffic_env \<Rightarrow> ChildChain \<Rightarrow> bool \<Rightarrow> traffic act" where
  "toggleUidOwnerMap T chain enable s =
     (case readValue (b_config T) UID_RULES_CONFIGURATION_KEY (mConfigurationMap s) of
        Inl e \<Rightarrow> (- e, s)
      | Inr old \<Rightarrow>
          (case chain_match chain of
             None \<Rightarrow> (- EINVAL, s)
           | Some match \<Rightarrow>
               negated (on_config (writeValue (b_config T) UID_RULES_CONFIGURATION_KEY
                 (if enable then old OR match else old AND NOT match) BPF_EXIST)) s))"

section \<open>Permissions\<close>

definition PERMISSION_INTERNET :: "32 word" where "PERMISSION_INTERNET = 1"
definition PERMISSION_UPDATE_DEVICE_STATS :: "32 word" where "PERMISSION_UPDATE_DEVICE_STATS = 2"

fun setPermissionForUids :: "traffic_env \<Rightarrow> 32 word \<Rightarrow> uid_t list \<Rightarrow> traffic \<Rightarrow> traffic" where
  "setPermissionForUids T permission [] s = s"
| "setPermissionForUids T permission (uid # uids) s =
     (let s1 = snd (if permission AND PERMISSION_INTERNET \<noteq> 0
                    then on_permission (writeValue (b_permission T) uid ALLOW_SOCK_CREATE BPF_ANY) s
                    else on_permission (deleteValue (b_permission T) uid) s);
          s2 = s1\<lparr>mPrivilegedUser := (if permission AND PERMISSION_UPDATE_DEVICE_STATS \<noteq> 0
                    then os_insert uid (mPrivilegedUser s1) else os_erase uid (mPrivilegedUser s1))\<rparr>
      in setPermissionForUids T permission uids s2)"

end
