(* ===== verification/Firewall.thy ===== *)
theory Firewall
  imports Traffic_Controller Route_Controller
begin

text \<open>
  server/FirewallController.cpp. The state is the controller's own record, next to the traffic
  controller's, to which the operations are delegated when BPF owner matching is used, and the world,
  to which iptables-restore scripts go otherwise. The scripts are built as the code builds them.
\<close>

record firewall =
  mMaxUid :: u32
  mFirewallType :: FirewallType
  mUseBpfOwnerMatch :: bool
  mIfaceRules :: "string list"

type_synonym fstate = "firewall \<times> traffic \<times> world"

definition on_traffic :: "traffic act \<Rightarrow> fstate act" where
  "on_traffic f s = (case s of (fw, t, w) \<Rightarrow> case f t of (r, t') \<Rightarrow> (r, fw, t', w))"

definition on_iptables :: "world act \<Rightarrow> fstate act" where
  "on_iptables f s = (case s of (fw, t, w) \<Rightarrow> case f w of (r, w') \<Rightarrow> (r, fw, t, w'))"

definition remoteio :: "'s act \<Rightarrow> 's act" where
  "remoteio f s = (case f s of (r, s') \<Rightarrow> (if r = 0 then 0 else - EREMOTEIO, s'))"

section \<open>The largest valid UID\<close>

abbreviation (input) kDefaultMaximumUid :: u32 where "kDefaultMaximumUid \<equiv> 0xfffffffe"

text \<open>\<open>Split\<close> of android-base at a single character, and the conversion \<open>%u\<close> of \<open>sscanf\<close>.\<close>

fun split_at :: "char \<Rightarrow> string \<Rightarrow> string list" where
  "split_at d [] = [[]]"
| "split_at d (c # cs) =
     (if c = d then [] # split_at d cs
      else case split_at d cs of x # xs \<Rightarrow> (c # x) # xs | [] \<Rightarrow> [[c]])"

definition scan_u :: "string \<Rightarrow> (u32 \<times> string) option" where
  "scan_u s = (case strtoul s 10 of (v, rest) \<Rightarrow> if rest = s then None else Some (ucast v, rest))"

definition scan_three :: "string \<Rightarrow> (u32 \<times> u32 \<times> u32) option" where
  "scan_three s =
     (case scan_u s of None \<Rightarrow> None | Some (a, s1) \<Rightarrow>
      case scan_u s1 of None \<Rightarrow> None | Some (b, s2) \<Rightarrow>
      case scan_u s2 of None \<Rightarrow> None | Some (c, s3) \<Rightarrow> Some (a, b, c))"

fun max_uid_lines :: "u32 \<Rightarrow> string list \<Rightarrow> u32 option" where
  "max_uid_lines maxUid [] = Some maxUid"
| "max_uid_lines maxUid (line # lines) =
     (if line = [] then max_uid_lines maxUid lines
      else case scan_three line of
          None \<Rightarrow> None
        | Some (first, _, rangeLength) \<Rightarrow> max_uid_lines (max maxUid (first + rangeLength - 1)) lines)"

definition discoverMaximumValidUid :: "string option \<Rightarrow> u32" where
  "discoverMaximumValidUid content =
     (case content of None \<Rightarrow> kDefaultMaximumUid
      | Some c \<Rightarrow> (case max_uid_lines 0 (split_at (CHR 0x0A) c) of
            None \<Rightarrow> kDefaultMaximumUid
          | Some maxUid \<Rightarrow> if maxUid = 0 then kDefaultMaximumUid else maxUid))"

definition FirewallController_new :: "string option \<Rightarrow> bool \<Rightarrow> firewall" where
  "FirewallController_new uid_map bpf =
     \<lparr>mMaxUid = discoverMaximumValidUid uid_map, mFirewallType = BLACKLIST, mUseBpfOwnerMatch = bpf, mIfaceRules = []\<rparr>"

section \<open>Scripts\<close>

definition ICMPV6_TYPES :: "string list" where
  "ICMPV6_TYPES = [''packet-too-big'', ''router-solicitation'', ''router-advertisement'',
     ''neighbour-solicitation'', ''neighbour-advertisement'', ''redirect'']"

definition makeCriticalCommands :: "IptablesTarget \<Rightarrow> string \<Rightarrow> string" where
  "makeCriticalCommands target chainName =
     (if target = V6 then concat (map (\<lambda>t. ''-A '' @ chainName @ '' -p icmpv6 --icmpv6-type '' @ t @ '' -j RETURN'' @ newline) ICMPV6_TYPES)
      else [])"

definition makeUidRules :: "firewall \<Rightarrow> IptablesTarget \<Rightarrow> string \<Rightarrow> bool \<Rightarrow> u32 list \<Rightarrow> string" where
  "makeUidRules fw target name isWhitelist uids =
     ''*filter'' @ newline @ '':'' @ name @ '' -'' @ newline
     @ (if isWhitelist then
          concat (map (\<lambda>uid. ''-A '' @ name @ '' -m owner --uid-owner '' @ fmt_d (sint uid) @ '' -j RETURN'' @ newline) uids)
          @ ''-A '' @ name @ '' -m owner --uid-owner '' @ fmt_d 0 @ ''-'' @ fmt_d 9999 @ '' -j RETURN'' @ newline
          @ ''-A '' @ name @ '' -m owner ! --uid-owner '' @ fmt_d 0 @ ''-'' @ fmt_u (mMaxUid fw) @ '' -j RETURN'' @ newline
          @ ''-A '' @ name @ '' -p esp -j RETURN'' @ newline
        else [])
     @ ''-A '' @ name @ '' -i lo -j RETURN'' @ newline
     @ ''-A '' @ name @ '' -o lo -j RETURN'' @ newline
     @ ''-A '' @ name @ '' -p tcp --tcp-flags RST RST -j RETURN'' @ newline
     @ (if isWhitelist then makeCriticalCommands target name else [])
     @ (if \<not> isWhitelist then
          concat (map (\<lambda>uid. ''-A '' @ name @ '' -m owner --uid-owner '' @ fmt_d (sint uid) @ '' -j DROP'' @ newline) uids)
        else [])
     @ (if isWhitelist then ''-A '' @ name @ '' -j DROP'' @ newline else [])
     @ ''COMMIT'' @ newline"

section \<open>Operations\<close>

text \<open>
  \<open>f() | g()\<close>, and \<open>res |= f(); res |= g();\<close>: both calls run and their results are combined bitwise.
\<close>

definition both :: "'s act \<Rightarrow> 's act \<Rightarrow> 's act" where
  "both f g s = (case f s of (r, s') \<Rightarrow> case g s' of (r', s'') \<Rightarrow> (or r r', s''))"

definition replaceUidChain :: "kern \<Rightarrow> traffic_env \<Rightarrow> string \<Rightarrow> bool \<Rightarrow> u32 list \<Rightarrow> fstate act" where
  "replaceUidChain K T name isWhitelist uids s =
     (let fw = fst s in
      if mUseBpfOwnerMatch fw then on_traffic (replaceUidOwnerMap T name isWhitelist uids) s
      else both (on_iptables (execIptablesRestore K V4 (makeUidRules fw V4 name isWhitelist uids)))
             (on_iptables (execIptablesRestore K V6 (makeUidRules fw V6 name isWhitelist uids))) s)"

definition createChain :: "kern \<Rightarrow> traffic_env \<Rightarrow> string \<Rightarrow> FirewallType \<Rightarrow> fstate act" where
  "createChain K T chain type = replaceUidChain K T chain (type = WHITELIST) []"

definition getFirewallType :: "firewall \<Rightarrow> ChildChain \<Rightarrow> FirewallType" where
  "getFirewallType fw chain =
     (case chain of DOZABLE \<Rightarrow> WHITELIST | STANDBY \<Rightarrow> BLACKLIST | POWERSAVE \<Rightarrow> WHITELIST
      | NONE \<Rightarrow> mFirewallType fw | INVALID_CHAIN \<Rightarrow> BLACKLIST)"

definition setupIptablesHooks :: "kern \<Rightarrow> traffic_env \<Rightarrow> fstate act" where
  "setupIptablesHooks K T s =
     (case s of (fw, t, w) \<Rightarrow>
      let fw' = fw\<lparr>mUseBpfOwnerMatch := ebpfSupported t\<rparr> in
      if mUseBpfOwnerMatch fw' then (0, fw', t, w)
      else both (createChain K T ''fw_dozable'' (getFirewallType fw' DOZABLE))
        (both (createChain K T ''fw_standby'' (getFirewallType fw' STANDBY))
          (createChain K T ''fw_powersave'' (getFirewallType fw' POWERSAVE))) (fw', t, w))"

definition resetFirewall :: "kern \<Rightarrow> fstate act" where
  "resetFirewall K s =
     (case s of (fw, t, w) \<Rightarrow>
      remoteio (on_iptables (execIptablesRestore K V4V6
        (''*filter'' @ newline @ '':fw_INPUT -'' @ newline @ '':fw_OUTPUT -'' @ newline @ '':fw_FORWARD -'' @ newline
         @ ''COMMIT'' @ newline)))
      (fw\<lparr>mFirewallType := WHITELIST, mIfaceRules := []\<rparr>, t, w))"

definition setFirewallType :: "kern \<Rightarrow> FirewallType \<Rightarrow> fstate act" where
  "setFirewallType K ftype s =
     (if mFirewallType (fst s) \<noteq> ftype then
        (let s1 = snd (resetFirewall K s);
             (res, s2) = (if ftype = WHITELIST then
               on_iptables (execIptablesRestore K V4V6
                 (''*filter'' @ newline @ ''-A fw_INPUT -j DROP'' @ newline @ ''-A fw_OUTPUT -j REJECT'' @ newline
                  @ ''-A fw_FORWARD -j REJECT'' @ newline @ ''COMMIT'' @ newline)) s1
               else (0, s1))
         in (if res \<noteq> 0 then - EREMOTEIO else 0, (fst s2)\<lparr>mFirewallType := ftype\<rparr>, snd s2))
      else (0, s))"

definition chain_name :: "ChildChain \<Rightarrow> string option" where
  "chain_name chain = (case chain of DOZABLE \<Rightarrow> Some ''fw_dozable'' | STANDBY \<Rightarrow> Some ''fw_standby''
     | POWERSAVE \<Rightarrow> Some ''fw_powersave'' | _ \<Rightarrow> None)"

definition enableChildChains :: "kern \<Rightarrow> traffic_env \<Rightarrow> ChildChain \<Rightarrow> bool \<Rightarrow> fstate act" where
  "enableChildChains K T chain enable s =
     (case chain_name chain of
        None \<Rightarrow> (0, s)
      | Some name \<Rightarrow>
          if mUseBpfOwnerMatch (fst s) then on_traffic (toggleUidOwnerMap T chain enable) s
          else on_iptables (execIptablesRestore K V4V6
            (''*filter'' @ newline
             @ concat (map (\<lambda>parent. (if enable then ''-A'' else ''-D'') @ '' '' @ parent @ '' -j '' @ name @ newline)
                 [''fw_INPUT'', ''fw_OUTPUT''])
             @ ''COMMIT'' @ newline)) s)"

definition setInterfaceRule :: "kern \<Rightarrow> string \<Rightarrow> FirewallRule \<Rightarrow> fstate act" where
  "setInterfaceRule K iface rule s =
     (case s of (fw, t, w) \<Rightarrow>
      if mFirewallType fw = BLACKLIST then (- EINVAL, s)
      else if \<not> isIfaceName iface then (- ENOENT, s)
      else
        (let exec = (\<lambda>opr fw'. remoteio (on_iptables (execIptablesRestore K V4V6
               (''*filter'' @ newline @ opr @ '' fw_INPUT -i '' @ iface @ '' -j RETURN'' @ newline
                @ opr @ '' fw_OUTPUT -o '' @ iface @ '' -j RETURN'' @ newline @ ''COMMIT'' @ newline))) (fw', t, w))
         in if rule = ALLOW \<and> iface \<notin> set (mIfaceRules fw)
              then exec ''-I'' (fw\<lparr>mIfaceRules := os_insert iface (mIfaceRules fw)\<rparr>)
            else if rule = DENY \<and> iface \<in> set (mIfaceRules fw)
              then exec ''-D'' (fw\<lparr>mIfaceRules := os_erase iface (mIfaceRules fw)\<rparr>)
            else (0, s)))"

definition uid_rule_op :: "FirewallType \<Rightarrow> FirewallRule \<Rightarrow> string \<times> string" where
  "uid_rule_op type rule =
     (if type = WHITELIST then (if rule = ALLOW then ''-I'' else ''-D'', ''RETURN'')
      else (if rule = DENY then ''-A'' else ''-D'', ''DROP''))"

definition setUidRule :: "kern \<Rightarrow> traffic_env \<Rightarrow> ChildChain \<Rightarrow> u32 \<Rightarrow> FirewallRule \<Rightarrow> fstate act" where
  "setUidRule K T chain uid rule s =
     (let firewallType = getFirewallType (fst s) chain;
          (opr, target) = uid_rule_op firewallType rule
      in if chain = INVALID_CHAIN then (- EINVAL, s)
      else
        (let chainNames = (case chain_name chain of Some name \<Rightarrow> [name] | None \<Rightarrow> [''fw_INPUT'', ''fw_OUTPUT'']) in
         if mUseBpfOwnerMatch (fst s) then on_traffic (changeUidOwnerRule T chain uid rule firewallType) s
         else remoteio (on_iptables (execIptablesRestore K V4V6
           (''*filter'' @ newline
            @ concat (map (\<lambda>chainName. opr @ '' '' @ chainName @ '' -m owner --uid-owner '' @ fmt_d (sint uid)
                @ '' -j '' @ target @ newline) chainNames)
            @ ''COMMIT'' @ newline))) s))"

end
