(* ===== verification/Traffic_Properties.thy ===== *)
theory Traffic_Properties
  imports Traffic_Controller
begin

unbundle bit_operations_syntax

text \<open>
  Correctness of server/TrafficController.cpp. The owner map is read through \<open>owner_bits\<close>, the match
  bits of each UID, 0 for a UID without an entry; adding and removing a match are bitwise operations
  on one UID's bits. The locale \<open>uid_flags\<close> is the contract of a store of flagged UIDs that
  \<open>replaceUidsInMap\<close> relies on, interpreted on \<open>addMatch\<close> and \<open>removeMatch\<close>.
\<close>

section \<open>Match bits\<close>

definition owner_bits :: "(u32, u8) bpf_map \<Rightarrow> u32 \<Rightarrow> u8" where
  "owner_bits m uid = (case contents m uid of None \<Rightarrow> 0 | Some v \<Rightarrow> v)"

lemma addMatch_bits:
  assumes "bpf_hash B" "addMatch B match uid m = (r, m')"
  shows "owner_bits m' = (if r = 0 then (owner_bits m)(uid := owner_bits m uid OR match) else owner_bits m)"
  using assms by (auto simp: addMatch_def bpf_hash_read owner_bits_def fun_eq_iff split: option.splits dest!: write_contents)

lemma removeMatch_bits:
  assumes "bpf_hash B" "removeMatch B match uid m = (r, m')"
  shows "owner_bits m' = (if r = 0 then (owner_bits m)(uid := owner_bits m uid AND NOT match) else owner_bits m)"
  using assms by (auto simp: removeMatch_def bpf_hash_read owner_bits_def fun_eq_iff Let_def
      split: option.splits if_splits dest!: write_contents delete_contents)

locale uid_flags =
  fixes ok :: "'e \<Rightarrow> bool"
    and add :: "'e \<Rightarrow> 'u \<Rightarrow> 's act"
    and rm :: "'e \<Rightarrow> 'u \<Rightarrow> 's act"
    and flagged :: "'s \<Rightarrow> 'u set"
  assumes add_flag: "ok e \<Longrightarrow> add e u s = (0, s') \<Longrightarrow> flagged s' = insert u (flagged s)"
    and rm_flag: "ok e \<Longrightarrow> rm e u s = (0, s') \<Longrightarrow> flagged s' = flagged s - {u}"
begin

lemma add_all: "ok e \<Longrightarrow> chk_all (add e) us s = (0, s') \<Longrightarrow> flagged s' = flagged s \<union> set us"
proof (induction us arbitrary: s)
  case (Cons u us)
  then obtain s1 where "add e u s = (0, s1)" "chk_all (add e) us s1 = (0, s')"
    by (auto simp: chk_def split: prod.splits if_splits)
  then show ?case using Cons add_flag by fastforce
qed simp

lemma rm_all: "ok e \<Longrightarrow> chk_all (rm e) us s = (0, s') \<Longrightarrow> flagged s' = flagged s - set us"
proof (induction us arbitrary: s)
  case (Cons u us)
  then obtain s1 where "rm e u s = (0, s1)" "chk_all (rm e) us s1 = (0, s')"
    by (auto simp: chk_def split: prod.splits if_splits)
  then show ?case using Cons rm_flag by fastforce
qed simp

lemma replaced:
  assumes "ok e" "chk (chk_all (rm e) ds) (chk_all (add e) us) s = (0, s')" "flagged s - set us \<subseteq> set ds"
  shows "flagged s' = set us"
proof -
  obtain s1 where "chk_all (rm e) ds s = (0, s1)" "chk_all (add e) us s1 = (0, s')"
    using assms(2) by (auto simp: chk_def split: prod.splits if_splits)
  then show ?thesis using rm_all add_all assms(1,3) by blast
qed

end

lemma bits_remove: "(v AND NOT match) AND match = (0 :: u8)" "(v OR match) AND match = match"
  "(v AND NOT match) AND NOT match = v AND NOT match" "(v OR match) AND NOT match = v AND NOT match"
  by (rule bit_eqI; auto simp: bit_and_iff bit_or_iff bit_not_iff)+

definition flagged_uids :: "u8 \<Rightarrow> (u32, u8) bpf_map \<Rightarrow> u32 set" where
  "flagged_uids match m = {u. owner_bits m u AND match = match}"

interpretation owner_map: uid_flags "\<lambda>B. bpf_hash B \<and> match \<noteq> 0" "\<lambda>B. addMatch B match"
  "\<lambda>B. removeMatch B match" "flagged_uids match" for match
  by unfold_locales
    (auto simp: flagged_uids_def addMatch_bits removeMatch_bits bits_remove split: if_splits)

lemma chk_all_bits_frame:
  assumes "\<And>u m r m'. f u m = (r, m') \<Longrightarrow> \<forall>v. owner_bits m' v AND NOT match = owner_bits m v AND NOT match"
  shows "chk_all f us m = (r, m') \<Longrightarrow> owner_bits m' v AND NOT match = owner_bits m v AND NOT match"
proof (induction us arbitrary: m)
  case (Cons u us)
  obtain r1 m1 where 1: "f u m = (r1, m1)" by fastforce
  show ?case
  proof (cases "r1 = 0")
    case True
    then have "chk_all f us m1 = (r, m')" using Cons.prems 1 by (simp add: chk_def)
    then show ?thesis using Cons.IH assms [OF 1] by simp
  next
    case False
    then show ?thesis using Cons.prems 1 assms [OF 1] by (simp add: chk_def)
  qed
qed simp

lemma match_frame:
  assumes "bpf_hash B"
  shows "addMatch B match u m = (r, m') \<Longrightarrow> \<forall>v. owner_bits m' v AND NOT match = owner_bits m v AND NOT match"
    and "removeMatch B match u m = (r, m') \<Longrightarrow> \<forall>v. owner_bits m' v AND NOT match = owner_bits m v AND NOT match"
  using addMatch_bits [OF assms] removeMatch_bits [OF assms] by (auto simp: bits_remove)

lemma collect_keys:
  "chk_all (\<lambda>e acc. (0, if fst e \<in> U then acc else acc @ [fst e])) es acc =
     (0, acc @ filter (\<lambda>k. k \<notin> U) (map fst es))"
  by (induction es arbitrary: acc) (simp_all add: chk_def)

lemma replaceUidsInMap_cases:
  assumes "replaceUidsInMap B match uids m = (r, m')"
  obtains "r \<noteq> 0" "m' = m"
  | ds where "snd (bpf_visit B m) = 0" "set ds = fst ` set (fst (bpf_visit B m)) - set uids"
      "chk (chk_all (removeMatch B match) ds) (chk_all (addMatch B match) uids) m = (r, m')"
proof -
  let ?ds = "filter (\<lambda>k. k \<notin> set uids) (map fst (fst (bpf_visit B m)))"
  have it: "iterateMap B (\<lambda>key _ acc. (0, if key \<in> set uids then acc else acc @ [key])) m [] =
      (snd (bpf_visit B m), ?ds)"
    by (simp add: iterateMap_def chk_def collect_keys)
  have ds: "set ?ds = fst ` set (fst (bpf_visit B m)) - set uids" by auto
  show thesis
  proof (cases "snd (bpf_visit B m) = 0")
    case False
    then show thesis using assms that(1) it by (simp add: replaceUidsInMap_def)
  next
    case True
    then show thesis using assms that(2) [OF True ds] it by (simp add: replaceUidsInMap_def)
  qed
qed

lemma replaceUidsInMap_flags:
  assumes B: "bpf_hash B" and match: "match \<noteq> 0" and run: "replaceUidsInMap B match uids m = (r, m')"
  shows "(\<forall>v. owner_bits m' v AND NOT match = owner_bits m v AND NOT match) \<and>
    (r = 0 \<longrightarrow> flagged_uids match m' = set uids)"
  using run
proof (cases rule: replaceUidsInMap_cases)
  case (2 ds)
  obtain r1 m1 where 1: "chk_all (removeMatch B match) ds m = (r1, m1)" by fastforce
  have "owner_bits m1 v AND NOT match = owner_bits m v AND NOT match" for v
    by (rule chk_all_bits_frame [OF _ 1]) (rule match_frame(2) [OF B])
  moreover have "owner_bits m2 v AND NOT match = owner_bits m1 v AND NOT match"
    if "chk_all (addMatch B match) uids m1 = (r2, m2)" for r2 m2 v
    by (rule chk_all_bits_frame [OF _ that]) (rule match_frame(1) [OF B])
  ultimately have rest: "\<forall>v. owner_bits m' v AND NOT match = owner_bits m v AND NOT match"
    using 2(3) 1 by (auto simp: chk_def split: if_splits)
  have "flagged_uids match m \<subseteq> dom (contents m)"
    using match by (auto simp: flagged_uids_def owner_bits_def split: option.splits)
  then have "flagged_uids match m - set uids \<subseteq> set ds" using 2(2) bpf_hash_visit [OF B 2(1)] by auto
  then show ?thesis using owner_map.replaced [of B match ds uids m m'] B match 2(3) rest by blast
qed simp


lemma addMatch_reliable:
  "bpf_reliable B \<Longrightarrow> \<exists>m'. addMatch B match u m = (0, m')"
  by (auto simp: addMatch_def writeValue_def bpf_reliable_def Let_def split: sum.splits)

lemma removeMatch_reliable:
  assumes "bpf_hash B" "bpf_reliable B" "contents m u \<noteq> None"
  shows "\<exists>m'. removeMatch B match u m = (0, m') \<and> (\<forall>k. k \<noteq> u \<longrightarrow> contents m' k = contents m k)"
  using assms by (auto simp: removeMatch_def bpf_hash_read writeValue_def deleteValue_def bpf_reliable_def Let_def
      split: option.splits)

lemma remove_all_reliable:
  assumes "bpf_hash B" "bpf_reliable B"
  shows "distinct ds \<Longrightarrow> set ds \<subseteq> dom (contents m) \<Longrightarrow> \<exists>m'. chk_all (removeMatch B match) ds m = (0, m')"
proof (induction ds arbitrary: m)
  case (Cons u ds)
  then obtain m1 where m1: "removeMatch B match u m = (0, m1)" "\<forall>k. k \<noteq> u \<longrightarrow> contents m1 k = contents m k"
    using removeMatch_reliable [OF assms, of m u match] by auto
  then have "set ds \<subseteq> dom (contents m1)" using Cons.prems by (auto simp: subset_iff domIff)
  then show ?case using Cons m1(1) by (auto simp: chk_def)
qed simp

lemma add_all_reliable: "bpf_reliable B \<Longrightarrow> \<exists>m'. chk_all (addMatch B match) us m = (0, m')"
proof (induction us arbitrary: m)
  case (Cons u us)
  then show ?case using addMatch_reliable [of B match u m] by (auto simp: chk_def)
qed simp

lemma replaceUidsInMap_reliable:
  assumes B: "bpf_hash B" "bpf_reliable B"
  shows "\<exists>m'. replaceUidsInMap B match uids m = (0, m')"
proof -
  let ?ds = "filter (\<lambda>k. k \<notin> set uids) (map fst (fst (bpf_visit B m)))"
  have v: "snd (bpf_visit B m) = 0" using B by (simp add: bpf_reliable_def)
  have "distinct ?ds" using B(1) v by (simp add: bpf_hash_def)
  moreover have "set ?ds \<subseteq> dom (contents m)" using bpf_hash_visit [OF B(1) v] by auto
  ultimately obtain m1 where "chk_all (removeMatch B match) ?ds m = (0, m1)"
    using remove_all_reliable [OF B] by blast
  then show ?thesis
    using add_all_reliable [OF B(2), of match uids m1] v
    by (auto simp: replaceUidsInMap_def iterateMap_def chk_def collect_keys)
qed

lemma on_owner_cases:
  assumes "on_owner f s = (r, s')"
  obtains m' where "f (mUidOwnerMap s) = (r, m')" "s' = s\<lparr>mUidOwnerMap := m'\<rparr>"
  using assms by (auto simp: on_owner_def split: prod.splits)

lemma negated_zero [simp]: "negated f s = (r, s') \<longleftrightarrow> f s = (- r, s')"
  by (auto simp: negated_def split: prod.splits)

lemma chain_match_nonzero: "chain_match chain = Some match \<Longrightarrow> match \<noteq> 0"
  by (auto simp: chain_match_def match_defs split: ChildChain.splits)

definition adds_match :: "FirewallRule \<Rightarrow> FirewallType \<Rightarrow> bool" where
  "adds_match rule type \<longleftrightarrow> rule = ALLOW \<and> type = WHITELIST \<or> rule = DENY \<and> type = BLACKLIST"

text \<open>
  Claim C32. \<open>changeUidOwnerRule\<close> changes nothing but the owner map. If it succeeds, exactly the bit of
  the chain is set for the UID (a rule that makes it an exception to the chain's default) or cleared,
  and no other bit of this or any other UID changes. If it fails, no bit changes.
\<close>

theorem changeUidOwnerRule_refines:
  assumes "bpf_hash (b_owner T)" and run: "changeUidOwnerRule T chain uid rule type s = (r, s')"
  shows "s' = s\<lparr>mUidOwnerMap := mUidOwnerMap s'\<rparr> \<and>
    (if r = 0 then \<exists>match. chain_match chain = Some match \<and>
       owner_bits (mUidOwnerMap s') = (owner_bits (mUidOwnerMap s))
         (uid := (if adds_match rule type then owner_bits (mUidOwnerMap s) uid OR match
                  else owner_bits (mUidOwnerMap s) uid AND NOT match))
     else owner_bits (mUidOwnerMap s') = owner_bits (mUidOwnerMap s))"
proof (cases "ebpfSupported s \<and> chain_match chain \<noteq> None")
  case False
  then show ?thesis using run by (auto simp: changeUidOwnerRule_def split: if_splits option.splits)
next
  case True
  then obtain match where m: "chain_match chain = Some match" by blast
  have upd: "updateOwnerMapEntry T match uid rule type s = (- r, s')"
    using run True m by (simp add: changeUidOwnerRule_def)
  consider "adds_match rule type" "on_owner (addMatch (b_owner T) match uid) s = (- r, s')"
    | "\<not> adds_match rule type" "on_owner (removeMatch (b_owner T) match uid) s = (- r, s')"
    | "- r = - EINVAL" "s' = s"
    using upd by (auto simp: updateOwnerMapEntry_def adds_match_def split: if_splits)
  then show ?thesis
  proof cases
    case 1
    then show ?thesis using m addMatch_bits [OF assms(1)] by (auto elim!: on_owner_cases)
  next
    case 2
    then show ?thesis using m removeMatch_bits [OF assms(1)] by (auto elim!: on_owner_cases)
  qed simp
qed

text \<open>The environment and the state of the examples: plain hash maps, BPF supported.\<close>

definition demo_tenv :: traffic_env where
  "demo_tenv = \<lparr>b_cookie = plain_hash, b_counter = plain_hash, b_app = plain_hash,
     b_statsA = plain_hash, b_statsB = plain_hash, b_iface = plain_hash, b_config = plain_hash,
     b_owner = plain_hash, b_permission = plain_hash, sock_cookie = \<lambda>fd. Inr (word_of_int fd),
     legacy = \<lambda>h c. 0, OVERFLOW_COUNTERSET = 2, map_open = \<lambda>p n. 0, chown_path = \<lambda>p g. 0, chmod_path = \<lambda>p m. 0\<rparr>"

definition demo_traffic :: traffic where
  "demo_traffic = \<lparr>ebpfSupported = True, mCookieTagMap = [], mUidCounterSetMap = [], mAppUidStatsMap = [],
     mStatsMapA = [], mStatsMapB = [], mIfaceIndexNameMap = [],
     mConfigurationMap = [BpfWrite UID_RULES_CONFIGURATION_KEY DEFAULT_CONFIG BPF_ANY 0],
     mUidOwnerMap = [BpfWrite 10001 STANDBY_MATCH BPF_ANY 0], mUidPermissionMap = [],
     mPrivilegedUser = [1000], legacy_calls = []\<rparr>"

lemma demo_bits: "owner_bits (mUidOwnerMap demo_traffic) u = (if u = 10001 then STANDBY_MATCH else 0)"
  by (simp add: demo_traffic_def owner_bits_def contents_def)

theorem changeUidOwnerRule_refines_witness:
  "\<exists>s'. changeUidOwnerRule demo_tenv DOZABLE 10001 ALLOW WHITELIST demo_traffic = (0, s') \<and>
     owner_bits (mUidOwnerMap s') 10001 = STANDBY_MATCH OR DOZABLE_MATCH"
proof -
  obtain s' where run: "changeUidOwnerRule demo_tenv DOZABLE 10001 ALLOW WHITELIST demo_traffic = (0, s')"
    by (simp add: changeUidOwnerRule_def demo_traffic_def demo_tenv_def chain_match_def updateOwnerMapEntry_def on_owner_def
        addMatch_def readValue_def plain_hash_def writeValue_def contents_def negated_def)
  have "bpf_hash (b_owner demo_tenv)" by (simp add: demo_tenv_def plain_hash_ok)
  from changeUidOwnerRule_refines [OF this run] show ?thesis
    using run by (auto simp: chain_match_def adds_match_def demo_bits)
qed

text \<open>
  Claim C33. When \<open>replaceUidOwnerMap\<close> succeeds, the UIDs with the bit of the named chain are exactly the
  given ones; whether or not it succeeds, every other bit of every UID is unchanged, so that replacing
  one chain cannot disturb another; and it succeeds unless a call on the map fails.
\<close>

theorem replaceUidOwnerMap_exact:
  assumes "bpf_hash (b_owner T)" and run: "replaceUidOwnerMap T name isWhitelist uids s = (r, s')"
    and "(name, match) \<in> {(''fw_dozable'', DOZABLE_MATCH), (''fw_standby'', STANDBY_MATCH), (''fw_powersave'', POWERSAVE_MATCH)}"
  shows "(\<forall>uid. owner_bits (mUidOwnerMap s') uid AND NOT match = owner_bits (mUidOwnerMap s) uid AND NOT match) \<and>
    (r = 0 \<longrightarrow> (\<forall>uid. owner_bits (mUidOwnerMap s') uid AND match = match \<longleftrightarrow> uid \<in> set uids)) \<and>
    (bpf_reliable (b_owner T) \<longrightarrow> r = 0)"
proof -
  have match: "match \<noteq> 0" using assms(3) by (auto simp: match_defs)
  have "on_owner (replaceUidsInMap (b_owner T) match uids) s = (- r, s')"
    using run assms(3) by (auto simp: replaceUidOwnerMap_def)
  then obtain m' where m': "replaceUidsInMap (b_owner T) match uids (mUidOwnerMap s) = (- r, m')"
    "s' = s\<lparr>mUidOwnerMap := m'\<rparr>" by (rule on_owner_cases)
  show ?thesis
    using replaceUidsInMap_flags [OF assms(1) match m'(1)] m'
      replaceUidsInMap_reliable [OF assms(1), of match uids "mUidOwnerMap s"] by (auto simp: flagged_uids_def)
qed

theorem replaceUidOwnerMap_exact_witness:
  "\<exists>s'. replaceUidOwnerMap demo_tenv ''fw_standby'' False [10002] demo_traffic = (0, s') \<and>
     owner_bits (mUidOwnerMap s') 10002 AND STANDBY_MATCH = STANDBY_MATCH \<and>
     owner_bits (mUidOwnerMap s') 10001 AND STANDBY_MATCH \<noteq> STANDBY_MATCH"
proof -
  have B: "bpf_hash (b_owner demo_tenv)" "bpf_reliable (b_owner demo_tenv)"
    by (simp_all add: demo_tenv_def plain_hash_ok plain_hash_reliable)
  obtain r s' where run: "replaceUidOwnerMap demo_tenv ''fw_standby'' False [10002] demo_traffic = (r, s')"
    by fastforce
  from replaceUidOwnerMap_exact [OF B(1) run, of STANDBY_MATCH] B(2) show ?thesis using run by simp
qed


section \<open>Tags\<close>

text \<open>
  Only a caller that tags for its own UID, or that may update device statistics, can change
  any state through \<open>tagSocket\<close>; when it succeeds with BPF support, exactly the socket's cookie is
  tagged with the UID and the tag, and when it fails no tag changes.
\<close>

theorem tagSocket_authorised:
  assumes run: "tagSocket T sockFd tag uid callingUid s = (r, s')"
  shows "(s' \<noteq> s \<longrightarrow> uid = callingUid \<or> callingUid \<in> set (mPrivilegedUser s)) \<and>
    (ebpfSupported s \<longrightarrow>
      (if r = 0 \<and> s' \<noteq> s then \<exists>cookie. sock_cookie T sockFd = Inr cookie \<and>
         contents (mCookieTagMap s') = (contents (mCookieTagMap s))(cookie \<mapsto> \<lparr>ut_uid = uid, ut_tag = tag\<rparr>)
       else contents (mCookieTagMap s') = contents (mCookieTagMap s)))"
proof (cases "uid \<noteq> callingUid \<and> callingUid \<notin> set (mPrivilegedUser s)")
  case True
  then show ?thesis using run by (simp add: tagSocket_def hasUpdateDeviceStatsPermission_def)
next
  case auth: False
  show ?thesis
  proof (cases "ebpfSupported s")
    case False
    then show ?thesis using auth by blast
  next
    case bpf: True
    show ?thesis
    proof (cases "sock_cookie T sockFd")
      case (Inl e)
      then show ?thesis using run auth bpf by (auto simp: tagSocket_def hasUpdateDeviceStatsPermission_def)
    next
      case (Inr cookie)
      then obtain m' where m': "writeValue (b_cookie T) cookie \<lparr>ut_uid = uid, ut_tag = tag\<rparr> BPF_ANY (mCookieTagMap s) = (- r, m')"
        and s': "s' = s\<lparr>mCookieTagMap := m'\<rparr>"
        using run auth bpf by (auto simp: tagSocket_def hasUpdateDeviceStatsPermission_def on_cookie_def split: prod.splits)
      have "s' \<noteq> s"
        using m' s' by (cases s) (auto simp: writeValue_def Let_def)
      then show ?thesis using write_contents [OF m'] Inr auth s' by auto
    qed
  qed
qed

theorem tagSocket_authorised_witness:
  "\<exists>s'. tagSocket demo_tenv 7 42 10001 1000 demo_traffic = (0, s') \<and>
     contents (mCookieTagMap s') 7 = Some \<lparr>ut_uid = 10001, ut_tag = 42\<rparr>"
proof -
  let ?s' = "demo_traffic\<lparr>mCookieTagMap := [BpfWrite 7 \<lparr>ut_uid = 10001, ut_tag = 42\<rparr> BPF_ANY 0]\<rparr>"
  have fields: "mCookieTagMap demo_traffic = []" "ebpfSupported demo_traffic" "mPrivilegedUser demo_traffic = [1000]"
    "sock_cookie demo_tenv 7 = Inr 7" "b_cookie demo_tenv = plain_hash"
    by (simp_all add: demo_traffic_def demo_tenv_def)
  have run: "tagSocket demo_tenv 7 42 10001 1000 demo_traffic = (0, ?s')"
    by (simp add: tagSocket_def fields hasUpdateDeviceStatsPermission_def on_cookie_def writeValue_def plain_hash_def)
  have "?s' \<noteq> demo_traffic" by (simp add: demo_traffic_def)
  then show ?thesis using tagSocket_authorised [OF run] run fields by auto
qed

text \<open>Deleting, in a pass over a map, the entries that satisfy \<open>P\<close>.\<close>

definition delete_where :: "('k, 'v) bpf_kern \<Rightarrow> ('k \<Rightarrow> 'v \<Rightarrow> bool) \<Rightarrow> 'k \<Rightarrow> 'v \<Rightarrow> ('k, 'v) bpf_map act" where
  "delete_where B P k v m = (if P k v then ignored (deleteValue B k) m else (0, m))"

lemma delete_where_pass:
  assumes "bpf_reliable B"
  shows "distinct (map fst es) \<Longrightarrow> \<forall>e \<in> set es. contents m (fst e) = Some (snd e) \<Longrightarrow>
    \<exists>m'. chk_all (\<lambda>e. delete_where B P (fst e) (snd e)) es m = (0, m') \<and>
      (\<forall>k. contents m' k = (if \<exists>v. (k, v) \<in> set es \<and> P k v then None else contents m k))"
proof (induction es arbitrary: m)
  case (Cons e es)
  obtain k v where e: "e = (k, v)" by fastforce
  obtain m1 where m1: "delete_where B P k v m = (0, m1)"
    and c1: "contents m1 = (if P k v then (contents m)(k := None) else contents m)"
    using Cons.prems assms that
    by (cases "P k v") (auto simp: e delete_where_def ignored_def deleteValue_def Let_def bpf_reliable_def)
  have dist: "distinct (map fst es)" using Cons.prems(1) by simp
  have "\<forall>e \<in> set es. contents m1 (fst e) = Some (snd e)" using Cons.prems c1 e by (force simp: image_iff)
  then obtain m' where "chk_all (\<lambda>e. delete_where B P (fst e) (snd e)) es m1 = (0, m')"
    "\<forall>k. contents m' k = (if \<exists>v. (k, v) \<in> set es \<and> P k v then None else contents m1 k)"
    using Cons.IH [of m1] dist by blast
  then show ?case using m1 c1 by (auto simp: e chk_def)
qed simp

lemma iterate_delete_where:
  assumes "bpf_hash B" "bpf_reliable B"
  shows "contents (snd (iterateMap B (delete_where B P) m m)) k =
    (case contents m k of None \<Rightarrow> None | Some v \<Rightarrow> if P k v then None else Some v)"
proof -
  let ?es = "fst (bpf_visit B m)"
  have v: "distinct (map fst ?es)" "map_of ?es = contents m"
    using assms by (auto simp: bpf_hash_def bpf_reliable_def)
  have in_es: "(k, x) \<in> set ?es \<longleftrightarrow> contents m k = Some x" for k x
    using v map_of_eq_Some_iff by metis
  have "\<forall>e \<in> set ?es. contents m (fst e) = Some (snd e)" using in_es by (metis prod.collapse)
  then obtain m' where "chk_all (\<lambda>e. delete_where B P (fst e) (snd e)) ?es m = (0, m')"
    "\<forall>k. contents m' k = (if \<exists>v. (k, v) \<in> set ?es \<and> P k v then None else contents m k)"
    using delete_where_pass [OF assms(2) v(1), of m P] by blast
  then show ?thesis by (auto simp: iterateMap_def chk_def in_es split: option.splits)
qed

lemma deleters:
  "deleteMatchedCookieEntries T uid tag = delete_where (b_cookie T) (\<lambda>_ v. ut_uid v = uid \<and> (ut_tag v = tag \<or> tag = 0))"
  "deleteMatchedUidTagEntries B uid tag = delete_where B (\<lambda>k _. sk_uid k = uid \<and> (sk_tag k = tag \<or> tag = 0))"
  "deleteAppUidStatsEntry T uid = delete_where (b_app T) (\<lambda>k _. k = uid)"
  by (simp_all add: fun_eq_iff deleteMatchedCookieEntries_def deleteMatchedUidTagEntries_def
      deleteAppUidStatsEntry_def delete_where_def)

lemma chk_ignored: "chk (ignored f) g s = g (snd (f s))"
  by (simp add: chk_def ignored_def)

text \<open>
  With maps whose calls fail only for a missing key, \<open>deleteTagData\<close> by an authorised caller
  removes exactly the tags and the statistics of the UID with the given tag, or all of the UID's when
  the tag is 0, in which case its counter set and its total are gone as well; everything that belongs
  to another UID or tag is kept.
\<close>

theorem deleteTagData_exact:
  assumes "\<And>B. B \<in> {b_statsA T, b_statsB T} \<Longrightarrow> bpf_hash B \<and> bpf_reliable B"
    and "bpf_hash (b_cookie T)" "bpf_reliable (b_cookie T)" "bpf_hash (b_app T)" "bpf_reliable (b_app T)"
      "bpf_hash (b_counter T)" "bpf_reliable (b_counter T)"
    and "callingUid \<in> set (mPrivilegedUser s)" "ebpfSupported s"
  shows "\<exists>s'. deleteTagData T tag uid callingUid s = (0, s') \<and>
    (\<forall>cookie. contents (mCookieTagMap s') cookie = (case contents (mCookieTagMap s) cookie of None \<Rightarrow> None
       | Some v \<Rightarrow> if ut_uid v = uid \<and> (ut_tag v = tag \<or> tag = 0) then None else Some v)) \<and>
    (\<forall>key. let gone = (sk_uid key = uid \<and> (sk_tag key = tag \<or> tag = 0)) in
       contents (mStatsMapA s') key = (if gone then None else contents (mStatsMapA s) key) \<and>
       contents (mStatsMapB s') key = (if gone then None else contents (mStatsMapB s) key)) \<and>
    (\<forall>u. let gone = (tag = 0 \<and> u = uid) in
       contents (mUidCounterSetMap s') u = (if gone then None else contents (mUidCounterSetMap s) u) \<and>
       contents (mAppUidStatsMap s') u = (if gone then None else contents (mAppUidStatsMap s) u))"
proof -
  have counter: "contents (snd (deleteValue (b_counter T) uid m)) = (contents m)(uid := None)" for m
    using assms(6,7) by (cases "contents m uid") (auto simp: deleteValue_def Let_def bpf_hash_def bpf_reliable_def fun_eq_iff)
  note it = iterate_delete_where [OF assms(2,3)] iterate_delete_where [OF assms(4,5)]
    iterate_delete_where [of "b_statsA T"] iterate_delete_where [of "b_statsB T"]
  show ?thesis
    using assms(1,8,9)
    by (simp add: deleteTagData_def hasUpdateDeviceStatsPermission_def deleters chk_ignored
        on_cookie_def on_statsA_def on_statsB_def on_counter_def on_app_def ignored_def
        split_beta it counter Let_def split: option.splits)
qed


theorem deleteTagData_exact_witness:
  "\<exists>s'. deleteTagData demo_tenv 0 10001 1000
      (demo_traffic\<lparr>mUidCounterSetMap := [BpfWrite 10001 1 BPF_ANY 0, BpfWrite 10002 1 BPF_ANY 0]\<rparr>) = (0, s') \<and>
     contents (mUidCounterSetMap s') 10001 = None \<and> contents (mUidCounterSetMap s') 10002 = Some 1"
proof -
  let ?s = "demo_traffic\<lparr>mUidCounterSetMap := [BpfWrite 10001 1 BPF_ANY 0, BpfWrite 10002 1 BPF_ANY 0]\<rparr>"
  have B: "bpf_hash B \<and> bpf_reliable B" if "B \<in> {b_statsA demo_tenv, b_statsB demo_tenv}" for B
    using that by (auto simp: demo_tenv_def plain_hash_ok plain_hash_reliable)
  have env: "b_cookie demo_tenv = plain_hash" "b_app demo_tenv = plain_hash" "b_counter demo_tenv = plain_hash"
    by (simp_all add: demo_tenv_def)
  have "1000 \<in> set (mPrivilegedUser ?s)" "ebpfSupported ?s" by (simp_all add: demo_traffic_def)
  then obtain s' where "deleteTagData demo_tenv 0 10001 1000 ?s = (0, s')"
    "\<forall>u. contents (mUidCounterSetMap s') u = (if u = 10001 then None else contents (mUidCounterSetMap ?s) u)"
    using deleteTagData_exact [of demo_tenv 1000 ?s 0 10001, OF B] unfolding env Let_def
    by (force simp: plain_hash_ok plain_hash_reliable)
  then show ?thesis by (auto simp: contents_def)
qed

section \<open>Errors\<close>

text \<open>
  A rule value other than \<open>ALLOW\<close> and \<open>DENY\<close>, which the binder service passes on unchecked, is answered
  with a positive number: the error is negated twice.
\<close>

lemma changeUidOwnerRule_positive_error:
  "changeUidOwnerRule demo_tenv DOZABLE 10001 UnknownRule WHITELIST demo_traffic = (EINVAL, demo_traffic)"
  by (simp add: changeUidOwnerRule_def chain_match_def updateOwnerMapEntry_def negated_def demo_traffic_def)

text \<open>
  An unparsable UID ends \<open>updateUidOwnerMap\<close> with the value of \<open>errno\<close>, which is 0 if nothing has
  failed before: the remaining UIDs are skipped and the caller is told that all went well.
\<close>

lemma updateUidOwnerMap_silent:
  "updateUidOwnerMap T 0 (''x'' # uids) IptJumpReject opr s = (0, s)"
  by (simp add: updateUidOwnerMap_def jumpOpToMatch_def match_defs strtol_def strtoul_sign_def strtoul_base_def
      isspace_def is_base_digit_def digit_val_def isdigit_def)

end
