(* ===== verification/Firewall_Properties.thy ===== *)
theory Firewall_Properties
  imports Firewall Traffic_Properties Route_Fib
begin

unbundle bit_operations_syntax

text \<open>
  What the scripts of server/FirewallController.cpp mean, and that they mean what the controller
  promises: the rules of a UID chain are given as data, with their text and with the verdict on a
  packet; the chains the controller writes drop exactly the packets of the policy, editing one UID of a
  chain gives the chain of the edited list of UIDs, and the iptables chains and the owner map of the
  traffic controller filter the same UIDs.
\<close>

section \<open>What the scripts mean\<close>

text \<open>
  The rules of a UID chain as data, their text, and what a packet meets when it traverses the chain:
  the first rule that matches it decides, and the end of the chain returns.
\<close>

datatype rule_match =
    Owner int int
  | NotOwner int int
  | Esp
  | FromLoopback
  | ToLoopback
  | TcpReset
  | Icmpv6 string
  | Always

datatype chain_target = JumpReturn | JumpDrop

type_synonym chain_rule = "rule_match \<times> chain_target"

definition match_text :: "rule_match \<Rightarrow> string" where
  "match_text m = (case m of
       Owner a b \<Rightarrow> '' -m owner --uid-owner '' @ fmt_d a @ (if a = b then [] else ''-'' @ fmt_d b)
     | NotOwner a b \<Rightarrow> '' -m owner ! --uid-owner '' @ fmt_d a @ ''-'' @ fmt_d b
     | Esp \<Rightarrow> '' -p esp'' | FromLoopback \<Rightarrow> '' -i lo'' | ToLoopback \<Rightarrow> '' -o lo''
     | TcpReset \<Rightarrow> '' -p tcp --tcp-flags RST RST'' | Icmpv6 t \<Rightarrow> '' -p icmpv6 --icmpv6-type '' @ t
     | Always \<Rightarrow> [])"

definition rule_text :: "string \<Rightarrow> string \<Rightarrow> chain_rule \<Rightarrow> string" where
  "rule_text opr name r = opr @ '' '' @ name @ match_text (fst r)
     @ (case snd r of JumpReturn \<Rightarrow> '' -j RETURN'' | JumpDrop \<Rightarrow> '' -j DROP'') @ newline"

definition uid_rule :: "bool \<Rightarrow> u32 \<Rightarrow> chain_rule" where
  "uid_rule isWhitelist uid = (Owner (sint uid) (sint uid), if isWhitelist then JumpReturn else JumpDrop)"

definition uid_chain :: "u32 \<Rightarrow> IptablesTarget \<Rightarrow> bool \<Rightarrow> u32 list \<Rightarrow> chain_rule list" where
  "uid_chain maxUid target isWhitelist uids =
     (if isWhitelist then
        map (uid_rule True) uids @ [(Owner 0 9999, JumpReturn), (NotOwner 0 (uint maxUid), JumpReturn), (Esp, JumpReturn)]
      else [])
     @ [(FromLoopback, JumpReturn), (ToLoopback, JumpReturn), (TcpReset, JumpReturn)]
     @ (if isWhitelist
        then (if target = V6 then map (\<lambda>t. (Icmpv6 t, JumpReturn)) ICMPV6_TYPES else []) @ [(Always, JumpDrop)]
        else map (uid_rule False) uids)"

record fw_packet =
  pk_owner :: "u32 option"
  pk_esp :: bool
  pk_in :: string
  pk_out :: string
  pk_rst :: bool
  pk_icmpv6 :: "string option"

definition matches :: "rule_match \<Rightarrow> fw_packet \<Rightarrow> bool" where
  "matches m p = (case m of
       Owner a b \<Rightarrow> (case pk_owner p of None \<Rightarrow> False | Some u \<Rightarrow> a \<le> uint u \<and> uint u \<le> b)
     | NotOwner a b \<Rightarrow> \<not> (case pk_owner p of None \<Rightarrow> False | Some u \<Rightarrow> a \<le> uint u \<and> uint u \<le> b)
     | Esp \<Rightarrow> pk_esp p | FromLoopback \<Rightarrow> pk_in p = ''lo'' | ToLoopback \<Rightarrow> pk_out p = ''lo''
     | TcpReset \<Rightarrow> pk_rst p | Icmpv6 t \<Rightarrow> pk_icmpv6 p = Some t | Always \<Rightarrow> True)"

definition dropped :: "chain_rule list \<Rightarrow> fw_packet \<Rightarrow> bool" where
  "dropped rules p = (case find (\<lambda>r. matches (fst r) p) rules of None \<Rightarrow> False | Some r \<Rightarrow> snd r = JumpDrop)"

lemma dropped_simps [simp]:
  "dropped [] p = False"
  "dropped ((m, t) # rules) p = (if matches m p then t = JumpDrop else dropped rules p)"
  by (simp_all add: dropped_def)

lemma dropped_return:
  "\<forall>r \<in> set rules. snd r = JumpReturn \<Longrightarrow>
   dropped (rules @ rest) p \<longleftrightarrow> \<not> (\<exists>r \<in> set rules. matches (fst r) p) \<and> dropped rest p"
proof (induction rules)
  case (Cons r rules)
  then show ?case by (cases r) simp
qed simp

lemma dropped_drop:
  "\<forall>r \<in> set rules. snd r = JumpDrop \<Longrightarrow> dropped rules p \<longleftrightarrow> (\<exists>r \<in> set rules. matches (fst r) p)"
proof (induction rules)
  case (Cons r rules)
  then show ?case by (cases r) simp
qed simp

lemma fmt_u_uint: "fmt_u w = fmt_d (uint w)"
  by (simp add: fmt_u_def fmt_d_def not_less)

lemma makeUidRules_text:
  "makeUidRules fw target name isWhitelist uids =
     ''*filter'' @ newline @ '':'' @ name @ '' -'' @ newline
     @ concat (map (rule_text ''-A'' name) (uid_chain (mMaxUid fw) target isWhitelist uids))
     @ ''COMMIT'' @ newline"
  by (simp add: makeUidRules_def uid_chain_def rule_text_def match_text_def uid_rule_def makeCriticalCommands_def
      fmt_u_uint comp_def)

lemma owner_matches:
  "uid \<le> INT32_MAX \<Longrightarrow> matches (fst (uid_rule b uid)) p \<longleftrightarrow> pk_owner p = Some uid"
  by (auto simp: uid_rule_def matches_def sint_small word_uint_eq_iff split: option.splits)

lemma uid_rules_dropped:
  assumes "\<And>uid. uid \<in> set uids \<Longrightarrow> uid \<le> INT32_MAX"
  shows "dropped (map (uid_rule False) uids) p \<longleftrightarrow> (\<exists>u \<in> set uids. pk_owner p = Some u)"
    and "dropped (map (uid_rule True) uids @ rest) p \<longleftrightarrow> \<not> (\<exists>u \<in> set uids. pk_owner p = Some u) \<and> dropped rest p"
proof -
  have t: "snd (uid_rule False u) = JumpDrop" "snd (uid_rule True u) = JumpReturn" for u by (simp_all add: uid_rule_def)
  show "dropped (map (uid_rule False) uids) p \<longleftrightarrow> (\<exists>u \<in> set uids. pk_owner p = Some u)"
    using assms by (subst dropped_drop) (auto simp: t owner_matches)
  show "dropped (map (uid_rule True) uids @ rest) p \<longleftrightarrow> \<not> (\<exists>u \<in> set uids. pk_owner p = Some u) \<and> dropped rest p"
    using assms by (subst dropped_return) (auto simp: t owner_matches)
qed

lemma icmp_dropped:
  "dropped ((if target = V6 then map (\<lambda>t. (Icmpv6 t, JumpReturn)) ICMPV6_TYPES else []) @ [(Always, JumpDrop)]) p \<longleftrightarrow>
   \<not> (target = V6 \<and> pk_icmpv6 p \<in> Some ` set ICMPV6_TYPES)"
  by (subst dropped_return) (auto simp: matches_def)

lemma whitelist_dropped:
  assumes "\<And>uid. uid \<in> set uids \<Longrightarrow> uid \<le> INT32_MAX"
  shows "dropped (uid_chain maxUid target True uids) p \<longleftrightarrow>
    (\<exists>u. pk_owner p = Some u \<and> u \<notin> set uids \<and> 9999 < u \<and> u \<le> maxUid) \<and> \<not> pk_esp p \<and>
    pk_in p \<noteq> ''lo'' \<and> pk_out p \<noteq> ''lo'' \<and> \<not> pk_rst p \<and>
    \<not> (target = V6 \<and> pk_icmpv6 p \<in> Some ` set ICMPV6_TYPES)"
proof -
  define icmp where "icmp = (if target = V6 then map (\<lambda>t. (Icmpv6 t, JumpReturn)) ICMPV6_TYPES else []) @ [(Always, JumpDrop)]"
  have chain: "uid_chain maxUid target True uids = map (uid_rule True) uids @
      [(Owner 0 9999, JumpReturn), (NotOwner 0 (uint maxUid), JumpReturn), (Esp, JumpReturn),
       (FromLoopback, JumpReturn), (ToLoopback, JumpReturn), (TcpReset, JumpReturn)] @ icmp"
    by (simp add: uid_chain_def icmp_def)
  have m: "matches (Owner 0 9999) p \<longleftrightarrow> (\<exists>u. pk_owner p = Some u \<and> u \<le> 9999)"
    "matches (NotOwner 0 (uint maxUid)) p \<longleftrightarrow> \<not> (\<exists>u. pk_owner p = Some u \<and> u \<le> maxUid)"
    by (auto simp: matches_def word_le_def split: option.splits)
  have "dropped icmp p \<longleftrightarrow> \<not> (target = V6 \<and> pk_icmpv6 p \<in> Some ` set ICMPV6_TYPES)"
    unfolding icmp_def by (rule icmp_dropped)
  then show ?thesis
    unfolding chain by (simp add: uid_rules_dropped(2) [OF assms] m)
      (cases "pk_owner p"; auto simp: matches_def not_le)
qed

lemma blacklist_dropped:
  assumes "\<And>uid. uid \<in> set uids \<Longrightarrow> uid \<le> INT32_MAX"
  shows "dropped (uid_chain maxUid target False uids) p \<longleftrightarrow>
    (\<exists>u \<in> set uids. pk_owner p = Some u) \<and> pk_in p \<noteq> ''lo'' \<and> pk_out p \<noteq> ''lo'' \<and> \<not> pk_rst p"
  by (simp add: uid_chain_def uid_rules_dropped(1) [OF assms]) (auto simp: matches_def)

text \<open>
  Claim C34. The script that creates a UID chain writes rules that drop exactly the packets of the policy.
  A whitelist chain drops a packet of a known socket whose owner is an application UID that is not
  listed; a blacklist chain drops a packet whose socket is owned by a listed UID. Neither drops
  loopback traffic or TCP resets, and a whitelist chain drops neither ESP nor, for IPv6, the ICMPv6
  messages that IPv6 connectivity depends on.
\<close>

theorem uid_chain_policy:
  assumes "\<And>uid. uid \<in> set uids \<Longrightarrow> uid \<le> INT32_MAX"
  shows "makeUidRules fw target name isWhitelist uids =
      ''*filter'' @ newline @ '':'' @ name @ '' -'' @ newline
      @ concat (map (rule_text ''-A'' name) (uid_chain (mMaxUid fw) target isWhitelist uids))
      @ ''COMMIT'' @ newline \<and>
    (dropped (uid_chain (mMaxUid fw) target isWhitelist uids) p \<longleftrightarrow>
      pk_in p \<noteq> ''lo'' \<and> pk_out p \<noteq> ''lo'' \<and> \<not> pk_rst p \<and>
      (if isWhitelist then
         (\<exists>u. pk_owner p = Some u \<and> u \<notin> set uids \<and> 9999 < u \<and> u \<le> mMaxUid fw) \<and> \<not> pk_esp p \<and>
         \<not> (target = V6 \<and> pk_icmpv6 p \<in> Some ` set ICMPV6_TYPES)
       else \<exists>u \<in> set uids. pk_owner p = Some u))"
  using makeUidRules_text [of fw target name isWhitelist uids] whitelist_dropped [OF assms, of uids]
    blacklist_dropped [OF assms, of uids] by (cases isWhitelist) auto

theorem uid_chain_policy_witness:
  "dropped (uid_chain 0xfffffffe V4 True [10001])
     \<lparr>pk_owner = Some 10002, pk_esp = False, pk_in = [], pk_out = ''wlan0'', pk_rst = False, pk_icmpv6 = None\<rparr> \<and>
   \<not> dropped (uid_chain 0xfffffffe V4 True [10001])
     \<lparr>pk_owner = Some 10001, pk_esp = False, pk_in = [], pk_out = ''wlan0'', pk_rst = False, pk_icmpv6 = None\<rparr>"
  using uid_chain_policy [of "[10001]" "\<lparr>mMaxUid = 0xfffffffe, mFirewallType = BLACKLIST, mUseBpfOwnerMatch = False, mIfaceRules = []\<rparr>"
      V4 "''fw_dozable''" True]
  by simp


section \<open>Editing a chain\<close>

text \<open>
  What iptables does with one rule and an operation: insert at the head, append, or delete the first
  equal rule, which fails if there is none.
\<close>

definition chain_edit :: "string \<Rightarrow> chain_rule \<Rightarrow> chain_rule list \<Rightarrow> chain_rule list option" where
  "chain_edit opr r rules =
     (if opr = ''-I'' then Some (r # rules)
      else if opr = ''-A'' then Some (rules @ [r])
      else if r \<in> set rules then Some (remove1 r rules) else None)"

lemma sint_inject: "sint u = sint v \<longleftrightarrow> u = (v :: u32)"
proof
  assume "sint u = sint v"
  then show "u = v" using uint_sint [of u] uint_sint [of v] by (simp add: word_uint_eq_iff)
qed simp

lemma uid_rule_inject [simp]: "uid_rule b u = uid_rule b v \<longleftrightarrow> u = v"
  by (auto simp: uid_rule_def sint_inject)

lemma uid_rule_distinct [simp]:
  "uid_rule b u \<noteq> (FromLoopback, t)" "uid_rule b u \<noteq> (ToLoopback, t)" "uid_rule b u \<noteq> (TcpReset, t)"
  "uid_rule b u \<noteq> (Esp, t)" "uid_rule b u \<noteq> (Icmpv6 ty, t)" "uid_rule b u \<noteq> (Always, t)"
  "uid_rule b u \<noteq> (NotOwner x y, t)" "x \<noteq> y \<Longrightarrow> uid_rule b u \<noteq> (Owner x y, t)"
  by (auto simp: uid_rule_def)

lemma remove1_uid_rule: "remove1 (uid_rule b u) (map (uid_rule b) us) = map (uid_rule b) (remove1 u us)"
  by (induction us) auto

lemma uid_rule_in_chain: "uid_rule b u \<in> set (uid_chain maxUid target b us) \<longleftrightarrow> u \<in> set us"
  by (auto simp: uid_chain_def image_iff split: if_splits)

lemma remove1_chain:
  "u \<in> set us \<Longrightarrow> remove1 (uid_rule b u) (uid_chain maxUid target b us) = uid_chain maxUid target b (remove1 u us)"
proof (cases b)
  case True
  moreover assume "u \<in> set us"
  ultimately show ?thesis by (auto simp: uid_chain_def remove1_append remove1_uid_rule)
next
  case False
  then show ?thesis
    by (simp add: uid_chain_def remove1_uid_rule uid_rule_distinct [symmetric])
qed

lemma chain_edit_uid:
  "chain_edit (fst (uid_rule_op type rule)) (uid_rule (type = WHITELIST) uid) (uid_chain maxUid target (type = WHITELIST) uids) =
     (if type = WHITELIST \<and> rule = ALLOW then Some (uid_chain maxUid target True (uid # uids))
      else if type \<noteq> WHITELIST \<and> rule = DENY then Some (uid_chain maxUid target False (uids @ [uid]))
      else if uid \<in> set uids then Some (uid_chain maxUid target (type = WHITELIST) (remove1 uid uids)) else None)"
  by (auto simp: uid_rule_op_def chain_edit_def uid_rule_in_chain remove1_chain) (simp_all add: uid_chain_def)

text \<open>The script that \<open>setUidRule\<close> sends for one rule of a child chain.\<close>

definition uid_script :: "string \<Rightarrow> string \<Rightarrow> chain_rule \<Rightarrow> string" where
  "uid_script opr name r = ''*filter'' @ newline @ rule_text opr name r @ ''COMMIT'' @ newline"

lemma setUidRule_script:
  assumes "chain_name chain = Some name" "\<not> mUseBpfOwnerMatch fw"
  shows "setUidRule K T chain uid rule (fw, t, w) =
    (let script = uid_script (fst (uid_rule_op (getFirewallType fw chain) rule)) name (uid_rule (getFirewallType fw chain = WHITELIST) uid);
         res = iptables K (trace w) V4V6 script
     in (if res = 0 then 0 else - EREMOTEIO, fw, t, log_event (EvIptables V4V6 script res) w))"
proof -
  let ?type = "getFirewallType fw chain" and ?op = "uid_rule_op (getFirewallType fw chain) rule"
  have "chain \<noteq> INVALID_CHAIN" using assms(1) by (auto simp: chain_name_def)
  moreover have "rule_text (fst ?op) name (uid_rule (?type = WHITELIST) uid) =
      fst ?op @ '' '' @ name @ '' -m owner --uid-owner '' @ fmt_d (sint uid) @ '' -j '' @ snd ?op @ newline"
    by (simp add: rule_text_def uid_rule_def match_text_def uid_rule_op_def)
  ultimately show ?thesis
    using assms
    by (simp add: setUidRule_def uid_script_def remoteio_def on_iptables_def execIptablesRestore_def Let_def split_beta)
qed

lemma setUidRule_bpf:
  assumes "chain_name chain = Some name" "mUseBpfOwnerMatch fw"
  shows "setUidRule K T chain uid rule (fw, t, w) =
    (case changeUidOwnerRule T chain uid rule (getFirewallType fw chain) t of (r, t') \<Rightarrow> (r, fw, t', w))"
proof -
  have "chain \<noteq> INVALID_CHAIN" using assms(1) by (auto simp: chain_name_def)
  then show ?thesis using assms by (simp add: setUidRule_def on_traffic_def Let_def split_beta)
qed

section \<open>Both implementations agree\<close>

text \<open>The UIDs listed after a change.\<close>

definition uids_after :: "bool \<Rightarrow> bool \<Rightarrow> u32 \<Rightarrow> u32 list \<Rightarrow> u32 list" where
  "uids_after wl adds uid uids = (if adds then (if wl then uid # uids else uids @ [uid]) else remove1 uid uids)"

lemma chain_edit_after:
  assumes "chain_match chain = Some match" "rule \<noteq> UnknownRule"
    and "adds_match rule (getFirewallType fw chain) \<or> uid \<in> set uids"
  shows "chain_edit (fst (uid_rule_op (getFirewallType fw chain) rule)) (uid_rule (getFirewallType fw chain = WHITELIST) uid)
      (uid_chain maxUid target (getFirewallType fw chain = WHITELIST) uids) =
    Some (uid_chain maxUid target (getFirewallType fw chain = WHITELIST)
      (uids_after (getFirewallType fw chain = WHITELIST) (adds_match rule (getFirewallType fw chain)) uid uids))"
proof -
  have "getFirewallType fw chain = WHITELIST \<or> getFirewallType fw chain = BLACKLIST"
    using assms(1) by (auto simp: chain_match_def getFirewallType_def split: ChildChain.splits)
  then show ?thesis
    using assms(2,3) unfolding chain_edit_uid by (cases rule) (auto simp: adds_match_def uids_after_def)
qed

lemma changeUidOwnerRule_after:
  assumes hash: "bpf_hash (b_owner T)" and bpf: "ebpfSupported t"
    and chain: "chain_match chain = Some match" and rule: "rule \<noteq> UnknownRule"
    and uids: "distinct uids" "set uids = flagged_uids match (mUidOwnerMap t)"
    and known: "adds_match rule (getFirewallType fw chain) \<or> uid \<in> set uids"
    and run: "changeUidOwnerRule T chain uid rule (getFirewallType fw chain) t = (r, t')"
  shows "(r = 0 \<longrightarrow> flagged_uids match (mUidOwnerMap t') =
        (if adds_match rule (getFirewallType fw chain) then insert uid (set uids) else set uids - {uid})) \<and>
    (bpf_reliable (b_owner T) \<longrightarrow> r = 0)"
proof (cases "adds_match rule (getFirewallType fw chain)")
  case True
  have match: "match \<noteq> 0" using chain by (rule chain_match_nonzero)
  have "on_owner (addMatch (b_owner T) match uid) t = (- r, t')"
    using run bpf chain True by (auto simp: changeUidOwnerRule_def updateOwnerMapEntry_def adds_match_def split: if_splits)
  then obtain m' where "addMatch (b_owner T) match uid (mUidOwnerMap t) = (- r, m')" "mUidOwnerMap t' = m'"
    by (rule on_owner_cases) simp
  then show ?thesis
    using True uids(2) hash match owner_map.add_flag [of "b_owner T" match uid "mUidOwnerMap t" m']
      addMatch_reliable [of "b_owner T" match uid "mUidOwnerMap t"] by auto
next
  case False
  have match: "match \<noteq> 0" using chain by (rule chain_match_nonzero)
  have "getFirewallType fw chain = WHITELIST \<or> getFirewallType fw chain = BLACKLIST"
    using chain by (auto simp: chain_match_def getFirewallType_def split: ChildChain.splits)
  then have "on_owner (removeMatch (b_owner T) match uid) t = (- r, t')"
    using run bpf chain False rule
    by (cases rule) (auto simp: changeUidOwnerRule_def updateOwnerMapEntry_def adds_match_def split: if_splits)
  then obtain m' where m': "removeMatch (b_owner T) match uid (mUidOwnerMap t) = (- r, m')" "mUidOwnerMap t' = m'"
    by (rule on_owner_cases) simp
  have "contents (mUidOwnerMap t) uid \<noteq> None"
    using known False uids(2) match by (auto simp: flagged_uids_def owner_bits_def split: option.splits)
  then show ?thesis
    using False uids hash match m' owner_map.rm_flag [of "b_owner T" match uid "mUidOwnerMap t" m']
      removeMatch_reliable [OF hash, of "mUidOwnerMap t" uid match] by auto
qed

text \<open>
  Claim C8. The two implementations of \<open>setUidRule\<close> on a child chain filter the same UIDs. Suppose the
  iptables chain holds the rules of distinct UIDs that are exactly the flagged UIDs of the owner map, and
  a change that adds a rule does not repeat one. Run \<open>setUidRule\<close> with the same arguments in both modes,
  and let the run without BPF succeed, where iptables-restore refuses to delete a rule that is not there
  (\<open>refuses\<close>). Then that run sent one script with one rule, which edits the IPv4 and the IPv6 chain alike
  into the chain of another list of distinct UIDs; and if the run with BPF succeeds too, these are exactly
  the UIDs flagged in its owner map. If the calls on the map fail only for missing keys, it does succeed.
\<close>

theorem firewall_modes_agree:
  assumes hash: "bpf_hash (b_owner T)" and bpf: "ebpfSupported t"
    and chain: "chain_name chain = Some name" "chain_match chain = Some match" and rule: "rule \<noteq> UnknownRule"
    and uids: "distinct uids" "set uids = flagged_uids match (mUidOwnerMap t)"
    and fresh: "adds_match rule (getFirewallType fw chain) \<Longrightarrow> uid \<notin> set uids"
    and refuses: "\<And>rl. iptables K (trace w) V4V6 (uid_script ''-D'' name rl) = 0 \<Longrightarrow>
      rl \<in> set (uid_chain (mMaxUid fw) V4 (getFirewallType fw chain = WHITELIST) uids)"
    and mode: "\<not> mUseBpfOwnerMatch fw"
    and run_iptables: "setUidRule K T chain uid rule (fw, t1, w) = (0, s1)"
    and run_bpf: "setUidRule K T chain uid rule (fw\<lparr>mUseBpfOwnerMatch := True\<rparr>, t, w2) = (r, fw', t', w2')"
  shows "\<exists>opr rl uids'. s1 = (fw, t1, log_event (EvIptables V4V6 (uid_script opr name rl) 0) w) \<and>
    (\<forall>target. chain_edit opr rl (uid_chain (mMaxUid fw) target (getFirewallType fw chain = WHITELIST) uids) =
       Some (uid_chain (mMaxUid fw) target (getFirewallType fw chain = WHITELIST) uids')) \<and>
    distinct uids' \<and> (r = 0 \<longrightarrow> set uids' = flagged_uids match (mUidOwnerMap t')) \<and>
    (bpf_reliable (b_owner T) \<longrightarrow> r = 0)"
proof -
  let ?type = "getFirewallType fw chain" and ?adds = "adds_match rule (getFirewallType fw chain)"
  let ?opr = "fst (uid_rule_op ?type rule)" and ?rl = "uid_rule (?type = WHITELIST) uid"
  have sent: "iptables K (trace w) V4V6 (uid_script ?opr name ?rl) = 0"
    "s1 = (fw, t1, log_event (EvIptables V4V6 (uid_script ?opr name ?rl) 0) w)"
    using run_iptables unfolding setUidRule_script [OF chain(1) mode] by (auto simp: Let_def split: if_splits)
  have known: "?adds \<or> uid \<in> set uids"
  proof (cases ?adds)
    case False
    moreover have "?type = WHITELIST \<or> ?type = BLACKLIST"
      using chain(2) by (auto simp: chain_match_def getFirewallType_def split: ChildChain.splits)
    ultimately have "?opr = ''-D''" using rule by (cases rule) (auto simp: adds_match_def uid_rule_op_def)
    then show ?thesis using refuses [of ?rl] sent(1) by (simp add: uid_rule_in_chain)
  qed simp
  have "getFirewallType (fw\<lparr>mUseBpfOwnerMatch := True\<rparr>) chain = ?type"
    by (simp add: getFirewallType_def split: ChildChain.splits)
  then have "changeUidOwnerRule T chain uid rule ?type t = (r, t')"
    using run_bpf setUidRule_bpf [OF chain(1), of "fw\<lparr>mUseBpfOwnerMatch := True\<rparr>"] by (auto split: prod.splits)
  note after = changeUidOwnerRule_after [OF hash bpf chain(2) rule uids known this]
  let ?uids' = "uids_after (?type = WHITELIST) ?adds uid uids"
  have "distinct ?uids'" "set ?uids' = (if ?adds then insert uid (set uids) else set uids - {uid})"
    using uids(1) fresh known by (auto simp: uids_after_def set_remove1_eq)
  then show ?thesis
    using sent(2) after chain_edit_after [OF chain(2) rule known] by metis
qed

text \<open>A kernel that refuses every deletion.\<close>

definition kern_keeps :: kern where
  "kern_keeps = kern_acks\<lparr>iptables := \<lambda>h t cmd. if take 10 cmd = ''*filter'' @ newline @ ''-D'' then 1 else 0\<rparr>"

theorem firewall_modes_agree_witness:
  "\<exists>s1 fw' t' w2' uids'. setUidRule kern_keeps demo_tenv STANDBY 10002 DENY
       (\<lparr>mMaxUid = 0xfffffffe, mFirewallType = BLACKLIST, mUseBpfOwnerMatch = False, mIfaceRules = []\<rparr>, demo_traffic,
        \<lparr>trace = [], nl_fds = 0, sInterfaceToTable = []\<rparr>) = (0, s1) \<and>
     setUidRule kern_keeps demo_tenv STANDBY 10002 DENY
       (\<lparr>mMaxUid = 0xfffffffe, mFirewallType = BLACKLIST, mUseBpfOwnerMatch = True, mIfaceRules = []\<rparr>, demo_traffic,
        \<lparr>trace = [], nl_fds = 0, sInterfaceToTable = []\<rparr>) = (0, fw', t', w2') \<and>
     distinct uids' \<and> set uids' = flagged_uids STANDBY_MATCH (mUidOwnerMap t')"
proof -
  let ?fw = "\<lparr>mMaxUid = 0xfffffffe, mFirewallType = BLACKLIST, mUseBpfOwnerMatch = False, mIfaceRules = []\<rparr>"
  let ?w = "\<lparr>trace = [], nl_fds = 0, sInterfaceToTable = []\<rparr>"
  have type: "getFirewallType ?fw STANDBY = BLACKLIST" by (simp add: getFirewallType_def)
  have name: "chain_name STANDBY = Some ''fw_standby''" by (simp add: chain_name_def)
  have B: "bpf_hash (b_owner demo_tenv)" "bpf_reliable (b_owner demo_tenv)"
    by (simp_all add: demo_tenv_def plain_hash_ok plain_hash_reliable)
  have M: "ebpfSupported demo_traffic" "chain_match STANDBY = Some STANDBY_MATCH"
    "set [10001] = flagged_uids STANDBY_MATCH (mUidOwnerMap demo_traffic)"
    by (auto simp: demo_traffic_def chain_match_def flagged_uids_def demo_bits match_defs)
      (auto simp: owner_bits_def contents_def split: if_splits)
  have D: "iptables kern_keeps h V4V6 (uid_script ''-D'' n rl) = 1" for h n rl
    by (simp add: kern_keeps_def uid_script_def rule_text_def)
  obtain s1 where run1: "setUidRule kern_keeps demo_tenv STANDBY 10002 DENY (?fw, demo_traffic, ?w) = (0, s1)"
    by (simp add: setUidRule_script [OF name] type uid_rule_op_def kern_keeps_def uid_script_def rule_text_def)
  obtain r fw' t' w2' where run2: "setUidRule kern_keeps demo_tenv STANDBY 10002 DENY
      (?fw\<lparr>mUseBpfOwnerMatch := True\<rparr>, demo_traffic, ?w) = (r, fw', t', w2')"
    by (metis prod_cases4)
  show ?thesis
    using firewall_modes_agree [OF B(1) M(1) name M(2) _ _ M(3) _ _ _ run1 run2] B(2) run1 run2
    by (auto simp: D type)
qed

text \<open>
  A rule that is repeated makes the two differ: iptables holds it twice and one removal leaves the
  other, so the UID is still an exception to the chain, while one removal clears the owner map's bit.
\<close>

lemma repeated_rule_survives:
  "chain_edit ''-D'' (uid_rule True u) (uid_chain maxUid target True (u # u # us)) = Some (uid_chain maxUid target True (u # us))"
  using chain_edit_uid [of WHITELIST DENY u maxUid target "u # u # us"] by (simp add: uid_rule_op_def)

end
