(* ===== verification/Network_Stats.thy ===== *)
theory Network_Stats
  imports Traffic_Controller
begin

unbundle bit_operations_syntax

text \<open>
  libnetdbpf/BpfNetworkStats.cpp: reading the statistics that the kernel's filters keep in BPF maps,
  and grouping them for the framework. Counters are 64-bit words; those of a line are \<open>int64_t\<close> in the
  code, which has the same bits while the sums stay below the largest \<open>int64_t\<close>. \<open>std::sort\<close> may put lines that
  compare equal in any order, so it is a parameter; the vector is updated in place as in the code, and
  \<open>None\<close> is an exception of \<open>at\<close> or an access outside an array.
\<close>

section \<open>Lines\<close>

record stats_line =
  iface :: string
  l_uid :: u32
  l_set :: u32
  l_tag :: u32
  rxBytes :: u64
  rxPackets :: u64
  txBytes :: u64
  txPackets :: u64

type_synonym line_key = "string \<times> u32 \<times> u32 \<times> u32"

definition line_key :: "stats_line \<Rightarrow> line_key" where
  "line_key l = (iface l, l_uid l, l_tag l, l_set l)"

definition line_eq :: "stats_line \<Rightarrow> stats_line \<Rightarrow> bool" where
  "line_eq lhs rhs \<longleftrightarrow> l_uid lhs = l_uid rhs \<and> l_tag lhs = l_tag rhs \<and> l_set lhs = l_set rhs \<and> iface lhs = iface rhs"

definition line_less :: "stats_line \<Rightarrow> stats_line \<Rightarrow> bool" where
  "line_less lhs rhs \<longleftrightarrow>
     (if iface lhs \<noteq> iface rhs then iface lhs < iface rhs
      else if l_uid lhs < l_uid rhs then True
      else if l_uid lhs > l_uid rhs then False
      else if l_tag lhs < l_tag rhs then True
      else if l_tag lhs > l_tag rhs then False
      else if l_set lhs < l_set rhs then True
      else False)"

definition line_add :: "stats_line \<Rightarrow> stats_line \<Rightarrow> stats_line" where
  "line_add l rhs = l\<lparr>rxPackets := rxPackets l + rxPackets rhs, txPackets := txPackets l + txPackets rhs,
     rxBytes := rxBytes l + rxBytes rhs, txBytes := txBytes l + txBytes rhs\<rparr>"

definition populateStatsEntry :: "stats_key \<Rightarrow> stats_value \<Rightarrow> string \<Rightarrow> stats_line" where
  "populateStatsEntry statsKey statsEntry ifname =
     \<lparr>iface = take 31 ifname, l_uid = sk_uid statsKey, l_set = sk_counterSet statsKey, l_tag = sk_tag statsKey,
      rxBytes = sv_rxBytes statsEntry, rxPackets = sv_rxPackets statsEntry,
      txBytes = sv_txBytes statsEntry, txPackets = sv_txPackets statsEntry\<rparr>"

definition combineUidTag :: "uid_t \<Rightarrow> u32 \<Rightarrow> u64" where
  "combineUidTag uid tag = push_bit 32 (ucast uid) OR ucast tag"

section \<open>Grouping\<close>

definition at :: "'a list \<Rightarrow> nat \<Rightarrow> 'a option" where
  "at xs i = (if i < length xs then Some (xs ! i) else None)"

function group_loop :: "nat \<Rightarrow> nat \<Rightarrow> stats_line list \<Rightarrow> (nat \<times> stats_line list) option" where
  "group_loop i nextOutput ls =
     (if i < length ls then
        (case (at ls nextOutput, at ls i) of
           (Some out, Some l) \<Rightarrow>
             if line_eq out l then group_loop (i + 1) nextOutput (ls[nextOutput := line_add out l])
             else if nextOutput + 1 \<noteq> i then
               (if nextOutput + 1 < length ls then group_loop (i + 1) (nextOutput + 1) (ls[nextOutput + 1 := l]) else None)
             else group_loop (i + 1) (nextOutput + 1) ls
         | _ \<Rightarrow> None)
      else Some (nextOutput, ls))"
  by pat_completeness auto
termination
  by (relation "measure (\<lambda>(i, n, ls). length ls - i)") auto

declare group_loop.simps [simp del]

definition groupNetworkStats :: "(stats_line list \<Rightarrow> stats_line list) \<Rightarrow> stats_line list \<Rightarrow> stats_line list option" where
  "groupNetworkStats std_sort ls =
     (if length ls \<le> 1 then Some ls
      else map_option (\<lambda>(nextOutput, ls'). take (nextOutput + 1) ls') (group_loop 1 0 (std_sort ls)))"

section \<open>Reading the maps\<close>

abbreviation (input) UID_ALL :: int where "UID_ALL \<equiv> -1"
abbreviation (input) TAG_ALL :: int where "TAG_ALL \<equiv> -1"
abbreviation (input) MAX_UNKNOWN_IFACE_BYTES :: "64 word" where "MAX_UNKNOWN_IFACE_BYTES \<equiv> 100000"

text \<open>The running total of \<open>maybeLogUnknownIface\<close>, -1 once the error has been logged.\<close>

definition maybeLogUnknownIface :: "('k, stats_value) bpf_kern \<Rightarrow> ('k, stats_value) bpf_map \<Rightarrow> 'k \<Rightarrow> u64 \<Rightarrow> u64" where
  "maybeLogUnknownIface B statsMap curKey unknown =
     (if unknown = -1 then unknown
      else case readValue B curKey statsMap of
          Inl _ \<Rightarrow> unknown
        | Inr v \<Rightarrow>
            let unknown' = unknown + (sv_rxBytes v + sv_txBytes v)
            in if sint unknown' \<ge> sint MAX_UNKNOWN_IFACE_BYTES then -1 else unknown')"

definition getIfaceNameFromMap ::
  "(u32, string) bpf_kern \<Rightarrow> (u32, string) bpf_map \<Rightarrow> ('k, stats_value) bpf_kern \<Rightarrow> ('k, stats_value) bpf_map \<Rightarrow>
   u32 \<Rightarrow> 'k \<Rightarrow> u64 \<Rightarrow> string option \<times> u64" where
  "getIfaceNameFromMap I ifaceMap B statsMap ifaceIndex curKey unknown =
     (case readValue I ifaceIndex ifaceMap of
        Inl _ \<Rightarrow> (None, maybeLogUnknownIface B statsMap curKey unknown)
      | Inr name \<Rightarrow> (Some (take 15 name), unknown))"

definition processDetailUidStats ::
  "(u32, string) bpf_kern \<Rightarrow> (u32, string) bpf_map \<Rightarrow> (stats_key, stats_value) bpf_kern \<Rightarrow> (stats_key, stats_value) bpf_map \<Rightarrow>
   string list \<Rightarrow> int \<Rightarrow> int \<Rightarrow> stats_key \<Rightarrow> stats_value \<Rightarrow> (stats_line list \<times> u64) act" where
  "processDetailUidStats I ifaceMap B statsMap limitIfaces limitTag limitUid key _ s =
     (case s of (ls, unknown) \<Rightarrow>
      case getIfaceNameFromMap I ifaceMap B statsMap (sk_ifaceIndex key) key unknown of
        (None, unknown') \<Rightarrow> (0, ls, unknown')
      | (Some ifname, unknown') \<Rightarrow>
          if limitIfaces \<noteq> [] \<and> ifname \<notin> set limitIfaces then (0, ls, unknown')
          else if limitTag \<noteq> TAG_ALL \<and> of_int limitTag \<noteq> sk_tag key then (0, ls, unknown')
          else if limitUid \<noteq> UID_ALL \<and> of_int limitUid \<noteq> sk_uid key then (0, ls, unknown')
          else (case readValue B key statsMap of
              Inl e \<Rightarrow> (e, ls, unknown')
            | Inr v \<Rightarrow> (0, ls @ [populateStatsEntry key v ifname], unknown')))"

definition parseBpfNetworkStatsDetailInternal ::
  "(stats_line list \<Rightarrow> stats_line list) \<Rightarrow> (u32, string) bpf_kern \<Rightarrow> (u32, string) bpf_map \<Rightarrow>
   (stats_key, stats_value) bpf_kern \<Rightarrow> (stats_key, stats_value) bpf_map \<Rightarrow>
   string list \<Rightarrow> int \<Rightarrow> int \<Rightarrow> stats_line list \<Rightarrow> (int \<times> stats_line list) option" where
  "parseBpfNetworkStatsDetailInternal std_sort I ifaceMap B statsMap limitIfaces limitTag limitUid ls =
     (case iterateMap B (processDetailUidStats I ifaceMap B statsMap limitIfaces limitTag limitUid) statsMap (ls, 0) of
        (res, ls', _) \<Rightarrow>
          if res \<noteq> 0 then Some (- res, ls')
          else map_option (\<lambda>g. (0, g)) (groupNetworkStats std_sort ls'))"

definition processDetailIfaceStats ::
  "(u32, string) bpf_kern \<Rightarrow> (u32, string) bpf_map \<Rightarrow> (u32, stats_value) bpf_kern \<Rightarrow> (u32, stats_value) bpf_map \<Rightarrow>
   u32 \<Rightarrow> stats_value \<Rightarrow> (stats_line list \<times> u64) act" where
  "processDetailIfaceStats I ifaceMap B statsMap key v s =
     (case s of (ls, unknown) \<Rightarrow>
      case getIfaceNameFromMap I ifaceMap B statsMap key key unknown of
        (None, unknown') \<Rightarrow> (0, ls, unknown')
      | (Some ifname, unknown') \<Rightarrow> (0, ls @ [populateStatsEntry (StatsKey (-1) 0 (-1) 0) v ifname], unknown'))"

definition parseBpfNetworkStatsDevInternal ::
  "(stats_line list \<Rightarrow> stats_line list) \<Rightarrow> (u32, string) bpf_kern \<Rightarrow> (u32, string) bpf_map \<Rightarrow>
   (u32, stats_value) bpf_kern \<Rightarrow> (u32, stats_value) bpf_map \<Rightarrow> stats_line list \<Rightarrow> (int \<times> stats_line list) option" where
  "parseBpfNetworkStatsDevInternal std_sort I ifaceMap B statsMap ls =
     (case iterateMap B (processDetailIfaceStats I ifaceMap B statsMap) statsMap (ls, 0) of
        (res, ls', _) \<Rightarrow>
          if res \<noteq> 0 then Some (- res, ls')
          else map_option (\<lambda>g. (0, g)) (groupNetworkStats std_sort ls'))"

record stats_total =
  t_rxPackets :: u64
  t_txPackets :: u64
  t_rxBytes :: u64
  t_txBytes :: u64

definition bpfGetUidStatsInternal :: "(u32, stats_value) bpf_kern \<Rightarrow> (u32, stats_value) bpf_map \<Rightarrow> uid_t \<Rightarrow> stats_total act" where
  "bpfGetUidStatsInternal B appUidStatsMap uid stats =
     (case readValue B uid appUidStatsMap of
        Inl e \<Rightarrow> (- e, stats)
      | Inr v \<Rightarrow> (0, \<lparr>t_rxPackets = sv_rxPackets v, t_txPackets = sv_txPackets v,
                    t_rxBytes = sv_rxBytes v, t_txBytes = sv_txBytes v\<rparr>))"

definition processIfaceStats ::
  "(u32, string) bpf_kern \<Rightarrow> (u32, string) bpf_map \<Rightarrow> (u32, stats_value) bpf_kern \<Rightarrow> (u32, stats_value) bpf_map \<Rightarrow>
   string option \<Rightarrow> u32 \<Rightarrow> stats_value \<Rightarrow> (stats_total \<times> u64) act" where
  "processIfaceStats I ifaceNameMap B statsMap ifc key _ s =
     (case s of (stats, unknown) \<Rightarrow>
      case getIfaceNameFromMap I ifaceNameMap B statsMap key key unknown of
        (None, unknown') \<Rightarrow> (0, stats, unknown')
      | (Some ifname, unknown') \<Rightarrow>
          if ifc = None \<or> ifc = Some ifname then
            (case readValue B key statsMap of
               Inl e \<Rightarrow> (e, stats, unknown')
             | Inr v \<Rightarrow> (0, stats\<lparr>t_rxPackets := t_rxPackets stats + sv_rxPackets v,
                 t_txPackets := t_txPackets stats + sv_txPackets v, t_rxBytes := t_rxBytes stats + sv_rxBytes v,
                 t_txBytes := t_txBytes stats + sv_txBytes v\<rparr>, unknown'))
          else (0, stats, unknown'))"

definition bpfGetIfaceStatsInternal ::
  "(u32, string) bpf_kern \<Rightarrow> (u32, string) bpf_map \<Rightarrow> (u32, stats_value) bpf_kern \<Rightarrow> (u32, stats_value) bpf_map \<Rightarrow>
   string option \<Rightarrow> stats_total act" where
  "bpfGetIfaceStatsInternal I ifaceNameMap B statsMap ifc stats =
     (case iterateMap B (processIfaceStats I ifaceNameMap B statsMap ifc) statsMap (stats, 0) of
        (res, stats', _) \<Rightarrow> (- res, stats'))"

text \<open>
  The public entry point, on the maps of the traffic controller. \<open>map_fd\<close> is \<open>errno\<close> if a map cannot be
  opened, and \<open>rcu\<close> the answer of \<open>synchronizeKernelRCU\<close>.
\<close>

definition stats_map :: "u8 \<Rightarrow> traffic \<Rightarrow> (stats_key, stats_value) bpf_map" where
  "stats_map sel t = (if sel = SELECT_MAP_A then mStatsMapA t else mStatsMapB t)"

definition stats_kern :: "u8 \<Rightarrow> traffic_env \<Rightarrow> (stats_key, stats_value) bpf_kern" where
  "stats_kern sel T = (if sel = SELECT_MAP_A then b_statsA T else b_statsB T)"

definition on_stats :: "u8 \<Rightarrow> (stats_key, stats_value) bpf_map act \<Rightarrow> traffic act" where
  "on_stats sel f = (if sel = SELECT_MAP_A then on_statsA f else on_statsB f)"

definition STATS_MAP_PATH :: "string list" where
  "STATS_MAP_PATH = [''/sys/fs/bpf/map_netd_stats_map_A'', ''/sys/fs/bpf/map_netd_stats_map_B'']"

definition parseBpfNetworkStatsDetail ::
  "(stats_line list \<Rightarrow> stats_line list) \<Rightarrow> traffic_env \<Rightarrow> (string \<Rightarrow> int) \<Rightarrow> int \<Rightarrow> string list \<Rightarrow> int \<Rightarrow> int \<Rightarrow>
   stats_line list \<times> traffic \<Rightarrow> (int \<times> stats_line list \<times> traffic) option" where
  "parseBpfNetworkStatsDetail std_sort T map_fd rcu limitIfaces limitTag limitUid s =
     (case s of (ls, t) \<Rightarrow>
      if map_fd ''/sys/fs/bpf/map_netd_iface_index_name_map'' \<noteq> 0
      then Some (- map_fd ''/sys/fs/bpf/map_netd_iface_index_name_map'', ls, t)
      else if map_fd ''/sys/fs/bpf/map_netd_configuration_map'' \<noteq> 0
      then Some (- map_fd ''/sys/fs/bpf/map_netd_configuration_map'', ls, t)
      else case readValue (b_config T) CURRENT_STATS_MAP_CONFIGURATION_KEY (mConfigurationMap t) of
          Inl e \<Rightarrow> Some (- e, ls, t)
        | Inr configuration \<Rightarrow>
            (case at STATS_MAP_PATH (unat configuration) of
               None \<Rightarrow> None
             | Some statsMapPath \<Rightarrow>
                 if map_fd statsMapPath \<noteq> 0 then Some (- map_fd statsMapPath, ls, t)
                 else
                   (case on_config (writeValue (b_config T) CURRENT_STATS_MAP_CONFIGURATION_KEY
                          (if configuration = SELECT_MAP_A then SELECT_MAP_B else SELECT_MAP_A) BPF_EXIST) t of
                      (res, t1) \<Rightarrow>
                        if res \<noteq> 0 then Some (- res, ls, t1)
                        else if rcu \<noteq> 0 then Some (rcu, ls, t1)
                        else (case parseBpfNetworkStatsDetailInternal std_sort (b_iface T) (mIfaceIndexNameMap t1)
                                 (stats_kern configuration T) (stats_map configuration t1) limitIfaces limitTag limitUid ls of
                            None \<Rightarrow> None
                          | Some (rc, ls') \<Rightarrow>
                              if rc \<noteq> 0 then Some (rc, ls', t1)
                              else (case on_stats configuration (clearMap (stats_kern configuration T)) t1 of
                                  (res, t2) \<Rightarrow> Some (- res, ls', t2))))))"

end
