(* ===== verification/Stats_Properties.thy ===== *)
theory Stats_Properties
  imports Network_Stats Traffic_Properties
begin

unbundle bit_operations_syntax

text \<open>
  Correctness of libnetdbpf/BpfNetworkStats.cpp. The reference for grouping is \<open>totals\<close>: one line per
  key, in ascending order of the keys, with the sums of the counters. The in-place loop computes it for
  every result that \<open>std::sort\<close> may give.
\<close>

section \<open>Grouping\<close>

definition line_of :: "line_key \<Rightarrow> stats_line list \<Rightarrow> stats_line" where
  "line_of k ls = (case k of (i, u, t, st) \<Rightarrow>
     \<lparr>iface = i, l_uid = u, l_set = st, l_tag = t, rxBytes = sum_list (map rxBytes ls), rxPackets = sum_list (map rxPackets ls),
      txBytes = sum_list (map txBytes ls), txPackets = sum_list (map txPackets ls)\<rparr>)"

definition total_line :: "stats_line list \<Rightarrow> line_key \<Rightarrow> stats_line" where
  "total_line ls k = line_of k (filter (\<lambda>l. line_key l = k) ls)"

definition totals :: "stats_line list \<Rightarrow> stats_line list" where
  "totals ls = map (total_line ls) (sorted_list_of_set (line_key ` set ls))"

definition sorts :: "(stats_line list \<Rightarrow> stats_line list) \<Rightarrow> bool" where
  "sorts f \<longleftrightarrow> (\<forall>ls. mset (f ls) = mset ls \<and> sorted_wrt (\<lambda>a b. \<not> line_less b a) (f ls))"

lemma line_eq_key: "line_eq a b \<longleftrightarrow> line_key a = line_key b"
  by (auto simp: line_eq_def line_key_def)

lemma line_less_key: "line_less a b \<longleftrightarrow> line_key a < line_key b"
  by (auto simp: line_less_def line_key_def less_prod_def)

lemma line_key_add [simp]: "line_key (line_add a b) = line_key a"
  by (simp add: line_key_def line_add_def)

fun merge_adj :: "stats_line list \<Rightarrow> stats_line list" where
  "merge_adj (x # y # r) = (if line_eq x y then merge_adj (line_add x y # r) else x # merge_adj (y # r))"
| "merge_adj xs = xs"

lemma group_loop_merge:
  "n < i \<Longrightarrow> i \<le> length ls \<Longrightarrow>
   \<exists>n' ls'. group_loop i n ls = Some (n', ls') \<and> take (n' + 1) ls' = take n ls @ merge_adj (ls ! n # drop i ls)"
proof (induction "length ls - i" arbitrary: i n ls)
  case 0
  then show ?case by (subst group_loop.simps) (simp add: take_Suc_conv_app_nth)
next
  case (Suc d)
  then have i: "i < length ls" and n: "n < i" by simp_all
  then have at: "at ls n = Some (ls ! n)" "at ls i = Some (ls ! i)" by (simp_all add: at_def)
  have drop: "drop i ls = ls ! i # drop (i + 1) ls" using i by (simp add: Cons_nth_drop_Suc)
  show ?case
  proof (cases "line_eq (ls ! n) (ls ! i)")
    case eq: True
    let ?ls = "ls[n := line_add (ls ! n) (ls ! i)]"
    have "group_loop i n ls = group_loop (i + 1) n ?ls" using i at eq by (subst group_loop.simps) simp
    then show ?thesis using Suc.hyps(1) [of ?ls "i + 1" n] Suc.hyps(2) i n eq drop by simp
  next
    case ne: False
    define ls1 where "ls1 = (if n + 1 \<noteq> i then ls[n + 1 := ls ! i] else ls)"
    have step: "group_loop i n ls = group_loop (i + 1) (n + 1) ls1"
      using i n at ne by (subst group_loop.simps) (simp add: ls1_def)
    have "take (n + 1) ls1 = take n ls @ [ls ! n]" "ls1 ! (n + 1) = ls ! i" "drop (i + 1) ls1 = drop (i + 1) ls"
      "length ls1 = length ls"
      using i n by (auto simp: take_Suc_conv_app_nth ls1_def)
    then show ?thesis
      unfolding step using Suc.hyps(1) [of ls1 "i + 1" "n + 1"] Suc.hyps(2) i n ne drop by simp
  qed
qed

text \<open>Merging adjacent lines of a sorted list gives the totals.\<close>

lemma total_line_cong: "mset ls = mset ls' \<Longrightarrow> total_line ls k = total_line ls' k"
proof -
  assume eq: "mset ls = mset ls'"
  have "sum_list (map f (filter P ls)) = sum_list (map f (filter P ls'))" for f :: "stats_line \<Rightarrow> u64" and P
    using eq by (metis mset_filter mset_map sum_mset_sum_list)
  then show ?thesis by (simp add: total_line_def line_of_def split: prod.splits)
qed

lemma total_line_merge: "line_key x = line_key y \<Longrightarrow> total_line (line_add x y # r) = total_line (x # y # r)"
  by (auto simp: fun_eq_iff total_line_def line_of_def line_add_def line_key_def add.assoc split: prod.splits)

lemma total_line_skip: "line_key x \<noteq> k \<Longrightarrow> total_line (x # r) k = total_line r k"
  by (simp add: total_line_def)

lemma total_line_single: "\<forall>y \<in> set r. line_key y \<noteq> line_key x \<Longrightarrow> total_line (x # r) (line_key x) = x"
proof -
  assume "\<forall>y \<in> set r. line_key y \<noteq> line_key x"
  then have "filter (\<lambda>l. line_key l = line_key x) (x # r) = [x]" by (simp add: filter_empty_conv)
  then show ?thesis unfolding total_line_def by (simp add: line_of_def line_key_def)
qed

lemma merge_adj_totals:
  "sorted (map line_key xs) \<Longrightarrow> merge_adj xs = map (total_line xs) (remdups_adj (map line_key xs))"
proof (induction xs rule: merge_adj.induct)
  case (1 x y r)
  show ?case
  proof (cases "line_eq x y")
    case True
    then have "line_key x = line_key y" by (simp add: line_eq_key)
    then show ?thesis using 1 True total_line_merge by simp
  next
    case False
    then have less: "line_key x < line_key y" "\<forall>z \<in> set r. line_key y \<le> line_key z"
      using 1(3) by (auto simp: line_eq_key)
    then have "\<forall>z \<in> set (y # r). line_key z \<noteq> line_key x" by auto
    moreover from this have "map (total_line (x # y # r)) (remdups_adj (map line_key (y # r))) =
        map (total_line (y # r)) (remdups_adj (map line_key (y # r)))"
      by (intro map_cong refl total_line_skip) (auto simp: image_iff)
    ultimately show ?thesis using 1 False less total_line_single [of "y # r" x] by (simp add: line_eq_key)
  qed
qed (simp_all add: total_line_single)

lemma remdups_adj_strict: "sorted ks \<Longrightarrow> sorted_wrt (<) (remdups_adj ks)"
  by (induction ks rule: remdups_adj.induct) (auto simp: less_le)

lemma remdups_adj_sorted: "sorted ks \<Longrightarrow> remdups_adj ks = sorted_list_of_set (set ks)"
  using sorted_list_of_set.idem_if_sorted_distinct [of "remdups_adj ks"] remdups_adj_strict [of ks]
  by (simp add: strict_sorted_iff)

lemma sorts_keys: "sorts f \<Longrightarrow> sorted (map line_key (f ls))"
  unfolding sorts_def line_less_key by (simp add: sorted_map not_less)

lemma totals_cong: "mset ls = mset ls' \<Longrightarrow> totals ls = totals ls'"
  using total_line_cong [of ls ls'] mset_eq_setD [of ls ls'] by (simp add: totals_def)

text \<open>
  Claim C30. Whatever order \<open>std::sort\<close> leaves equal lines in, the in-place loop of \<open>groupNetworkStats\<close>
  stays inside the vector and leaves exactly one line per interface, UID, tag and set, in ascending
  order, whose counters are the sums over all lines with that key.
\<close>

theorem groupNetworkStats_totals:
  assumes "sorts std_sort"
  shows "groupNetworkStats std_sort ls = Some (totals ls)"
proof (cases "length ls \<le> 1")
  case True
  then consider "ls = []" | x where "ls = [x]" by (cases ls) auto
  then show ?thesis
    by cases (auto simp: groupNetworkStats_def totals_def total_line_single)
next
  case False
  let ?s = "std_sort ls"
  have m: "mset ?s = mset ls" using assms by (simp add: sorts_def)
  then have len: "length ?s = length ls" by (metis size_mset)
  then obtain n' ls' where loop: "group_loop 1 0 ?s = Some (n', ls')"
    and "take (n' + 1) ls' = merge_adj (?s ! 0 # drop 1 ?s)"
    using group_loop_merge [of 0 1 ?s] False by auto
  moreover have "?s ! 0 # drop 1 ?s = ?s" using len False by (cases ?s) auto
  ultimately have "take (n' + 1) ls' = map (total_line ?s) (remdups_adj (map line_key ?s))"
    using merge_adj_totals [OF sorts_keys [OF assms]] by simp
  also have "\<dots> = totals ?s" using remdups_adj_sorted [OF sorts_keys [OF assms]] by (simp add: totals_def)
  finally show ?thesis using loop False totals_cong [OF m] by (simp add: groupNetworkStats_def)
qed

lemma sort_key_sorts: "sorts (sort_key line_key)"
  unfolding sorts_def line_less_key using sorted_sort_key [of line_key] by (simp add: not_less sorted_map)

theorem groupNetworkStats_totals_witness:
  "groupNetworkStats (sort_key line_key)
     [\<lparr>iface = ''wlan0'', l_uid = 5, l_set = 0, l_tag = 0, rxBytes = 1, rxPackets = 1, txBytes = 2, txPackets = 1\<rparr>,
      \<lparr>iface = ''rmnet0'', l_uid = 5, l_set = 0, l_tag = 0, rxBytes = 7, rxPackets = 1, txBytes = 2, txPackets = 1\<rparr>,
      \<lparr>iface = ''wlan0'', l_uid = 5, l_set = 0, l_tag = 0, rxBytes = 3, rxPackets = 1, txBytes = 4, txPackets = 1\<rparr>] =
   Some [\<lparr>iface = ''rmnet0'', l_uid = 5, l_set = 0, l_tag = 0, rxBytes = 7, rxPackets = 1, txBytes = 2, txPackets = 1\<rparr>,
      \<lparr>iface = ''wlan0'', l_uid = 5, l_set = 0, l_tag = 0, rxBytes = 4, rxPackets = 2, txBytes = 6, txPackets = 2\<rparr>]"
proof -
  have keys: "sorted_list_of_set {(''wlan0'', 5, 0, 0), (''rmnet0'', 5, 0, 0)} =
      [(''rmnet0'', 5, 0, 0), (''wlan0'', 5, 0, 0) :: line_key]"
    using sorted_list_of_set.idem_if_sorted_distinct [of "[(''rmnet0'', 5, 0, 0), (''wlan0'', 5, 0, 0) :: line_key]"]
    by (simp add: insert_commute less_eq_prod_def)
  show ?thesis
    unfolding groupNetworkStats_totals [OF sort_key_sorts]
    using keys by (simp add: totals_def total_line_def line_of_def line_key_def insert_commute del: sorted_list_of_set_insert_remove)
qed

section \<open>Reading the detailed statistics\<close>

definition wanted :: "(u32 \<rightharpoonup> string) \<Rightarrow> string list \<Rightarrow> int \<Rightarrow> int \<Rightarrow> stats_key \<Rightarrow> string option" where
  "wanted names limitIfaces limitTag limitUid key =
     (case names (sk_ifaceIndex key) of None \<Rightarrow> None
      | Some name \<Rightarrow>
          if (limitIfaces = [] \<or> take 15 name \<in> set limitIfaces) \<and> (limitTag = TAG_ALL \<or> of_int limitTag = sk_tag key) \<and>
             (limitUid = UID_ALL \<or> of_int limitUid = sk_uid key)
          then Some (take 15 name) else None)"

definition entry_lines :: "(stats_key \<Rightarrow> string option) \<Rightarrow> (stats_key \<times> stats_value) list \<Rightarrow> stats_line list" where
  "entry_lines sel es = concat (map (\<lambda>(k, v). case sel k of None \<Rightarrow> [] | Some name \<Rightarrow> [populateStatsEntry k v name]) es)"

lemma detail_pass:
  assumes "bpf_hash I" "bpf_hash B"
  shows "\<forall>e \<in> set es. contents m (fst e) = Some (snd e) \<Longrightarrow>
    \<exists>u. chk_all (\<lambda>e. processDetailUidStats I im B m li lt lu (fst e) (snd e)) es (ls, unknown) =
      (0, ls @ entry_lines (wanted (contents im) li lt lu) es, u)"
proof (induction es arbitrary: ls unknown)
  case Nil
  then show ?case by (simp add: entry_lines_def)
next
  case (Cons e es)
  obtain k v where e: "e = (k, v)" by fastforce
  have "\<exists>u. processDetailUidStats I im B m li lt lu k v (ls, unknown) =
      (0, ls @ entry_lines (wanted (contents im) li lt lu) [e], u)"
    using Cons.prems bpf_hash_read [OF assms(1), of _ im] bpf_hash_read [OF assms(2), of _ m]
    by (simp add: e processDetailUidStats_def getIfaceNameFromMap_def entry_lines_def wanted_def split: option.split)
  then obtain u where u: "processDetailUidStats I im B m li lt lu k v (ls, unknown) =
      (0, ls @ entry_lines (wanted (contents im) li lt lu) [e], u)" by blast
  show ?case using Cons.IH [of "ls @ entry_lines (wanted (contents im) li lt lu) [e]" u] Cons.prems u
    by (simp add: e chk_def entry_lines_def)
qed


lemma detail_internal:
  assumes "sorts std_sort" "bpf_hash I" "bpf_hash B"
    and run: "parseBpfNetworkStatsDetailInternal std_sort I im B m li lt lu ls = Some (0, ls')"
  shows "\<exists>es. distinct (map fst es) \<and> map_of es = contents m \<and>
    ls' = totals (ls @ entry_lines (wanted (contents im) li lt lu) es)"
proof -
  let ?es = "fst (bpf_visit B m)" and ?res = "snd (bpf_visit B m)"
  have "fst (iterateMap B (processDetailUidStats I im B m li lt lu) m (ls, 0)) = 0"
    using run by (auto simp: parseBpfNetworkStatsDetailInternal_def split: prod.splits if_splits)
  then have "?res = 0" by (simp add: iterateMap_def chk_zero)
  then have es: "distinct (map fst ?es)" "map_of ?es = contents m" using assms(3) by (auto simp: bpf_hash_def)
  then have "\<forall>e \<in> set ?es. contents m (fst e) = Some (snd e)" by (metis map_of_is_SomeI prod.collapse)
  from detail_pass [OF assms(2,3) this, of im li lt lu ls 0]
  have "ls' = totals (ls @ entry_lines (wanted (contents im) li lt lu) ?es)"
    using run \<open>?res = 0\<close> groupNetworkStats_totals [OF assms(1)]
    by (auto simp: parseBpfNetworkStatsDetailInternal_def iterateMap_def chk_def)
  then show ?thesis using es by blast
qed

text \<open>
  Claim C31. A successful \<open>parseBpfNetworkStatsDetail\<close> loses and repeats nothing: it switches the kernel
  from the active map to the other one, reports the lines it was given together with every entry of the
  formerly active map that has a named interface and is within the limits, grouped by key, and leaves
  that map empty and the other one as it was.
\<close>

theorem parseBpfNetworkStatsDetail_swaps:
  assumes "sorts std_sort" "bpf_hash (b_iface T)" "bpf_hash (b_config T)" "bpf_hash (b_statsA T)" "bpf_hash (b_statsB T)"
    and run: "parseBpfNetworkStatsDetail std_sort T map_fd rcu li lt lu (ls, t) = Some (0, ls', t')" and "rcu = 0"
  shows "\<exists>active es. contents (mConfigurationMap t) CURRENT_STATS_MAP_CONFIGURATION_KEY = Some active \<and>
    (let other = (if active = SELECT_MAP_A then SELECT_MAP_B else SELECT_MAP_A) in
     active \<in> {SELECT_MAP_A, SELECT_MAP_B} \<and>
     contents (mConfigurationMap t') CURRENT_STATS_MAP_CONFIGURATION_KEY = Some other \<and>
     distinct (map fst es) \<and> map_of es = contents (stats_map active t) \<and>
     ls' = totals (ls @ entry_lines (wanted (contents (mIfaceIndexNameMap t)) li lt lu) es) \<and>
     contents (stats_map active t') = Map.empty \<and> stats_map other t' = stats_map other t)"
proof -
  obtain active where active: "contents (mConfigurationMap t) CURRENT_STATS_MAP_CONFIGURATION_KEY = Some active"
    using run bpf_hash_read [OF assms(3)]
    by (cases "contents (mConfigurationMap t) CURRENT_STATS_MAP_CONFIGURATION_KEY")
      (auto simp: parseBpfNetworkStatsDetail_def split: if_splits)
  define other where "other = (if active = SELECT_MAP_A then SELECT_MAP_B else SELECT_MAP_A)"
  have rd: "readValue (b_config T) CURRENT_STATS_MAP_CONFIGURATION_KEY (mConfigurationMap t) = Inr active"
    using active bpf_hash_read [OF assms(3)] by simp
  have range: "active \<in> {SELECT_MAP_A, SELECT_MAP_B}"
  proof -
    have "unat active < 2" using run rd
      by (auto simp: parseBpfNetworkStatsDetail_def at_def STATS_MAP_PATH_def split: if_splits)
    then have "unat active = 0 \<or> unat active = 1" by auto
    then show ?thesis by (auto simp: SELECT_MAP_A_def SELECT_MAP_B_def word_unat_eq_iff)
  qed
  obtain m1 where m1: "writeValue (b_config T) CURRENT_STATS_MAP_CONFIGURATION_KEY other BPF_EXIST (mConfigurationMap t) = (0, m1)"
    and int: "parseBpfNetworkStatsDetailInternal std_sort (b_iface T) (mIfaceIndexNameMap t)
        (stats_kern active T) (stats_map active t) li lt lu ls = Some (0, ls')"
    and clr: "on_stats active (clearMap (stats_kern active T)) (t\<lparr>mConfigurationMap := m1\<rparr>) = (0, t')"
    using run rd assms(7)
    by (auto simp: parseBpfNetworkStatsDetail_def on_config_def other_def stats_map_def
        split: if_splits option.splits prod.splits)
  have B: "bpf_hash (stats_kern active T)" using assms(4,5) by (simp add: stats_kern_def)
  obtain es where es: "distinct (map fst es)" "map_of es = contents (stats_map active t)"
    "ls' = totals (ls @ entry_lines (wanted (contents (mIfaceIndexNameMap t)) li lt lu) es)"
    using detail_internal [OF assms(1,2) B int] by blast
  have "contents (mConfigurationMap t') CURRENT_STATS_MAP_CONFIGURATION_KEY = Some other \<and>
      contents (stats_map active t') = Map.empty \<and> stats_map other t' = stats_map other t"
    using clr write_contents [OF m1] range
    by (auto simp: on_stats_def on_statsA_def on_statsB_def clearMap_def stats_map_def other_def Let_def
        SELECT_MAP_A_def SELECT_MAP_B_def split: if_splits prod.splits)
  then show ?thesis using active range es by (intro exI [of _ active] exI [of _ es]) (simp add: other_def)
qed


definition demo_stats :: traffic where
  "demo_stats = demo_traffic\<lparr>
     mConfigurationMap := [BpfWrite CURRENT_STATS_MAP_CONFIGURATION_KEY SELECT_MAP_A BPF_ANY 0],
     mIfaceIndexNameMap := [BpfWrite 7 ''wlan0'' BPF_ANY 0],
     mStatsMapA := [BpfWrite (StatsKey 10001 0 0 7)
       \<lparr>sv_rxPackets = 1, sv_rxBytes = 100, sv_txPackets = 2, sv_txBytes = 200\<rparr> BPF_ANY 0]\<rparr>"

theorem parseBpfNetworkStatsDetail_swaps_witness:
  "\<exists>ls' t'. parseBpfNetworkStatsDetail (sort_key line_key) demo_tenv (\<lambda>p. 0) 0 [] (-1) (-1) ([], demo_stats) = Some (0, ls', t') \<and>
     contents (mConfigurationMap t') CURRENT_STATS_MAP_CONFIGURATION_KEY = Some SELECT_MAP_B \<and>
     contents (mStatsMapA t') = Map.empty"
proof -
  have env: "b_iface demo_tenv = plain_hash" "b_config demo_tenv = plain_hash" "b_statsA demo_tenv = plain_hash"
    "b_statsB demo_tenv = plain_hash" by (simp_all add: demo_tenv_def)
  let ?k = "StatsKey 10001 0 0 7" and ?v = "\<lparr>sv_rxPackets = 1, sv_rxBytes = 100, sv_txPackets = 2, sv_txBytes = 200\<rparr>"
  have c: "contents (mConfigurationMap demo_stats) = [CURRENT_STATS_MAP_CONFIGURATION_KEY \<mapsto> SELECT_MAP_A]"
    "contents (mStatsMapA demo_stats) = [?k \<mapsto> ?v]" "contents (mIfaceIndexNameMap demo_stats) = [7 \<mapsto> ''wlan0'']"
    by (simp_all add: demo_stats_def contents_def)
  have visit: "bpf_visit plain_hash (mStatsMapA demo_stats) = ([(?k, ?v)], 0)"
    by (simp add: plain_hash_def visit_all_def c)
  have r: "readValue plain_hash k m = (case contents m k of Some v \<Rightarrow> Inr v | None \<Rightarrow> Inl ENOENT)"
    for k :: "'k :: linorder" and m :: "('k, 'v) bpf_map" by (rule bpf_hash_read [OF plain_hash_ok])
  obtain ls' where "parseBpfNetworkStatsDetailInternal (sort_key line_key) plain_hash (mIfaceIndexNameMap demo_stats)
      plain_hash (mStatsMapA demo_stats) [] (-1) (-1) [] = Some (0, ls')"
    by (simp add: parseBpfNetworkStatsDetailInternal_def iterateMap_def visit chk_def processDetailUidStats_def
        getIfaceNameFromMap_def r c groupNetworkStats_def)
  moreover have "bpf_write plain_hash (mConfigurationMap demo_stats) CURRENT_STATS_MAP_CONFIGURATION_KEY x BPF_EXIST = 0" for x
    by (simp add: plain_hash_def c)
  moreover have "bpf_clear plain_hash m = 0" for m :: "(stats_key, stats_value) bpf_map" by (simp add: plain_hash_def)
  ultimately obtain t' where run: "parseBpfNetworkStatsDetail (sort_key line_key) demo_tenv (\<lambda>p. 0) 0 [] (-1) (-1) ([], demo_stats) =
      Some (0, ls', t')"
    by (simp add: parseBpfNetworkStatsDetail_def env r c at_def STATS_MAP_PATH_def SELECT_MAP_A_def on_config_def
        writeValue_def stats_kern_def stats_map_def on_stats_def on_statsA_def clearMap_def)
  have "bpf_hash (b_iface demo_tenv)" "bpf_hash (b_config demo_tenv)" "bpf_hash (b_statsA demo_tenv)" "bpf_hash (b_statsB demo_tenv)"
    by (simp_all add: env plain_hash_ok)
  from parseBpfNetworkStatsDetail_swaps [OF sort_key_sorts this run] show ?thesis
    using run by (auto simp: c Let_def stats_map_def SELECT_MAP_A_def)
qed

text \<open>
  The index into the array of paths is read from the configuration map without a check: a value other
  than the two selectors makes the function read outside the array.
\<close>

lemma parseBpfNetworkStatsDetail_index:
  assumes "readValue (b_config T) CURRENT_STATS_MAP_CONFIGURATION_KEY (mConfigurationMap t) = Inr 2" "\<And>p. map_fd p = 0"
  shows "parseBpfNetworkStatsDetail std_sort T map_fd rcu li lt lu (ls, t) = None"
  using assms by (simp add: parseBpfNetworkStatsDetail_def at_def STATS_MAP_PATH_def)

end
