(* ===== verification/Cpp_Containers.thy ===== *)
theory Cpp_Containers
  imports Netd_Prelude "HOL-Library.Product_Lexorder"
begin

text \<open>
  The C++ library types of the DNS-over-TLS code: \<open>std::map\<close> and \<open>std::set\<close> with a comparator of their
  own, and the shared state of \<open>std::promise\<close> and \<open>std::future\<close>. A map with a comparator is an
  association list that ascends by it; assigning through \<open>operator[]\<close> keeps the key that is there,
  which matters when keys that differ compare as equivalent.
\<close>

section \<open>Containers with a comparator\<close>

definition equivalent :: "('k \<Rightarrow> 'k \<Rightarrow> bool) \<Rightarrow> 'k \<Rightarrow> 'k \<Rightarrow> bool" where
  "equivalent lt x y \<longleftrightarrow> \<not> lt x y \<and> \<not> lt y x"

definition cm_find :: "('k \<Rightarrow> 'k \<Rightarrow> bool) \<Rightarrow> 'k \<Rightarrow> ('k \<times> 'v) list \<Rightarrow> ('k \<times> 'v) option" where
  "cm_find lt k m = find (\<lambda>e. equivalent lt k (fst e)) m"

fun cm_put :: "('k \<Rightarrow> 'k \<Rightarrow> bool) \<Rightarrow> 'k \<Rightarrow> 'v \<Rightarrow> ('k \<times> 'v) list \<Rightarrow> ('k \<times> 'v) list" where
  "cm_put lt k v [] = [(k, v)]"
| "cm_put lt k v ((k', v') # m) =
     (if lt k k' then (k, v) # (k', v') # m
      else if lt k' k then (k', v') # cm_put lt k v m
      else (k', v) # m)"

fun cs_insert :: "('k \<Rightarrow> 'k \<Rightarrow> bool) \<Rightarrow> 'k \<Rightarrow> 'k list \<Rightarrow> 'k list" where
  "cs_insert lt k [] = [k]"
| "cs_insert lt k (k' # s) =
     (if lt k k' then k # k' # s
      else if lt k' k then k' # cs_insert lt k s
      else k' # s)"

definition cs_count :: "('k \<Rightarrow> 'k \<Rightarrow> bool) \<Rightarrow> 'k \<Rightarrow> 'k list \<Rightarrow> nat" where
  "cs_count lt k s = (if list_ex (equivalent lt k) s then 1 else 0)"

definition cm_inv :: "('k \<Rightarrow> 'k \<Rightarrow> bool) \<Rightarrow> ('k \<times> 'v) list \<Rightarrow> bool" where
  "cm_inv lt m \<longleftrightarrow> sorted_wrt lt (map fst m)"

text \<open>
  The contract of a comparator: it compares the values of a key function, so that equivalent elements
  are those with the same key.
\<close>

locale comparator =
  fixes lt :: "'k \<Rightarrow> 'k \<Rightarrow> bool"
    and key :: "'k \<Rightarrow> 'o :: linorder"
  assumes lt_key: "lt x y \<longleftrightarrow> key x < key y"
begin

lemma equivalent_key: "equivalent lt x y \<longleftrightarrow> key x = key y"
  by (auto simp: equivalent_def lt_key)

lemma inv_key: "cm_inv lt m \<longleftrightarrow> sorted_wrt (<) (map (key \<circ> fst) m)"
  by (simp add: cm_inv_def lt_key sorted_wrt_map)

lemma inv_Cons: "cm_inv lt (e # m) \<longleftrightarrow> (\<forall>x \<in> set m. key (fst e) < key (fst x)) \<and> cm_inv lt m"
  by (auto simp: inv_key)

lemma inv_filter: "cm_inv lt m \<Longrightarrow> cm_inv lt (filter P m)"
  by (induction m) (auto simp: inv_Cons)

lemma find_mem: "cm_find lt k m = Some e \<Longrightarrow> e \<in> set m \<and> key (fst e) = key k"
  by (auto simp: cm_find_def equivalent_key find_Some_iff)

lemma find_None: "cm_find lt k m = None \<longleftrightarrow> (\<forall>e \<in> set m. key (fst e) \<noteq> key k)"
  by (auto simp: cm_find_def equivalent_key find_None_iff)

lemma find_iff: "cm_inv lt m \<Longrightarrow> cm_find lt k m = Some e \<longleftrightarrow> e \<in> set m \<and> key (fst e) = key k"
  by (induction m) (auto simp: cm_find_def equivalent_key inv_Cons)

lemma put_Cons:
  "cm_put lt k v ((k', v') # m) =
     (if key k < key k' then (k, v) # (k', v') # m
      else if key k' < key k then (k', v') # cm_put lt k v m
      else (k', v) # m)"
  using lt_key by auto

text \<open>What assignment leaves in the map: the other entries, and the value under the key that was there.\<close>

lemma set_put:
  assumes "cm_inv lt m"
  shows "set (cm_put lt k v m) =
    {e \<in> set m. key (fst e) \<noteq> key k} \<union> {(case cm_find lt k m of None \<Rightarrow> k | Some e \<Rightarrow> fst e, v)}"
  using assms
proof (induction m)
  case (Cons e m)
  obtain k' v' where e: "e = (k', v')" by (cases e)
  show ?case
  proof (cases "key k" "key k'" rule: linorder_cases)
    case less
    then have apart: "\<forall>x \<in> set (e # m). key (fst x) \<noteq> key k" using Cons.prems by (force simp: inv_Cons e)
    then have "cm_find lt k (e # m) = None" "{x \<in> set (e # m). key (fst x) \<noteq> key k} = set (e # m)"
      by (auto simp: find_None)
    then show ?thesis using less by (simp add: put_Cons e del: cm_put.simps(2))
  next
    case equal
    then show ?thesis using Cons.prems by (force simp: put_Cons inv_Cons e cm_find_def equivalent_key simp del: cm_put.simps(2))
  next
    case greater
    then have "cm_find lt k (e # m) = cm_find lt k m" by (auto simp: cm_find_def equivalent_key e)
    then show ?thesis using Cons greater by (auto simp: put_Cons inv_Cons e simp del: cm_put.simps(2))
  qed
qed (simp add: cm_find_def)

lemma inv_put: "cm_inv lt m \<Longrightarrow> cm_inv lt (cm_put lt k v m)"
proof (induction m)
  case (Cons e m)
  obtain k' v' where e: "e = (k', v')" by (cases e)
  have keys: "key k' < key (fst x)" if "key k' < key k" and "x \<in> set (cm_put lt k v m)" for x
    using that set_put [of m k v] Cons.prems find_mem [of k m] by (auto simp: inv_Cons e split: option.splits)
  show ?case
    using Cons keys
    by (cases "key k" "key k'" rule: linorder_cases) (auto simp: put_Cons inv_Cons e simp del: cm_put.simps(2))
qed (simp add: inv_key)

lemma find_put:
  assumes "cm_inv lt m"
  shows "cm_find lt j (cm_put lt k v m) =
    (if key j = key k then Some (case cm_find lt k m of None \<Rightarrow> k | Some e \<Rightarrow> fst e, v) else cm_find lt j m)"
proof (cases "key j = key k")
  case True
  then show ?thesis
    using inv_put [OF assms] find_mem [of k m] by (auto simp: find_iff set_put [OF assms] split: option.splits)
next
  case False
  have "cm_find lt j (cm_put lt k v m) = Some e \<longleftrightarrow> cm_find lt j m = Some e" for e
    using False find_mem [of k m] by (auto simp: find_iff [OF inv_put [OF assms]] find_iff [OF assms] set_put [OF assms] split: option.splits)
  then show ?thesis using False by (metis not_None_eq)
qed

lemma put_fresh: "cm_find lt k m = None \<Longrightarrow> mset (cm_put lt k v m) = add_mset (k, v) (mset m)"
  by (induction lt k v m rule: cm_put.induct) (auto simp: cm_find_def equivalent_def split: if_splits)

lemma put_present:
  "cm_inv lt m \<Longrightarrow> cm_find lt k m = Some e \<Longrightarrow>
     cm_put lt k v m = map (\<lambda>(k', x). (k', if key k' = key k then v else x)) m"
proof (induction m)
  case (Cons e' m)
  obtain k' v' where e': "e' = (k', v')" by (cases e')
  have rest: "map (\<lambda>(j, x). (j, if key j = key k then v else x)) m = m" if "key k = key k'"
    by (rule map_idI) (use Cons.prems(1) that in \<open>force simp: inv_Cons e'\<close>)
  have "\<not> key k < key k'"
    using Cons.prems find_mem [OF Cons.prems(2)] by (auto simp: inv_Cons e')
  then show ?case
    using Cons rest by (cases "key k = key k'") (auto simp: put_Cons inv_Cons e' cm_find_def equivalent_key simp del: cm_put.simps(2))
qed (simp add: cm_find_def)

lemma keys_unique: "cm_inv lt m \<Longrightarrow> e \<in> set m \<Longrightarrow> e' \<in> set m \<Longrightarrow> key (fst e) = key (fst e') \<Longrightarrow> e = e'"
  by (metis find_iff option.inject)

lemma set_insert: "x \<in> set (cs_insert lt k s) \<Longrightarrow> x = k \<or> x \<in> set s"
  by (induction s) (auto split: if_splits)

lemma insert_covers: "\<exists>x \<in> set (cs_insert lt k s). key x = key k"
  by (induction s) (auto simp: lt_key not_less_iff_gr_or_eq)

lemma insert_keeps: "x \<in> set s \<Longrightarrow> x \<in> set (cs_insert lt k s)"
  by (induction s) auto

lemma count_iff: "cs_count lt k s = 0 \<longleftrightarrow> (\<forall>x \<in> set s. key x \<noteq> key k)"
  by (auto simp: cs_count_def list_ex_iff equivalent_key)

end

section \<open>Promises and futures\<close>

text \<open>
  The shared states of promises, by the number of the promise: \<open>None\<close> until a value is set. Setting a
  second value throws \<open>std::future_error\<close>, which nothing catches.
\<close>

definition set_value :: "nat \<Rightarrow> 'r \<Rightarrow> 'r option list \<Rightarrow> 'r option list option" where
  "set_value p r futures =
     (if p < length futures \<and> futures ! p = None then Some (futures[p := Some r]) else None)"

end
