(* ===== verification/Dns_Tls_Server.thy ===== *)
theory Dns_Tls_Server
  imports Cpp_Containers
begin

text \<open>
  resolv/DnsTlsServer.cpp and DnsTlsServer.h: a DNS-over-TLS server and its two orders. The exact order
  keys the dispatcher's transports and the set of configured servers; the order of
  \<open>AddressComparator\<close> looks at the IP address only and keys the trackers of validation. Both are shown to
  be comparisons of a key, so that they are strict weak orders as \<open>std::map\<close> requires.
\<close>

text \<open>
  \<open>sockaddr_storage\<close> with the fields of its two views \<open>sockaddr_in\<close> and \<open>sockaddr_in6\<close>; the port is at the
  same place in both. Which view is read depends on the family.
\<close>

record sockaddr_storage =
  ss_family :: u16
  sin_port :: u16
  sin_addr :: u32
  sin6_flowinfo :: u32
  sin6_addr :: bytes
  sin6_scope_id :: u32

abbreviation SA_INET :: u16 where "SA_INET \<equiv> 2"
abbreviation SA_INET6 :: u16 where "SA_INET6 \<equiv> 10"
abbreviation IPPROTO_TCP :: int where "IPPROTO_TCP \<equiv> 6"

datatype Response = R_success | R_network_error | R_limit_error | R_internal_error

record Result =
  res_code :: Response
  res_response :: bytes

record DnsTlsServer =
  server_ss :: sockaddr_storage
  server_fingerprints :: "bytes list"
  server_name :: string
  server_protocol :: int

text \<open>The constructor from an address, with the default member values.\<close>

definition DnsTlsServer_new :: "sockaddr_storage \<Rightarrow> DnsTlsServer" where
  "DnsTlsServer_new ss = \<lparr>server_ss = ss, server_fingerprints = [], server_name = [], server_protocol = IPPROTO_TCP\<rparr>"

text \<open>Lexicographic comparison of tuples by their elements' \<open><\<close>, as \<open>std::tuple\<close> compares.\<close>

definition tie_lt :: "('a \<Rightarrow> 'a \<Rightarrow> bool) \<Rightarrow> ('b \<Rightarrow> 'b \<Rightarrow> bool) \<Rightarrow> 'a \<times> 'b \<Rightarrow> 'a \<times> 'b \<Rightarrow> bool" where
  "tie_lt lt1 lt2 p q \<longleftrightarrow>
     lt1 (fst p) (fst q) \<or> (\<not> lt1 (fst q) (fst p) \<and> lt2 (snd p) (snd q))"

definition tie_in :: "sockaddr_storage \<Rightarrow> u16 \<times> u32" where
  "tie_in a = (sin_port a, sin_addr a)"

definition tie_in6 :: "sockaddr_storage \<Rightarrow> u16 \<times> bytes \<times> u32" where
  "tie_in6 a = (sin_port a, sin6_addr a, sin6_scope_id a)"

definition sockaddr_lt :: "sockaddr_storage \<Rightarrow> sockaddr_storage \<Rightarrow> bool" where
  "sockaddr_lt x y =
     (if ss_family x \<noteq> ss_family y then ss_family x < ss_family y
      else if ss_family x = SA_INET then tie_lt (<) (<) (tie_in x) (tie_in y)
      else if ss_family x = SA_INET6 then tie_lt (<) (tie_lt (<) (<)) (tie_in6 x) (tie_in6 y)
      else False)"

definition sockaddr_eq :: "sockaddr_storage \<Rightarrow> sockaddr_storage \<Rightarrow> bool" where
  "sockaddr_eq x y =
     (if ss_family x \<noteq> ss_family y then False
      else if ss_family x = SA_INET then tie_in x = tie_in y
      else if ss_family x = SA_INET6 then tie_in6 x = tie_in6 y
      else False)"

definition AddressComparator :: "DnsTlsServer \<Rightarrow> DnsTlsServer \<Rightarrow> bool" where
  "AddressComparator x y =
     (let a = server_ss x; b = server_ss y in
      if ss_family a \<noteq> ss_family b then ss_family a < ss_family b
      else if ss_family a = SA_INET then sin_addr a < sin_addr b
      else if ss_family a = SA_INET6 then tie_lt (<) (<) (sin6_addr a, sin6_scope_id a) (sin6_addr b, sin6_scope_id b)
      else False)"

definition server_tie :: "DnsTlsServer \<Rightarrow> sockaddr_storage \<times> string \<times> bytes list \<times> int" where
  "server_tie s = (server_ss s, server_name s, server_fingerprints s, server_protocol s)"

definition server_lt :: "DnsTlsServer \<Rightarrow> DnsTlsServer \<Rightarrow> bool" where
  "server_lt x y = tie_lt sockaddr_lt (tie_lt (<) (tie_lt (<) (<))) (server_tie x) (server_tie y)"

definition server_eq :: "DnsTlsServer \<Rightarrow> DnsTlsServer \<Rightarrow> bool" where
  "server_eq x y \<longleftrightarrow> sockaddr_eq (server_ss x) (server_ss y) \<and> snd (server_tie x) = snd (server_tie y)"

definition wasExplicitlyConfigured :: "DnsTlsServer \<Rightarrow> bool" where
  "wasExplicitlyConfigured s \<longleftrightarrow> server_name s \<noteq> [] \<or> server_fingerprints s \<noteq> []"

section \<open>The keys behind the orders\<close>

type_synonym sockaddr_order = "u16 \<times> u16 \<times> u32 \<times> bytes \<times> u32"

definition sockaddr_key :: "sockaddr_storage \<Rightarrow> sockaddr_order" where
  "sockaddr_key a =
     (ss_family a,
      if ss_family a = SA_INET then (sin_port a, sin_addr a, [], 0)
      else if ss_family a = SA_INET6 then (sin_port a, 0, sin6_addr a, sin6_scope_id a)
      else (0, 0, [], 0))"

definition server_key :: "DnsTlsServer \<Rightarrow> sockaddr_order \<times> string \<times> bytes list \<times> int" where
  "server_key s = (sockaddr_key (server_ss s), snd (server_tie s))"

definition address_key :: "DnsTlsServer \<Rightarrow> u16 \<times> u32 \<times> bytes \<times> u32" where
  "address_key s =
     (let a = server_ss s in
      (ss_family a,
       if ss_family a = SA_INET then (sin_addr a, [], 0)
       else if ss_family a = SA_INET6 then (0, sin6_addr a, sin6_scope_id a)
       else (0, [], 0)))"

lemma tie_lt_less: "tie_lt (<) (<) p q \<longleftrightarrow> p < (q :: 'a::linorder \<times> 'b::linorder)"
  by (cases p; cases q) (auto simp: tie_lt_def less_prod_def)

lemma tie_lt_less_fun: "tie_lt (<) (<) = ((<) :: 'a::linorder \<times> 'b::linorder \<Rightarrow> _)"
  by (intro ext) (rule tie_lt_less)

lemma sockaddr_lt_key: "sockaddr_lt x y \<longleftrightarrow> sockaddr_key x < sockaddr_key y"
  by (auto simp: sockaddr_lt_def sockaddr_key_def tie_lt_less_fun tie_in_def tie_in6_def less_prod_def)

lemma sockaddr_eq_key: "sockaddr_eq x y \<Longrightarrow> sockaddr_key x = sockaddr_key y"
  by (auto simp: sockaddr_eq_def sockaddr_key_def tie_in_def tie_in6_def split: if_splits)

lemma tie_lt_key:
  assumes "\<And>x y. lt x y \<longleftrightarrow> f x < (f y :: 'a::linorder)"
  shows "tie_lt lt (<) p q \<longleftrightarrow> (f (fst p), snd p) < (f (fst q), snd q :: 'b::linorder)"
  by (auto simp: tie_lt_def assms less_prod_simp)

lemma server_lt_key: "server_lt x y \<longleftrightarrow> server_key x < server_key y"
  unfolding server_lt_def tie_lt_less_fun server_key_def
  by (subst tie_lt_key [of _ sockaddr_key]) (simp_all add: sockaddr_lt_key server_tie_def)

lemma AddressComparator_key: "AddressComparator x y \<longleftrightarrow> address_key x < address_key y"
  by (auto simp: AddressComparator_def address_key_def tie_lt_less_fun Let_def less_prod_def)

lemma server_eq_key: "server_eq x y \<Longrightarrow> server_key x = server_key y"
  by (simp add: server_eq_def server_key_def sockaddr_eq_key)

text \<open>The address is part of the exact key, so servers that the exact order identifies have one address.\<close>

lemma server_key_address: "server_key x = server_key y \<Longrightarrow> address_key x = address_key y"
  by (auto simp: server_key_def sockaddr_key_def address_key_def Let_def split: if_splits)

lemma server_key_eq:
  assumes "server_key x = server_key y" "ss_family (server_ss x) = SA_INET \<or> ss_family (server_ss x) = SA_INET6"
  shows "server_eq x y"
  using assms by (auto simp: server_eq_def server_key_def sockaddr_key_def sockaddr_eq_def tie_in_def tie_in6_def split: if_splits)

interpretation by_server: comparator server_lt server_key
  by unfold_locales (rule server_lt_key)

interpretation by_address: comparator AddressComparator address_key
  by unfold_locales (rule AddressComparator_key)

end
