(* ===== verification/Dns_Tls_Query_Map.thy ===== *)
theory Dns_Tls_Query_Map
  imports Dns_Tls_Server
begin

text \<open>
  resolv/DnsTlsQueryMap.cpp: the table of pending DNS-over-TLS queries. Queries of all clients share one
  connection, so each gets a message ID of its own, and a response is matched by that ID and given
  back with the ID its client chose. Every method takes the lock of the map, so a method is one step.
  \<open>None\<close> stands for an exception that nothing catches or a read outside a buffer. A \<open>Slice\<close> is the list
  of bytes it points at: the client keeps its buffer until its future is ready.
\<close>

unbundle bit_operations_syntax

section \<open>State\<close>

record Query =
  newId :: u16
  q_query :: bytes

record QueryPromise =
  qp_query :: Query
  tries :: int
  qp_result :: nat

record query_map =
  mQueries :: "(u16 \<times> QueryPromise) list"
  futures :: "Result option list"

definition DnsTlsQueryMap_new :: query_map where
  "DnsTlsQueryMap_new = \<lparr>mQueries = [], futures = []\<rparr>"

definition kMaxTries :: int where "kMaxTries = 3"

definition UINT16_MAX :: nat where [simp]: "UINT16_MAX = 65535"

section \<open>Operations\<close>

fun linear_scan :: "u16 \<Rightarrow> (u16 \<times> 'a) list \<Rightarrow> int" where
  "linear_scan nextId [] = - 1"
| "linear_scan nextId ((i, p) # qs) = (if i \<noteq> nextId then uint nextId else linear_scan (i + 1) qs)"

definition getFreeId :: "query_map \<Rightarrow> int" where
  "getFreeId m =
     (if mQueries m = [] then 0
      else let maxId = fst (last (mQueries m)) in
      if unat maxId < UINT16_MAX then uint maxId + 1
      else if length (mQueries m) = UINT16_MAX + 1 then - 1
      else linear_scan 0 (mQueries m))"

text \<open>The result is the query with its new ID and the number of its future, or null.\<close>

definition recordQuery :: "bytes \<Rightarrow> query_map \<Rightarrow> (Query \<times> nat) option \<times> query_map" where
  "recordQuery query m =
     (if length query < 2 then (None, m)
      else let i = getFreeId m in
      if i < 0 then (None, m)
      else let q = \<lparr>newId = word_of_int i, q_query = query\<rparr> in
      if map_of (mQueries m) (newId q) \<noteq> None then (None, m)
      else (Some (q, length (futures m)),
            m\<lparr>mQueries := om_put (newId q) \<lparr>qp_query = q, tries = 0, qp_result = length (futures m)\<rparr> (mQueries m),
              futures := futures m @ [None]\<rparr>))"

definition expire :: "QueryPromise \<Rightarrow> Result option list \<Rightarrow> Result option list option" where
  "expire p = set_value (qp_result p) \<lparr>res_code = R_network_error, res_response = []\<rparr>"

definition markTried :: "u16 \<Rightarrow> query_map \<Rightarrow> query_map" where
  "markTried i m =
     m\<lparr>mQueries := map (\<lambda>(j, p). (j, if j = i then p\<lparr>tries := tries p + 1\<rparr> else p)) (mQueries m)\<rparr>"

fun expire_all :: "(QueryPromise \<Rightarrow> bool) \<Rightarrow> (u16 \<times> QueryPromise) list \<Rightarrow> Result option list \<Rightarrow> Result option list option" where
  "expire_all P [] fs = Some fs"
| "expire_all P ((i, p) # qs) fs =
     (if P p then (case expire p fs of None \<Rightarrow> None | Some fs' \<Rightarrow> expire_all P qs fs')
      else expire_all P qs fs)"

definition cleanup_queries :: "query_map \<Rightarrow> query_map option" where
  "cleanup_queries m =
     map_option (\<lambda>fs. m\<lparr>mQueries := filter (\<lambda>(i, p). \<not> tries p \<ge> kMaxTries) (mQueries m), futures := fs\<rparr>)
       (expire_all (\<lambda>p. tries p \<ge> kMaxTries) (mQueries m) (futures m))"

definition getAll :: "query_map \<Rightarrow> Query list" where
  "getAll m = map (\<lambda>(i, p). qp_query p) (mQueries m)"

definition queries_empty :: "query_map \<Rightarrow> bool" where
  "queries_empty m \<longleftrightarrow> mQueries m = []"

definition clear_queries :: "query_map \<Rightarrow> query_map option" where
  "clear_queries m =
     map_option (\<lambda>fs. m\<lparr>mQueries := [], futures := fs\<rparr>) (expire_all (\<lambda>p. True) (mQueries m) (futures m))"

definition response_id :: "bytes \<Rightarrow> u16" where
  "response_id r = push_bit 8 (ucast (r ! 0)) OR ucast (r ! 1)"

definition onResponse :: "bytes \<Rightarrow> query_map \<Rightarrow> query_map option" where
  "onResponse r m =
     (if length r < 2 then Some m
      else case map_of (mQueries m) (response_id r) of
          None \<Rightarrow> Some m
        | Some p \<Rightarrow>
            (let data = q_query (qp_query p) in
             if length data < 2 then None
             else map_option (\<lambda>fs. m\<lparr>mQueries := om_erase (response_id r) (mQueries m), futures := fs\<rparr>)
                    (set_value (qp_result p)
                       \<lparr>res_code = R_success, res_response = r[0 := data ! 0, 1 := data ! 1]\<rparr> (futures m))))"

section \<open>The invariant\<close>

text \<open>
  IDs ascend, each entry is stored under the ID it was given, every query is long enough to have an
  ID, and the unresolved futures are exactly the promises of the entries, each of one entry.
\<close>

definition promises :: "query_map \<Rightarrow> nat list" where
  "promises m = map (qp_result \<circ> snd) (mQueries m)"

definition entry_ok :: "Result option list \<Rightarrow> u16 \<times> QueryPromise \<Rightarrow> bool" where
  "entry_ok fs e \<longleftrightarrow> newId (qp_query (snd e)) = fst e \<and> 2 \<le> length (q_query (qp_query (snd e))) \<and>
     0 \<le> tries (snd e) \<and> qp_result (snd e) < length fs \<and> fs ! qp_result (snd e) = None"

definition qm_inv :: "query_map \<Rightarrow> bool" where
  "qm_inv m \<longleftrightarrow> om_inv (mQueries m) \<and> (\<forall>e \<in> set (mQueries m). entry_ok (futures m) e) \<and> distinct (promises m) \<and>
     (\<forall>f < length (futures m). futures m ! f = None \<longrightarrow> f \<in> set (promises m))"

lemma qm_inv_new: "qm_inv DnsTlsQueryMap_new"
  by (simp add: qm_inv_def DnsTlsQueryMap_new_def om_inv_def promises_def)

text \<open>Futures are only ever resolved, never changed back or again.\<close>

definition futures_grow :: "Result option list \<Rightarrow> Result option list \<Rightarrow> bool" where
  "futures_grow fs fs' \<longleftrightarrow> length fs \<le> length fs' \<and> (\<forall>f < length fs. fs ! f \<noteq> None \<longrightarrow> fs' ! f = fs ! f)"

lemma futures_grow_refl [simp]: "futures_grow fs fs"
  by (simp add: futures_grow_def)

lemma futures_grow_trans: "futures_grow a b \<Longrightarrow> futures_grow b c \<Longrightarrow> futures_grow a c"
  by (auto simp: futures_grow_def)

section \<open>Message IDs\<close>

lemma om_inv_Cons: "om_inv (e # m) \<longleftrightarrow> (\<forall>x \<in> set m. fst e < fst x) \<and> om_inv m"
  by (auto simp: om_inv_def)

lemma word_step:
  fixes i k :: "'a::len word"
  assumes "i < k"
  shows "unat (i + 1) = unat i + 1" "i + 1 \<le> k" "i < i + 1"
proof -
  have "unat i + 1 < 2 ^ LENGTH('a)"
    using assms unsigned_less [of k, where 'a = nat] by (simp only: word_less_nat_alt)
  then show "unat (i + 1) = unat i + 1"
    by (simp add: unat_word_ariths)
  then show "i + 1 \<le> k" "i < i + 1"
    using assms by (simp_all add: word_less_nat_alt word_le_nat_alt)
qed

lemma om_inv_last: "om_inv m \<Longrightarrow> e \<in> set m \<Longrightarrow> fst e \<le> fst (last m)"
proof (induction m)
  case (Cons x m)
  then show ?case by (cases m) (auto simp: om_inv_Cons intro: less_imp_le)
qed simp

lemma scan_gap:
  assumes "om_inv qs" "\<forall>e \<in> set qs. n \<le> fst e" "linear_scan n qs \<noteq> - 1"
  shows "\<exists>i. linear_scan n qs = uint i \<and> n \<le> i \<and> i \<notin> fst ` set qs"
  using assms
proof (induction n qs rule: linear_scan.induct)
  case (2 n i p qs)
  show ?case
  proof (cases "i = n")
    case True
    have above: "\<forall>e \<in> set qs. i + 1 \<le> fst e" using 2(2) by (auto simp: om_inv_Cons word_step(2))
    have ne: "qs \<noteq> []" using 2(4) True by auto
    then obtain e where "e \<in> set qs" by (cases qs) auto
    then have "i < i + 1" using 2(2) by (auto simp: om_inv_Cons intro: word_step(3))
    moreover obtain k where "linear_scan (i + 1) qs = uint k" "i + 1 \<le> k" "k \<notin> fst ` set qs"
      using 2(1) [OF _ _ above] 2(2,4) True by (auto simp: om_inv_Cons)
    ultimately show ?thesis using True by (auto intro!: exI [of _ k])
  next
    case False
    then show ?thesis using 2(2,3) by (auto simp: om_inv_Cons intro!: exI [of _ n])
  qed
qed simp

lemma scan_full:
  assumes "om_inv qs" "\<forall>e \<in> set qs. n \<le> fst e" "linear_scan n qs = - 1" "qs \<noteq> []"
  shows "unat (fst (last qs)) + 1 = unat n + length qs"
  using assms
proof (induction n qs rule: linear_scan.induct)
  case (2 n i p qs)
  have i: "i = n"
  proof (rule ccontr)
    assume "i \<noteq> n"
    then have "uint n = - 1" using 2(4) by simp
    then show False using uint_ge_0 [of n] by linarith
  qed
  show ?case
  proof (cases "qs = []")
    case False
    then obtain e where "e \<in> set qs" by (cases qs) auto
    then have "unat (i + 1) = unat i + 1" using 2(2) by (simp only: om_inv_Cons fst_conv) (blast intro: word_step(1))
    moreover have "\<forall>e \<in> set qs. i + 1 \<le> fst e" using 2(2) by (auto simp: om_inv_Cons word_step(2))
    ultimately show ?thesis using 2 False i by (auto simp: om_inv_Cons)
  qed (simp add: i)
qed simp

text \<open>An unused ID, unless all are in use.\<close>

lemma getFreeId_free:
  assumes "om_inv (mQueries m)" "length (mQueries m) \<noteq> UINT16_MAX + 1"
  obtains i where "getFreeId m = uint i" "map_of (mQueries m) i = None"
proof (cases "mQueries m = []")
  case True
  then show thesis using that [of 0] by (simp add: getFreeId_def)
next
  case ne: False
  let ?k = "fst (last (mQueries m))"
  show thesis
  proof (cases "unat ?k < UINT16_MAX")
    case True
    then have "?k < 65535" by (simp add: word_less_nat_alt)
    then have "uint ?k + 1 = uint (?k + 1)" "?k < ?k + 1"
      using arg_cong [OF word_step(1), of ?k 65535 int] word_step(3) [of ?k 65535] by simp_all
    moreover from this have "map_of (mQueries m) (?k + 1) = None"
      using om_inv_last [OF assms(1)] by (force simp: map_of_eq_None_iff)
    ultimately show thesis using that [of "?k + 1"] ne True by (simp add: getFreeId_def Let_def)
  next
    case False
    then have "unat ?k = UINT16_MAX" using unsigned_less [of ?k, where 'a = nat] by simp
    then have "linear_scan 0 (mQueries m) \<noteq> - 1"
      using scan_full [OF assms(1), of 0] assms(2) ne by auto
    then obtain i where "linear_scan 0 (mQueries m) = uint i" "i \<notin> fst ` set (mQueries m)"
      using scan_gap [OF assms(1), of 0] by auto
    then show thesis using that [of i] ne False assms(2) by (auto simp: getFreeId_def Let_def map_of_eq_None_iff)
  qed
qed

lemma getFreeId_full:
  assumes "length (mQueries m) = UINT16_MAX + 1" "om_inv (mQueries m)"
  shows "getFreeId m = - 1"
proof -
  have "distinct (map (unat \<circ> fst) (mQueries m))"
    using om_inv_distinct [OF assms(2)] by (simp add: distinct_map inj_on_def flip: word_unat_eq_iff)
  then have card: "card (set (map (unat \<circ> fst) (mQueries m))) = 65536"
    using assms(1) distinct_card by fastforce
  have "unat (fst e) \<le> unat (fst (last (mQueries m)))" if "e \<in> set (mQueries m)" for e
    using om_inv_last [OF assms(2) that] by (simp add: word_le_nat_alt)
  then have "set (map (unat \<circ> fst) (mQueries m)) \<subseteq> {.. unat (fst (last (mQueries m)))}" by auto
  from card_mono [OF _ this] have "\<not> unat (fst (last (mQueries m))) < UINT16_MAX" using card by simp
  then show ?thesis using assms(1) by (auto simp: getFreeId_def)
qed

section \<open>What the operations do\<close>

text \<open>
  How the map may change in any operation: the invariant holds, futures are only resolved, and every
  pending query of before that is still pending is the same query, tried at least as often.
\<close>

definition evolves :: "query_map \<Rightarrow> query_map \<Rightarrow> bool" where
  "evolves m m' \<longleftrightarrow> qm_inv m' \<and> futures_grow (futures m) (futures m') \<and>
     (\<forall>(i, p') \<in> set (mQueries m'). qp_result p' < length (futures m) \<longrightarrow>
        (\<exists>p. (i, p) \<in> set (mQueries m) \<and> qp_query p = qp_query p' \<and> qp_result p = qp_result p' \<and> tries p \<le> tries p'))"

lemma evolves_inv: "evolves m m' \<Longrightarrow> qm_inv m'"
  by (simp add: evolves_def)

lemma evolves_refl: "qm_inv m \<Longrightarrow> evolves m m"
  by (auto simp: evolves_def)

lemma evolves_trans:
  assumes "evolves a b" "evolves b c"
  shows "evolves a c"
  unfolding evolves_def
proof (intro conjI)
  show "qm_inv c" "futures_grow (futures a) (futures c)"
    using assms futures_grow_trans by (auto simp: evolves_def)
  have "length (futures a) \<le> length (futures b)" using assms by (simp add: evolves_def futures_grow_def)
  then show "\<forall>(i, p') \<in> set (mQueries c). qp_result p' < length (futures a) \<longrightarrow>
      (\<exists>p. (i, p) \<in> set (mQueries a) \<and> qp_query p = qp_query p' \<and> qp_result p = qp_result p' \<and> tries p \<le> tries p')"
    using assms unfolding evolves_def by (fastforce split: prod.splits)
qed

lemma expire_all_ok:
  assumes "distinct (map (qp_result \<circ> snd) qs)" "\<forall>e \<in> set qs. entry_ok fs e"
  shows "\<exists>fs'. expire_all P qs fs = Some fs' \<and> length fs' = length fs \<and>
    (\<forall>f. fs' ! f = (if \<exists>(i, p) \<in> set qs. P p \<and> qp_result p = f
                     then Some \<lparr>res_code = R_network_error, res_response = []\<rparr> else fs ! f))"
  using assms
proof (induction P qs fs rule: expire_all.induct)
  case (2 P i p qs fs)
  show ?case
  proof (cases "P p")
    case True
    let ?fs = "fs[qp_result p := Some \<lparr>res_code = R_network_error, res_response = []\<rparr>]"
    have e: "expire p fs = Some ?fs" using 2(4) by (simp add: expire_def set_value_def entry_ok_def)
    have "\<forall>e \<in> set qs. entry_ok ?fs e" using 2(3,4) by (force simp: entry_ok_def nth_list_update)
    from 2(1) [OF True e _ this] obtain fs' where fs': "expire_all P qs ?fs = Some fs'" "length fs' = length fs"
      "\<forall>f. fs' ! f = (if \<exists>(i, p) \<in> set qs. P p \<and> qp_result p = f
                     then Some \<lparr>res_code = R_network_error, res_response = []\<rparr> else ?fs ! f)"
      using 2(3) by auto
    then show ?thesis using True e 2(3,4) by (auto simp: entry_ok_def nth_list_update)
  next
    case False
    then show ?thesis using 2 by auto
  qed
qed simp

lemma keep_entries:
  assumes inv: "qm_inv m" and len: "length fs' = length (futures m)"
    and hit: "\<And>i p. (i, p) \<in> set (mQueries m) \<Longrightarrow> P i p \<Longrightarrow> fs' ! qp_result p \<noteq> None"
    and miss: "\<And>f. (\<And>i p. (i, p) \<in> set (mQueries m) \<Longrightarrow> P i p \<Longrightarrow> qp_result p \<noteq> f) \<Longrightarrow> fs' ! f = futures m ! f"
  shows "evolves m (m\<lparr>mQueries := filter (\<lambda>(i, p). \<not> P i p) (mQueries m), futures := fs'\<rparr>)"
proof -
  let ?q = "filter (\<lambda>(i, p). \<not> P i p) (mQueries m)"
  have inj: "inj_on (qp_result \<circ> snd) (set (mQueries m))" "distinct (mQueries m)"
    and ok: "\<And>e. e \<in> set (mQueries m) \<Longrightarrow> entry_ok (futures m) e"
    and all: "\<And>f. f < length (futures m) \<Longrightarrow> futures m ! f = None \<Longrightarrow> \<exists>i p. (i, p) \<in> set (mQueries m) \<and> qp_result p = f"
    using inv by (fastforce simp: qm_inv_def promises_def distinct_map)+
  have "entry_ok fs' e" if e: "e \<in> set ?q" for e
  proof -
    have "fs' ! qp_result (snd e) = futures m ! qp_result (snd e)"
    proof (rule miss, rule notI)
      fix i p
      assume "(i, p) \<in> set (mQueries m)" "P i p" "qp_result p = qp_result (snd e)"
      then have "(i, p) = e" using e inj_onD [OF inj(1), of "(i, p)" e] by simp
      then show False using e \<open>P i p\<close> by auto
    qed
    then show ?thesis using ok [of e] e len by (simp add: entry_ok_def)
  qed
  moreover have "om_inv ?q" using inv by (simp add: qm_inv_def om_inv_def sorted_wrt_map sorted_wrt_filter)
  moreover have "distinct (map (qp_result \<circ> snd) ?q)" using inj by (simp add: distinct_map inj_on_def)
  moreover have "f \<in> set (map (qp_result \<circ> snd) ?q)" if f: "f < length fs'" "fs' ! f = None" for f
  proof -
    have "futures m ! f = None" using f hit miss [of f] by metis
    then obtain i p where "(i, p) \<in> set (mQueries m)" "qp_result p = f" using all f(1) len by metis
    then show ?thesis using hit [of i p] f(2) by force
  qed
  ultimately have "qm_inv (m\<lparr>mQueries := ?q, futures := fs'\<rparr>)" by (simp add: qm_inv_def promises_def)
  moreover have "fs' ! f = futures m ! f" if "f < length (futures m)" "futures m ! f \<noteq> None" for f
    by (rule miss) (use that ok in \<open>auto simp: entry_ok_def\<close>)
  ultimately show ?thesis using len by (auto simp: evolves_def futures_grow_def)
qed

lemma expire_evolves:
  assumes inv: "qm_inv m"
  obtains fs' where "expire_all P (mQueries m) (futures m) = Some fs'"
    "evolves m (m\<lparr>mQueries := filter (\<lambda>(i, p). \<not> P p) (mQueries m), futures := fs'\<rparr>)"
proof -
  have "distinct (map (qp_result \<circ> snd) (mQueries m))" "\<forall>e \<in> set (mQueries m). entry_ok (futures m) e"
    using inv by (simp_all add: qm_inv_def promises_def)
  from expire_all_ok [OF this, of P] obtain fs' where fs': "expire_all P (mQueries m) (futures m) = Some fs'"
    "length fs' = length (futures m)"
    "\<And>f. fs' ! f = (if \<exists>(i, p) \<in> set (mQueries m). P p \<and> qp_result p = f
            then Some \<lparr>res_code = R_network_error, res_response = []\<rparr> else futures m ! f)"
    by blast
  show thesis
  proof (rule that [OF fs'(1)], rule keep_entries [OF inv fs'(2)])
    show "fs' ! qp_result p \<noteq> None" if "(i, p) \<in> set (mQueries m)" "P p" for i p
      unfolding fs'(3) using that by auto
    show "fs' ! f = futures m ! f" if "\<And>i p. (i, p) \<in> set (mQueries m) \<Longrightarrow> P p \<Longrightarrow> qp_result p \<noteq> f" for f
      unfolding fs'(3) using that by auto
  qed
qed

lemma cleanup_ok:
  assumes "qm_inv m"
  obtains m' where "cleanup_queries m = Some m'" "evolves m m'"
    "mQueries m' = filter (\<lambda>(i, p). \<not> tries p \<ge> kMaxTries) (mQueries m)"
proof -
  from expire_evolves [OF assms, of "\<lambda>p. tries p \<ge> kMaxTries"] obtain fs' where
    "expire_all (\<lambda>p. tries p \<ge> kMaxTries) (mQueries m) (futures m) = Some fs'"
    "evolves m (m\<lparr>mQueries := filter (\<lambda>(i, p). \<not> tries p \<ge> kMaxTries) (mQueries m), futures := fs'\<rparr>)" .
  then show thesis using that by (simp add: cleanup_queries_def)
qed

lemma clear_ok:
  assumes "qm_inv m"
  obtains m' where "clear_queries m = Some m'" "evolves m m'" "mQueries m' = []"
proof -
  from expire_evolves [OF assms, of "\<lambda>p. True"] obtain fs' where
    "expire_all (\<lambda>p. True) (mQueries m) (futures m) = Some fs'"
    "evolves m (m\<lparr>mQueries := filter (\<lambda>(i, p). \<not> True) (mQueries m), futures := fs'\<rparr>)" .
  moreover have "filter (\<lambda>(i, p). \<not> True) (mQueries m) = []" by (simp add: case_prod_beta)
  ultimately show thesis using that by (simp add: clear_queries_def)
qed

lemma promise_entry:
  assumes "qm_inv m" "map_of (mQueries m) i = Some p"
  shows "entry_ok (futures m) (i, p)" "(i, p) \<in> set (mQueries m)"
  using assms by (auto simp: qm_inv_def mem_map_of)

text \<open>A response goes to the query with its ID, and to no other.\<close>

lemma onResponse_pending:
  assumes inv: "qm_inv m" and r: "2 \<le> length r" and p: "map_of (mQueries m) (response_id r) = Some p"
  obtains m' where "onResponse r m = Some m'" "evolves m m'" "mQueries m' = om_erase (response_id r) (mQueries m)"
    "futures m' = (futures m)[qp_result p :=
       Some \<lparr>res_code = R_success, res_response = take 2 (q_query (qp_query p)) @ drop 2 r\<rparr>]"
proof -
  let ?data = "q_query (qp_query p)"
  let ?v = "\<lparr>res_code = R_success, res_response = take 2 ?data @ drop 2 r\<rparr>"
  let ?fs = "(futures m)[qp_result p := Some ?v]"
  note ok = promise_entry [OF inv p]
  have "r[0 := ?data ! 0, 1 := ?data ! 1] = take 2 ?data @ drop 2 r"
    using r ok(1) by (cases r; cases "tl r"; cases ?data; cases "tl ?data") (auto simp: entry_ok_def)
  then have run: "onResponse r m = Some (m\<lparr>mQueries := om_erase (response_id r) (mQueries m), futures := ?fs\<rparr>)"
    using r p ok(1) by (simp add: onResponse_def entry_ok_def set_value_def Let_def)
  have filt: "om_erase (response_id r) (mQueries m) = filter (\<lambda>(i, q). \<not> i = response_id r) (mQueries m)"
    by (simp add: om_erase_def case_prod_unfold)
  have only: "q = p" if "(response_id r, q) \<in> set (mQueries m)" for q
    using that p inv by (auto simp: qm_inv_def mem_map_of)
  have "evolves m (m\<lparr>mQueries := filter (\<lambda>(i, q). \<not> i = response_id r) (mQueries m), futures := ?fs\<rparr>)"
  proof (rule keep_entries [OF inv])
    show "?fs ! qp_result q \<noteq> None" if "(i, q) \<in> set (mQueries m)" "i = response_id r" for i q
      using that only ok(1) by (auto simp: entry_ok_def)
    show "?fs ! f = futures m ! f"
      if "\<And>i q. (i, q) \<in> set (mQueries m) \<Longrightarrow> i = response_id r \<Longrightarrow> qp_result q \<noteq> f" for f
      using that [OF ok(2)] by simp
  qed simp
  then show thesis using that [OF run] filt by simp
qed

lemma onResponse_ok:
  assumes "qm_inv m"
  obtains m' where "onResponse r m = Some m'" "evolves m m'" "set (mQueries m') \<subseteq> set (mQueries m)"
proof (cases "2 \<le> length r \<and> map_of (mQueries m) (response_id r) \<noteq> None")
  case True
  then obtain p where p: "2 \<le> length r" "map_of (mQueries m) (response_id r) = Some p" by auto
  from onResponse_pending [OF assms p] that show thesis by (metis filter_is_subset om_erase_def)
next
  case False
  then have "onResponse r m = Some m" by (auto simp: onResponse_def)
  then show thesis using that evolves_refl [OF assms] by simp
qed

lemma markTried_ok:
  assumes "qm_inv m"
  shows "evolves m (markTried i m)"
proof -
  let ?q = "mQueries (markTried i m)"
  have keys: "map fst ?q = map fst (mQueries m)" "map (qp_result \<circ> snd) ?q = map (qp_result \<circ> snd) (mQueries m)"
    by (auto simp: markTried_def)
  then have "qm_inv (markTried i m)"
    using assms by (auto simp: qm_inv_def promises_def om_inv_def entry_ok_def) (auto simp: markTried_def)
  then show ?thesis by (auto simp: evolves_def markTried_def)
qed

lemma om_put_fresh: "map_of m k = None \<Longrightarrow> mset (om_put k v m) = add_mset (k, v) (mset m)"
  by (induction k v m rule: om_put.induct) (auto split: if_splits)

text \<open>A query is recorded under an ID that is free, unless it is too short or no ID is free.\<close>

lemma recordQuery_fails:
  assumes "qm_inv m" "length q < 2 \<or> length (mQueries m) = UINT16_MAX + 1"
  shows "recordQuery q m = (None, m)"
  using assms getFreeId_full [of m] by (auto simp: recordQuery_def qm_inv_def)

lemma recordQuery_records:
  assumes inv: "qm_inv m" and len: "2 \<le> length q" "length (mQueries m) \<noteq> UINT16_MAX + 1"
  obtains i m' where "map_of (mQueries m) i = None"
    "recordQuery q m = (Some (\<lparr>newId = i, q_query = q\<rparr>, length (futures m)), m')"
    "mQueries m' = om_put i \<lparr>qp_query = \<lparr>newId = i, q_query = q\<rparr>, tries = 0, qp_result = length (futures m)\<rparr> (mQueries m)"
    "futures m' = futures m @ [None]" "evolves m m'"
proof -
  obtain i where i: "getFreeId m = uint i" "map_of (mQueries m) i = None"
    using getFreeId_free [of m] inv len(2) by (auto simp: qm_inv_def)
  let ?p = "\<lparr>qp_query = \<lparr>newId = i, q_query = q\<rparr>, tries = 0, qp_result = length (futures m)\<rparr>"
  let ?m = "m\<lparr>mQueries := om_put i ?p (mQueries m), futures := futures m @ [None]\<rparr>"
  have "recordQuery q m = (Some (\<lparr>newId = i, q_query = q\<rparr>, length (futures m)), ?m)"
    using i len by (simp add: recordQuery_def Let_def)
  moreover have "evolves m ?m"
  proof -
    have mset: "mset (mQueries ?m) = mset ((i, ?p) # mQueries m)"
      using om_put_fresh [OF i(2)] by simp
    then have set: "set (mQueries ?m) = insert (i, ?p) (set (mQueries m))"
      by (metis list.set(2) set_mset_mset)
    have ok: "entry_ok (futures m) e \<Longrightarrow> entry_ok (futures m @ [None]) e" for e
      by (simp add: entry_ok_def nth_append)
    have "mset (promises ?m) = mset (length (futures m) # promises m)"
      using arg_cong [OF mset, of "image_mset (qp_result \<circ> snd)"] by (simp add: promises_def)
    then have "distinct (promises ?m) \<longleftrightarrow> distinct (length (futures m) # promises m)"
      "set (promises ?m) = insert (length (futures m)) (set (promises m))"
      by (metis mset_eq_imp_distinct_iff, metis list.set(2) set_mset_mset)
    moreover have "length (futures m) \<notin> set (promises m)"
      using inv by (auto simp: qm_inv_def promises_def entry_ok_def)
    ultimately have "qm_inv ?m"
      using inv len(1) set ok by (auto simp: qm_inv_def om_inv_put less_Suc_eq nth_append) (auto simp: entry_ok_def)
    then show ?thesis using set by (auto simp: evolves_def futures_grow_def nth_append)
  qed
  ultimately show thesis using that [of i ?m] i(2) by simp
qed

end
