(* ===== verification/Step_Systems.thy ===== *)
theory Step_Systems
  imports Netd_Prelude
begin

text \<open>
  Systems of threads as sequences of labelled steps. A step that is enabled runs and gives the next
  state, or \<open>None\<close> where the program would be stuck or undefined: an uncaught exception, a
  deadlock, an access to an object that is gone. The invariant rule is a locale, interpreted for each
  system.
\<close>

inductive reachable :: "('l \<Rightarrow> 's \<Rightarrow> bool) \<Rightarrow> ('l \<Rightarrow> 's \<Rightarrow> 's option) \<Rightarrow> 's \<Rightarrow> 's \<Rightarrow> bool"
  for en ex s0 where
  reach_init: "reachable en ex s0 s0"
| reach_step: "reachable en ex s0 s \<Longrightarrow> en l s \<Longrightarrow> ex l s = Some s' \<Longrightarrow> reachable en ex s0 s'"

text \<open>A run: every step is enabled where it is taken.\<close>

fun run_steps :: "('l \<Rightarrow> 's \<Rightarrow> bool) \<Rightarrow> ('l \<Rightarrow> 's \<Rightarrow> 's option) \<Rightarrow> 'l list \<Rightarrow> 's \<Rightarrow> 's option" where
  "run_steps en ex [] s = Some s"
| "run_steps en ex (l # ls) s =
     (if en l s then (case ex l s of None \<Rightarrow> None | Some s' \<Rightarrow> run_steps en ex ls s') else None)"

lemma run_steps_reachable:
  "run_steps en ex ls s = Some s' \<Longrightarrow> reachable en ex s0 s \<Longrightarrow> reachable en ex s0 s'"
  by (induction ls arbitrary: s) (auto split: if_splits option.splits intro: reach_step)

lemma run_append:
  "run_steps en ex (a @ b) s = Option.bind (run_steps en ex a s) (run_steps en ex b)"
  by (induction a arbitrary: s) (auto split: option.splits)

locale step_invariant =
  fixes en :: "'l \<Rightarrow> 's \<Rightarrow> bool"
    and ex :: "'l \<Rightarrow> 's \<Rightarrow> 's option"
    and s0 :: 's
    and inv :: "'s \<Rightarrow> bool"
  assumes inv_init: "inv s0"
    and inv_step: "inv s \<Longrightarrow> en l s \<Longrightarrow> \<exists>s'. ex l s = Some s' \<and> inv s'"
begin

lemma reachable_inv: "reachable en ex s0 s \<Longrightarrow> inv s"
  by (induction rule: reachable.induct) (use inv_init inv_step in fastforce)+

text \<open>No reachable state gets stuck.\<close>

lemma never_stuck: "reachable en ex s0 s \<Longrightarrow> en l s \<Longrightarrow> ex l s \<noteq> None"
  using reachable_inv inv_step by fastforce

lemma run_inv: "inv s \<Longrightarrow> run_steps en ex ls s = Some s' \<Longrightarrow> inv s'"
proof (induction ls arbitrary: s)
  case (Cons l ls)
  then show ?case using inv_step [of s l] by (auto split: if_splits)
qed simp

end

end
