(* ===== verification/Dns_Tls_Transport.thy ===== *)
theory Dns_Tls_Transport
  imports Dns_Tls_Query_Map Step_Systems "HOL-Library.Monad_Syntax"
begin

text \<open>
  resolv/DnsTlsTransport.cpp: one connection to a DNS-over-TLS server, reopened as needed, with the
  pending queries reissued. The methods run on client threads, on the thread of the socket and on the
  reconnect thread. A method that holds \<open>mLock\<close> is one step, except that responses arrive without
  that lock: the socket thread may deliver some wherever the query map is not locked, so the methods
  below let any responses arrive at these places.

  The socket and its factory are the interfaces \<open>IDnsTlsSocket\<close> and \<open>IDnsTlsSocketFactory\<close>, and a
  parameter here: whether a connection or a send succeeds and what arrives are arbitrary functions of
  the history. \<open>None\<close> stands for being stuck: an uncaught exception, a null dereference, or joining a
  thread that waits for a lock the joining thread holds.
\<close>

section \<open>State\<close>

datatype tls_event = EvConnect bool | EvSend u16 bytes bool | EvArrive "bytes list"

record tls_env =
  tls_connects :: "tls_event list \<Rightarrow> bool"
  tls_sends :: "tls_event list \<Rightarrow> u16 \<Rightarrow> bytes \<Rightarrow> bool"
  tls_arrives :: "tls_event list \<Rightarrow> bytes list"

text \<open>A socket that is open, or one that has called \<open>onClosed\<close>, which it does once, at the end of its loop.\<close>

datatype tls_socket = SockOpen | SockClosed

text \<open>The reconnect thread waits for \<open>mLock\<close> at its start; after that it runs to its end.\<close>

datatype reconnect_thread = ThreadWaiting | ThreadFinished

record transport =
  t_queries :: query_map
  mSocket :: "tls_socket option"
  mClosing :: bool
  mReconnectThread :: "reconnect_thread option"
  tls_log :: "tls_event list"

definition DnsTlsTransport_new :: transport where
  "DnsTlsTransport_new =
     \<lparr>t_queries = DnsTlsQueryMap_new, mSocket = None, mClosing = False, mReconnectThread = None, tls_log = []\<rparr>"

section \<open>Operations\<close>

text \<open>Responses that the socket thread delivers while another thread holds \<open>mLock\<close>.\<close>

fun onResponses :: "bytes list \<Rightarrow> query_map \<Rightarrow> query_map option" where
  "onResponses [] m = Some m"
| "onResponses (r # rs) m = do { m' \<leftarrow> onResponse r m; onResponses rs m' }"

definition arrive :: "tls_env \<Rightarrow> transport \<Rightarrow> transport option" where
  "arrive E t =
     (let rs = tls_arrives E (tls_log t) in
      map_option (\<lambda>m. t\<lparr>t_queries := m, tls_log := tls_log t @ [EvArrive rs]\<rparr>) (onResponses rs (t_queries t)))"

definition sendQuery :: "tls_env \<Rightarrow> Query \<Rightarrow> transport \<Rightarrow> (bool \<times> transport) option" where
  "sendQuery E q t =
     (if mSocket t = None then None
      else let body = drop 2 (q_query q);
               sent = tls_sends E (tls_log t) (newId q) body;
               t' = t\<lparr>tls_log := tls_log t @ [EvSend (newId q) body sent]\<rparr>
           in Some (sent, if sent then t'\<lparr>t_queries := markTried (newId q) (t_queries t')\<rparr> else t'))"

fun send_all :: "tls_env \<Rightarrow> Query list \<Rightarrow> transport \<Rightarrow> transport option" where
  "send_all E [] t = Some t"
| "send_all E (q # qs) t = do {
     t1 \<leftarrow> arrive E t;
     (sent, t2) \<leftarrow> sendQuery E q t1;
     if sent then send_all E qs t2 else Some t2 }"

definition doConnect :: "tls_env \<Rightarrow> transport \<Rightarrow> transport option" where
  "doConnect E t =
     (let ok = tls_connects E (tls_log t);
          t' = t\<lparr>mSocket := (if ok then Some SockOpen else None), tls_log := tls_log t @ [EvConnect ok]\<rparr>
      in if ok then send_all E (getAll (t_queries t')) t'
         else map_option (\<lambda>m. t'\<lparr>t_queries := m\<rparr>) (clear_queries (t_queries t')))"

text \<open>The future a client gets: one that is ready with an error, or the one of its promise.\<close>

definition transport_query :: "tls_env \<Rightarrow> bytes \<Rightarrow> transport \<Rightarrow> ((Result + nat) \<times> transport) option" where
  "transport_query E query t =
     (case recordQuery query (t_queries t) of
        (None, m) \<Rightarrow> Some (Inl \<lparr>res_code = R_internal_error, res_response = []\<rparr>, t\<lparr>t_queries := m\<rparr>)
      | (Some (q, f), m) \<Rightarrow> do {
          t1 \<leftarrow> arrive E (t\<lparr>t_queries := m\<rparr>);
          t2 \<leftarrow> (if mSocket t1 = None then doConnect E t1 else map_option snd (sendQuery E q t1));
          Some (Inr f, t2) })"

definition transport_onResponse :: "bytes \<Rightarrow> transport \<Rightarrow> transport option" where
  "transport_onResponse r t = map_option (\<lambda>m. t\<lparr>t_queries := m\<rparr>) (onResponse r (t_queries t))"

definition onClosed :: "transport \<Rightarrow> transport option" where
  "onClosed t =
     (let t' = t\<lparr>mSocket := Some SockClosed\<rparr> in
      if mClosing t then Some t'
      else if mReconnectThread t = Some ThreadWaiting then None
      else Some (t'\<lparr>mReconnectThread := Some ThreadWaiting\<rparr>))"

definition doReconnect :: "tls_env \<Rightarrow> transport \<Rightarrow> transport option" where
  "doReconnect E t =
     (let t' = t\<lparr>mReconnectThread := Some ThreadFinished\<rparr> in
      if mClosing t then Some t'
      else do {
        m \<leftarrow> cleanup_queries (t_queries t');
        t1 \<leftarrow> arrive E (t'\<lparr>t_queries := m\<rparr>);
        if \<not> queries_empty (t_queries t1) then doConnect E t1 else Some (t1\<lparr>mSocket := None\<rparr>) })"

text \<open>The destructor: the part under the lock, and what follows once the reconnect thread has ended.\<close>

definition transport_destroy :: "transport \<Rightarrow> transport option" where
  "transport_destroy t = map_option (\<lambda>m. t\<lparr>t_queries := m, mClosing := True\<rparr>) (clear_queries (t_queries t))"

definition transport_destroyed :: "transport \<Rightarrow> transport" where
  "transport_destroyed t = t\<lparr>mReconnectThread := None, mSocket := None\<rparr>"

section \<open>The threads\<close>

datatype tls_step = LQuery bytes | LResponse bytes | LClosed | LReconnect | LDestroy | LDestroyed

text \<open>
  Clients query only before destruction; a socket closes once; the reconnect thread runs once after
  it was started; the destructor ends after it joined that thread.
\<close>

fun tls_enabled :: "tls_step \<Rightarrow> transport \<Rightarrow> bool" where
  "tls_enabled (LQuery q) t \<longleftrightarrow> \<not> mClosing t"
| "tls_enabled (LResponse r) t \<longleftrightarrow> True"
| "tls_enabled LClosed t \<longleftrightarrow> mSocket t = Some SockOpen"
| "tls_enabled LReconnect t \<longleftrightarrow> mReconnectThread t = Some ThreadWaiting"
| "tls_enabled LDestroy t \<longleftrightarrow> \<not> mClosing t"
| "tls_enabled LDestroyed t \<longleftrightarrow> mClosing t \<and> mReconnectThread t \<noteq> Some ThreadWaiting"

fun tls_exec :: "tls_env \<Rightarrow> tls_step \<Rightarrow> transport \<Rightarrow> transport option" where
  "tls_exec E (LQuery q) t = map_option snd (transport_query E q t)"
| "tls_exec E (LResponse r) t = transport_onResponse r t"
| "tls_exec E LClosed t = onClosed t"
| "tls_exec E LReconnect t = doReconnect E t"
| "tls_exec E LDestroy t = transport_destroy t"
| "tls_exec E LDestroyed t = Some (transport_destroyed t)"

section \<open>Validation\<close>

text \<open>
  \<open>validate\<close>: the query it composes from eight random bytes, and its judgement of the result. The array
  of characters is a string literal, so its last element is the terminating zero.
\<close>

definition ascii :: "string \<Rightarrow> bytes" where
  "ascii s = map of_char s"

definition kDnsSafeChars :: bytes where
  "kDnsSafeChars = ascii ''abcdefhijklmnopqrstuvwxyzABCDEFHIJKLMNOPQRSTUVWXYZ0123456789'' @ [0]"

definition safe_char :: "u8 \<Rightarrow> u8" where
  "safe_char rnd = kDnsSafeChars ! (unat rnd mod length kDnsSafeChars)"

definition validation_query :: "bytes \<Rightarrow> bytes" where
  "validation_query rnd =
     [rnd ! 6, rnd ! 7, 1, 0, 0, 1, 0, 0, 0, 0, 0, 0] @
     17 # map safe_char (take 6 rnd) @ ascii ''-dnsotls-ds'' @
     6 # ascii ''metric'' @ 7 # ascii ''gstatic'' @ 3 # ascii ''com'' @ [0] @
     [0, 28] @ [0, 1]"

definition NS_HFIXEDSZ :: nat where "NS_HFIXEDSZ = 12"

definition validate_result :: "Result \<Rightarrow> bool" where
  "validate_result r =
     (if res_code r \<noteq> R_success then False
      else let recvbuf = res_response r in
      if length recvbuf < NS_HFIXEDSZ then False
      else uint (recvbuf ! 4) * 256 + uint (recvbuf ! 5) = 1)"

section \<open>The invariant\<close>

text \<open>
  The query map is consistent and no query was sent more than \<open>kMaxTries\<close> times; a waiting reconnect
  thread means that the socket has closed; a closed socket has a reconnect thread waiting, unless the
  transport is being destroyed; and queries are pending only while there is a socket.
\<close>

abbreviation pending :: "transport \<Rightarrow> (u16 \<times> QueryPromise) list" where
  "pending t \<equiv> mQueries (t_queries t)"

definition tr_inv :: "transport \<Rightarrow> bool" where
  "tr_inv t \<longleftrightarrow> qm_inv (t_queries t) \<and> (\<forall>(i, p) \<in> set (pending t). tries p \<le> kMaxTries) \<and>
     (mReconnectThread t = Some ThreadWaiting \<longrightarrow> mSocket t = Some SockClosed) \<and>
     (mSocket t = Some SockClosed \<longrightarrow> mReconnectThread t = Some ThreadWaiting \<or> mClosing t) \<and>
     (mSocket t = None \<or> mClosing t \<longrightarrow> pending t = [])"

text \<open>What the parts of a method that run under \<open>mLock\<close> leave alone.\<close>

definition inner :: "transport \<Rightarrow> transport \<Rightarrow> bool" where
  "inner t t' \<longleftrightarrow> evolves (t_queries t) (t_queries t') \<and> length (futures (t_queries t')) = length (futures (t_queries t)) \<and>
     mClosing t' = mClosing t \<and> mReconnectThread t' = mReconnectThread t"

lemma inner_trans: "inner a b \<Longrightarrow> inner b c \<Longrightarrow> inner a c"
  by (auto simp: inner_def intro: evolves_trans)

lemma onResponse_length: "onResponse r m = Some m' \<Longrightarrow> length (futures m') = length (futures m)"
  by (auto simp: onResponse_def set_value_def Let_def split: if_splits option.splits)

lemma onResponses_ok:
  assumes "qm_inv m"
  shows "\<exists>m'. onResponses rs m = Some m' \<and> evolves m m' \<and> set (mQueries m') \<subseteq> set (mQueries m) \<and>
    length (futures m') = length (futures m)"
  using assms
proof (induction rs arbitrary: m)
  case Nil
  then show ?case by (simp add: evolves_refl)
next
  case (Cons r rs)
  obtain m1 where m1: "onResponse r m = Some m1" "evolves m m1" "set (mQueries m1) \<subseteq> set (mQueries m)"
    using onResponse_ok [OF Cons.prems] .
  with Cons.IH [OF evolves_inv [OF m1(2)]] onResponse_length [OF m1(1)] show ?case
    by (auto intro: evolves_trans)
qed

lemma arrive_ok:
  assumes "qm_inv (t_queries t)"
  obtains t' where "arrive E t = Some t'" "inner t t'" "mSocket t' = mSocket t" "set (pending t') \<subseteq> set (pending t)"
  using that onResponses_ok [OF assms, of "tls_arrives E (tls_log t)"] by (auto simp: arrive_def Let_def inner_def)

definition sends_succeed :: "tls_env \<Rightarrow> bool" where
  "sends_succeed E \<longleftrightarrow> (\<forall>h i b. tls_sends E h i b)"

lemma sendQuery_ok:
  assumes "qm_inv (t_queries t)" "mSocket t \<noteq> None"
  obtains sent t' where "sendQuery E q t = Some (sent, t')" "inner t t'" "mSocket t' = mSocket t"
    "pending t' = (if sent then mQueries (markTried (newId q) (t_queries t)) else pending t)"
    "sends_succeed E \<longrightarrow> sent"
  using that assms markTried_ok [OF assms(1)] evolves_refl [OF assms(1)]
  by (simp add: sendQuery_def Let_def inner_def markTried_def sends_succeed_def)

text \<open>
  Sending the queries of a list of IDs: each pending query in the list is tried once more if the
  sends succeed, and none is tried more often than it is in the list.
\<close>

definition resent :: "bool \<Rightarrow> u16 list \<Rightarrow> transport \<Rightarrow> transport \<Rightarrow> bool" where
  "resent ok ids t t' \<longleftrightarrow>
     (\<forall>i p'. (i, p') \<in> set (pending t') \<longrightarrow>
        (\<exists>p. (i, p) \<in> set (pending t) \<and> qp_result p' = qp_result p \<and> tries p \<le> tries p' \<and>
           tries p' \<le> tries p + int (count_list ids i) \<and> (ok \<and> i \<in> set ids \<longrightarrow> tries p < tries p')))"

lemma resentE:
  assumes "resent ok ids t t'" "(i, p') \<in> set (pending t')"
  obtains p where "(i, p) \<in> set (pending t)" "qp_result p' = qp_result p" "tries p \<le> tries p'"
    "tries p' \<le> tries p + int (count_list ids i)" "ok \<and> i \<in> set ids \<longrightarrow> tries p < tries p'"
  using assms unfolding resent_def by blast

lemma resent_trans:
  assumes "resent ok a t t1" "resent ok b t1 t2"
  shows "resent ok (a @ b) t t2"
  unfolding resent_def
proof (intro allI impI)
  fix i p2
  assume "(i, p2) \<in> set (pending t2)"
  then obtain p1 where p1: "(i, p1) \<in> set (pending t1)" "qp_result p2 = qp_result p1" "tries p1 \<le> tries p2"
    "tries p2 \<le> tries p1 + int (count_list b i)" "ok \<and> i \<in> set b \<longrightarrow> tries p1 < tries p2"
    using resentE [OF assms(2)] by blast
  then obtain p where "(i, p) \<in> set (pending t)" "qp_result p1 = qp_result p" "tries p \<le> tries p1"
    "tries p1 \<le> tries p + int (count_list a i)" "ok \<and> i \<in> set a \<longrightarrow> tries p < tries p1"
    using resentE [OF assms(1)] by blast
  with p1 show "\<exists>p. (i, p) \<in> set (pending t) \<and> qp_result p2 = qp_result p \<and> tries p \<le> tries p2 \<and>
      tries p2 \<le> tries p + int (count_list (a @ b) i) \<and> (ok \<and> i \<in> set (a @ b) \<longrightarrow> tries p < tries p2)"
    by (intro exI [of _ p]) auto
qed

lemma resent_subset: "set (pending t') \<subseteq> set (pending t) \<Longrightarrow> resent ok [] t t'"
  unfolding resent_def by auto

lemma resent_fail: "resent False a t t' \<Longrightarrow> resent False (a @ b) t t'"
  unfolding resent_def by fastforce

lemma resent_mark:
  assumes "pending t' = (if sent then mQueries (markTried i (t_queries t)) else pending t)" "ok \<Longrightarrow> sent"
  shows "resent ok [i] t t'"
  using assms unfolding resent_def by (cases sent) (auto simp: markTried_def)

lemma send_all_ok:
  assumes "qm_inv (t_queries t)" "mSocket t \<noteq> None"
  shows "\<exists>t'. send_all E qs t = Some t' \<and> inner t t' \<and> mSocket t' = mSocket t \<and> resent (sends_succeed E) (map newId qs) t t'"
  using assms
proof (induction qs arbitrary: t)
  case Nil
  then show ?case by (simp add: inner_def evolves_refl resent_subset)
next
  case (Cons q qs)
  obtain t1 where t1: "arrive E t = Some t1" "inner t t1" "mSocket t1 = mSocket t" "set (pending t1) \<subseteq> set (pending t)"
    using arrive_ok [OF Cons.prems(1)] .
  then have "qm_inv (t_queries t1)" "mSocket t1 \<noteq> None"
    using Cons.prems by (auto simp: inner_def dest: evolves_inv)
  then obtain sent t2 where t2: "sendQuery E q t1 = Some (sent, t2)" "inner t1 t2" "mSocket t2 = mSocket t1"
    "pending t2 = (if sent then mQueries (markTried (newId q) (t_queries t1)) else pending t1)"
    "sends_succeed E \<longrightarrow> sent"
    using sendQuery_ok [of t1 E q] by blast
  have one: "resent (sends_succeed E) [newId q] t t2" "inner t t2"
    using resent_trans [OF resent_subset [OF t1(4)] resent_mark [OF t2(4)], of "sends_succeed E"] t2(5)
      inner_trans [OF t1(2) t2(2)] by auto
  show ?case
  proof (cases sent)
    case True
    have "qm_inv (t_queries t2)" "mSocket t2 \<noteq> None"
      using t1(3) t2(2,3) Cons.prems by (auto simp: inner_def dest: evolves_inv)
    from Cons.IH [OF this] obtain t' where t': "send_all E qs t2 = Some t'" "inner t2 t'" "mSocket t' = mSocket t2"
      "resent (sends_succeed E) (map newId qs) t2 t'"
      by blast
    then show ?thesis
      using t1(1,3) t2(1,3) True inner_trans [OF one(2) t'(2)] resent_trans [OF one(1) t'(4)] by simp
  next
    case False
    then have "\<not> sends_succeed E" using t2(5) by simp
    then show ?thesis
      using t1(1,3) t2(1,3) False one resent_fail [of "[newId q]" t t2 "map newId qs"] by simp
  qed
qed

lemma clear_length: "clear_queries m = Some m' \<Longrightarrow> qm_inv m \<Longrightarrow> length (futures m') = length (futures m)"
  using expire_all_ok [of "mQueries m" "futures m" "\<lambda>p. True"] by (auto simp: clear_queries_def qm_inv_def promises_def)

lemma cleanup_length: "cleanup_queries m = Some m' \<Longrightarrow> qm_inv m \<Longrightarrow> length (futures m') = length (futures m)"
  using expire_all_ok [of "mQueries m" "futures m" "\<lambda>p. tries p \<ge> kMaxTries"]
  by (auto simp: cleanup_queries_def qm_inv_def promises_def)

lemma pending_ids:
  assumes "qm_inv m"
  shows "map newId (getAll m) = map fst (mQueries m)"
  using assms by (auto simp: getAll_def qm_inv_def entry_ok_def)

lemma count_list_distinct: "distinct xs \<Longrightarrow> count_list xs x \<le> 1"
  by (induction xs) auto

lemma count_ids: "qm_inv m \<Longrightarrow> count_list (map newId (getAll m)) i \<le> 1"
  unfolding pending_ids by (rule count_list_distinct) (simp add: om_inv_distinct qm_inv_def)

lemma doConnect_ok:
  assumes "qm_inv (t_queries t)"
  obtains t' where "doConnect E t = Some t'" "inner t t'"
    "mSocket t' = Some SockOpen \<and> resent (sends_succeed E) (map newId (getAll (t_queries t))) t t' \<or>
     mSocket t' = None \<and> pending t' = []"
proof (cases "tls_connects E (tls_log t)")
  case True
  let ?t = "t\<lparr>mSocket := Some SockOpen, tls_log := tls_log t @ [EvConnect True]\<rparr>"
  from send_all_ok [of ?t E "getAll (t_queries t)"] obtain t' where
    "send_all E (getAll (t_queries t)) ?t = Some t'" "inner ?t t'" "mSocket t' = Some SockOpen"
    "resent (sends_succeed E) (map newId (getAll (t_queries t))) ?t t'"
    using assms by auto
  then show thesis using that True by (simp add: doConnect_def inner_def resent_def)
next
  case False
  from clear_ok [OF assms] obtain m where "clear_queries (t_queries t) = Some m" "evolves (t_queries t) m" "mQueries m = []" .
  then show thesis using that False clear_length [OF _ assms] by (simp add: doConnect_def inner_def)
qed

text \<open>After a query, its promise is pending with at most one try, or resolved; the others are as before.\<close>

lemma transport_query_ok:
  assumes inv: "tr_inv t" and opn: "\<not> mClosing t"
  shows "\<exists>r t'. transport_query E q t = Some (r, t') \<and> tr_inv t' \<and> evolves (t_queries t) (t_queries t')"
proof (cases "length q < 2 \<or> length (pending t) = UINT16_MAX + 1")
  case True
  then show ?thesis
    using recordQuery_fails [of "t_queries t" q] inv by (auto simp: transport_query_def tr_inv_def evolves_refl)
next
  case False
  have qm: "qm_inv (t_queries t)" using inv by (simp add: tr_inv_def)
  obtain i m where i: "map_of (pending t) i = None"
    and m: "recordQuery q (t_queries t) = (Some (\<lparr>newId = i, q_query = q\<rparr>, length (futures (t_queries t))), m)"
      "mQueries m = om_put i \<lparr>qp_query = \<lparr>newId = i, q_query = q\<rparr>, tries = 0, qp_result = length (futures (t_queries t))\<rparr> (pending t)"
      "evolves (t_queries t) m"
    using recordQuery_records [OF qm leI, of q] False by blast
  have set_m: "set (mQueries m) = insert (i, \<lparr>qp_query = \<lparr>newId = i, q_query = q\<rparr>, tries = 0, qp_result = length (futures (t_queries t))\<rparr>) (set (pending t))"
    using arg_cong [OF om_put_fresh [OF i], of set_mset] m(2) by simp
  obtain t1 where t1: "arrive E (t\<lparr>t_queries := m\<rparr>) = Some t1" "inner (t\<lparr>t_queries := m\<rparr>) t1"
    "mSocket t1 = mSocket t" "set (pending t1) \<subseteq> set (mQueries m)"
    using arrive_ok [of "t\<lparr>t_queries := m\<rparr>" E] evolves_inv [OF m(3)] by auto
  have qm1: "qm_inv (t_queries t1)" "evolves (t_queries t) (t_queries t1)"
    using t1(2) evolves_trans [OF m(3)] by (auto simp: inner_def dest: evolves_inv)
  show ?thesis
  proof (cases "mSocket t")
    case None
    then have "pending t = []" using inv by (simp add: tr_inv_def)
    then have zero: "tries p = 0" if "(j, p) \<in> set (pending t1)" for j p using that t1(4) set_m by auto
    obtain t2 where t2: "doConnect E t1 = Some t2" "inner t1 t2"
      "mSocket t2 = Some SockOpen \<and> resent (sends_succeed E) (map newId (getAll (t_queries t1))) t1 t2 \<or> mSocket t2 = None \<and> pending t2 = []"
      using doConnect_ok [OF qm1(1)] .
    have "tries p \<le> kMaxTries" if "(j, p) \<in> set (pending t2)" for j p
    proof -
      have "resent (sends_succeed E) (map newId (getAll (t_queries t1))) t1 t2" using t2(3) that by auto
      from resentE [OF this that] obtain p0 where
        "(j, p0) \<in> set (pending t1)" "tries p \<le> tries p0 + int (count_list (map newId (getAll (t_queries t1))) j)" .
      then show ?thesis using zero [of j p0] count_ids [OF qm1(1), of j] by (simp add: kMaxTries_def)
    qed
    then have "tr_inv t2"
      using t1(2) t2(2,3) opn inv None by (auto simp: tr_inv_def inner_def dest: evolves_inv)
    then show ?thesis
      using m(1) t1(1,3) t2(1,2) None evolves_trans [OF qm1(2)] by (auto simp: transport_query_def inner_def)
  next
    case (Some sk)
    have sk: "mSocket t1 \<noteq> None" using Some t1(3) by simp
    let ?q = "\<lparr>newId = i, q_query = q\<rparr>"
    from sendQuery_ok [OF qm1(1) sk, of E ?q] obtain sent t2 where
      t2: "sendQuery E ?q t1 = Some (sent, t2)" "inner t1 t2" "mSocket t2 = mSocket t1"
        "pending t2 = (if sent then mQueries (markTried (newId ?q) (t_queries t1)) else pending t1)"
        "sends_succeed E \<longrightarrow> sent" .
    have fresh: "(i, p) \<notin> set (pending t)" for p using i by (force simp: map_of_eq_None_iff)
    have old: "0 \<le> tries p \<and> (tries p = 0 \<or> j \<noteq> i) \<and> tries p \<le> kMaxTries" if "(j, p) \<in> set (pending t1)" for j p
    proof (cases "(j, p) \<in> set (pending t)")
      case True
      then show ?thesis using fresh [of p] inv by (auto simp: tr_inv_def qm_inv_def entry_ok_def)
    next
      case False
      then have "tries p = 0" using that t1(4) set_m by auto
      then show ?thesis by (simp add: kMaxTries_def)
    qed
    have "tries p \<le> kMaxTries" if "(j, p) \<in> set (pending t2)" for j p
      using that t2(4) by (cases sent) (auto simp: markTried_def kMaxTries_def split: if_splits dest!: old)
    then have "tr_inv t2"
      using t1(2,3) t2(2,3) opn inv Some by (auto simp: tr_inv_def inner_def dest: evolves_inv)
    then show ?thesis
      using m(1) t1(1,3) t2(1,2) Some evolves_trans [OF qm1(2)] by (auto simp: transport_query_def inner_def)
  qed
qed

lemma doReconnect_ok:
  assumes inv: "tr_inv t" and wait: "mReconnectThread t = Some ThreadWaiting"
  obtains t' where "doReconnect E t = Some t'" "tr_inv t'" "evolves (t_queries t) (t_queries t')"
    "length (futures (t_queries t')) = length (futures (t_queries t))"
    "mClosing t \<or> (\<forall>(i, p') \<in> set (pending t'). \<exists>p. (i, p) \<in> set (pending t) \<and> qp_result p' = qp_result p \<and>
       (sends_succeed E \<longrightarrow> tries p < tries p'))"
proof (cases "mClosing t")
  case True
  then show thesis using that inv by (auto simp: doReconnect_def tr_inv_def evolves_refl)
next
  case False
  have qm: "qm_inv (t_queries t)" using inv by (simp add: tr_inv_def)
  obtain m where m: "cleanup_queries (t_queries t) = Some m" "evolves (t_queries t) m"
    "mQueries m = filter (\<lambda>(i, p). \<not> tries p \<ge> kMaxTries) (pending t)"
    using cleanup_ok [OF qm] .
  let ?t = "t\<lparr>mReconnectThread := Some ThreadFinished, t_queries := m\<rparr>"
  obtain t1 where t1: "arrive E ?t = Some t1" "inner ?t t1" "mSocket t1 = mSocket t" "set (pending t1) \<subseteq> set (mQueries m)"
    using arrive_ok [of ?t E] evolves_inv [OF m(2)] by auto
  have qm1: "qm_inv (t_queries t1)" "evolves (t_queries t) (t_queries t1)"
    using t1(2) evolves_trans [OF m(2)] by (auto simp: inner_def dest: evolves_inv)
  have len: "length (futures (t_queries t1)) = length (futures (t_queries t))"
    using t1(2) cleanup_length [OF m(1) qm] by (simp add: inner_def)
  show thesis
  proof (cases "pending t1 = []")
    case True
    then show thesis
      using that [of "t1\<lparr>mSocket := None\<rparr>"] False m(1) t1(1,2) qm1 len
      by (simp add: doReconnect_def queries_empty_def tr_inv_def inner_def)
  next
    case more: False
    obtain t2 where t2: "doConnect E t1 = Some t2" "inner t1 t2"
      "mSocket t2 = Some SockOpen \<and> resent (sends_succeed E) (map newId (getAll (t_queries t1))) t1 t2 \<or> mSocket t2 = None \<and> pending t2 = []"
      using doConnect_ok [OF qm1(1)] .
    have from_t: "\<exists>p. (i, p) \<in> set (pending t) \<and> qp_result p' = qp_result p \<and> tries p' \<le> kMaxTries \<and>
        (sends_succeed E \<longrightarrow> tries p < tries p')" if p': "(i, p') \<in> set (pending t2)" for i p'
    proof -
      have "resent (sends_succeed E) (map newId (getAll (t_queries t1))) t1 t2" using t2(3) p' by auto
      from resentE [OF this p'] obtain p where p: "(i, p) \<in> set (pending t1)" "qp_result p' = qp_result p"
        "tries p' \<le> tries p + int (count_list (map newId (getAll (t_queries t1))) i)"
        "sends_succeed E \<and> i \<in> set (map newId (getAll (t_queries t1))) \<longrightarrow> tries p < tries p'" .
      moreover have "i \<in> set (map newId (getAll (t_queries t1)))" using p(1) unfolding pending_ids [OF qm1(1)] by force
      moreover have "(i, p) \<in> set (pending t)" "tries p < kMaxTries" using p(1) t1(4) m(3) by auto
      ultimately show ?thesis using count_ids [OF qm1(1), of i] by (intro exI [of _ p]) simp
    qed
    then have "tr_inv t2"
      using t1(2) t2(2,3) False by (fastforce simp: tr_inv_def inner_def dest: evolves_inv)
    moreover have "doReconnect E t = Some t2"
      using False m(1) t1(1) t2(1) more by (simp add: doReconnect_def queries_empty_def)
    moreover have "evolves (t_queries t) (t_queries t2)" "length (futures (t_queries t2)) = length (futures (t_queries t))"
      using evolves_trans [OF qm1(2)] t2(2) len by (auto simp: inner_def)
    ultimately show thesis using that from_t by blast
  qed
qed

lemma tls_step_ok:
  assumes inv: "tr_inv t" and en: "tls_enabled l t"
  shows "\<exists>t'. tls_exec E l t = Some t' \<and> tr_inv t' \<and> evolves (t_queries t) (t_queries t')"
proof -
  have qm: "qm_inv (t_queries t)" using inv by (simp add: tr_inv_def)
  show ?thesis
  proof (cases l)
    case (LQuery q)
    then show ?thesis using transport_query_ok [OF inv, of E q] en by auto
  next
    case (LResponse r)
    obtain m where "onResponse r (t_queries t) = Some m" "evolves (t_queries t) m" "set (mQueries m) \<subseteq> set (pending t)"
      using onResponse_ok [OF qm] .
    then show ?thesis using LResponse inv
      by (auto simp: transport_onResponse_def tr_inv_def dest: evolves_inv)
  next
    case LClosed
    then show ?thesis using inv en evolves_refl [OF qm] by (cases "mClosing t") (auto simp: onClosed_def tr_inv_def Let_def)
  next
    case LReconnect
    then show ?thesis using doReconnect_ok [OF inv, of E] en by (metis tls_enabled.simps(4) tls_exec.simps(4))
  next
    case LDestroy
    obtain m where "clear_queries (t_queries t) = Some m" "evolves (t_queries t) m" "mQueries m = []"
      using clear_ok [OF qm] .
    then show ?thesis using LDestroy inv by (auto simp: transport_destroy_def tr_inv_def dest: evolves_inv)
  next
    case LDestroyed
    then show ?thesis using inv en evolves_refl [OF qm] by (auto simp: transport_destroyed_def tr_inv_def)
  qed
qed

interpretation tls: step_invariant tls_enabled "tls_exec E" DnsTlsTransport_new tr_inv for E
proof unfold_locales
  show "tr_inv DnsTlsTransport_new"
    using qm_inv_new by (simp add: tr_inv_def DnsTlsTransport_new_def DnsTlsQueryMap_new_def)
  show "\<exists>s'. tls_exec E l s = Some s' \<and> tr_inv s'" if "tr_inv s" "tls_enabled l s" for s l
    using tls_step_ok [OF that] by blast
qed

section \<open>Every query is answered\<close>

text \<open>The sends of the query with a promise, where it is pending.\<close>

definition tried :: "int \<Rightarrow> nat \<Rightarrow> transport \<Rightarrow> bool" where
  "tried n f t \<longleftrightarrow> (\<forall>(i, p) \<in> set (pending t). qp_result p = f \<longrightarrow> n \<le> tries p)"

lemma evolvesE:
  assumes "evolves m m'" "(i, p') \<in> set (mQueries m')" "qp_result p' < length (futures m)"
  obtains p where "(i, p) \<in> set (mQueries m)" "qp_query p = qp_query p'" "qp_result p = qp_result p'" "tries p \<le> tries p'"
  using assms unfolding evolves_def by blast

lemma tried_evolves:
  assumes "evolves (t_queries t) (t_queries t')" "f < length (futures (t_queries t))" "tried n f t"
  shows "tried n f t'"
  unfolding tried_def
proof (clarify)
  fix i p'
  assume "(i, p') \<in> set (pending t')" "f = qp_result p'"
  then obtain p where "(i, p) \<in> set (pending t)" "qp_result p = f" "tries p \<le> tries p'"
    using evolvesE [OF assms(1)] assms(2) by metis
  then show "n \<le> tries p'" using assms(3) by (auto simp: tried_def)
qed

lemma tried_reconnect:
  assumes "tr_inv t" "mReconnectThread t = Some ThreadWaiting" "doReconnect E t = Some t'" "sends_succeed E" "tried n f t"
  shows "tried (n + 1) f t'"
proof -
  obtain t'' where t'': "doReconnect E t = Some t''" "tr_inv t''" "evolves (t_queries t) (t_queries t'')"
    "length (futures (t_queries t'')) = length (futures (t_queries t))"
    "mClosing t \<or> (\<forall>(i, p') \<in> set (pending t''). \<exists>p. (i, p) \<in> set (pending t) \<and> qp_result p' = qp_result p \<and>
       (sends_succeed E \<longrightarrow> tries p < tries p'))"
    using doReconnect_ok [OF assms(1,2), of E] .
  have eq: "t'' = t'" using t''(1) assms(3) by simp
  have "pending t' = []" if "mClosing t"
    using that assms(1,3) by (auto simp: doReconnect_def tr_inv_def)
  then have from_t: "\<exists>p. (i, p) \<in> set (pending t) \<and> qp_result p' = qp_result p \<and> tries p < tries p'"
    if "(i, p') \<in> set (pending t')" for i p'
    using that assms(4) t''(5) unfolding eq by (cases "mClosing t") auto
  show ?thesis
    unfolding tried_def
  proof clarify
    fix i p'
    assume "(i, p') \<in> set (pending t')" "f = qp_result p'"
    then obtain p where "(i, p) \<in> set (pending t)" "qp_result p = f" "tries p < tries p'" using from_t by metis
    then show "n + 1 \<le> tries p'" using assms(5) by (auto simp: tried_def)
  qed
qed

lemma run_evolves:
  assumes "tr_inv t" "run_steps tls_enabled (tls_exec E) ls t = Some t'"
  shows "evolves (t_queries t) (t_queries t')"
  using assms
proof (induction ls arbitrary: t)
  case Nil
  then show ?case by (simp add: tr_inv_def evolves_refl)
next
  case (Cons l ls)
  have en: "tls_enabled l t" using Cons.prems(2) by (simp split: if_splits)
  from tls_step_ok [OF Cons.prems(1) en, of E] obtain t1 where
    t1: "tls_exec E l t = Some t1" "tr_inv t1" "evolves (t_queries t) (t_queries t1)" by blast
  have "run_steps tls_enabled (tls_exec E) ls t1 = Some t'" using Cons.prems(2) en t1(1) by simp
  from evolves_trans [OF t1(3) Cons.IH [OF t1(2) this]] show ?case .
qed

lemma tried_run:
  assumes "tr_inv t" "f < length (futures (t_queries t))" "run_steps tls_enabled (tls_exec E) ls t = Some t'"
    and "sends_succeed E" "tried n f t"
  shows "tried (n + int (count_list ls LReconnect)) f t' \<and> f < length (futures (t_queries t'))"
  using assms
proof (induction ls arbitrary: t n)
  case (Cons l ls)
  have en: "tls_enabled l t" using Cons.prems(3) by (simp split: if_splits)
  from tls_step_ok [OF Cons.prems(1) en, of E] obtain t1 where
    t1: "tls_exec E l t = Some t1" "tr_inv t1" "evolves (t_queries t) (t_queries t1)" by blast
  have len: "f < length (futures (t_queries t1))" using t1(3) Cons.prems(2) by (simp add: evolves_def futures_grow_def)
  have run: "run_steps tls_enabled (tls_exec E) ls t1 = Some t'" using Cons.prems(3) en t1(1) by simp
  show ?case
  proof (cases "l = LReconnect")
    case True
    then have "tried (n + 1) f t1"
      using tried_reconnect [OF Cons.prems(1) _ _ Cons.prems(4,5)] en t1(1) by simp
    from Cons.IH [OF t1(2) len run Cons.prems(4) this] True show ?thesis by (simp add: algebra_simps)
  next
    case False
    then show ?thesis
      using Cons.IH [OF t1(2) len run Cons.prems(4) tried_evolves [OF t1(3) Cons.prems(2,5)]] by simp
  qed
qed simp

lemma tried_out:
  assumes "tr_inv t" "tried n f t" "kMaxTries < n" "f < length (futures (t_queries t))"
  shows "futures (t_queries t) ! f \<noteq> None"
proof
  assume "futures (t_queries t) ! f = None"
  then have "f \<in> set (promises (t_queries t))" using assms(1,4) by (simp add: tr_inv_def qm_inv_def)
  then obtain i p where p: "(i, p) \<in> set (pending t)" "qp_result p = f" by (auto simp: promises_def)
  then have "n \<le> tries p" using assms(2) by (auto simp: tried_def)
  moreover have "tries p \<le> kMaxTries" using p(1) assms(1) by (auto simp: tr_inv_def)
  ultimately show False using assms(3) by simp
qed

end
