(* ===== verification/Dns_Tls_Properties.thy ===== *)
theory Dns_Tls_Properties
  imports Dns_Tls_Transport
begin

text \<open>What the transport guarantees to its clients, for every interleaving of its threads.\<close>

text \<open>
  Claim C9. Whatever the connections do and however the threads interleave, the transport is never stuck:
  no promise is set twice, no null socket is used, and joining the previous reconnect thread while
  holding the lock cannot deadlock. In every reachable state the unresolved futures are exactly those
  of the pending queries, no query was sent more than three times, and while queries are pending the
  socket is open or a reconnect thread is about to run.
\<close>

theorem tls_no_lost_query:
  assumes "reachable tls_enabled (tls_exec E) DnsTlsTransport_new t"
  shows "(tls_enabled l t \<longrightarrow> tls_exec E l t \<noteq> None) \<and>
    {f. f < length (futures (t_queries t)) \<and> futures (t_queries t) ! f = None} = set (promises (t_queries t)) \<and>
    (\<forall>(i, p) \<in> set (pending t). tries p \<le> 3) \<and>
    (pending t \<noteq> [] \<longrightarrow> mSocket t = Some SockOpen \<or> mSocket t = Some SockClosed \<and> mReconnectThread t = Some ThreadWaiting)"
proof -
  have inv: "tr_inv t" using tls.reachable_inv assms .
  then have "{f. f < length (futures (t_queries t)) \<and> futures (t_queries t) ! f = None} = set (promises (t_queries t))"
    by (auto simp: tr_inv_def qm_inv_def promises_def entry_ok_def)
  moreover have "pending t \<noteq> [] \<longrightarrow> mSocket t = Some SockOpen \<or> mSocket t = Some SockClosed \<and> mReconnectThread t = Some ThreadWaiting"
    using inv by (cases "mSocket t") (auto simp: tr_inv_def intro: tls_socket.exhaust)
  ultimately show ?thesis
    using tls.never_stuck [OF assms] inv by (auto simp: tr_inv_def kMaxTries_def)
qed

text \<open>A server that accepts connections and messages, and never answers.\<close>

definition silent_server :: tls_env where
  "silent_server = \<lparr>tls_connects = (\<lambda>h. True), tls_sends = (\<lambda>h i b. True), tls_arrives = (\<lambda>h. [])\<rparr>"

definition closes_once :: "tls_step list" where
  "closes_once = [LQuery [7, 9, 1], LClosed]"

lemma closes_once_run:
  "map_option (\<lambda>t. (mSocket t, mReconnectThread t, pending t \<noteq> []))
     (run_steps tls_enabled (tls_exec silent_server) closes_once DnsTlsTransport_new) =
   Some (Some SockClosed, Some ThreadWaiting, True)"
  by code_simp

theorem tls_no_lost_query_witness:
  "\<exists>t. run_steps tls_enabled (tls_exec silent_server) closes_once DnsTlsTransport_new = Some t \<and> pending t \<noteq> [] \<and>
     tls_exec silent_server LReconnect t \<noteq> None \<and>
     (mSocket t = Some SockOpen \<or> mSocket t = Some SockClosed \<and> mReconnectThread t = Some ThreadWaiting)"
proof -
  obtain t where t: "run_steps tls_enabled (tls_exec silent_server) closes_once DnsTlsTransport_new = Some t"
    "mReconnectThread t = Some ThreadWaiting" "pending t \<noteq> []"
    using closes_once_run by auto
  have "reachable tls_enabled (tls_exec silent_server) DnsTlsTransport_new t"
    by (rule run_steps_reachable [OF t(1) reach_init])
  from tls_no_lost_query [OF this, of LReconnect] t show ?thesis by auto
qed

text \<open>
  Claim C10. Every query is answered. As long as the sockets accept what is sent, a run in which the
  connection is reopened more than \<open>kMaxTries\<close> times resolves every query of its start, with a response
  or an error; and destroying the transport resolves all queries.
\<close>

theorem tls_queries_resolve:
  assumes "reachable tls_enabled (tls_exec E) DnsTlsTransport_new t" "f < length (futures (t_queries t))"
    and "run_steps tls_enabled (tls_exec E) ls t = Some t'"
    and "sends_succeed E \<and> kMaxTries < int (count_list ls LReconnect) \<or> mClosing t'"
  shows "f < length (futures (t_queries t')) \<and> futures (t_queries t') ! f \<noteq> None"
proof -
  have inv: "tr_inv t" using tls.reachable_inv assms(1) .
  have inv': "tr_inv t'" using tls.run_inv [OF inv assms(3)] .
  have len: "f < length (futures (t_queries t'))" 
    using run_evolves [OF inv assms(3)] assms(2) by (simp add: evolves_def futures_grow_def)
  from assms(4) show ?thesis
  proof
    assume ok: "sends_succeed E \<and> kMaxTries < int (count_list ls LReconnect)"
    have "tried 0 f t" using inv by (auto simp: tried_def tr_inv_def qm_inv_def entry_ok_def)
    then have "tried (0 + int (count_list ls LReconnect)) f t'"
      using tried_run [OF inv assms(2,3)] ok by blast
    then show ?thesis using tried_out [OF inv'] ok len by simp
  next
    assume "mClosing t'"
    then show ?thesis using inv' len by (auto simp: tr_inv_def qm_inv_def promises_def)
  qed
qed

definition reopened :: "tls_step list" where
  "reopened = [LClosed, LReconnect, LClosed, LReconnect, LClosed, LReconnect, LQuery [1, 1], LClosed, LReconnect]"

lemma reopened_run:
  "map_option (\<lambda>t. (length (futures (t_queries t)), futures (t_queries t) ! 0, run_steps tls_enabled (tls_exec silent_server) reopened t \<noteq> None))
     (run_steps tls_enabled (tls_exec silent_server) [LQuery [7, 9, 1]] DnsTlsTransport_new) =
   Some (1, None, True)"
  by code_simp

theorem tls_queries_resolve_witness:
  "\<exists>t t'. run_steps tls_enabled (tls_exec silent_server) [LQuery [7, 9, 1]] DnsTlsTransport_new = Some t \<and>
     futures (t_queries t) ! 0 = None \<and>
     run_steps tls_enabled (tls_exec silent_server) reopened t = Some t' \<and> futures (t_queries t') ! 0 \<noteq> None"
proof -
  obtain t t' where t: "run_steps tls_enabled (tls_exec silent_server) [LQuery [7, 9, 1]] DnsTlsTransport_new = Some t"
    "futures (t_queries t) ! 0 = None" "0 < length (futures (t_queries t))"
    and t': "run_steps tls_enabled (tls_exec silent_server) reopened t = Some t'"
    using reopened_run by fastforce
  have "reachable tls_enabled (tls_exec silent_server) DnsTlsTransport_new t"
    by (rule run_steps_reachable [OF t(1) reach_init])
  from tls_queries_resolve [OF this t(3) t'] t t' show ?thesis
    by (auto simp: sends_succeed_def silent_server_def kMaxTries_def reopened_def)
qed

text \<open>
  Claim C26. A response reaches its client as an answer to the message the client sent. If a response
  carries the ID under which a query is pending, exactly the future of that query is resolved, with
  the response under the client's own ID, and the query is no longer pending. A response with another ID
  changes nothing.
\<close>

theorem tls_response_matched:
  assumes "reachable tls_enabled (tls_exec E) DnsTlsTransport_new t" "2 \<le> length r"
  shows "case map_of (pending t) (response_id r) of
      None \<Rightarrow> transport_onResponse r t = Some t
    | Some p \<Rightarrow> \<exists>t'. transport_onResponse r t = Some t' \<and> map_of (pending t') = (map_of (pending t))(response_id r := None) \<and>
        (\<forall>f. futures (t_queries t') ! f =
           (if f = qp_result p then Some \<lparr>res_code = R_success, res_response = take 2 (q_query (qp_query p)) @ drop 2 r\<rparr>
            else futures (t_queries t) ! f))"
proof (cases "map_of (pending t) (response_id r)")
  case None
  then show ?thesis using assms(2) by (simp add: transport_onResponse_def onResponse_def)
next
  case (Some p)
  have qm: "qm_inv (t_queries t)" using tls.reachable_inv [OF assms(1)] by (simp add: tr_inv_def)
  obtain m where "onResponse r (t_queries t) = Some m" "evolves (t_queries t) m" "mQueries m = om_erase (response_id r) (pending t)"
    "futures m = (futures (t_queries t))[qp_result p := Some \<lparr>res_code = R_success, res_response = take 2 (q_query (qp_query p)) @ drop 2 r\<rparr>]"
    using onResponse_pending [OF qm assms(2) Some] .
  moreover have "qp_result p < length (futures (t_queries t))"
    using promise_entry(1) [OF qm Some] by (simp add: entry_ok_def)
  ultimately show ?thesis using Some by (simp add: transport_onResponse_def map_of_om_erase)
qed

theorem tls_response_matched_witness:
  "\<exists>t t' p. run_steps tls_enabled (tls_exec silent_server) [LQuery [7, 9, 1]] DnsTlsTransport_new = Some t \<and>
     map_of (pending t) 0 = Some p \<and> transport_onResponse [0, 0, 5, 6] t = Some t' \<and>
     futures (t_queries t') ! qp_result p = Some \<lparr>res_code = R_success, res_response = [7, 9, 5, 6]\<rparr>"
proof -
  have "map_option (\<lambda>t. map_option (q_query \<circ> qp_query) (map_of (pending t) 0))
      (run_steps tls_enabled (tls_exec silent_server) [LQuery [7, 9, 1]] DnsTlsTransport_new) = Some (Some [7, 9, 1])"
    by code_simp
  then obtain t p where t: "run_steps tls_enabled (tls_exec silent_server) [LQuery [7, 9, 1]] DnsTlsTransport_new = Some t"
    "map_of (pending t) 0 = Some p" "q_query (qp_query p) = [7, 9, 1]" by auto
  have "reachable tls_enabled (tls_exec silent_server) DnsTlsTransport_new t"
    by (rule run_steps_reachable [OF t(1) reach_init])
  moreover have "response_id [0, 0, 5, 6] = 0" by (simp add: response_id_def)
  ultimately show ?thesis using tls_response_matched [of silent_server t "[0, 0, 5, 6]"] t by auto
qed

section \<open>Retries without a limit\<close>

text \<open>
  The limit counts the sends that succeed. A server that completes the handshake and closes at once, so
  that sends fail, is reconnected to for ever: the query stays pending with no try counted.
\<close>

definition refusing_server :: tls_env where
  "refusing_server = \<lparr>tls_connects = (\<lambda>h. True), tls_sends = (\<lambda>h i b. False), tls_arrives = (\<lambda>h. [])\<rparr>"

definition stuck_query :: "transport \<Rightarrow> bool" where
  "stuck_query t \<longleftrightarrow> mSocket t = Some SockOpen \<and> \<not> mClosing t \<and> mReconnectThread t \<noteq> Some ThreadWaiting \<and>
     (\<exists>i p. pending t = [(i, p)] \<and> tries p = 0)"

lemma refused_round:
  assumes "stuck_query t"
  obtains t' where "run_steps tls_enabled (tls_exec refusing_server) [LClosed, LReconnect] t = Some t'" "stuck_query t'"
proof -
  obtain i p where "pending t = [(i, p)]" "tries p = 0" using assms by (auto simp: stuck_query_def)
  then show thesis
    using that assms
    by (simp add: stuck_query_def onClosed_def doReconnect_def cleanup_queries_def kMaxTries_def arrive_def refusing_server_def
        queries_empty_def doConnect_def getAll_def sendQuery_def Let_def)
qed

lemma refused_for_ever:
  assumes "stuck_query t"
  shows "\<exists>t'. run_steps tls_enabled (tls_exec refusing_server) (concat (replicate n [LClosed, LReconnect])) t = Some t' \<and> stuck_query t'"
  using assms
proof (induction n arbitrary: t)
  case (Suc n)
  obtain t1 where "run_steps tls_enabled (tls_exec refusing_server) [LClosed, LReconnect] t = Some t1" "stuck_query t1"
    using refused_round [OF Suc.prems] .
  then show ?case
    using Suc.IH [of t1] unfolding replicate_Suc concat.simps(2) run_append by (simp del: run_steps.simps)
qed simp

lemma refused_query:
  "map_option stuck_query (run_steps tls_enabled (tls_exec refusing_server) [LQuery [7, 9, 1]] DnsTlsTransport_new) = Some True"
  by (simp add: DnsTlsTransport_new_def DnsTlsQueryMap_new_def transport_query_def recordQuery_def getFreeId_def arrive_def
      refusing_server_def doConnect_def getAll_def sendQuery_def stuck_query_def Let_def)

text \<open>The characters for the name of a validation query include the zero that ends the string literal.\<close>

lemma safe_char_zero: "safe_char 60 = 0"
  by code_simp

end
