(* ===== verification/Dns_Tls_Connect.thy ===== *)
theory Dns_Tls_Connect
  imports Dns_Tls_Server Step_Systems
begin

text \<open>
  resolv/DnsTlsSocket.cpp, DnsTlsSessionCache.cpp and DnsTlsSocketFactory.h: how a connection is made and
  whom it trusts. BoringSSL is a parameter. An SSL context and an SSL object are the log of the calls
  made on them with their results, newest first, the calls on an object after those on its context; every
  answer of the library is a function of that log. What the library promises of a completed handshake and
  of the sessions it hands out are hypotheses of the theorem. \<open>SSL_new\<close> and \<open>BIO_new_socket\<close>, whose results the
  code does not look at, are taken to succeed.
\<close>

section \<open>The session cache\<close>

definition kMaxSize :: nat where "kMaxSize = 5"

definition recordSession :: "'s \<Rightarrow> 's list \<Rightarrow> 's list" where
  "recordSession session mSessions =
     (let sessions = session # mSessions in
      if length sessions > kMaxSize then butlast sessions else sessions)"

definition getSession :: "'s list \<Rightarrow> 's option \<times> 's list" where
  "getSession mSessions = (case mSessions of [] \<Rightarrow> (None, []) | s # ss \<Rightarrow> (Some s, ss))"

section \<open>The library\<close>

type_synonym ssl_session = nat

datatype ssl_call =
    CTX_new
  | CTX_load_verify_locations string
  | CTX_set_false_start_allowed_without_alpn
  | CTX_set_mode_false_start
  | CTX_set_session_cache
  | CTX_sess_set_new_cb
  | CTX_set_min_proto_version nat
  | Set_ex_data
  | Set_tlsext_host_name string
  | Set1_host string
  | Set_verify_peer
  | Set_session ssl_session

type_synonym ssl_log = "(ssl_call \<times> int) list"

datatype ssl_connect_outcome = ConnectDone | ConnectWantRead bool | ConnectWantWrite bool | ConnectError

datatype verify_result = X509_V_OK | X509_V_ERR_DEPTH_ZERO_SELF_SIGNED_CERT | X509_V_ERR_SELF_SIGNED_CERT_IN_CHAIN
  | X509_V_ERR_CERT_UNTRUSTED | X509_V_OTHER

text \<open>A certificate is what the two calls of \<open>i2d_X509_PUBKEY\<close> return for it, and the bytes of the second.\<close>

record X509 =
  pubkey_len :: int
  pubkey_len2 :: int
  pubkey_bytes :: bytes

text \<open>
  The answers of the library during one connection. The outcomes of \<open>SSL_connect\<close> carry whether the wait
  that follows succeeded. \<open>evp_sha256\<close> gives the return value, the bytes and the length of \<open>EVP_Digest\<close>.
  \<open>peer_valid\<close> is no answer but a fact about the peer: that it is one to whom a certificate for the name
  was issued by an authority of \<open>kCaCertDir\<close>.
\<close>

record ssl_env =
  ssl_answer :: "ssl_log \<Rightarrow> ssl_call \<Rightarrow> int"
  ssl_connect :: "ssl_log \<Rightarrow> ssl_connect_outcome list"
  verify_outcome :: "ssl_log \<Rightarrow> verify_result"
  peer_chain :: "ssl_log \<Rightarrow> X509 list option"
  evp_sha256 :: "bytes \<Rightarrow> int \<times> bytes \<times> nat"
  peer_valid :: "string \<Rightarrow> bool"

definition ssl_do :: "ssl_env \<Rightarrow> ssl_call \<Rightarrow> ssl_log \<Rightarrow> int \<times> ssl_log" where
  "ssl_do S c log = (ssl_answer S log c, (c, ssl_answer S log c) # log)"

section \<open>sslConnect\<close>

definition kCaCertDir :: string where "kCaCertDir = ''/system/etc/security/cacerts''"
definition SHA256_SIZE :: nat where "SHA256_SIZE = 32"
abbreviation TLS1_2_VERSION :: nat where "TLS1_2_VERSION \<equiv> 0x303"

definition c_str :: "string \<Rightarrow> string" where
  "c_str s = takeWhile (\<lambda>c. c \<noteq> CHR 0x00) s"

definition getSPKIDigest :: "ssl_env \<Rightarrow> X509 \<Rightarrow> bytes option" where
  "getSPKIDigest S cert =
     (if pubkey_len cert \<noteq> pubkey_len2 cert then None
      else case evp_sha256 S (pubkey_bytes cert) of
          (rv, out, digest_len) \<Rightarrow>
            if rv \<noteq> 1 then None
            else if digest_len \<noteq> SHA256_SIZE then None
            else Some out)"

definition prepareSsl :: "ssl_env \<Rightarrow> ssl_log \<Rightarrow> bool \<times> ssl_log" where
  "prepareSsl S ssl = (case ssl_do S Set_ex_data ssl of (rv, ssl') \<Rightarrow> (rv = 1, ssl'))"

definition prepareSslContext :: "ssl_env \<Rightarrow> ssl_log \<Rightarrow> ssl_log" where
  "prepareSslContext S ctx = snd (ssl_do S CTX_sess_set_new_cb (snd (ssl_do S CTX_set_session_cache ctx)))"

text \<open>The part for a server with a name; \<open>None\<close> returns a null pointer.\<close>

definition verify_name :: "ssl_env \<Rightarrow> string \<Rightarrow> ssl_log \<Rightarrow> ssl_log option" where
  "verify_name S name ssl =
     (if name = [] then Some ssl
      else case ssl_do S (Set_tlsext_host_name (c_str name)) ssl of (rv, ssl1) \<Rightarrow>
        if rv \<noteq> 1 then None
        else case ssl_do S (Set1_host name) ssl1 of (rv, ssl2) \<Rightarrow>
          if rv \<noteq> 1 then None
          else Some (snd (ssl_do S Set_verify_peer ssl2)))"

text \<open>What comes before \<open>SSL_connect\<close>: the object, if the call goes on, and the sessions left in the cache.\<close>

definition ssl_setup :: "ssl_env \<Rightarrow> DnsTlsServer \<Rightarrow> ssl_log \<Rightarrow> ssl_session list \<Rightarrow> ssl_log option \<times> ssl_session list" where
  "ssl_setup S server mSslCtx sessions =
     (case ssl_do S (CTX_set_min_proto_version TLS1_2_VERSION) mSslCtx of (rv, ctx) \<Rightarrow>
      if rv = 0 then (None, sessions)
      else case prepareSsl S ctx of (ok, ssl) \<Rightarrow>
        if \<not> ok then (None, sessions)
        else case verify_name S (server_name server) ssl of
            None \<Rightarrow> (None, sessions)
          | Some ssl1 \<Rightarrow>
              (case getSession sessions of
                 (None, rest) \<Rightarrow> (Some ssl1, rest)
               | (Some session, rest) \<Rightarrow> (Some (snd (ssl_do S (Set_session session) ssl1)), rest)))"

fun connect_loop :: "ssl_connect_outcome list \<Rightarrow> bool option" where
  "connect_loop [] = None"
| "connect_loop (ConnectDone # os) = Some True"
| "connect_loop (ConnectWantRead ready # os) = (if ready then connect_loop os else Some False)"
| "connect_loop (ConnectWantWrite ready # os) = (if ready then connect_loop os else Some False)"
| "connect_loop (ConnectError # os) = Some False"

fun match_fingerprint :: "ssl_env \<Rightarrow> bytes list \<Rightarrow> X509 list \<Rightarrow> bool" where
  "match_fingerprint S fps [] = False"
| "match_fingerprint S fps (cert # certs) =
     (case getSPKIDigest S cert of
        None \<Rightarrow> False
      | Some digest \<Rightarrow> if digest \<in> set fps then True else match_fingerprint S fps certs)"

definition check_fingerprints :: "ssl_env \<Rightarrow> bytes list \<Rightarrow> ssl_log \<Rightarrow> bool" where
  "check_fingerprints S fps ssl =
     (if fps = [] then True
      else if verify_outcome S ssl \<notin> {X509_V_OK, X509_V_ERR_DEPTH_ZERO_SELF_SIGNED_CERT,
                X509_V_ERR_SELF_SIGNED_CERT_IN_CHAIN, X509_V_ERR_CERT_UNTRUSTED} then False
      else case peer_chain S ssl of None \<Rightarrow> False | Some chain \<Rightarrow> match_fingerprint S fps chain)"

text \<open>\<open>None\<close>: the handshake goes on for ever. Otherwise the object or a null pointer, and the sessions left.\<close>

definition sslConnect ::
  "ssl_env \<Rightarrow> DnsTlsServer \<Rightarrow> ssl_log option \<Rightarrow> ssl_session list \<Rightarrow> (ssl_log option \<times> ssl_session list) option" where
  "sslConnect S server mSslCtx sessions =
     (case mSslCtx of
        None \<Rightarrow> Some (None, sessions)
      | Some ctx \<Rightarrow>
          (case ssl_setup S server ctx sessions of
             (None, rest) \<Rightarrow> Some (None, rest)
           | (Some ssl, rest) \<Rightarrow>
               (case connect_loop (ssl_connect S ssl) of
                  None \<Rightarrow> None
                | Some False \<Rightarrow> Some (None, rest)
                | Some True \<Rightarrow> Some (if check_fingerprints S (server_fingerprints server) ssl then Some ssl else None, rest))))"

section \<open>initialize\<close>

text \<open>The system calls of \<open>tcpConnect\<close>, each an error number or 0.\<close>

record tcp_env =
  tcp_socket_errno :: int
  tcp_mark_errno :: int
  tcp_connect_errno :: int

abbreviation EPROTONOSUPPORT :: int where "EPROTONOSUPPORT \<equiv> 93"
abbreviation EINPROGRESS :: int where "EINPROGRESS \<equiv> 115"

definition tcpConnect :: "tcp_env \<Rightarrow> DnsTlsServer \<Rightarrow> int" where
  "tcpConnect T server =
     (if server_protocol server \<noteq> IPPROTO_TCP then EPROTONOSUPPORT
      else if tcp_socket_errno T \<noteq> 0 then tcp_socket_errno T
      else if tcp_mark_errno T \<noteq> 0 then tcp_mark_errno T
      else if tcp_connect_errno T \<noteq> 0 \<and> tcp_connect_errno T \<noteq> EINPROGRESS then tcp_connect_errno T
      else 0)"

text \<open>The context that \<open>initialize\<close> stores in \<open>mSslCtx\<close>, and whether it goes on to connect.\<close>

definition ssl_context :: "ssl_env \<Rightarrow> ssl_log option \<times> bool" where
  "ssl_context S =
     (case ssl_do S CTX_new [] of (rv, ctx) \<Rightarrow>
      if rv = 0 then (None, False)
      else case ssl_do S (CTX_load_verify_locations kCaCertDir) ctx of (rv, ctx1) \<Rightarrow>
        if rv \<noteq> 1 then (Some ctx1, False)
        else (Some (prepareSslContext S (snd (ssl_do S CTX_set_mode_false_start
               (snd (ssl_do S CTX_set_false_start_allowed_without_alpn ctx1))))), True))"

text \<open>
  The members that \<open>initialize\<close> sets. The event descriptor and the thread are made last and their making
  is not checked. \<open>sslConnect\<close> also sets the minimum version on \<open>mSslCtx\<close>; it is called once.
\<close>

record dns_tls_socket =
  mSslCtx :: "ssl_log option"
  mSsl :: "ssl_log option"
  loop_started :: bool

definition dns_tls_socket_new :: dns_tls_socket where
  "dns_tls_socket_new = \<lparr>mSslCtx = None, mSsl = None, loop_started = False\<rparr>"

definition initialize ::
  "ssl_env \<Rightarrow> tcp_env \<Rightarrow> DnsTlsServer \<Rightarrow> dns_tls_socket \<Rightarrow> ssl_session list \<Rightarrow> (bool \<times> dns_tls_socket \<times> ssl_session list) option" where
  "initialize S T server sk sessions =
     (if mSslCtx sk \<noteq> None then Some (False, sk, sessions)
      else case ssl_context S of (ctx, ok) \<Rightarrow>
        let sk1 = sk\<lparr>mSslCtx := ctx\<rparr> in
        if \<not> ok then Some (False, sk1, sessions)
        else if tcpConnect T server \<noteq> 0 then Some (False, sk1, sessions)
        else case sslConnect S server ctx sessions of
            None \<Rightarrow> None
          | Some (None, rest) \<Rightarrow> Some (False, sk1, rest)
          | Some (Some ssl, rest) \<Rightarrow> Some (True, sk1\<lparr>mSsl := Some ssl, loop_started := True\<rparr>, rest))"

text \<open>\<open>DnsTlsSocketFactory::createDnsTlsSocket\<close>: a socket, or a null pointer.\<close>

definition createDnsTlsSocket ::
  "ssl_env \<Rightarrow> tcp_env \<Rightarrow> DnsTlsServer \<Rightarrow> ssl_session list \<Rightarrow> (dns_tls_socket option \<times> ssl_session list) option" where
  "createDnsTlsSocket S T server sessions =
     map_option (\<lambda>(ok, sk, rest). (if ok then Some sk else None, rest)) (initialize S T server dns_tls_socket_new sessions)"

section \<open>The connections of a transport\<close>

text \<open>
  A transport connects again and again to its one server, with one session cache. The library calls
  \<open>newSessionCallback\<close> for the objects it has been given, if the context has the callback; \<open>issued ssl s\<close> says that it may
  hand out session \<open>s\<close> for \<open>ssl\<close>. \<open>ssl_objects\<close> holds every object that the setup of a connection made.
\<close>

definition newSessionCallback :: "ssl_log \<Rightarrow> ssl_session \<Rightarrow> ssl_session list \<Rightarrow> ssl_session list" where
  "newSessionCallback ssl session sessions =
     (if (Set_ex_data, 1) \<notin> set ssl then sessions else recordSession session sessions)"

record tls_conns =
  mSessions :: "ssl_session list"
  ssl_objects :: "ssl_log list"

definition tls_conns_new :: tls_conns where
  "tls_conns_new = \<lparr>mSessions = [], ssl_objects = []\<rparr>"

datatype tls_conn_step = TCreate ssl_env tcp_env | TNewSession ssl_log ssl_session

fun conns_enabled :: "(ssl_log \<Rightarrow> ssl_session \<Rightarrow> bool) \<Rightarrow> DnsTlsServer \<Rightarrow> tls_conn_step \<Rightarrow> tls_conns \<Rightarrow> bool" where
  "conns_enabled issued server (TCreate S T) st \<longleftrightarrow> createDnsTlsSocket S T server (mSessions st) \<noteq> None"
| "conns_enabled issued server (TNewSession ssl session) st \<longleftrightarrow> ssl \<in> set (ssl_objects st) \<and> issued ssl session"

fun conns_exec :: "DnsTlsServer \<Rightarrow> tls_conn_step \<Rightarrow> tls_conns \<Rightarrow> tls_conns option" where
  "conns_exec server (TCreate S T) st =
     map_option (\<lambda>(sk, rest). \<lparr>mSessions = rest,
         ssl_objects = (case ssl_context S of
             (Some ctx, True) \<Rightarrow> (case fst (ssl_setup S server ctx (mSessions st)) of
                 None \<Rightarrow> ssl_objects st | Some ssl \<Rightarrow> ssl # ssl_objects st)
           | _ \<Rightarrow> ssl_objects st)\<rparr>)
       (createDnsTlsSocket S T server (mSessions st))"
| "conns_exec server (TNewSession ssl session) st =
     Some (st\<lparr>mSessions := newSessionCallback ssl session (mSessions st)\<rparr>)"

section \<open>Authentication\<close>

text \<open>
  An object that checks the peer for the name \<open>h\<close>: the authorities are loaded, the name was set once, with
  success, verification is on, and the session to resume, if any, is one that was established with a
  peer that was verified for \<open>h\<close>, which \<open>ok h\<close> says.
\<close>

fun is_Set1_host :: "ssl_call \<Rightarrow> bool" where
  "is_Set1_host (Set1_host h) = True"
| "is_Set1_host _ = False"

definition verifying :: "(string \<Rightarrow> ssl_session \<Rightarrow> bool) \<Rightarrow> string \<Rightarrow> ssl_log \<Rightarrow> bool" where
  "verifying ok h ssl \<longleftrightarrow> (CTX_load_verify_locations kCaCertDir, 1) \<in> set ssl \<and>
     filter (\<lambda>c. is_Set1_host (fst c)) ssl = [(Set1_host h, 1)] \<and> Set_verify_peer \<in> fst ` set ssl \<and>
     (\<forall>s r. (Set_session s, r) \<in> set ssl \<longrightarrow> ok h s)"

text \<open>
  What the library documents. With \<open>SSL_VERIFY_PEER\<close> a handshake fails unless the peer proves that it is
  valid for the name that was set, or resumes a session of such a peer; and a session is handed out after a
  handshake has completed.
\<close>

definition ssl_verifies :: "(string \<Rightarrow> ssl_session \<Rightarrow> bool) \<Rightarrow> ssl_env \<Rightarrow> bool" where
  "ssl_verifies ok S \<longleftrightarrow> (\<forall>ssl h. verifying ok h ssl \<longrightarrow> ConnectDone \<in> set (ssl_connect S ssl) \<longrightarrow> peer_valid S h)"

definition issues_verified :: "(string \<Rightarrow> ssl_session \<Rightarrow> bool) \<Rightarrow> (ssl_log \<Rightarrow> ssl_session \<Rightarrow> bool) \<Rightarrow> bool" where
  "issues_verified ok issued \<longleftrightarrow> (\<forall>ssl h s. verifying ok h ssl \<longrightarrow> issued ssl s \<longrightarrow> ok h s)"

lemma context_log:
  assumes "ssl_context S = (Some ctx, True)"
  shows "(CTX_load_verify_locations kCaCertDir, 1) \<in> set ctx \<and> filter (\<lambda>c. is_Set1_host (fst c)) ctx = [] \<and>
    (\<forall>s r. (Set_session s, r) \<notin> set ctx)"
  using assms by (auto simp: ssl_context_def prepareSslContext_def ssl_do_def split: if_splits)

lemma setup_verifies:
  assumes ctx: "ssl_context S = (Some ctx, True)" and run: "ssl_setup S server ctx sessions = (Some ssl, rest)"
    and name: "server_name server \<noteq> []" and sessions: "\<And>s. s \<in> set sessions \<Longrightarrow> ok (server_name server) s"
  shows "verifying ok (server_name server) ssl"
proof -
  have "filter (\<lambda>c. is_Set1_host (fst c)) ssl = [(Set1_host (server_name server), 1)]"
    using run context_log [OF ctx] name
    by (auto simp: ssl_setup_def prepareSsl_def verify_name_def ssl_do_def getSession_def Let_def
        split: if_splits option.splits list.splits)
  moreover have "(CTX_load_verify_locations kCaCertDir, 1) \<in> set ssl" "Set_verify_peer \<in> fst ` set ssl"
    using run context_log [OF ctx] name
    by (auto simp: ssl_setup_def prepareSsl_def verify_name_def ssl_do_def getSession_def Let_def
        split: if_splits option.splits list.splits)
  moreover have "ok (server_name server) s" if "(Set_session s, r) \<in> set ssl" for s r
    using run context_log [OF ctx] name that sessions
    by (auto simp: ssl_setup_def prepareSsl_def verify_name_def ssl_do_def getSession_def Let_def
        split: if_splits option.splits list.splits)
  ultimately show ?thesis unfolding verifying_def by blast
qed

lemma setup_sessions:
  "set (snd (ssl_setup S server ctx sessions)) \<subseteq> set sessions"
  by (auto simp: ssl_setup_def getSession_def split: prod.splits option.splits list.splits)

lemma connect_sessions:
  assumes "sslConnect S server c sessions = Some (ssl, rest)"
  shows "set rest \<subseteq> set sessions"
proof (cases c)
  case (Some ctx)
  then have "rest = snd (ssl_setup S server ctx sessions)"
    using assms by (auto simp: sslConnect_def split: prod.splits option.splits bool.splits)
  then show ?thesis using setup_sessions by blast
qed (use assms in \<open>simp add: sslConnect_def\<close>)

lemma create_sessions:
  "createDnsTlsSocket S T server sessions = Some (sk, rest) \<Longrightarrow> set rest \<subseteq> set sessions"
  using connect_sessions [of S server]
  by (auto simp: createDnsTlsSocket_def initialize_def Let_def split: if_splits prod.splits option.splits) blast+

definition conns_inv :: "(string \<Rightarrow> ssl_session \<Rightarrow> bool) \<Rightarrow> string \<Rightarrow> tls_conns \<Rightarrow> bool" where
  "conns_inv ok h st \<longleftrightarrow> (\<forall>s \<in> set (mSessions st). ok h s) \<and> (\<forall>ssl \<in> set (ssl_objects st). verifying ok h ssl)"

lemma conns_verified:
  assumes name: "server_name server \<noteq> []"
    and issues: "issues_verified ok issued"
    and st: "reachable (conns_enabled issued server) (conns_exec server) tls_conns_new st"
  shows "conns_inv ok (server_name server) st"
  using st
proof (induction rule: reachable.induct)
  case reach_init
  then show ?case by (simp add: conns_inv_def tls_conns_new_def)
next
  case (reach_step st l st')
  show ?case
  proof (cases l)
    case (TCreate S T)
    obtain sk rest where run: "createDnsTlsSocket S T server (mSessions st) = Some (sk, rest)" "mSessions st' = rest"
      using reach_step.hyps(3) TCreate by auto
    have "verifying ok (server_name server) ssl" if new: "ssl \<in> set (ssl_objects st')" for ssl
    proof (cases "ssl \<in> set (ssl_objects st)")
      case True
      then show ?thesis using reach_step.IH by (simp add: conns_inv_def)
    next
      case False
      then obtain ctx rest' where "ssl_context S = (Some ctx, True)" "ssl_setup S server ctx (mSessions st) = (Some ssl, rest')"
        using new reach_step.hyps(3) TCreate
        by (auto split: prod.splits option.splits bool.splits if_splits) (metis prod.collapse)
      then show ?thesis
        using setup_verifies [OF _ _ name] reach_step.IH by (auto simp: conns_inv_def)
    qed
    moreover have "ok (server_name server) s" if "s \<in> set (mSessions st')" for s
      using create_sessions [OF run(1)] run(2) that reach_step.IH by (auto simp: conns_inv_def)
    ultimately show ?thesis by (simp add: conns_inv_def)
  next
    case (TNewSession ssl s)
    then have "ok (server_name server) s" "st' = st\<lparr>mSessions := newSessionCallback ssl s (mSessions st)\<rparr>"
      using reach_step issues by (auto simp: conns_inv_def issues_verified_def)
    then show ?thesis
      using reach_step.IH by (auto simp: conns_inv_def newSessionCallback_def recordSession_def Let_def dest: in_set_butlastD)
  qed
qed

lemma connect_loop_done: "connect_loop os = Some True \<Longrightarrow> ConnectDone \<in> set os"
  by (induction os rule: connect_loop.induct) (auto split: if_splits)

text \<open>A chain is accepted at its first certificate with a configured digest, and every digest before it could be computed.\<close>

lemma match_fingerprint_found:
  "match_fingerprint S fps chain \<Longrightarrow> \<exists>before cert after fp. chain = before @ cert # after \<and>
     list_all (\<lambda>c. getSPKIDigest S c \<noteq> None) before \<and> getSPKIDigest S cert = Some fp \<and> fp \<in> set fps"
proof (induction chain)
  case (Cons cert chain)
  then obtain digest where d: "getSPKIDigest S cert = Some digest" by (auto split: option.splits)
  show ?case
  proof (cases "digest \<in> set fps")
    case True
    then show ?thesis using d by (intro exI [of _ "[]"]) auto
  next
    case False
    then obtain before cert' after fp where "chain = before @ cert' # after" "list_all (\<lambda>c. getSPKIDigest S c \<noteq> None) before"
      "getSPKIDigest S cert' = Some fp" "fp \<in> set fps"
      using Cons d by auto
    then show ?thesis using d by (intro exI [of _ "cert # before"]) auto
  qed
qed simp

text \<open>What \<open>initialize\<close> has done when it returns true.\<close>

lemma initialize_true:
  assumes "initialize S T server dns_tls_socket_new sessions = Some (True, sk, rest)"
  obtains ctx ssl where "ssl_context S = (Some ctx, True)" "tcpConnect T server = 0" "mSsl sk = Some ssl"
    "ssl_setup S server ctx sessions = (Some ssl, rest)" "connect_loop (ssl_connect S ssl) = Some True"
    "check_fingerprints S (server_fingerprints server) ssl"
proof -
  obtain ctx ssl where s: "ssl_context S = (ctx, True)" "tcpConnect T server = 0" "mSsl sk = Some ssl"
    "sslConnect S server ctx sessions = Some (Some ssl, rest)"
    using assms by (auto simp: initialize_def Let_def dns_tls_socket_new_def split: prod.splits if_splits option.splits)
  then obtain c where c: "ctx = Some c" by (cases ctx) (simp_all add: sslConnect_def)
  then show thesis
    using s that by (auto simp: sslConnect_def split: prod.splits option.splits bool.splits if_splits)
qed

text \<open>
  Claim C23. A transport in strict mode talks to no impostor. Its sockets are connected one after the other
  and resume sessions of earlier connections, which the library may have handed out at any time. Suppose
  that, as BoringSSL documents for \<open>SSL_VERIFY_PEER\<close>, a handshake on an object that verifies the name \<open>h\<close> completes only with
  a peer that is valid for \<open>h\<close> (\<open>verifies\<close>), and that a session handed out for such an object was established with such a
  peer (\<open>issues\<close>). Then in every reachable state of the session cache, if \<open>initialize\<close> returns true: the TCP
  connection was made; the object was made with TLS 1.2 as the least version; for a server with a name the
  peer is valid for that name, and the name was sent to it; for a server with fingerprints, the result of
  the verification was one of the four accepted ones, and a certificate of the chain has a configured fingerprint,
  where the digests of those before it could be computed.
\<close>

theorem sslConnect_authenticates:
  assumes verifies: "ssl_verifies ok S"
    and issues: "issues_verified ok issued"
    and st: "reachable (conns_enabled issued server) (conns_exec server) tls_conns_new st"
    and run: "initialize S T server dns_tls_socket_new (mSessions st) = Some (True, sk, rest)"
  shows "\<exists>ssl rv. mSsl sk = Some ssl \<and> tcpConnect T server = 0 \<and>
    (CTX_set_min_proto_version TLS1_2_VERSION, rv) \<in> set ssl \<and> rv \<noteq> 0 \<and>
    (server_name server \<noteq> [] \<longrightarrow> peer_valid S (server_name server) \<and>
       (Set_tlsext_host_name (c_str (server_name server)), 1) \<in> set ssl) \<and>
    (server_fingerprints server \<noteq> [] \<longrightarrow> verify_outcome S ssl \<noteq> X509_V_OTHER \<and>
       (\<exists>before cert after fp. peer_chain S ssl = Some (before @ cert # after) \<and>
          list_all (\<lambda>c. getSPKIDigest S c \<noteq> None) before \<and>
          getSPKIDigest S cert = Some fp \<and> fp \<in> set (server_fingerprints server)))"
proof -
  from run obtain ctx ssl where i: "ssl_context S = (Some ctx, True)" "tcpConnect T server = 0" "mSsl sk = Some ssl"
    "ssl_setup S server ctx (mSessions st) = (Some ssl, rest)" "connect_loop (ssl_connect S ssl) = Some True"
    "check_fingerprints S (server_fingerprints server) ssl" by (rule initialize_true)
  have "peer_valid S (server_name server)" if name: "server_name server \<noteq> []"
  proof -
    have "ok (server_name server) s" if "s \<in> set (mSessions st)" for s
      using conns_verified [OF name issues st] that by (simp add: conns_inv_def)
    from setup_verifies [where ok = ok, OF i(1,4) name this] show ?thesis
      using verifies connect_loop_done [OF i(5)] by (auto simp: ssl_verifies_def)
  qed
  moreover have "\<exists>rv. (CTX_set_min_proto_version TLS1_2_VERSION, rv) \<in> set ssl \<and> rv \<noteq> 0 \<and>
      (server_name server \<noteq> [] \<longrightarrow> (Set_tlsext_host_name (c_str (server_name server)), 1) \<in> set ssl)"
    using i(4) by (auto simp: ssl_setup_def prepareSsl_def verify_name_def ssl_do_def split: if_splits option.splits prod.splits)
  moreover have "verify_outcome S ssl \<noteq> X509_V_OTHER" "\<exists>chain. peer_chain S ssl = Some chain \<and> match_fingerprint S (server_fingerprints server) chain"
    if "server_fingerprints server \<noteq> []"
    using i(6) that by (auto simp: check_fingerprints_def split: if_splits option.splits)
  ultimately show ?thesis
    using i(2,3) match_fingerprint_found [of S "server_fingerprints server"] by blast
qed

text \<open>
  A library that verifies: the peer answers to the name \<open>''dns''\<close> only, sessions are handed out only for
  that name, and a handshake with another name set fails.
\<close>

definition demo_ssl :: ssl_env where
  "demo_ssl = \<lparr>ssl_answer = \<lambda>log c. 1,
     ssl_connect = \<lambda>ssl. if (Set1_host ''dns'', 1) \<in> set ssl then [ConnectWantRead True, ConnectDone] else [ConnectError],
     verify_outcome = \<lambda>ssl. X509_V_ERR_CERT_UNTRUSTED,
     peer_chain = \<lambda>ssl. Some [\<lparr>pubkey_len = 1, pubkey_len2 = 1, pubkey_bytes = [1]\<rparr>, \<lparr>pubkey_len = 1, pubkey_len2 = 1, pubkey_bytes = [2]\<rparr>],
     evp_sha256 = \<lambda>bs. (1, bs, 32), peer_valid = \<lambda>h. h = ''dns''\<rparr>"

definition demo_tcp :: tcp_env where
  "demo_tcp = \<lparr>tcp_socket_errno = 0, tcp_mark_errno = 0, tcp_connect_errno = 115\<rparr>"

definition demo_server :: DnsTlsServer where
  "demo_server = \<lparr>server_ss = \<lparr>ss_family = SA_INET, sin_port = 853, sin_addr = 0x7f000001, sin6_flowinfo = 0, sin6_addr = [], sin6_scope_id = 0\<rparr>,
     server_fingerprints = [[2]], server_name = ''dns'', server_protocol = IPPROTO_TCP\<rparr>"

lemma verifying_host:
  assumes "verifying ok h ssl" "(Set1_host g, 1) \<in> set ssl"
  shows "h = g"
proof -
  have "(Set1_host g, 1) \<in> set (filter (\<lambda>c. is_Set1_host (fst c)) ssl)" using assms(2) by simp
  then show ?thesis using assms(1) unfolding verifying_def by auto
qed

theorem sslConnect_authenticates_witness:
  "\<exists>st ssl sk rest. run_steps (conns_enabled (\<lambda>ssl s. (Set1_host ''dns'', 1) \<in> set ssl \<and> s = 7) demo_server) (conns_exec demo_server)
       [TCreate demo_ssl demo_tcp] tls_conns_new = Some st \<and>
     initialize demo_ssl demo_tcp demo_server dns_tls_socket_new (mSessions st) = Some (True, sk, rest) \<and>
     mSsl sk = Some ssl \<and> peer_valid demo_ssl ''dns'' \<and> verify_outcome demo_ssl ssl \<noteq> X509_V_OTHER"
proof -
  let ?issued = "\<lambda>ssl s. (Set1_host ''dns'', 1) \<in> set ssl \<and> s = (7 :: nat)" and ?ok = "\<lambda>h s. h = ''dns'' \<and> s = (7 :: nat)"
  have "case run_steps (conns_enabled ?issued demo_server) (conns_exec demo_server) [TCreate demo_ssl demo_tcp] tls_conns_new of
      None \<Rightarrow> False | Some st \<Rightarrow> (case initialize demo_ssl demo_tcp demo_server dns_tls_socket_new (mSessions st) of None \<Rightarrow> False | Some (ok, _) \<Rightarrow> ok)"
    by code_simp
  then obtain st sk rest where st: "run_steps (conns_enabled ?issued demo_server) (conns_exec demo_server) [TCreate demo_ssl demo_tcp] tls_conns_new = Some st"
    and run: "initialize demo_ssl demo_tcp demo_server dns_tls_socket_new (mSessions st) = Some (True, sk, rest)"
    by (auto split: option.splits)
  have verifies: "ssl_verifies ?ok demo_ssl"
    using verifying_host by (fastforce simp: ssl_verifies_def demo_ssl_def split: if_splits)
  have issues: "issues_verified ?ok ?issued"
    using verifying_host by (fastforce simp: issues_verified_def)
  have server: "server_name demo_server = ''dns''" "server_fingerprints demo_server \<noteq> []" by (simp_all add: demo_server_def)
  from sslConnect_authenticates [OF verifies issues run_steps_reachable [OF st reach_init] run] obtain ssl where ssl: "mSsl sk = Some ssl"
    "server_name demo_server \<noteq> [] \<longrightarrow> peer_valid demo_ssl (server_name demo_server) \<and>
       (Set_tlsext_host_name (c_str (server_name demo_server)), 1) \<in> set ssl"
    "server_fingerprints demo_server \<noteq> [] \<longrightarrow> verify_outcome demo_ssl ssl \<noteq> X509_V_OTHER"
    by blast
  then show ?thesis using st run server by (intro exI conjI) simp_all
qed

section \<open>The session cache keeps the newest\<close>

text \<open>The cache gives the newest session first, each once, and keeps at most five.\<close>

lemma session_cache:
  "length ss \<le> kMaxSize \<Longrightarrow> length (recordSession s ss) \<le> kMaxSize"
  "getSession (recordSession s ss) = (Some s, take (kMaxSize - 1) ss) \<or> length ss > kMaxSize"
proof -
  show "length ss \<le> kMaxSize \<Longrightarrow> length (recordSession s ss) \<le> kMaxSize"
    by (auto simp: recordSession_def Let_def)
  show "getSession (recordSession s ss) = (Some s, take (kMaxSize - 1) ss) \<or> length ss > kMaxSize"
    by (cases ss rule: rev_cases) (auto simp: recordSession_def getSession_def Let_def kMaxSize_def)
qed

end
