(* ===== verification/Dns_Tls_Socket.thy ===== *)
theory Dns_Tls_Socket
  imports Dns_Tls_Server Step_Systems "HOL-Library.Monad_Syntax"
begin

text \<open>
  resolv/DnsTlsSocket.cpp and LockedQueue.h: the TLS connection once it is made. Two parts are modelled: the
  framing of messages on the stream (\<open>query\<close>, \<open>sslRead\<close>, \<open>readResponse\<close>, \<open>sslWrite\<close>), and the queue and event
  counter between client threads and the loop thread. BoringSSL and the system calls are parameters: what
  they return is given by the list of their outcomes in order.
\<close>

unbundle bit_operations_syntax

section \<open>Framing\<close>

text \<open>\<open>query\<close> composes length, ID and body; the length is a \<open>uint16_t\<close>.\<close>

definition frame :: "u16 \<Rightarrow> bytes \<Rightarrow> bytes" where
  "frame i body =
     (let len = (of_nat (length body + 2) :: u16)
      in [ucast (drop_bit 8 len), ucast len, ucast (drop_bit 8 i), ucast i] @ body)"

text \<open>
  What \<open>SSL_read\<close> gives, in order: some bytes, of which a call takes as many as it asked for; the end of
  the stream; a request to wait, with whether the wait succeeded; or another error.
\<close>

datatype ssl_read_outcome = ReadBytes bytes | ReadClosed | ReadWant bool | ReadError

datatype ssl_error = SSL_ERROR_NONE | SSL_ERROR_ZERO_RETURN | SSL_ERROR_WANT_READ | SSL_ERROR_SYSCALL | SSL_ERROR_OTHER

text \<open>
  \<open>sslRead\<close>: the error, the bytes stored in the buffer, and the stream left. \<open>None\<close>: it waits for ever.
\<close>

fun sslRead :: "ssl_read_outcome list \<Rightarrow> nat \<Rightarrow> bool \<Rightarrow> (ssl_error \<times> bytes \<times> ssl_read_outcome list) option" where
  "sslRead [] remaining wt = (if remaining = 0 then Some (SSL_ERROR_NONE, [], []) else None)"
| "sslRead (s # ss) remaining wt =
     (if remaining = 0 then Some (SSL_ERROR_NONE, [], s # ss)
      else case s of
          ReadClosed \<Rightarrow> Some (SSL_ERROR_ZERO_RETURN, [], ss)
        | ReadError \<Rightarrow> Some (SSL_ERROR_OTHER, [], ss)
        | ReadWant ready \<Rightarrow>
            if wt then (if ready then sslRead ss remaining wt else Some (SSL_ERROR_SYSCALL, [], ss))
            else Some (SSL_ERROR_WANT_READ, [], ss)
        | ReadBytes bs \<Rightarrow>
            if bs = [] then Some (SSL_ERROR_ZERO_RETURN, [], ss)
            else if remaining < length bs then Some (SSL_ERROR_NONE, take remaining bs, ReadBytes (drop remaining bs) # ss)
            else map_option (\<lambda>(e, bs', ss'). (e, bs @ bs', ss')) (sslRead ss (remaining - length bs) True))"

text \<open>The bytes after \<open>MAX_SIZE\<close> are read in chunks and dropped; the fuel is their number, and a chunk is not empty.\<close>

definition MAX_SIZE :: nat where "MAX_SIZE = 8192"
definition CHUNK_SIZE :: nat where "CHUNK_SIZE = 2048"

function discard :: "nat \<Rightarrow> ssl_read_outcome list \<Rightarrow> (bool \<times> ssl_read_outcome list) option" where
  "discard remainingBytes ss =
     (if remainingBytes = 0 then Some (True, ss)
      else case sslRead ss (min remainingBytes CHUNK_SIZE) True of
          None \<Rightarrow> None
        | Some (e, bs, ss') \<Rightarrow>
            if e \<noteq> SSL_ERROR_NONE then Some (False, ss')
            else discard (remainingBytes - min remainingBytes CHUNK_SIZE) ss')"
  by pat_completeness auto
termination
  by (relation "measure fst") (auto simp: CHUNK_SIZE_def)

declare discard.simps [simp del]

text \<open>\<open>readResponse\<close>: whether the loop goes on, the response handed to the observer, and the stream left.\<close>

definition readResponse :: "ssl_read_outcome list \<Rightarrow> (bool \<times> bytes option \<times> ssl_read_outcome list) option" where
  "readResponse ss = do {
     (err, header, ss1) \<leftarrow> sslRead ss 2 False;
     if err = SSL_ERROR_WANT_READ then Some (True, None, ss1)
     else if err \<noteq> SSL_ERROR_NONE then Some (False, None, ss1)
     else do {
       let responseSize = unat (header ! 0) * 256 + unat (header ! 1);
       (err, response, ss2) \<leftarrow> sslRead ss1 (min responseSize MAX_SIZE) True;
       if err \<noteq> SSL_ERROR_NONE then Some (False, None, ss2)
       else do {
         (ok, ss3) \<leftarrow> discard (responseSize - length response) ss2;
         Some (ok, if ok then Some response else None, ss3) } } }"

text \<open>\<open>sslWrite\<close>, by the outcomes of \<open>SSL_write\<close>; \<open>break\<close> inside the \<open>switch\<close> ends only the \<open>switch\<close>.\<close>

datatype ssl_write_outcome = WriteAll | WritePartial | WriteWant bool | WriteZero | WriteError

fun sslWrite :: "ssl_write_outcome list \<Rightarrow> bool option" where
  "sslWrite [] = None"
| "sslWrite (WriteAll # os) = Some True"
| "sslWrite (WritePartial # os) = sslWrite os"
| "sslWrite (WriteWant ready # os) = (if ready then sslWrite os else Some False)"
| "sslWrite (WriteZero # os) = sslWrite os"
| "sslWrite (WriteError # os) = Some False"

section \<open>The queue between client threads and the loop\<close>

text \<open>
  The queue has its newest element in front. A client pushes its message and then adds one to the event
  counter; in between it is counted in \<open>writing\<close>. The loop reads and clears the counter and then takes
  the whole queue; between these it is in \<open>LoopTaking\<close>. \<open>pushed\<close> and \<open>sent\<close> record the messages.
\<close>

datatype loop_state = LoopPolling | LoopTaking nat | LoopEnded

record dts =
  mQueue :: "bytes list"
  mEventFd :: "nat option"
  writing :: nat
  loop_q :: "bytes list"
  loop_at :: loop_state
  pushed :: "bytes list"
  sent_msgs :: "bytes list"

definition dts_new :: dts where
  "dts_new = \<lparr>mQueue = [], mEventFd = Some 0, writing = 0, loop_q = [], loop_at = LoopPolling, pushed = [], sent_msgs = []\<rparr>"

definition loop_break :: "dts \<Rightarrow> dts" where
  "loop_break s = s\<lparr>loop_at := LoopEnded, mEventFd := None\<rparr>"

text \<open>
  \<open>query\<close> looks at the event descriptor before it pushes; the loop may end in between, so a push is
  always possible.
\<close>

datatype dts_step = SPush u16 bytes | SNotify | SIdle | SResponse bool | SRead | STake | SSend bool

fun dts_enabled :: "dts_step \<Rightarrow> dts \<Rightarrow> bool" where
  "dts_enabled (SPush i b) s \<longleftrightarrow> True"
| "dts_enabled SNotify s \<longleftrightarrow> 0 < writing s"
| "dts_enabled SIdle s \<longleftrightarrow> loop_at s = LoopPolling"
| "dts_enabled (SResponse ok) s \<longleftrightarrow> loop_at s = LoopPolling"
| "dts_enabled SRead s \<longleftrightarrow> loop_at s = LoopPolling \<and> loop_q s = [] \<and> mEventFd s \<noteq> None \<and> mEventFd s \<noteq> Some 0"
| "dts_enabled STake s \<longleftrightarrow> (case loop_at s of LoopTaking n \<Rightarrow> True | _ \<Rightarrow> False)"
| "dts_enabled (SSend ok) s \<longleftrightarrow> loop_at s = LoopPolling \<and> loop_q s \<noteq> []"

text \<open>
  \<open>push_msg\<close> and \<open>notify\<close> are the two parts of \<open>query\<close>; the others are the branches of \<open>loop\<close>. A write to a
  closed event descriptor fails. The destructor, which also closes the event descriptor, is not a step:
  its owner, the transport, calls \<open>query\<close> no more once it destroys the socket.
\<close>

definition push_msg :: "u16 \<Rightarrow> bytes \<Rightarrow> dts \<Rightarrow> dts" where
  "push_msg i b s = s\<lparr>mQueue := frame i b # mQueue s, writing := writing s + 1, pushed := frame i b # pushed s\<rparr>"

definition notify :: "dts \<Rightarrow> dts" where
  "notify s = s\<lparr>writing := writing s - 1, mEventFd := map_option Suc (mEventFd s)\<rparr>"

definition loop_read :: "dts \<Rightarrow> dts option" where
  "loop_read s =
     (case mEventFd s of
        None \<Rightarrow> None
      | Some n \<Rightarrow> Some (s\<lparr>mEventFd := Some 0, loop_at := LoopTaking n\<rparr>))"

definition loop_take :: "nat \<Rightarrow> dts \<Rightarrow> dts" where
  "loop_take num_queries s =
     (let s' = s\<lparr>loop_q := mQueue s, mQueue := loop_q s, loop_at := LoopPolling\<rparr>
      in if length (loop_q s') < num_queries then loop_break s' else s')"

definition loop_send :: "bool \<Rightarrow> dts \<Rightarrow> dts option" where
  "loop_send ok s =
     (case loop_q s of
        [] \<Rightarrow> None
      | m # q \<Rightarrow> Some (if ok then s\<lparr>loop_q := q, sent_msgs := m # sent_msgs s\<rparr> else loop_break s))"

fun dts_exec :: "dts_step \<Rightarrow> dts \<Rightarrow> dts option" where
  "dts_exec (SPush i b) s = Some (push_msg i b s)"
| "dts_exec SNotify s = Some (notify s)"
| "dts_exec SIdle s = Some (loop_break s)"
| "dts_exec (SResponse ok) s = Some (if ok then s else loop_break s)"
| "dts_exec SRead s = loop_read s"
| "dts_exec STake s = (case loop_at s of LoopTaking n \<Rightarrow> Some (loop_take n s) | _ \<Rightarrow> None)"
| "dts_exec (SSend ok) s = loop_send ok s"

section \<open>Framing is independent of how the stream is cut\<close>

text \<open>A stream that goes on: its bytes come in pieces, with waits in between that succeed.\<close>

fun flowing :: "ssl_read_outcome \<Rightarrow> bool" where
  "flowing (ReadBytes bs) = (bs \<noteq> [])"
| "flowing (ReadWant ready) = ready"
| "flowing _ = False"

fun outcome_bytes :: "ssl_read_outcome \<Rightarrow> bytes" where
  "outcome_bytes (ReadBytes bs) = bs"
| "outcome_bytes _ = []"

definition stream_bytes :: "ssl_read_outcome list \<Rightarrow> bytes" where
  "stream_bytes ss = concat (map outcome_bytes ss)"

lemma sslRead_flowing:
  assumes "list_all flowing ss" "stream_bytes ss = a @ b" "wt \<or> outcome_bytes (hd ss) \<noteq> [] \<or> a = []"
  shows "\<exists>ss'. sslRead ss (length a) wt = Some (SSL_ERROR_NONE, a, ss') \<and> list_all flowing ss' \<and> stream_bytes ss' = b"
  using assms
proof (induction ss arbitrary: a wt)
  case Nil
  then show ?case by (simp add: stream_bytes_def)
next
  case (Cons s ss)
  show ?case
  proof (cases "a = []")
    case True
    then show ?thesis using Cons.prems by simp
  next
    case ne: False
    show ?thesis
    proof (cases s)
      case (ReadBytes bs)
      then have bs: "bs \<noteq> []" "bs @ stream_bytes ss = a @ b" using Cons.prems by (simp_all add: stream_bytes_def)
      show ?thesis
      proof (cases "length a < length bs")
        case True
        then have "take (length a) bs = a" "drop (length a) bs @ stream_bytes ss = b"
          using bs(2) by (metis append_eq_append_conv_if less_imp_le_nat not_less, metis append_eq_append_conv_if less_imp_le_nat not_less)
        then show ?thesis using True ne ReadBytes bs(1) Cons.prems by (simp add: stream_bytes_def)
      next
        case False
        then obtain a' where a': "a = bs @ a'" "stream_bytes ss = a' @ b"
          using bs(2) by (auto simp: append_eq_append_conv2)
        have "\<exists>ss'. sslRead ss (length a') True = Some (SSL_ERROR_NONE, a', ss') \<and> list_all flowing ss' \<and> stream_bytes ss' = b"
          using Cons.IH [OF _ a'(2), of True] Cons.prems(1) by simp
        then show ?thesis using ReadBytes bs(1) False ne a' by auto
      qed
    next
      case (ReadWant ready)
      then have "ready" "wt" "stream_bytes ss = a @ b" using Cons.prems ne by (simp_all add: stream_bytes_def)
      then show ?thesis using Cons.IH [of a True] Cons.prems(1) ne ReadWant by simp
    qed (use Cons.prems in simp_all)
  qed
qed

lemma discard_flowing:
  assumes "list_all flowing ss" "stream_bytes ss = a @ b"
  shows "\<exists>ss'. discard (length a) ss = Some (True, ss') \<and> list_all flowing ss' \<and> stream_bytes ss' = b"
  using assms
proof (induction "length a" arbitrary: a ss rule: less_induct)
  case less
  show ?case
  proof (cases "a = []")
    case False
    let ?c = "take (min (length a) CHUNK_SIZE) a" and ?d = "drop (min (length a) CHUNK_SIZE) a"
    have len: "length ?c = min (length a) CHUNK_SIZE" "length ?d = length a - min (length a) CHUNK_SIZE" by simp_all
    have "stream_bytes ss = ?c @ (?d @ b)" using less.prems(2) by (metis append.assoc append_take_drop_id)
    from sslRead_flowing [OF less.prems(1) this, of True] obtain ss1 where
      ss1: "sslRead ss (min (length a) CHUNK_SIZE) True = Some (SSL_ERROR_NONE, ?c, ss1)" "list_all flowing ss1" "stream_bytes ss1 = ?d @ b"
      unfolding len(1) by auto
    have "length ?d < length a" using False by (simp add: CHUNK_SIZE_def)
    from less.hyps [OF this ss1(2,3)] show ?thesis
      using ss1(1) False unfolding len(2) by (subst discard.simps) simp
  qed (use less.prems in \<open>simp add: discard.simps\<close>)
qed

definition be16 :: "u16 \<Rightarrow> bytes" where
  "be16 w = [ucast (drop_bit 8 w), ucast w]"

lemma be16_value: "unat (be16 w ! 0) * 256 + unat (be16 w ! 1) = unat w"
proof -
  have "unat (ucast (drop_bit 8 w) :: u8) = unat w div 256"
    using unsigned_less [of w, where 'a = nat]
    by (simp add: unsigned_ucast_eq unat_drop_bit_eq drop_bit_eq_div take_bit_eq_mod unat_div less_mult_imp_div_less)
  moreover have "unat (ucast w :: u8) = unat w mod 256"
    by (simp add: unsigned_ucast_eq take_bit_eq_mod)
  ultimately show ?thesis by (simp add: be16_def)
qed

lemma readResponse_message:
  assumes "list_all flowing ss" "outcome_bytes (hd ss) \<noteq> []" "stream_bytes ss = be16 (of_nat (length msg)) @ msg @ rest" "length msg < 2 ^ 16"
  shows "\<exists>ss'. readResponse ss = Some (True, Some (take MAX_SIZE msg), ss') \<and> list_all flowing ss' \<and> stream_bytes ss' = rest"
proof -
  let ?h = "be16 (of_nat (length msg))"
  obtain ss1 where ss1: "sslRead ss 2 False = Some (SSL_ERROR_NONE, ?h, ss1)" "list_all flowing ss1" "stream_bytes ss1 = msg @ rest"
    using sslRead_flowing [OF assms(1,3), of False] assms(2) by (auto simp: be16_def numeral_2_eq_2)
  have size: "unat (?h ! 0) * 256 + unat (?h ! 1) = length msg"
    using assms(4) by (simp only: be16_value) (simp add: unat_of_nat)
  have "stream_bytes ss1 = take MAX_SIZE msg @ drop MAX_SIZE msg @ rest" using ss1(3) by simp
  from sslRead_flowing [OF ss1(2) this, of True] obtain ss2 where
    ss2: "sslRead ss1 (min (length msg) MAX_SIZE) True = Some (SSL_ERROR_NONE, take MAX_SIZE msg, ss2)"
      "list_all flowing ss2" "stream_bytes ss2 = drop MAX_SIZE msg @ rest"
    by (auto simp: min.commute)
  have "length msg - length (take MAX_SIZE msg) = length (drop MAX_SIZE msg)" by simp
  with discard_flowing [OF ss2(2,3)] obtain ss3 where
    "discard (length msg - length (take MAX_SIZE msg)) ss2 = Some (True, ss3)" "list_all flowing ss3" "stream_bytes ss3 = rest"
    by metis
  then show ?thesis
    using ss1(1) ss2(1) size by (simp add: readResponse_def Let_def)
qed

text \<open>
  Claim C25. Messages survive the stream. A message framed by \<open>query\<close> and cut into any pieces, with any waits
  between them, is read back by \<open>readResponse\<close> as its ID and body, cut to 8192 bytes if it is longer; the
  rest of a longer message is skipped, so that the next message is read from its beginning.
\<close>

theorem frame_readResponse:
  assumes "list_all flowing ss" "outcome_bytes (hd ss) \<noteq> []" "stream_bytes ss = frame i body @ rest" "length body \<le> 65533"
  shows "\<exists>ss'. readResponse ss = Some (True, Some (take 8192 (be16 i @ body)), ss') \<and>
    list_all flowing ss' \<and> stream_bytes ss' = rest"
proof -
  have "frame i body = be16 (of_nat (length (be16 i @ body))) @ (be16 i @ body)"
    by (simp add: frame_def be16_def Let_def)
  then show ?thesis
    using readResponse_message [of ss "be16 i @ body" rest] assms by (simp add: MAX_SIZE_def be16_def)
qed

theorem frame_readResponse_witness:
  "\<exists>ss'. readResponse [ReadBytes [0], ReadWant True, ReadBytes [4, 0], ReadBytes [1, 7, 8, 0, 3]] =
      Some (True, Some [0, 1, 7, 8], ss') \<and> stream_bytes ss' = [0, 3]"
  using frame_readResponse [where ss = "[ReadBytes [0], ReadWant True, ReadBytes [4, 0], ReadBytes [1, 7, 8, 0, 3]]"
      and i = 1 and body = "[7, 8]" and rest = "[0, 3]"]
  by (simp add: stream_bytes_def frame_def be16_def Let_def) blast

section \<open>The queue\<close>

definition dts_inv :: "dts \<Rightarrow> bool" where
  "dts_inv s \<longleftrightarrow> mset (pushed s) = mset (sent_msgs s) + mset (loop_q s) + mset (mQueue s) \<and>
     (loop_at s = LoopPolling \<and> mQueue s \<noteq> [] \<longrightarrow> writing s > 0 \<or> (\<exists>n. mEventFd s = Some (Suc n))) \<and>
     (\<forall>n. loop_at s = LoopTaking n \<longrightarrow> loop_q s = []) \<and> (loop_at s \<noteq> LoopEnded \<longrightarrow> mEventFd s \<noteq> None)"

lemma dts_step_ok:
  assumes "dts_inv s" "dts_enabled l s"
  shows "\<exists>s'. dts_exec l s = Some s' \<and> dts_inv s'"
proof (cases l)
  case (SPush i b)
  then show ?thesis using assms by (simp add: dts_inv_def push_msg_def)
next
  case SNotify
  then show ?thesis using assms by (auto simp: dts_inv_def notify_def)
next
  case SRead
  then show ?thesis using assms by (auto simp: dts_inv_def loop_read_def)
next
  case STake
  then show ?thesis using assms by (auto simp: dts_inv_def loop_take_def loop_break_def Let_def split: loop_state.splits)
next
  case (SSend ok)
  then show ?thesis using assms by (cases "loop_q s") (auto simp: dts_inv_def loop_send_def loop_break_def)
qed (use assms in \<open>auto simp: dts_inv_def loop_break_def\<close>)

interpretation dts_sys: step_invariant dts_enabled dts_exec dts_new dts_inv
  by unfold_locales (simp_all add: dts_step_ok, simp add: dts_inv_def dts_new_def)

text \<open>
  Claim C24. The queue between clients and the loop loses nothing: every message pushed is sent once, waiting
  in the loop or waiting in the queue; the loop takes the queue only when its own is empty; and while it
  polls, a message in the queue has been announced or is about to be.
\<close>

theorem dts_queue_safe:
  assumes "reachable dts_enabled dts_exec dts_new s"
  shows "mset (pushed s) = mset (sent_msgs s) + mset (loop_q s) + mset (mQueue s) \<and>
    (\<forall>n. loop_at s = LoopTaking n \<longrightarrow> loop_q s = []) \<and>
    (loop_at s = LoopPolling \<and> mQueue s \<noteq> [] \<longrightarrow> writing s > 0 \<or> (\<exists>n. mEventFd s = Some (Suc n)))"
  using dts_sys.reachable_inv [OF assms] by (simp add: dts_inv_def)

theorem dts_queue_safe_witness:
  "\<exists>s. run_steps dts_enabled dts_exec [SPush 1 [5], SNotify, SRead, SPush 2 [6], STake, SSend True] dts_new = Some s \<and>
     mset (pushed s) = mset (sent_msgs s) + mset (loop_q s) + mset (mQueue s) \<and> sent_msgs s = [frame 2 [6]]"
proof -
  have "map_option sent_msgs (run_steps dts_enabled dts_exec [SPush 1 [5], SNotify, SRead, SPush 2 [6], STake, SSend True] dts_new)
      = Some [frame 2 [6]]" by code_simp
  then obtain s where s: "run_steps dts_enabled dts_exec [SPush 1 [5], SNotify, SRead, SPush 2 [6], STake, SSend True] dts_new = Some s"
    "sent_msgs s = [frame 2 [6]]" by auto
  from dts_queue_safe [OF run_steps_reachable [OF s(1) reach_init]] s show ?thesis by blast
qed

text \<open>
  A race. A client whose push falls between the loop's reading of the counter and its taking of the queue
  has its message taken early; its notification then announces a message that is no longer there, and
  the loop gives the connection up with a synchronization error.
\<close>

lemma notification_race:
  "map_option loop_at (run_steps dts_enabled dts_exec
     [SPush 1 [5], SNotify, SRead, SPush 2 [6], STake, SNotify, SSend True, SSend True, SRead, STake] dts_new) = Some LoopEnded"
  by code_simp

text \<open>A completed write of no bytes does not end the loop of \<open>sslWrite\<close>, and a long body wraps the length.\<close>

lemma sslWrite_zero: "sslWrite (WriteZero # os) = sslWrite os"
  by simp

lemma frame_wraps: "length body = 65534 \<Longrightarrow> take 2 (frame i body) = [0, 0]"
  by (simp add: frame_def Let_def)

end
