(* ===== verification/Dns_Tls_Dispatcher.thy ===== *)
theory Dns_Tls_Dispatcher
  imports Dns_Tls_Server Step_Systems
begin

text \<open>
  resolv/DnsTlsDispatcher.cpp. The dispatcher keeps one transport per mark and
  server and shares it among the queries of all threads; a query holds a raw pointer to its transport
  while it waits without the lock. The parts of \<open>query\<close> before and after the wait are steps, and other threads
  run in between. \<open>None\<close> stands for the use of a transport that was destroyed. Times are in nanoseconds.
\<close>

section \<open>State\<close>

type_synonym dispatch_key = "u32 \<times> DnsTlsServer"

text \<open>\<open>xport\<close> is the identity of the object, the value of a pointer to it.\<close>

record Transport =
  xport :: nat
  useCount :: int
  lastUsed :: int

record dispatcher =
  mStore :: "(dispatch_key \<times> Transport) list"
  mLastCleanup :: int
  allocated :: nat

definition dispatcher_new :: dispatcher where
  "dispatcher_new = \<lparr>mStore = [], mLastCleanup = 0, allocated = 0\<rparr>"

text \<open>\<open>std::pair\<close> compares the mark first, then the server.\<close>

definition key_lt :: "dispatch_key \<Rightarrow> dispatch_key \<Rightarrow> bool" where
  "key_lt x y \<longleftrightarrow> fst x < fst y \<or> (\<not> fst y < fst x \<and> server_lt (snd x) (snd y))"

definition IDLE_TIMEOUT :: int where "IDLE_TIMEOUT = 5 * 60 * 1000000000"

section \<open>Choosing a server\<close>

definition getOrderedServerList :: "DnsTlsServer list \<Rightarrow> u32 \<Rightarrow> dispatcher \<Rightarrow> DnsTlsServer list" where
  "getOrderedServerList tlsServers mark d =
     (let existing = (\<lambda>s. cm_find key_lt (mark, s) (mStore d) \<noteq> None);
          family = (\<lambda>f s. ss_family (server_ss s) = f)
      in filter (\<lambda>s. existing s \<and> family SA_INET6 s) tlsServers @
         filter (\<lambda>s. existing s \<and> family SA_INET s) tlsServers @
         filter (\<lambda>s. \<not> existing s \<and> family SA_INET6 s) tlsServers @
         filter (\<lambda>s. \<not> existing s \<and> family SA_INET s) tlsServers)"

section \<open>A query\<close>

text \<open>Up to the call of the transport: the pointer to use, and the state.\<close>

definition query_begin :: "DnsTlsServer \<Rightarrow> u32 \<Rightarrow> dispatcher \<Rightarrow> nat \<times> dispatcher" where
  "query_begin server mark d =
     (case cm_find key_lt (mark, server) (mStore d) of
        None \<Rightarrow>
          (allocated d,
           d\<lparr>mStore := cm_put key_lt (mark, server) \<lparr>xport = allocated d, useCount = 1, lastUsed = 0\<rparr> (mStore d),
             allocated := allocated d + 1\<rparr>)
      | Some (k, x) \<Rightarrow>
          (xport x, d\<lparr>mStore := cm_put key_lt (mark, server) (x\<lparr>useCount := useCount x + 1\<rparr>) (mStore d)\<rparr>))"

text \<open>What is done with the result: the code, and the answer buffer and length where it is written.\<close>

definition query_answer :: "Result \<Rightarrow> bytes \<Rightarrow> int \<Rightarrow> Response \<times> bytes \<times> int" where
  "query_answer result ans resplen =
     (if res_code result = R_success then
        (if length (res_response result) > length ans then (R_limit_error, ans, resplen)
         else (R_success, res_response result @ drop (length (res_response result)) ans, int (length (res_response result))))
      else (res_code result, ans, resplen))"

definition dispatcher_cleanup :: "int \<Rightarrow> dispatcher \<Rightarrow> dispatcher" where
  "dispatcher_cleanup now d =
     (if now - mLastCleanup d < IDLE_TIMEOUT then d
      else d\<lparr>mStore := filter (\<lambda>(k, x). \<not> (useCount x = 0 \<and> now - lastUsed x > IDLE_TIMEOUT)) (mStore d),
             mLastCleanup := now\<rparr>)"

text \<open>A change of the object a pointer points at.\<close>

definition at_xport :: "nat \<Rightarrow> (Transport \<Rightarrow> Transport) \<Rightarrow> (dispatch_key \<times> Transport) list \<Rightarrow> (dispatch_key \<times> Transport) list" where
  "at_xport p f store = map (\<lambda>(k, x). (k, if xport x = p then f x else x)) store"

definition query_end :: "nat \<Rightarrow> int \<Rightarrow> dispatcher \<Rightarrow> dispatcher option" where
  "query_end p now d =
     (if p \<in> (xport \<circ> snd) ` set (mStore d) then
        Some (dispatcher_cleanup now
          (d\<lparr>mStore := at_xport p (\<lambda>x. x\<lparr>useCount := useCount x - 1, lastUsed := now\<rparr>) (mStore d)\<rparr>))
      else None)"

text \<open>
  The loop over the servers, with the query of one server as a parameter: it gives the code and the
  new state.
\<close>

fun query_servers :: "(DnsTlsServer \<Rightarrow> 's \<Rightarrow> Response \<times> 's) \<Rightarrow> DnsTlsServer list \<Rightarrow> Response \<Rightarrow> 's \<Rightarrow> Response \<times> 's" where
  "query_servers query [] code s = (code, s)"
| "query_servers query (server # servers) code s =
     (case query server s of (c, s') \<Rightarrow>
        if c = R_success \<or> c = R_limit_error then (c, s') else query_servers query servers c s')"

definition dispatcher_query ::
  "(DnsTlsServer \<Rightarrow> 's \<Rightarrow> Response \<times> 's) \<Rightarrow> DnsTlsServer list \<Rightarrow> u32 \<Rightarrow> dispatcher \<Rightarrow> 's \<Rightarrow> Response \<times> 's" where
  "dispatcher_query query tlsServers mark d s =
     query_servers query (getOrderedServerList tlsServers mark d) R_internal_error s"

section \<open>The threads\<close>

text \<open>The queries that wait hold the pointers in \<open>in_flight\<close>.\<close>

record dispatch_sys =
  disp :: dispatcher
  in_flight :: "nat list"

datatype dispatch_step = DBegin DnsTlsServer u32 | DEnd nat int

fun dispatch_enabled :: "dispatch_step \<Rightarrow> dispatch_sys \<Rightarrow> bool" where
  "dispatch_enabled (DBegin server mark) s \<longleftrightarrow> True"
| "dispatch_enabled (DEnd p now) s \<longleftrightarrow> p \<in> set (in_flight s)"

fun dispatch_exec :: "dispatch_step \<Rightarrow> dispatch_sys \<Rightarrow> dispatch_sys option" where
  "dispatch_exec (DBegin server mark) s =
     (case query_begin server mark (disp s) of (p, d) \<Rightarrow> Some (s\<lparr>disp := d, in_flight := p # in_flight s\<rparr>))"
| "dispatch_exec (DEnd p now) s =
     map_option (\<lambda>d. s\<lparr>in_flight := remove1 p (in_flight s), disp := d\<rparr>) (query_end p now (disp s))"

definition dispatch_init :: dispatch_sys where
  "dispatch_init = \<lparr>disp = dispatcher_new, in_flight = []\<rparr>"

section \<open>The invariant\<close>

lemma key_lt_key: "key_lt x y \<longleftrightarrow> (fst x, server_key (snd x)) < (fst y, server_key (snd y))"
  by (auto simp: key_lt_def server_lt_key)

interpretation by_key: comparator key_lt "\<lambda>k. (fst k, server_key (snd k))"
  by unfold_locales (rule key_lt_key)

text \<open>
  The use count of every transport is the number of queries that hold its pointer, and every pointer held
  is of a transport in the store.
\<close>

definition dispatch_inv :: "dispatch_sys \<Rightarrow> bool" where
  "dispatch_inv s \<longleftrightarrow> cm_inv key_lt (mStore (disp s)) \<and>
     distinct (map (xport \<circ> snd) (mStore (disp s))) \<and>
     (\<forall>(k, x) \<in> set (mStore (disp s)). xport x < allocated (disp s) \<and> useCount x = int (count_list (in_flight s) (xport x))) \<and>
     set (in_flight s) \<subseteq> (xport \<circ> snd) ` set (mStore (disp s))"

lemma dispatch_invI:
  assumes "cm_inv key_lt (mStore (disp s))" "distinct (map (xport \<circ> snd) (mStore (disp s)))"
    and "\<And>k x. (k, x) \<in> set (mStore (disp s)) \<Longrightarrow> xport x < allocated (disp s) \<and> useCount x = int (count_list (in_flight s) (xport x))"
    and "set (in_flight s) \<subseteq> (xport \<circ> snd) ` set (mStore (disp s))"
  shows "dispatch_inv s"
  unfolding dispatch_inv_def using assms by blast

lemma dispatch_invD:
  assumes "dispatch_inv s"
  shows "cm_inv key_lt (mStore (disp s))" "distinct (map (xport \<circ> snd) (mStore (disp s)))"
    and "(k, x) \<in> set (mStore (disp s)) \<Longrightarrow> xport x < allocated (disp s) \<and> useCount x = int (count_list (in_flight s) (xport x))"
    and "set (in_flight s) \<subseteq> (xport \<circ> snd) ` set (mStore (disp s))"
  using assms unfolding dispatch_inv_def by blast+

lemma at_xport_keys:
  "cm_inv key_lt (at_xport p f st) \<longleftrightarrow> cm_inv key_lt st"
  "(\<And>x. xport (f x) = xport x) \<Longrightarrow> map (xport \<circ> snd) (at_xport p f st) = map (xport \<circ> snd) st"
  by (auto simp: at_xport_def cm_inv_def comp_def case_prod_unfold)

lemma xport_unique:
  assumes "distinct (map (xport \<circ> snd) st)" "(j, y) \<in> set st" "(k, x) \<in> set st" "xport y = xport x"
  shows "j = k" "y = x"
  using inj_onD [of "xport \<circ> snd" "set st" "(j, y)" "(k, x)"] assms by (simp_all add: distinct_map)

lemma put_at_xport:
  assumes "cm_inv key_lt st" "distinct (map (xport \<circ> snd) st)" "cm_find key_lt key st = Some (k, x)"
  shows "cm_put key_lt key (f x) st = at_xport (xport x) f st"
proof -
  have x: "(k, x) \<in> set st" "(fst k, server_key (snd k)) = (fst key, server_key (snd key))"
    using by_key.find_mem [OF assms(3)] by auto
  have "(fst j, server_key (snd j)) = (fst key, server_key (snd key)) \<longleftrightarrow> xport y = xport x" if "(j, y) \<in> set st" for j y
  proof
    assume "(fst j, server_key (snd j)) = (fst key, server_key (snd key))"
    then show "xport y = xport x" using by_key.keys_unique [OF assms(1) that x(1)] x(2) by simp
  next
    assume "xport y = xport x"
    then have "(j, y) = (k, x)" using xport_unique [OF assms(2) that x(1)] by simp
    then show "(fst j, server_key (snd j)) = (fst key, server_key (snd key))" using x(2) by simp
  qed
  moreover have "f y = f x" if "(j, y) \<in> set st" "xport y = xport x" for j y
    using xport_unique [OF assms(2) that(1) x(1) that(2)] by simp
  ultimately show ?thesis
    unfolding by_key.put_present [OF assms(1,3)] at_xport_def by (intro map_cong) auto
qed

lemma set_at_xportE:
  assumes "(k, x') \<in> set (at_xport p f st)"
  obtains x where "(k, x) \<in> set st" "x' = (if xport x = p then f x else x)"
  using assms by (auto simp: at_xport_def)

lemma begin_present_inv:
  assumes inv: "dispatch_inv s" and p: "p \<in> (xport \<circ> snd) ` set (mStore (disp s))"
  shows "dispatch_inv (s\<lparr>disp := (disp s)\<lparr>mStore := at_xport p (\<lambda>x. x\<lparr>useCount := useCount x + 1\<rparr>) (mStore (disp s))\<rparr>,
    in_flight := p # in_flight s\<rparr>)"
proof -
  let ?f = "\<lambda>x. x\<lparr>useCount := useCount x + 1\<rparr>"
  let ?st = "at_xport p ?f (mStore (disp s))"
  have "xport x < allocated (disp s) \<and> useCount x = int (count_list (p # in_flight s) (xport x))" if x: "(k, x) \<in> set ?st" for k x
  proof -
    obtain x0 where "(k, x0) \<in> set (mStore (disp s))" "x = (if xport x0 = p then ?f x0 else x0)" using set_at_xportE [OF x] .
    then show ?thesis using dispatch_invD(3) [OF inv, of k x0] by simp
  qed
  moreover have keys: "map (xport \<circ> snd) ?st = map (xport \<circ> snd) (mStore (disp s))" by (rule at_xport_keys) simp
  moreover have "(xport \<circ> snd) ` set ?st = (xport \<circ> snd) ` set (mStore (disp s))" using keys by (metis set_map)
  ultimately show ?thesis
    using dispatch_invD [OF inv] p by (intro dispatch_invI) (simp_all add: at_xport_keys(1))
qed

lemma begin_fresh_inv:
  assumes inv: "dispatch_inv s" and new: "cm_find key_lt key (mStore (disp s)) = None"
  shows "dispatch_inv (s\<lparr>disp := (disp s)\<lparr>mStore := cm_put key_lt key \<lparr>xport = allocated (disp s), useCount = 1, lastUsed = 0\<rparr> (mStore (disp s)),
      allocated := allocated (disp s) + 1\<rparr>, in_flight := allocated (disp s) # in_flight s\<rparr>)"
proof -
  let ?n = "allocated (disp s)"
  define x0 where "x0 = \<lparr>xport = allocated (disp s), useCount = 1, lastUsed = 0\<rparr>"
  define st where "st = cm_put key_lt key x0 (mStore (disp s))"
  have mset: "mset st = mset ((key, x0) # mStore (disp s))" using by_key.put_fresh [OF new] by (simp add: st_def)
  then have set: "set st = insert (key, x0) (set (mStore (disp s)))" by (metis list.set(2) set_mset_mset)
  have fresh: "?n \<notin> set (map (xport \<circ> snd) (mStore (disp s)))"
  proof
    assume "?n \<in> set (map (xport \<circ> snd) (mStore (disp s)))"
    then obtain k x where "(k, x) \<in> set (mStore (disp s))" "xport x = ?n" by auto
    then show False using dispatch_invD(3) [OF inv, of k x] by simp
  qed
  then have none: "count_list (in_flight s) ?n = 0" using dispatch_invD(4) [OF inv] by (auto simp: count_list_0_iff)
  have "mset (map (xport \<circ> snd) st) = mset (?n # map (xport \<circ> snd) (mStore (disp s)))"
    using arg_cong [OF mset, of "image_mset (xport \<circ> snd)"] by (simp add: x0_def)
  from mset_eq_imp_distinct_iff [OF this] have "distinct (map (xport \<circ> snd) st)"
    using dispatch_invD(2) [OF inv] fresh by simp
  moreover have "xport x < ?n + 1 \<and> useCount x = int (count_list (?n # in_flight s) (xport x))" if x: "(k, x) \<in> set st" for k x
  proof (cases "x = x0")
    case True
    then show ?thesis using none by (simp add: x0_def)
  next
    case False
    then have "(k, x) \<in> set (mStore (disp s))" using x set by simp
    from dispatch_invD(3) [OF inv this] show ?thesis by simp
  qed
  moreover have "cm_inv key_lt st" unfolding st_def by (rule by_key.inv_put [OF dispatch_invD(1) [OF inv]])
  moreover have "set (?n # in_flight s) \<subseteq> (xport \<circ> snd) ` set st"
    using dispatch_invD(4) [OF inv] by (auto simp: set x0_def)
  ultimately show ?thesis
    unfolding x0_def [symmetric] st_def [symmetric] by (intro dispatch_invI) simp_all
qed

lemma begin_ok:
  assumes inv: "dispatch_inv s"
  shows "\<exists>s'. dispatch_exec (DBegin server mark) s = Some s' \<and> dispatch_inv s'"
proof (cases "cm_find key_lt (mark, server) (mStore (disp s))")
  case None
  then show ?thesis using begin_fresh_inv [OF inv None] by (simp add: query_begin_def)
next
  case (Some e)
  obtain k x where e: "e = (k, x)" by (cases e)
  have st: "cm_inv key_lt (mStore (disp s))" "distinct (map (xport \<circ> snd) (mStore (disp s)))"
    using inv by (simp_all add: dispatch_inv_def)
  have "xport x \<in> (xport \<circ> snd) ` set (mStore (disp s))" using by_key.find_mem [OF Some] e by force
  then show ?thesis
    using begin_present_inv [OF inv] Some e put_at_xport [OF st, of "(mark, server)" k x "\<lambda>x. x\<lparr>useCount := useCount x + 1\<rparr>"]
    by (simp add: query_begin_def)
qed

lemma cleanup_inv:
  assumes inv: "dispatch_inv s"
  shows "dispatch_inv (s\<lparr>disp := dispatcher_cleanup now (disp s)\<rparr>)"
proof (cases "now - mLastCleanup (disp s) < IDLE_TIMEOUT")
  case True
  then show ?thesis using inv by (simp add: dispatcher_cleanup_def)
next
  case False
  define P where "P = (\<lambda>(k :: dispatch_key, x :: Transport). \<not> (useCount x = 0 \<and> now - lastUsed x > IDLE_TIMEOUT))"
  let ?st = "mStore (disp s)"
  have "p \<in> (xport \<circ> snd) ` set (filter P ?st)" if p: "p \<in> set (in_flight s)" for p
  proof -
    obtain k x where x: "(k, x) \<in> set ?st" "xport x = p" using dispatch_invD(4) [OF inv] p by force
    then have "useCount x \<noteq> 0" using dispatch_invD(3) [OF inv x(1)] p by (simp add: count_list_0_iff)
    then have "(k, x) \<in> set (filter P ?st)" using x by (simp add: P_def)
    then show ?thesis using x(2) by force
  qed
  moreover have "distinct (map (xport \<circ> snd) (filter P ?st))"
    using dispatch_invD(2) [OF inv] by (simp add: distinct_map inj_on_def)
  moreover have "dispatcher_cleanup now (disp s) = (disp s)\<lparr>mStore := filter P ?st, mLastCleanup := now\<rparr>"
    using False by (simp add: dispatcher_cleanup_def P_def)
  ultimately show ?thesis
    using dispatch_invD [OF inv] by_key.inv_filter [of ?st P] by (intro dispatch_invI) auto
qed

lemma end_ok:
  assumes inv: "dispatch_inv s" and p: "p \<in> set (in_flight s)"
  shows "\<exists>s'. dispatch_exec (DEnd p now) s = Some s' \<and> dispatch_inv s'"
proof -
  let ?f = "\<lambda>x. x\<lparr>useCount := useCount x - 1, lastUsed := now\<rparr>"
  let ?st = "at_xport p ?f (mStore (disp s))" and ?fl = "remove1 p (in_flight s)"
  let ?s = "s\<lparr>in_flight := ?fl, disp := (disp s)\<lparr>mStore := ?st\<rparr>\<rparr>"
  have "xport x < allocated (disp s) \<and> useCount x = int (count_list ?fl (xport x))" if x: "(k, x) \<in> set ?st" for k x
  proof -
    obtain x0 where "(k, x0) \<in> set (mStore (disp s))" "x = (if xport x0 = p then ?f x0 else x0)" using set_at_xportE [OF x] .
    moreover have "0 < count_list (in_flight s) p" using p by (metis count_list_0_iff gr0I)
    ultimately show ?thesis using dispatch_invD(3) [OF inv, of k x0] by (simp add: of_nat_diff)
  qed
  moreover have keys: "map (xport \<circ> snd) ?st = map (xport \<circ> snd) (mStore (disp s))" by (rule at_xport_keys) simp
  moreover have held: "set (in_flight s) \<subseteq> (xport \<circ> snd) ` set ?st" using keys dispatch_invD(4) [OF inv] by (metis set_map)
  ultimately have "dispatch_inv ?s"
  proof (intro dispatch_invI)
    show "cm_inv key_lt (mStore (disp ?s))" using dispatch_invD(1) [OF inv] by (simp add: at_xport_keys(1))
    show "set (in_flight ?s) \<subseteq> (xport \<circ> snd) ` set (mStore (disp ?s))"
      using subset_trans [OF set_remove1_subset held] by simp
  qed (use dispatch_invD(2) [OF inv] in simp_all)
  from cleanup_inv [OF this, of now] show ?thesis
    using subsetD [OF dispatch_invD(4) [OF inv] p] unfolding dispatch_exec.simps query_end_def by simp
qed

interpretation dispatch: step_invariant dispatch_enabled dispatch_exec dispatch_init dispatch_inv
proof unfold_locales
  show "dispatch_inv dispatch_init"
    by (simp add: dispatch_inv_def dispatch_init_def dispatcher_new_def cm_inv_def)
  show "\<exists>s'. dispatch_exec l s = Some s' \<and> dispatch_inv s'" if "dispatch_inv s" "dispatch_enabled l s" for s l
    using that by (cases l) (auto simp only: dispatch_enabled.simps intro: begin_ok end_ok)
qed

section \<open>What the dispatcher guarantees\<close>

text \<open>
  Claim C12. A transport is never destroyed while a query uses it. However the queries of different threads
  overlap, the pointer a waiting query holds is the pointer of exactly one transport in the store, whose
  use count is the number of queries that hold it; finishing the query never touches a destroyed object.
\<close>

theorem dispatcher_no_dangling:
  assumes "reachable dispatch_enabled dispatch_exec dispatch_init s" "p \<in> set (in_flight s)"
  shows "(\<exists>!e. e \<in> set (mStore (disp s)) \<and> xport (snd e) = p) \<and>
    (\<forall>(k, x) \<in> set (mStore (disp s)). useCount x = int (count_list (in_flight s) (xport x))) \<and>
    query_end p now (disp s) \<noteq> None"
proof -
  have inv: "dispatch_inv s" using dispatch.reachable_inv [OF assms(1)] .
  have p: "p \<in> (xport \<circ> snd) ` set (mStore (disp s))" using dispatch_invD(4) [OF inv] assms(2) by blast
  have "e = e'" if "e \<in> set (mStore (disp s))" "e' \<in> set (mStore (disp s))" "xport (snd e) = p" "xport (snd e') = p" for e e'
    using xport_unique [OF dispatch_invD(2) [OF inv], of "fst e" "snd e" "fst e'" "snd e'"] that by (simp add: prod_eq_iff)
  moreover obtain e where "e \<in> set (mStore (disp s))" "xport (snd e) = p" using p by auto
  ultimately have "\<exists>!e. e \<in> set (mStore (disp s)) \<and> xport (snd e) = p" by blast
  moreover have "query_end p now (disp s) \<noteq> None" unfolding query_end_def if_P [OF p] by simp
  moreover have "\<forall>(k, x) \<in> set (mStore (disp s)). useCount x = int (count_list (in_flight s) (xport x))"
    using dispatch_invD(3) [OF inv] by blast
  ultimately show ?thesis by blast
qed

definition plain_server :: "u32 \<Rightarrow> DnsTlsServer" where
  "plain_server a = DnsTlsServer_new
     \<lparr>ss_family = SA_INET, sin_port = 853, sin_addr = a, sin6_flowinfo = 0, sin6_addr = [], sin6_scope_id = 0\<rparr>"

definition overlapping :: "dispatch_step list" where
  "overlapping = [DBegin (plain_server 1) 7, DBegin (plain_server 2) 7, DBegin (plain_server 1) 7, DEnd 0 400000000000]"

theorem dispatcher_no_dangling_witness:
  "\<exists>s. run_steps dispatch_enabled dispatch_exec overlapping dispatch_init = Some s \<and> in_flight s = [1, 0] \<and>
     query_end 0 900000000000 (disp s) \<noteq> None"
proof -
  have "map_option in_flight (run_steps dispatch_enabled dispatch_exec overlapping dispatch_init) = Some [1, 0]"
    by code_simp
  then obtain s where s: "run_steps dispatch_enabled dispatch_exec overlapping dispatch_init = Some s" "in_flight s = [1, 0]"
    by auto
  from dispatcher_no_dangling [OF run_steps_reachable [OF s(1) reach_init], of 0] s show ?thesis by simp
qed

definition preference :: "u32 \<Rightarrow> dispatcher \<Rightarrow> DnsTlsServer \<Rightarrow> nat" where
  "preference mark d s =
     (if cm_find key_lt (mark, s) (mStore d) \<noteq> None then 0 else 2) + (if ss_family (server_ss s) = SA_INET6 then 0 else 1)"

definition known_family :: "DnsTlsServer \<Rightarrow> bool" where
  "known_family s \<longleftrightarrow> ss_family (server_ss s) = SA_INET \<or> ss_family (server_ss s) = SA_INET6"

lemma ordered_groups:
  "getOrderedServerList servers mark d =
     concat (map (\<lambda>n. filter (\<lambda>s. preference mark d s = n \<and> known_family s) servers) [0, 1, 2, 3])"
proof -
  have "filter (\<lambda>s. cm_find key_lt (mark, s) (mStore d) \<noteq> None \<and> ss_family (server_ss s) = SA_INET6) servers =
      filter (\<lambda>s. preference mark d s = 0 \<and> known_family s) servers"
    "filter (\<lambda>s. cm_find key_lt (mark, s) (mStore d) \<noteq> None \<and> ss_family (server_ss s) = SA_INET) servers =
      filter (\<lambda>s. preference mark d s = 1 \<and> known_family s) servers"
    "filter (\<lambda>s. \<not> cm_find key_lt (mark, s) (mStore d) \<noteq> None \<and> ss_family (server_ss s) = SA_INET6) servers =
      filter (\<lambda>s. preference mark d s = 2 \<and> known_family s) servers"
    "filter (\<lambda>s. \<not> cm_find key_lt (mark, s) (mStore d) \<noteq> None \<and> ss_family (server_ss s) = SA_INET) servers =
      filter (\<lambda>s. preference mark d s = 3 \<and> known_family s) servers"
    by (rule filter_cong; auto simp: preference_def known_family_def)+
  then show ?thesis by (simp only: getOrderedServerList_def Let_def list.map concat.simps append_Nil2)
qed

lemma sorted_group: "(\<And>x. x \<in> set xs \<Longrightarrow> f x = n) \<Longrightarrow> sorted (map f xs)"
  by (induction xs) auto

text \<open>
  The servers are tried in the documented order. The list has exactly the servers with an IPv4 or
  IPv6 address, each as often as it was given; those with a connection come before the others, among both
  IPv6 comes before IPv4, and within a group the given order is kept.
\<close>

theorem getOrderedServerList_order:
  "mset (getOrderedServerList servers mark d) = filter_mset known_family (mset servers) \<and>
   sorted (map (preference mark d) (getOrderedServerList servers mark d)) \<and>
   filter (\<lambda>s. preference mark d s = n) (getOrderedServerList servers mark d) =
     filter (\<lambda>s. preference mark d s = n \<and> known_family s) servers"
proof (intro conjI)
  have four: "preference mark d s \<in> {0, 1, 2, 3}" for s by (simp add: preference_def)
  show "mset (getOrderedServerList servers mark d) = filter_mset known_family (mset servers)"
    unfolding ordered_groups
  proof (induction servers)
    case (Cons a servers)
    then show ?case using four [of a] by auto
  qed simp
  show "sorted (map (preference mark d) (getOrderedServerList servers mark d))"
    unfolding ordered_groups by (auto simp: sorted_append intro!: sorted_group)
  show "filter (\<lambda>s. preference mark d s = n) (getOrderedServerList servers mark d) =
      filter (\<lambda>s. preference mark d s = n \<and> known_family s) servers"
  proof (cases "n \<in> {0, 1, 2, 3}")
    case True
    then show ?thesis unfolding ordered_groups by (auto simp: conj_commute cong: conj_cong)
  next
    case False
    then have "preference mark d s \<noteq> n" for s using four [of s] by auto
    then show ?thesis by simp
  qed
qed

section \<open>The outcome of a query\<close>

definition conclusive :: "Response \<Rightarrow> bool" where
  "conclusive c \<longleftrightarrow> c = R_success \<or> c = R_limit_error"

lemma query_servers_trace:
  "query_servers (\<lambda>server tried. (f server, tried @ [server])) servers code tried =
     (case find (\<lambda>s. conclusive (f s)) servers of
        Some s \<Rightarrow> (f s, tried @ takeWhile (\<lambda>s. \<not> conclusive (f s)) servers @ [s])
      | None \<Rightarrow> (if servers = [] then code else f (last servers), tried @ servers))"
  by (induction servers arbitrary: code tried) (auto simp: conclusive_def split: option.splits)

text \<open>
  Claim C28. The outcome of a query, errors included. The servers are asked one after the other, in the
  order of preference, up to the first that succeeds or whose answer is too large, and its code is
  returned; if there is none, all were asked and the code is that of the last, or an internal error when
  there is no server. An answer is written only on success, and never past the end of the buffer.
\<close>

theorem dispatcher_query_outcome:
  "(case find (\<lambda>s. conclusive (f s)) (getOrderedServerList servers mark d) of
      Some s \<Rightarrow> dispatcher_query (\<lambda>server tried. (f server, tried @ [server])) servers mark d [] =
        (f s, takeWhile (\<lambda>s. \<not> conclusive (f s)) (getOrderedServerList servers mark d) @ [s])
    | None \<Rightarrow> dispatcher_query (\<lambda>server tried. (f server, tried @ [server])) servers mark d [] =
        (if getOrderedServerList servers mark d = [] then R_internal_error else f (last (getOrderedServerList servers mark d)),
         getOrderedServerList servers mark d)) \<and>
   (case query_answer result ans resplen of (code, ans', resplen') \<Rightarrow>
      length ans' = length ans \<and>
      (code = R_success \<and> ans' = res_response result @ drop (length (res_response result)) ans \<and> resplen' = int (length (res_response result)) \<or>
       code \<noteq> R_success \<and> ans' = ans \<and> resplen' = resplen))"
  by (auto simp: dispatcher_query_def query_servers_trace query_answer_def split: option.splits)

end
