(* ===== verification/Net_Utils.thy ===== *)
theory Net_Utils
  imports Netd_Prelude
begin

text \<open>
  libnetdutils/include/netdutils/BackoffSequence.h, for its default time type of seconds in a 64-bit
  integer, and OperationLimiter.h. \<open>None\<close> stands for signed overflow.
\<close>

section \<open>Backoff sequences\<close>

record backoff_params =
  initialRetransTime :: int
  maxRetransCount :: u32
  maxRetransTime :: int
  maxRetransDuration :: int
  endOfSequenceIndicator :: int

record backoff =
  mParams :: backoff_params
  mRetransCount :: u32
  mRetransTime :: int
  mTotalRetransDuration :: int

definition default_params :: backoff_params where
  "default_params = \<lparr>initialRetransTime = 1, maxRetransCount = 0, maxRetransTime = 0, maxRetransDuration = 0, endOfSequenceIndicator = 0\<rparr>"

definition backoff_build :: "backoff_params \<Rightarrow> backoff" where
  "backoff_build p = \<lparr>mParams = p, mRetransCount = 0, mRetransTime = 0, mTotalRetransDuration = 0\<rparr>"

definition maxRetransCountExceed :: "backoff \<Rightarrow> bool" where
  "maxRetransCountExceed b \<longleftrightarrow> maxRetransCount (mParams b) > 0 \<and> mRetransCount b \<ge> maxRetransCount (mParams b)"

definition maxRetransDurationExceeded :: "backoff \<Rightarrow> bool" where
  "maxRetransDurationExceeded b \<longleftrightarrow>
     maxRetransDuration (mParams b) > 0 \<and> mTotalRetransDuration b \<ge> maxRetransDuration (mParams b)"

definition hasNextTimeout :: "backoff \<Rightarrow> bool" where
  "hasNextTimeout b \<longleftrightarrow> \<not> maxRetransCountExceed b \<and> \<not> maxRetransDurationExceeded b"

definition int64 :: "int \<Rightarrow> int option" where
  "int64 x = (if - (2 ^ 63) \<le> x \<and> x < 2 ^ 63 then Some x else None)"

text \<open>
  \<open>std::numeric_limits\<close> has no specialisation for durations, so its \<open>max()\<close> is a duration of zero.
\<close>

definition getNextTimeoutAfter :: "backoff_params \<Rightarrow> int \<Rightarrow> int option" where
  "getNextTimeoutAfter p lastTimeout =
     (case (if lastTimeout > 0 then int64 (2 * lastTimeout) else Some (initialRetransTime p)) of
        None \<Rightarrow> None
      | Some nextTimeout \<Rightarrow>
          let t1 = (if nextTimeout < lastTimeout then 0 else nextTimeout);
              t2 = (if maxRetransTime p > 0 then min t1 (maxRetransTime p) else t1)
          in if maxRetransDuration p > 0 then map_option (min t2) (int64 (maxRetransDuration p - lastTimeout)) else Some t2)"

definition getNextTimeout :: "backoff \<Rightarrow> (int \<times> backoff) option" where
  "getNextTimeout b =
     (if \<not> hasNextTimeout b then Some (endOfSequenceIndicator (mParams b), b)
      else case getNextTimeoutAfter (mParams b) (mRetransTime b) of
          None \<Rightarrow> None
        | Some t \<Rightarrow>
            map_option (\<lambda>total. (t, b\<lparr>mRetransTime := t, mRetransCount := mRetransCount b + 1, mTotalRetransDuration := total\<rparr>))
              (int64 (mTotalRetransDuration b + t)))"

fun next_timeouts :: "nat \<Rightarrow> backoff \<Rightarrow> (int list \<times> backoff) option" where
  "next_timeouts 0 b = Some ([], b)"
| "next_timeouts (Suc n) b =
     (case next_timeouts n b of
        None \<Rightarrow> None
      | Some (ts, b') \<Rightarrow> (case getNextTimeout b' of None \<Rightarrow> None | Some (t, b'') \<Rightarrow> Some (ts @ [t], b'')))"

text \<open>
  Claim C29. The delays double up to their maximum and stay there. A sequence that is bounded only by a
  maximum delay never ends, its delays are the initial one times powers of two, capped by the maximum,
  and nothing overflows for as long as the sum of the delays can be at most what 64 bits hold.
\<close>

theorem backoff_schedule:
  assumes "0 < initialRetransTime p" "0 < maxRetransTime p" "maxRetransTime p < 2 ^ 62"
    and "maxRetransCount p = 0" "maxRetransDuration p = 0" "int n * maxRetransTime p < 2 ^ 63"
  shows "\<exists>b. next_timeouts n (backoff_build p) =
      Some (map (\<lambda>k. min (maxRetransTime p) (initialRetransTime p * 2 ^ k)) [0 ..< n], b) \<and> hasNextTimeout b"
proof -
  let ?t = "\<lambda>k. min (maxRetransTime p) (initialRetransTime p * 2 ^ k)"
  have "int n * maxRetransTime p < 2 ^ 63 \<Longrightarrow> \<exists>b. next_timeouts n (backoff_build p) = Some (map ?t [0 ..< n], b) \<and> mParams b = p \<and>
      mRetransTime b = (if n = 0 then 0 else ?t (n - 1)) \<and> 0 \<le> mTotalRetransDuration b \<and>
      mTotalRetransDuration b \<le> int n * maxRetransTime p"
  proof (induction n)
    case 0
    then show ?case by (simp add: backoff_build_def)
  next
    case (Suc n)
    have less: "int n * maxRetransTime p + maxRetransTime p < 2 ^ 63" using Suc.prems by (simp add: algebra_simps)
    then obtain b where b: "next_timeouts n (backoff_build p) = Some (map ?t [0 ..< n], b)" "mParams b = p"
      "mRetransTime b = (if n = 0 then 0 else ?t (n - 1))" "0 \<le> mTotalRetransDuration b" "mTotalRetransDuration b \<le> int n * maxRetransTime p"
      using Suc.IH assms(2) by auto
    have has: "hasNextTimeout b" using b(2) assms(4,5) by (simp add: hasNextTimeout_def maxRetransCountExceed_def maxRetransDurationExceeded_def)
    have pos: "0 < ?t k" for k using assms(1,2) by simp
    have nxt: "getNextTimeoutAfter p (mRetransTime b) = Some (?t n)"
    proof (cases n)
      case 0
      then show ?thesis using b(3) assms by (simp add: getNextTimeoutAfter_def Let_def)
    next
      case (Suc k)
      define u where "u = ?t k"
      have "0 < u" "int64 (2 * u) = Some (2 * u)" "min (2 * u) (maxRetransTime p) = ?t (Suc k)" "mRetransTime b = u"
        using pos [of k] assms(2,3) b(3) Suc by (auto simp: int64_def u_def min_def)
      then show ?thesis using assms(2,5) Suc by (simp add: getNextTimeoutAfter_def Let_def)
    qed
    have "int64 (mTotalRetransDuration b + ?t n) = Some (mTotalRetransDuration b + ?t n)"
      using b(4,5) less pos [of n] by (auto simp: int64_def)
    then show ?case
      using b has nxt pos [of n] less by (auto simp: getNextTimeout_def algebra_simps)
  qed
  then show ?thesis
    using assms by (auto simp: hasNextTimeout_def maxRetransCountExceed_def maxRetransDurationExceeded_def)
qed

definition validation_params :: backoff_params where
  "validation_params = default_params\<lparr>initialRetransTime := 60, maxRetransTime := 3600\<rparr>"

theorem backoff_schedule_witness:
  "\<exists>b. next_timeouts 8 (backoff_build validation_params) = Some ([60, 120, 240, 480, 960, 1920, 3600, 3600], b) \<and> hasNextTimeout b"
  using backoff_schedule [of validation_params 8]
  by (simp add: validation_params_def default_params_def upt_rec)

text \<open>
  The cap on the total duration subtracts the last delay where it would have to subtract the sum of all,
  so the sum of the delays can exceed the maximum.
\<close>

lemma duration_exceeded:
  "map_option fst (next_timeouts 4 (backoff_build (default_params\<lparr>maxRetransDuration := 10\<rparr>))) = Some [1, 2, 4, 6]"
  by code_simp

section \<open>Limits on operations in progress\<close>

record 'k limiter =
  mLimitPerKey :: int
  mCounters :: "'k \<rightharpoonup> int"

definition limiter_new :: "int \<Rightarrow> 'k limiter" where
  "limiter_new limit = \<lparr>mLimitPerKey = limit, mCounters = Map.empty\<rparr>"

text \<open>\<open>operator[]\<close> creates an entry of zero even when the operation is then rejected.\<close>

definition limiter_start :: "'k \<Rightarrow> 'k limiter \<Rightarrow> bool \<times> 'k limiter" where
  "limiter_start key l =
     (let cnt = (case mCounters l key of None \<Rightarrow> 0 | Some n \<Rightarrow> n) in
      if cnt \<ge> mLimitPerKey l then (False, l\<lparr>mCounters := (mCounters l)(key \<mapsto> cnt)\<rparr>)
      else (True, l\<lparr>mCounters := (mCounters l)(key \<mapsto> cnt + 1)\<rparr>))"

definition limiter_finish :: "'k \<Rightarrow> 'k limiter \<Rightarrow> 'k limiter" where
  "limiter_finish key l =
     (case mCounters l key of
        None \<Rightarrow> l
      | Some cnt \<Rightarrow>
          if cnt - 1 \<le> 0 then l\<lparr>mCounters := (mCounters l)(key := None)\<rparr>
          else l\<lparr>mCounters := (mCounters l)(key \<mapsto> cnt - 1)\<rparr>)"

text \<open>Clients that finish exactly what they started; the list is the operations in progress.\<close>

datatype 'k limiter_step = OpStart 'k | OpFinish 'k

fun limiter_run :: "'k limiter_step list \<Rightarrow> 'k limiter \<times> 'k list \<Rightarrow> ('k limiter \<times> 'k list) option" where
  "limiter_run [] s = Some s"
| "limiter_run (OpStart k # ops) (l, active) =
     (case limiter_start k l of (ok, l') \<Rightarrow> limiter_run ops (l', if ok then k # active else active))"
| "limiter_run (OpFinish k # ops) (l, active) =
     (if k \<in> set active then limiter_run ops (limiter_finish k l, remove1 k active) else None)"

definition limiter_ok :: "'k limiter \<times> 'k list \<Rightarrow> bool" where
  "limiter_ok s \<longleftrightarrow> (\<forall>k. int (count_list (snd s) k) \<le> mLimitPerKey (fst s) \<and>
     mCounters (fst s) k = (if count_list (snd s) k = 0 then None else Some (int (count_list (snd s) k))))"

lemma limiter_okD:
  assumes "limiter_ok (l, active)"
  shows "int (count_list active k) \<le> mLimitPerKey l"
    "mCounters l k = (if count_list active k = 0 then None else Some (int (count_list active k)))"
  using assms by (simp_all add: limiter_ok_def)

lemma limiter_start_eq:
  assumes "limiter_ok (l, active)" "0 < mLimitPerKey l"
  shows "limiter_start k l =
    (if int (count_list active k) < mLimitPerKey l
     then (True, l\<lparr>mCounters := (mCounters l)(k \<mapsto> int (count_list active k) + 1)\<rparr>) else (False, l))"
proof (cases "int (count_list active k) < mLimitPerKey l")
  case True
  then show ?thesis using limiter_okD(2) [OF assms(1), of k] by (simp add: limiter_start_def)
next
  case False
  then have "mCounters l k = Some (int (count_list active k))"
    using limiter_okD(2) [OF assms(1), of k] assms(2) by (cases "count_list active k = 0") simp_all
  then show ?thesis using False by (simp add: limiter_start_def fun_upd_idem)
qed

lemma start_ok:
  assumes "limiter_ok (l, active)" "0 < mLimitPerKey l" "limiter_start k l = (ok, l')"
  shows "limiter_ok (l', if ok then k # active else active)" "mLimitPerKey l' = mLimitPerKey l"
    "ok \<longleftrightarrow> int (count_list active k) < mLimitPerKey l"
proof -
  note run = assms(3) [unfolded limiter_start_eq [OF assms(1,2)]]
  show "mLimitPerKey l' = mLimitPerKey l" "ok \<longleftrightarrow> int (count_list active k) < mLimitPerKey l"
    using run by (auto split: if_splits)
  have "limiter_ok (l\<lparr>mCounters := (mCounters l)(k \<mapsto> int (count_list active k) + 1)\<rparr>, k # active)"
    if "int (count_list active k) < mLimitPerKey l"
    unfolding limiter_ok_def using that limiter_okD [OF assms(1)] by simp
  then show "limiter_ok (l', if ok then k # active else active)"
    using run assms(1) by (auto split: if_splits)
qed

lemma finish_ok:
  assumes "limiter_ok (l, active)" "k \<in> set active"
  shows "limiter_ok (limiter_finish k l, remove1 k active)" "mLimitPerKey (limiter_finish k l) = mLimitPerKey l"
proof -
  define n where "n = count_list active k"
  have "n \<noteq> 0" using assms(2) by (metis count_list_0_iff n_def)
  then have eq: "limiter_finish k l = l\<lparr>mCounters := (mCounters l)(k := if n = 1 then None else Some (int n - 1))\<rparr>"
    using limiter_okD(2) [OF assms(1), of k] by (auto simp: limiter_finish_def n_def)
  show "mLimitPerKey (limiter_finish k l) = mLimitPerKey l" by (simp add: eq)
  have "int (count_list (remove1 k active) j) \<le> mLimitPerKey l \<and>
      ((mCounters l)(k := if n = 1 then None else Some (int n - 1))) j =
        (if count_list (remove1 k active) j = 0 then None else Some (int (count_list (remove1 k active) j)))" for j
    using limiter_okD [OF assms(1), of j] \<open>n \<noteq> 0\<close> by (cases "j = k") (auto simp: n_def)
  then show "limiter_ok (limiter_finish k l, remove1 k active)" by (simp add: limiter_ok_def eq)
qed

text \<open>
  No key ever has more operations in progress than the limit, an operation is rejected only when its
  key is at the limit, and when all operations have finished no counter is left.
\<close>

theorem limiter_enforces:
  assumes "0 < limit" "limiter_run ops (limiter_new limit, []) = Some (l, active)"
  shows "(\<forall>k. int (count_list active k) \<le> limit) \<and> (fst (limiter_start k l) \<longleftrightarrow> int (count_list active k) < limit) \<and>
    (active = [] \<longrightarrow> mCounters l = Map.empty)"
proof -
  have "limiter_ok (l, active) \<and> mLimitPerKey l = limit"
    if "limiter_run ops (l0, a0) = Some (l, active)" "limiter_ok (l0, a0)" "mLimitPerKey l0 = limit" for l0 a0
    using that
  proof (induction ops "(l0, a0)" arbitrary: l0 a0 rule: limiter_run.induct)
    case (2 k ops l0 a0)
    obtain ok l1 where st: "limiter_start k l0 = (ok, l1)" by (cases "limiter_start k l0")
    have run: "limiter_run ops (l1, if ok then k # a0 else a0) = Some (l, active)" using 2(2) st by simp
    show ?case
      using 2(1) [OF st [symmetric] run] start_ok [OF 2(3) _ st] 2(4) assms(1) by simp
  next
    case (3 k ops l0 a0)
    then show ?case using finish_ok [of l0 a0 k] by (auto split: if_splits)
  qed simp
  moreover have "limiter_ok (limiter_new limit, [] :: 'a list)" "mLimitPerKey (limiter_new limit) = limit"
    using assms(1) by (simp_all add: limiter_ok_def limiter_new_def)
  ultimately have ok: "limiter_ok (l, active)" "mLimitPerKey l = limit" using assms(2) by blast+
  then show ?thesis
    using limiter_okD [OF ok(1)] limiter_start_eq [OF ok(1), of k] assms(1) by (auto simp: fun_eq_iff)
qed

theorem limiter_enforces_witness:
  "\<exists>l. limiter_run [OpStart (7 :: nat), OpStart 7, OpStart 7, OpFinish 7, OpStart 8] (limiter_new 2, []) = Some (l, [8, 7]) \<and>
     fst (limiter_start 7 l)"
proof -
  obtain l where l: "limiter_run [OpStart (7 :: nat), OpStart 7, OpStart 7, OpFinish 7, OpStart 8] (limiter_new 2, []) = Some (l, [8, 7])"
    by (simp add: limiter_new_def limiter_start_def limiter_finish_def Let_def)
  then show ?thesis using limiter_enforces [OF _ l, of 7] by simp
qed

end
