(* ===== verification/Private_Dns.thy ===== *)
theory Private_Dns
  imports Dns_Tls_Server Step_Systems Net_Utils
begin

text \<open>
  resolv/PrivateDnsConfiguration.cpp: the private DNS mode of every network and the validation state of its
  servers. Configuration calls and the results of validation threads each hold the lock, so each is a
  step; how long a validation takes, and what it finds, is not determined. The parser of numeric
  addresses (\<open>getaddrinfo\<close>) is a parameter.
\<close>

section \<open>State\<close>

datatype PrivateDnsMode = PD_OFF | PD_OPPORTUNISTIC | PD_STRICT

datatype Validation = V_in_process | V_success | V_fail | V_unknown_server | V_unknown_netid

type_synonym tracker = "(DnsTlsServer \<times> Validation) list"

text \<open>A validation thread: what its lambda captured, and its backoff. \<open>reported\<close> records the calls of the callback.\<close>

record validator =
  val_server :: DnsTlsServer
  val_netId :: u32
  val_mark :: u32
  val_backoff :: backoff

record private_dns =
  mPrivateDnsModes :: "(u32 \<times> PrivateDnsMode) list"
  mPrivateDnsTransports :: "(u32 \<times> tracker) list"
  mCallback :: bool
  validators :: "validator list"
  reported :: "(u32 \<times> DnsTlsServer \<times> bool) list"

definition private_dns_new :: private_dns where
  "private_dns_new = \<lparr>mPrivateDnsModes = [], mPrivateDnsTransports = [], mCallback = False, validators = [], reported = []\<rparr>"

section \<open>Operations\<close>

definition setCallback :: "private_dns \<Rightarrow> private_dns" where
  "setCallback c = c\<lparr>mCallback := True\<rparr>"

definition needsValidation :: "tracker \<Rightarrow> DnsTlsServer \<Rightarrow> bool" where
  "needsValidation tr server =
     (case cm_find AddressComparator server tr of None \<Rightarrow> True | Some (k, v) \<Rightarrow> v = V_fail)"

definition validation_backoff :: backoff where
  "validation_backoff = backoff_build validation_params"

text \<open>
  Marks a server as in process and starts a thread for it. The loop of \<open>set\<close> does this for each
  server that needs it.
\<close>

definition validatePrivateDnsProvider :: "DnsTlsServer \<Rightarrow> u32 \<Rightarrow> u32 \<Rightarrow> tracker \<times> validator list \<Rightarrow> tracker \<times> validator list" where
  "validatePrivateDnsProvider server netId mark s =
     (cm_put AddressComparator server V_in_process (fst s),
      \<lparr>val_server = server, val_netId = netId, val_mark = mark, val_backoff = validation_backoff\<rparr> # snd s)"

fun validate_all :: "u32 \<Rightarrow> u32 \<Rightarrow> DnsTlsServer list \<Rightarrow> tracker \<times> validator list \<Rightarrow> tracker \<times> validator list" where
  "validate_all netId mark [] s = s"
| "validate_all netId mark (server # servers) s =
     validate_all netId mark servers
       (if needsValidation (fst s) server then validatePrivateDnsProvider server netId mark s else s)"

fun parse_servers :: "(string \<Rightarrow> sockaddr_storage option) \<Rightarrow> string \<Rightarrow> bytes list \<Rightarrow> string list \<Rightarrow> DnsTlsServer list \<Rightarrow> DnsTlsServer list option" where
  "parse_servers parseServer name fps [] acc = Some acc"
| "parse_servers parseServer name fps (s # ss) acc =
     (case parseServer s of
        None \<Rightarrow> None
      | Some parsed \<Rightarrow>
          parse_servers parseServer name fps ss
            (cs_insert server_lt ((DnsTlsServer_new parsed)\<lparr>server_name := name, server_fingerprints := fps\<rparr>) acc))"

definition pd_set ::
  "(string \<Rightarrow> sockaddr_storage option) \<Rightarrow> u32 \<Rightarrow> u32 \<Rightarrow> string list \<Rightarrow> string \<Rightarrow> bytes list \<Rightarrow> private_dns \<Rightarrow> int \<times> private_dns" where
  "pd_set parseServer netId mark servers name fps c =
     (case parse_servers parseServer name fps servers [] of
        None \<Rightarrow> (- EINVAL, c)
      | Some tlsServers \<Rightarrow>
          if name = [] \<and> fps = [] \<and> tlsServers = [] then
            (0, c\<lparr>mPrivateDnsModes := om_put netId PD_OFF (mPrivateDnsModes c),
                   mPrivateDnsTransports := om_erase netId (mPrivateDnsTransports c)\<rparr>)
          else
            let mode = (if name \<noteq> [] \<or> fps \<noteq> [] then PD_STRICT else PD_OPPORTUNISTIC);
                old = (case map_of (mPrivateDnsTransports c) netId of None \<Rightarrow> [] | Some tr \<Rightarrow> tr);
                kept = filter (\<lambda>e. cs_count server_lt (fst e) tlsServers \<noteq> 0) old
            in case validate_all netId mark tlsServers (kept, validators c) of
                 (tr, vs) \<Rightarrow>
                   (0, c\<lparr>mPrivateDnsModes := om_put netId mode (mPrivateDnsModes c),
                         mPrivateDnsTransports := om_put netId tr (mPrivateDnsTransports c),
                         validators := vs\<rparr>))"

definition pd_clear :: "u32 \<Rightarrow> private_dns \<Rightarrow> private_dns" where
  "pd_clear netId c = c\<lparr>mPrivateDnsModes := om_erase netId (mPrivateDnsModes c),
     mPrivateDnsTransports := om_erase netId (mPrivateDnsTransports c)\<rparr>"

definition getStatus :: "u32 \<Rightarrow> private_dns \<Rightarrow> PrivateDnsMode \<times> DnsTlsServer list" where
  "getStatus netId c =
     (case map_of (mPrivateDnsModes c) netId of
        None \<Rightarrow> (PD_OFF, [])
      | Some mode \<Rightarrow>
          (mode, case map_of (mPrivateDnsTransports c) netId of
             None \<Rightarrow> []
           | Some tr \<Rightarrow> map fst (filter (\<lambda>e. snd e = V_success) tr)))"

abbreviation MAXNS :: nat where "MAXNS \<equiv> 4"

text \<open>The status for netd: written only where the network is known, at most \<open>MAXNS\<close> servers.\<close>

definition getExternalStatus :: "u32 \<Rightarrow> private_dns \<Rightarrow> PrivateDnsMode \<times> tracker \<Rightarrow> PrivateDnsMode \<times> tracker" where
  "getExternalStatus netId c status =
     (case map_of (mPrivateDnsModes c) netId of
        None \<Rightarrow> status
      | Some mode \<Rightarrow>
          (mode, case map_of (mPrivateDnsTransports c) netId of None \<Rightarrow> snd status | Some tr \<Rightarrow> take MAXNS tr))"

text \<open>The result is whether the thread has to validate again.\<close>

definition recordPrivateDnsValidation :: "DnsTlsServer \<Rightarrow> u32 \<Rightarrow> bool \<Rightarrow> private_dns \<Rightarrow> bool \<times> private_dns" where
  "recordPrivateDnsValidation server netId success c =
     (case map_of (mPrivateDnsTransports c) netId of
        None \<Rightarrow> (False, c)
      | Some tr \<Rightarrow>
          (case map_of (mPrivateDnsModes c) netId of
             None \<Rightarrow> (False, c)
           | Some mode \<Rightarrow>
               (let present = (case cm_find AddressComparator server tr of None \<Rightarrow> False | Some (k, v) \<Rightarrow> server_eq k server);
                    ok = (success \<and> present);
                    again = (present \<and> \<not> (success \<or> mode \<noteq> PD_STRICT));
                    v = (if ok then V_success else if again then V_in_process else V_fail)
                in (again,
                    c\<lparr>mPrivateDnsTransports := om_put netId (cm_put AddressComparator server v tr) (mPrivateDnsTransports c),
                      reported := (if mCallback c then (netId, server, ok) # reported c else reported c)\<rparr>))))"

text \<open>
  A validation ends with a result: the thread goes on if the server is to be evaluated again and the
  backoff gives another delay.
\<close>

definition validator_result :: "nat \<Rightarrow> bool \<Rightarrow> private_dns \<Rightarrow> private_dns option" where
  "validator_result i success c =
     (if i < length (validators c) then
        (let v = validators c ! i in
         case recordPrivateDnsValidation (val_server v) (val_netId v) success c of
           (again, c') \<Rightarrow>
             if again \<and> hasNextTimeout (val_backoff v) then
               map_option (\<lambda>(t, b). c'\<lparr>validators := (validators c')[i := v\<lparr>val_backoff := b\<rparr>]\<rparr>) (getNextTimeout (val_backoff v))
             else Some (c'\<lparr>validators := take i (validators c') @ drop (Suc i) (validators c')\<rparr>))
      else None)"

section \<open>What set does to the tracker\<close>

definition tracked :: "tracker \<Rightarrow> DnsTlsServer \<Rightarrow> bool" where
  "tracked tr server \<longleftrightarrow> (\<exists>e \<in> set tr. address_key (fst e) = address_key server)"

lemma put_in_process:
  assumes "cm_inv AddressComparator tr" "e' \<in> set (cm_put AddressComparator server V_in_process tr)"
  shows "e' \<in> set tr \<and> address_key (fst e') \<noteq> address_key server \<or>
    snd e' = V_in_process \<and> address_key (fst e') = address_key server \<and> (fst e' = server \<or> (\<exists>v. (fst e', v) \<in> set tr))"
  using assms(2) by_address.find_mem [of server tr] by (auto simp: by_address.set_put [OF assms(1)] split: option.splits)

lemma put_tracked:
  assumes "cm_inv AddressComparator tr"
  shows "tracked (cm_put AddressComparator server v tr) s \<longleftrightarrow> tracked tr s \<or> address_key s = address_key server"
  using by_address.find_mem [of server tr]
  by (auto simp: tracked_def by_address.set_put [OF assms] split: option.splits) (metis fst_conv)+

text \<open>After the loop every server is tracked; an entry is an old one that did not fail, or in process.\<close>

definition entry_from :: "DnsTlsServer list \<Rightarrow> tracker \<Rightarrow> DnsTlsServer \<times> Validation \<Rightarrow> bool" where
  "entry_from servers tr e \<longleftrightarrow>
     (e \<in> set tr \<and> (snd e = V_fail \<longrightarrow> (\<forall>x \<in> set servers. address_key x \<noteq> address_key (fst e)))) \<or>
     (snd e = V_in_process \<and> (fst e \<in> set servers \<or> (\<exists>v. (fst e, v) \<in> set tr)))"

lemma entry_from_put:
  assumes inv: "cm_inv AddressComparator tr" and e: "entry_from servers (cm_put AddressComparator x V_in_process tr) e"
  shows "entry_from (x # servers) tr e"
proof -
  note put = put_in_process [OF inv]
  consider "e \<in> set (cm_put AddressComparator x V_in_process tr)" "snd e = V_fail \<longrightarrow> (\<forall>y \<in> set servers. address_key y \<noteq> address_key (fst e))"
    | "snd e = V_in_process" "fst e \<in> set servers"
    | v where "snd e = V_in_process" "(fst e, v) \<in> set (cm_put AddressComparator x V_in_process tr)"
    using e unfolding entry_from_def by blast
  then show ?thesis
  proof cases
    case 1
    then show ?thesis using put [OF 1(1)] unfolding entry_from_def by auto
  next
    case 2
    then show ?thesis unfolding entry_from_def by simp
  next
    case (3 v)
    then show ?thesis using put [OF 3(2)] unfolding entry_from_def by auto
  qed
qed

lemma entry_from_skip:
  assumes inv: "cm_inv AddressComparator tr" and e: "entry_from servers tr e"
    and kv: "(k, v) \<in> set tr" "address_key k = address_key x" "v \<noteq> V_fail"
  shows "entry_from (x # servers) tr e"
proof -
  have "snd e \<noteq> V_fail" if "e \<in> set tr" "address_key x = address_key (fst e)"
    using by_address.keys_unique [OF inv that(1) kv(1)] that(2) kv(2,3) by auto
  then show ?thesis using e unfolding entry_from_def by auto
qed

lemma validate_all_entries:
  assumes "cm_inv AddressComparator tr" "validate_all netId mark servers (tr, vs) = (tr', vs')"
  shows "cm_inv AddressComparator tr' \<and> (\<forall>s. tracked tr' s \<longleftrightarrow> tracked tr s \<or> (\<exists>x \<in> set servers. address_key s = address_key x)) \<and>
    (\<forall>e \<in> set tr'. entry_from servers tr e)"
  using assms
proof (induction servers arbitrary: tr vs)
  case Nil
  then show ?case by (simp add: entry_from_def)
next
  case (Cons x servers)
  show ?case
  proof (cases "needsValidation tr x")
    case True
    let ?tr = "cm_put AddressComparator x V_in_process tr"
    obtain vs1 where run: "validate_all netId mark servers (?tr, vs1) = (tr', vs')"
      using Cons.prems(2) True by (auto simp: validatePrivateDnsProvider_def)
    from Cons.IH [OF by_address.inv_put [OF Cons.prems(1)] run] show ?thesis
      using entry_from_put [OF Cons.prems(1)] put_tracked [OF Cons.prems(1)] by simp
  next
    case False
    then have run: "validate_all netId mark servers (tr, vs) = (tr', vs')" using Cons.prems(2) by simp
    obtain k v where kv: "(k, v) \<in> set tr" "address_key k = address_key x" "v \<noteq> V_fail"
      using False by_address.find_mem [of x tr] by (auto simp: needsValidation_def split: option.splits)
    have "tracked tr s" if "address_key s = address_key x" for s using kv(1,2) that by (force simp: tracked_def)
    with Cons.IH [OF Cons.prems(1) run] show ?thesis
      using entry_from_skip [OF Cons.prems(1) _ kv] by simp blast
  qed
qed

section \<open>Configuration\<close>

definition tracker_of :: "u32 \<Rightarrow> private_dns \<Rightarrow> tracker" where
  "tracker_of netId c = (case map_of (mPrivateDnsTransports c) netId of None \<Rightarrow> [] | Some tr \<Rightarrow> tr)"

text \<open>
  Claim C27. A configuration that is not empty leaves in the network's tracker exactly the configured servers: every
  entry is one of them in address, port, name and fingerprints, every configured address has an entry, no
  entry is left as failed, and only an entry that was there before counts as validated. The other
  networks keep their trackers and modes.
\<close>

theorem pd_set_tracks:
  assumes "parse_servers parseServer name fps servers [] = Some tls" "name \<noteq> [] \<or> fps \<noteq> [] \<or> tls \<noteq> []"
    and "cm_inv AddressComparator (tracker_of netId c)" "pd_set parseServer netId mark servers name fps c = (r, c')"
  shows "r = 0 \<and> cm_inv AddressComparator (tracker_of netId c') \<and>
    (\<forall>s \<in> set tls. tracked (tracker_of netId c') s) \<and>
    (\<forall>e \<in> set (tracker_of netId c'). (\<exists>s \<in> set tls. server_key s = server_key (fst e)) \<and> snd e \<noteq> V_fail \<and>
       (snd e = V_success \<longrightarrow> e \<in> set (tracker_of netId c))) \<and>
    (\<forall>n. n \<noteq> netId \<longrightarrow> tracker_of n c' = tracker_of n c \<and> fst (getStatus n c') = fst (getStatus n c))"
proof -
  define kept where "kept = filter (\<lambda>e. cs_count server_lt (fst e) tls \<noteq> 0) (tracker_of netId c)"
  obtain tr vs where run: "validate_all netId mark tls (kept, validators c) = (tr, vs)" by (metis surj_pair)
  have c': "r = 0" "map_of (mPrivateDnsTransports c') = (map_of (mPrivateDnsTransports c))(netId \<mapsto> tr)"
    "map_of (mPrivateDnsModes c') = (map_of (mPrivateDnsModes c))(netId \<mapsto> (if name \<noteq> [] \<or> fps \<noteq> [] then PD_STRICT else PD_OPPORTUNISTIC))"
    using assms(1,2,4) run unfolding kept_def tracker_of_def by (auto simp: pd_set_def Let_def map_of_om_put)
  have kept: "e \<in> set (tracker_of netId c) \<and> (\<exists>s \<in> set tls. server_key s = server_key (fst e))" if "e \<in> set kept" for e
    using that by (auto simp: kept_def by_server.count_iff)
  have inv: "cm_inv AddressComparator kept" unfolding kept_def by (rule by_address.inv_filter [OF assms(3)])
  note all = validate_all_entries [OF inv run]
  have "(\<exists>s \<in> set tls. server_key s = server_key (fst e)) \<and> snd e \<noteq> V_fail \<and>
       (snd e = V_success \<longrightarrow> e \<in> set (tracker_of netId c))" if "e \<in> set tr" for e
  proof -
    have "entry_from tls kept e" using all that by blast
    then consider "e \<in> set kept" "snd e \<noteq> V_fail" | s where "snd e = V_in_process" "s \<in> set tls" "server_key s = server_key (fst e)"
      unfolding entry_from_def using kept server_key_address by (metis fst_conv)
    then show ?thesis by cases (use kept in auto)
  qed
  moreover have "tracker_of netId c' = tr" "\<And>n. n \<noteq> netId \<Longrightarrow> tracker_of n c' = tracker_of n c \<and> fst (getStatus n c') = fst (getStatus n c)"
    using c' by (auto simp: tracker_of_def getStatus_def split: option.splits)
  ultimately show ?thesis using all c'(1) by auto
qed

text \<open>A server at 1.1.1.1 and one at 8.8.8.8, as the parser gives them, and a configuration with both.\<close>

definition demo_sockaddr :: "u32 \<Rightarrow> sockaddr_storage" where
  "demo_sockaddr a = \<lparr>ss_family = SA_INET, sin_port = 853, sin_addr = a, sin6_flowinfo = 0, sin6_addr = [], sin6_scope_id = 0\<rparr>"

definition demo_parse :: "string \<Rightarrow> sockaddr_storage option" where
  "demo_parse s = (if s = ''1.1.1.1'' then Some (demo_sockaddr 0x01010101) else if s = ''8.8.8.8'' then Some (demo_sockaddr 0x08080808) else None)"

definition demo_one :: DnsTlsServer where
  "demo_one = DnsTlsServer_new (demo_sockaddr 0x01010101)"

theorem pd_set_tracks_witness:
  "list_all (\<lambda>e. server_key demo_one = server_key (fst e) \<and> snd e \<noteq> V_fail \<and> snd e \<noteq> V_success)
     (tracker_of 100 (snd (pd_set demo_parse 100 7 [''1.1.1.1''] [] [] private_dns_new)))"
proof -
  let ?c = "pd_set demo_parse 100 7 [''1.1.1.1''] [] [] private_dns_new"
  have parse: "parse_servers demo_parse [] [] [''1.1.1.1''] [] = Some [demo_one]" by code_simp
  have inv: "cm_inv AddressComparator (tracker_of 100 private_dns_new)" and new: "tracker_of 100 private_dns_new = []" by code_simp+
  have "?c = (fst ?c, snd ?c)" by simp
  from pd_set_tracks [OF parse _ inv this] new show ?thesis by (auto simp: list_all_iff)
qed

lemma parse_servers_None: "parse_servers parseServer name fps servers acc = None \<longleftrightarrow> (\<exists>s \<in> set servers. parseServer s = None)"
  by (induction servers arbitrary: acc) (auto split: option.splits)

text \<open>
  A configuration with an address that is not numeric is refused with \<open>EINVAL\<close> and changes nothing; every
  other configuration is accepted, and turns private DNS off where it has no server, name or fingerprint.
\<close>

theorem pd_set_invalid:
  "fst (pd_set parseServer netId mark servers name fps c) = (if list_ex (\<lambda>s. parseServer s = None) servers then - EINVAL else 0) \<and>
   (list_ex (\<lambda>s. parseServer s = None) servers \<longrightarrow> snd (pd_set parseServer netId mark servers name fps c) = c) \<and>
   (servers = [] \<and> name = [] \<and> fps = [] \<longrightarrow> getStatus netId (snd (pd_set parseServer netId mark servers name fps c)) = (PD_OFF, []))"
  using parse_servers_None [of parseServer name fps servers "[]"]
  by (auto simp: pd_set_def Let_def list_ex_iff getStatus_def map_of_om_put map_of_om_erase split: option.splits prod.splits)

theorem pd_set_invalid_witness:
  "pd_set demo_parse 100 7 [''1.1.1.1'', ''dns.google''] [] [] private_dns_new = (- EINVAL, private_dns_new)"
proof -
  have ex: "list_ex (\<lambda>s. demo_parse s = None) [''1.1.1.1'', ''dns.google'']" by code_simp
  show ?thesis
    using pd_set_invalid [of demo_parse 100 7 "[''1.1.1.1'', ''dns.google'']" "[]" "[]" private_dns_new] ex by (simp only: prod_eq_iff if_True simp_thms fst_conv snd_conv)
qed

section \<open>Validation\<close>

text \<open>
  Configuration calls and results of validation threads in any order. The second component of the state
  collects what validations have found: which server answered on which network.
\<close>

datatype pd_label =
  PSet "string \<Rightarrow> sockaddr_storage option" u32 u32 "string list" string "bytes list"
| PClear u32
| PCallback
| PResult nat bool

type_synonym pd_state = "private_dns \<times> (u32 \<times> DnsTlsServer) list"

text \<open>A thread reports while it runs; after some 10^15 retries, its total delay would no longer fit its type.\<close>

fun pd_enabled :: "pd_label \<Rightarrow> pd_state \<Rightarrow> bool" where
  "pd_enabled (PResult i ok) s \<longleftrightarrow> i < length (validators (fst s)) \<and> getNextTimeout (val_backoff (validators (fst s) ! i)) \<noteq> None"
| "pd_enabled l s \<longleftrightarrow> True"

fun pd_exec :: "pd_label \<Rightarrow> pd_state \<Rightarrow> pd_state option" where
  "pd_exec (PSet parseServer netId mark servers name fps) s = Some (snd (pd_set parseServer netId mark servers name fps (fst s)), snd s)"
| "pd_exec (PClear netId) s = Some (pd_clear netId (fst s), snd s)"
| "pd_exec PCallback s = Some (setCallback (fst s), snd s)"
| "pd_exec (PResult i ok) s =
     map_option (\<lambda>c. (c, if ok then (let v = validators (fst s) ! i in (val_netId v, val_server v)) # snd s else snd s))
       (validator_result i ok (fst s))"

definition proven :: "u32 \<Rightarrow> (u32 \<times> DnsTlsServer) list \<Rightarrow> DnsTlsServer \<times> Validation \<Rightarrow> bool" where
  "proven netId found e \<longleftrightarrow> (snd e = V_success \<longrightarrow> (\<exists>s. (netId, s) \<in> set found \<and> server_key s = server_key (fst e)))"

definition pd_inv :: "pd_state \<Rightarrow> bool" where
  "pd_inv s \<longleftrightarrow> (\<forall>n. cm_inv AddressComparator (tracker_of n (fst s)) \<and> (\<forall>e \<in> set (tracker_of n (fst s)). proven n (snd s) e))"

lemma tracker_new: "tracker_of n private_dns_new = []"
  by (simp add: tracker_of_def private_dns_new_def)

lemma tracker_set:
  assumes "cm_inv AddressComparator (tracker_of netId c)"
  shows "cm_inv AddressComparator (tracker_of netId (snd (pd_set parseServer netId mark servers name fps c))) \<and>
    (\<forall>e \<in> set (tracker_of netId (snd (pd_set parseServer netId mark servers name fps c))).
       snd e = V_success \<longrightarrow> e \<in> set (tracker_of netId c))"
proof (cases "parse_servers parseServer name fps servers []")
  case (Some tls)
  define kept where "kept = filter (\<lambda>e. cs_count server_lt (fst e) tls \<noteq> 0) (tracker_of netId c)"
  obtain tr vs where run: "validate_all netId mark tls (kept, validators c) = (tr, vs)" by (metis surj_pair)
  have inv: "cm_inv AddressComparator kept" unfolding kept_def by (rule by_address.inv_filter [OF assms])
  have "tracker_of netId (snd (pd_set parseServer netId mark servers name fps c)) = (if name = [] \<and> fps = [] \<and> tls = [] then [] else tr)"
    using Some run unfolding kept_def tracker_of_def by (auto simp: pd_set_def Let_def map_of_om_put map_of_om_erase)
  moreover have "e \<in> set (tracker_of netId c)" if "e \<in> set tr" "snd e = V_success" for e
    using validate_all_entries [OF inv run] that by (auto simp: entry_from_def kept_def)
  ultimately show ?thesis using validate_all_entries [OF inv run] by (simp add: cm_inv_def)
qed (use assms in \<open>simp add: pd_set_def\<close>)

lemma tracker_set_other:
  "n \<noteq> netId \<Longrightarrow> tracker_of n (snd (pd_set parseServer netId mark servers name fps c)) = tracker_of n c"
  by (auto simp: pd_set_def tracker_of_def Let_def map_of_om_put map_of_om_erase split: option.splits prod.splits)

lemma tracker_clear: "tracker_of n (pd_clear netId c) = (if n = netId then [] else tracker_of n c)"
  by (simp add: pd_clear_def tracker_of_def map_of_om_erase)

lemma proven_later: "proven n found e \<Longrightarrow> proven n (f # found) e"
  by (auto simp: proven_def)

text \<open>A result marks the server's entry, as validated only if it is the server that answered.\<close>

lemma tracker_result:
  assumes "cm_inv AddressComparator (tracker_of netId c)" "recordPrivateDnsValidation server netId ok c = (again, c')"
  shows "cm_inv AddressComparator (tracker_of netId c') \<and> (\<forall>n. n \<noteq> netId \<longrightarrow> tracker_of n c' = tracker_of n c) \<and>
    (\<forall>e \<in> set (tracker_of netId c'). snd e = V_success \<longrightarrow> e \<in> set (tracker_of netId c) \<or> ok \<and> server_key server = server_key (fst e))"
proof (cases "map_of (mPrivateDnsTransports c) netId = None \<or> map_of (mPrivateDnsModes c) netId = None")
  case True
  then have "c' = c" using assms(2) by (auto simp: recordPrivateDnsValidation_def split: option.splits)
  then show ?thesis using assms(1) by simp
next
  case False
  then obtain tr mode where tr: "map_of (mPrivateDnsTransports c) netId = Some tr" "map_of (mPrivateDnsModes c) netId = Some mode" by auto
  then have old: "tracker_of netId c = tr" by (simp add: tracker_of_def)
  obtain v where v: "map_of (mPrivateDnsTransports c') = (map_of (mPrivateDnsTransports c))(netId \<mapsto> cm_put AddressComparator server v tr)"
    "v = V_success \<longrightarrow> ok \<and> (\<exists>k w. cm_find AddressComparator server tr = Some (k, w) \<and> server_eq k server)"
    using assms(2) tr by (auto simp: recordPrivateDnsValidation_def Let_def map_of_om_put split: if_splits option.splits)
  have inv: "cm_inv AddressComparator tr" using assms(1) old by simp
  have new: "tracker_of netId c' = cm_put AddressComparator server v tr" "n \<noteq> netId \<Longrightarrow> tracker_of n c' = tracker_of n c" for n
    using v(1) by (simp_all add: tracker_of_def)
  have "e \<in> set tr \<or> ok \<and> server_key server = server_key (fst e)" if "e \<in> set (cm_put AddressComparator server v tr)" "snd e = V_success" for e
    using that v(2) server_eq_key by (auto simp: by_address.set_put [OF inv] split: option.splits)
  then show ?thesis using new old by_address.inv_put [OF inv] by auto
qed

lemma validator_result_tracker:
  assumes "validator_result i ok c = Some c''" "v = validators c ! i"
  shows "\<exists>again c'. recordPrivateDnsValidation (val_server v) (val_netId v) ok c = (again, c') \<and> (\<forall>n. tracker_of n c'' = tracker_of n c')"
  using assms by (auto simp: validator_result_def Let_def tracker_of_def split: if_splits prod.splits)

lemma pd_invD:
  "pd_inv (c, found) \<Longrightarrow> e \<in> set (tracker_of n c) \<Longrightarrow> snd e = V_success \<Longrightarrow> \<exists>s. (n, s) \<in> set found \<and> server_key s = server_key (fst e)"
  unfolding pd_inv_def proven_def fst_conv snd_conv by blast

lemma pd_result_inv:
  assumes "pd_inv (c, found)" "validator_result i ok c = Some c''" "v = validators c ! i"
  shows "pd_inv (c'', if ok then (val_netId v, val_server v) # found else found)"
proof -
  obtain again c' where c': "recordPrivateDnsValidation (val_server v) (val_netId v) ok c = (again, c')"
    "\<forall>n. tracker_of n c'' = tracker_of n c'"
    using validator_result_tracker [OF assms(2,3)] by auto
  have "cm_inv AddressComparator (tracker_of (val_netId v) c)" using assms(1) by (simp add: pd_inv_def)
  note res = tracker_result [OF this c'(1)]
  have "cm_inv AddressComparator (tracker_of n c') \<and>
      (\<forall>e \<in> set (tracker_of n c'). proven n (if ok then (val_netId v, val_server v) # found else found) e)" for n
  proof (cases "n = val_netId v")
    case True
    have "proven n (if ok then (val_netId v, val_server v) # found else found) e" if "e \<in> set (tracker_of n c')" for e
    proof (cases "snd e = V_success \<and> e \<in> set (tracker_of n c)")
      case True
      then show ?thesis using pd_invD [OF assms(1), of e n] by (auto simp: proven_def)
    next
      case False
      then show ?thesis using res that \<open>n = val_netId v\<close> by (auto simp: proven_def)
    qed
    then show ?thesis using res True by simp
  next
    case False
    then show ?thesis using res assms(1) proven_later by (auto simp: pd_inv_def)
  qed
  then show ?thesis using c'(2) by (simp add: pd_inv_def)
qed

lemma pd_set_inv:
  assumes "pd_inv (c, found)"
  shows "pd_inv (snd (pd_set parseServer netId mark servers name fps c), found)"
proof -
  have "cm_inv AddressComparator (tracker_of n (snd (pd_set parseServer netId mark servers name fps c))) \<and>
      (\<forall>e \<in> set (tracker_of n (snd (pd_set parseServer netId mark servers name fps c))). proven n found e)" for n
    using tracker_set [of netId c] tracker_set_other assms by (cases "n = netId") (auto simp: pd_inv_def proven_def)
  then show ?thesis by (simp add: pd_inv_def)
qed

lemma validator_result_runs:
  "i < length (validators c) \<Longrightarrow> getNextTimeout (val_backoff (validators c ! i)) \<noteq> None \<Longrightarrow> \<exists>c'. validator_result i ok c = Some c'"
  by (auto simp: validator_result_def Let_def split: prod.splits)

lemma pd_inv_step:
  assumes "pd_inv s" "pd_enabled l s"
  shows "\<exists>s'. pd_exec l s = Some s' \<and> pd_inv s'"
proof (cases l)
  case (PSet x1 x2 x3 x4 x5 x6)
  then show ?thesis using pd_set_inv [of "fst s" "snd s"] assms(1) by simp
next
  case (PClear x)
  then show ?thesis using assms(1) by (simp add: pd_inv_def tracker_clear cm_inv_def)
next
  case PCallback
  then show ?thesis using assms(1) by (simp add: pd_inv_def tracker_of_def setCallback_def)
next
  case (PResult i ok)
  then obtain c'' where "validator_result i ok (fst s) = Some c''" using validator_result_runs assms(2) by fastforce
  then show ?thesis using PResult pd_result_inv [of "fst s" "snd s" i ok c''] assms(1) by (simp add: Let_def split: if_splits)
qed

interpretation pd: step_invariant pd_enabled pd_exec "(private_dns_new, [])" pd_inv
  by unfold_locales (simp add: pd_inv_def tracker_new cm_inv_def, rule pd_inv_step)

text \<open>
  Claim C11. Whatever the order in which networks are configured and cleared and validations end, a server that
  lookups are told to trust on a network is one that answered a validation on that same network, with
  the same address, port, name and fingerprints.
\<close>

theorem validated_only_after_success:
  assumes "reachable pd_enabled pd_exec (private_dns_new, []) (c, found)" "server \<in> set (snd (getStatus netId c))"
  shows "\<exists>s. (netId, s) \<in> set found \<and> server_key s = server_key server"
proof -
  have "pd_inv (c, found)" by (rule pd.reachable_inv [OF assms(1)])
  moreover have "(server, V_success) \<in> set (tracker_of netId c)"
    using assms(2) by (auto simp: getStatus_def tracker_of_def split: option.splits)
  ultimately show ?thesis using pd_invD by fastforce
qed

text \<open>The server is configured, fails once, and answers the second time.\<close>

definition demo_run :: "pd_label list" where
  "demo_run = [PCallback, PSet demo_parse 100 7 [''1.1.1.1''] ''dns.example'' [], PResult 0 False, PResult 0 True]"

theorem validated_only_after_success_witness:
  "\<exists>c found server. run_steps pd_enabled pd_exec demo_run (private_dns_new, []) = Some (c, found) \<and>
     getStatus 100 c = (PD_STRICT, [server]) \<and> (\<exists>s. (100, s) \<in> set found \<and> server_key s = server_key server)"
proof -
  have "map_option (\<lambda>(c, found). getStatus 100 c) (run_steps pd_enabled pd_exec demo_run (private_dns_new, [])) =
      Some (PD_STRICT, [demo_one\<lparr>server_name := ''dns.example''\<rparr>])" by code_simp
  then obtain c found where run: "run_steps pd_enabled pd_exec demo_run (private_dns_new, []) = Some (c, found)"
    "getStatus 100 c = (PD_STRICT, [demo_one\<lparr>server_name := ''dns.example''\<rparr>])" by auto
  have "reachable pd_enabled pd_exec (private_dns_new, []) (c, found)" by (rule run_steps_reachable [OF run(1) reach_init])
  from validated_only_after_success [OF this, of _ 100] run show ?thesis by auto
qed

text \<open>
  A result for a server that is no longer configured still writes its entry, as failed. With two threads
  for the server the second one finds the entry of the first and validates it: the network then
  reports a server that its configuration does not have.
\<close>

lemma stale_server_validated:
  "map_option (\<lambda>(c, found). getStatus 100 c)
     (run_steps pd_enabled pd_exec
        [PSet demo_parse 100 7 [''1.1.1.1''] [] [], PSet demo_parse 100 7 [''8.8.8.8''] [] [],
         PSet demo_parse 100 7 [''1.1.1.1''] [] [], PSet demo_parse 100 7 [''8.8.8.8''] [] [], PResult 1 False, PResult 2 True]
        (private_dns_new, [])) =
   Some (PD_OPPORTUNISTIC, [demo_one])"
  by code_simp

end
