(* ===== verification/Dns_Packet.thy ===== *)
theory Dns_Packet
  imports Netd_Prelude "HOL-Library.Monad_Syntax"
begin

text \<open>
  resolv/res_cache.cpp, the part that reads DNS packets: which queries the cache accepts, their hash and
  their comparison. A packet is its bytes with a cursor. \<open>None\<close> stands for a read outside the packet, which
  the code does not rule out.
\<close>

unbundle bit_operations_syntax

section \<open>Packets\<close>

record DnsPacket =
  base :: bytes
  cursor :: nat

definition dnsPacket_init :: "bytes \<Rightarrow> DnsPacket" where
  "dnsPacket_init buff = \<lparr>base = buff, cursor = 0\<rparr>"

definition dnsPacket_rewind :: "DnsPacket \<Rightarrow> DnsPacket" where
  "dnsPacket_rewind packet = packet\<lparr>cursor := 0\<rparr>"

definition dnsPacket_skip :: "nat \<Rightarrow> DnsPacket \<Rightarrow> DnsPacket" where
  "dnsPacket_skip n packet = packet\<lparr>cursor := min (cursor packet + n) (length (base packet))\<rparr>"

definition int16_at :: "bytes \<Rightarrow> nat \<Rightarrow> nat" where
  "int16_at b p = 256 * unat (b ! p) + unat (b ! (p + 1))"

definition dnsPacket_readInt16 :: "DnsPacket \<Rightarrow> int \<times> DnsPacket" where
  "dnsPacket_readInt16 packet =
     (if cursor packet + 2 > length (base packet) then (-1, packet)
      else (int (int16_at (base packet) (cursor packet)), packet\<lparr>cursor := cursor packet + 2\<rparr>))"

section \<open>Query checking\<close>

abbreviation DNS_HEADER_SIZE :: nat where "DNS_HEADER_SIZE \<equiv> 12"

text \<open>
  The first two bytes of the string constants. An octal escape has at most three digits, so
  \<open>"\00\0377"\<close> is a zero, the byte 31 and the character 7.
\<close>

definition DNS_TYPE_A :: bytes where "DNS_TYPE_A = [0, 1]"
definition DNS_TYPE_PTR :: bytes where "DNS_TYPE_PTR = [0, 12]"
definition DNS_TYPE_MX :: bytes where "DNS_TYPE_MX = [0, 15]"
definition DNS_TYPE_AAAA :: bytes where "DNS_TYPE_AAAA = [0, 28]"
definition DNS_TYPE_ALL :: bytes where "DNS_TYPE_ALL = [0, 31]"
definition DNS_CLASS_IN :: bytes where "DNS_CLASS_IN = [0, 1]"

definition dnsPacket_checkBytes :: "bytes \<Rightarrow> DnsPacket \<Rightarrow> bool \<times> DnsPacket" where
  "dnsPacket_checkBytes bytes packet =
     (if cursor packet + length bytes > length (base packet) then (False, packet)
      else if take (length bytes) (drop (cursor packet) (base packet)) \<noteq> bytes then (False, packet)
      else (True, packet\<lparr>cursor := cursor packet + length bytes\<rparr>))"

text \<open>The loop over the labels: the position after the name, or \<open>None\<close> for malformed data.\<close>

function qname_loop :: "bytes \<Rightarrow> nat \<Rightarrow> nat option" where
  "qname_loop b p =
     (if p \<ge> length b then None
      else let c = unat (b ! p) in
        if c = 0 then Some (p + 1) else if c \<ge> 64 then None else qname_loop b (p + 1 + c))"
  by auto
termination by (relation "measure (\<lambda>(b, p). length b - p)") auto

declare qname_loop.simps [simp del]

definition dnsPacket_checkQName :: "DnsPacket \<Rightarrow> bool \<times> DnsPacket" where
  "dnsPacket_checkQName packet =
     (case qname_loop (base packet) (cursor packet) of
        None \<Rightarrow> (False, packet)
      | Some p \<Rightarrow> (True, packet\<lparr>cursor := p\<rparr>))"

fun check_any :: "bytes list \<Rightarrow> DnsPacket \<Rightarrow> bool \<times> DnsPacket" where
  "check_any [] packet = (False, packet)"
| "check_any (t # ts) packet =
     (case dnsPacket_checkBytes t packet of (ok, packet') \<Rightarrow> if ok then (True, packet') else check_any ts packet')"

definition dnsPacket_checkQR :: "DnsPacket \<Rightarrow> bool \<times> DnsPacket" where
  "dnsPacket_checkQR packet =
     (case dnsPacket_checkQName packet of (ok1, packet1) \<Rightarrow>
        if \<not> ok1 then (False, packet1)
        else case check_any [DNS_TYPE_A, DNS_TYPE_PTR, DNS_TYPE_MX, DNS_TYPE_AAAA, DNS_TYPE_ALL] packet1 of (ok2, packet2) \<Rightarrow>
          if \<not> ok2 then (False, packet2) else dnsPacket_checkBytes DNS_CLASS_IN packet2)"

fun check_QRs :: "nat \<Rightarrow> DnsPacket \<Rightarrow> bool" where
  "check_QRs 0 packet = True"
| "check_QRs (Suc n) packet =
     (case dnsPacket_checkQR packet of (ok, packet') \<Rightarrow> if ok then check_QRs n packet' else False)"

definition dnsPacket_checkQuery :: "DnsPacket \<Rightarrow> bool" where
  "dnsPacket_checkQuery packet =
     (let p = base packet in
      if DNS_HEADER_SIZE > length p then False
      else if p ! 2 AND 0xFC \<noteq> 0 \<or> p ! 3 AND 0xCF \<noteq> 0 then False
      else let qdCount = int16_at p 4; anCount = int16_at p 6; dnCount = int16_at p 8; arCount = int16_at p 10 in
        if anCount \<noteq> 0 \<or> dnCount \<noteq> 0 \<or> arCount > 1 then False
        else if qdCount = 0 then False
        else check_QRs qdCount (packet\<lparr>cursor := DNS_HEADER_SIZE\<rparr>))"

section \<open>Query hashing\<close>

definition FNV_MULT :: u32 where "FNV_MULT = 16777619"
definition FNV_BASIS :: u32 where "FNV_BASIS = 2166136261"

definition hash_byte :: "u32 \<Rightarrow> u8 \<Rightarrow> u32" where
  "hash_byte h b = (h * FNV_MULT) XOR ucast b"

text \<open>The loop never counts \<open>numBytes\<close> down.\<close>

function hash_loop :: "int \<Rightarrow> bytes \<Rightarrow> nat \<Rightarrow> u32 \<Rightarrow> nat \<times> u32" where
  "hash_loop numBytes b p h = (if numBytes > 0 \<and> p < length b then hash_loop numBytes b (p + 1) (hash_byte h (b ! p)) else (p, h))"
  by auto
termination by (relation "measure (\<lambda>(n, b, p, h). length b - p)") auto

declare hash_loop.simps [simp del]

definition dnsPacket_hashBytes :: "int \<Rightarrow> DnsPacket \<times> u32 \<Rightarrow> DnsPacket \<times> u32" where
  "dnsPacket_hashBytes numBytes s =
     (case hash_loop numBytes (base (fst s)) (cursor (fst s)) (snd s) of (p, h) \<Rightarrow> ((fst s)\<lparr>cursor := p\<rparr>, h))"

function hash_qname :: "bytes \<Rightarrow> nat \<Rightarrow> u32 \<Rightarrow> nat \<times> u32" where
  "hash_qname b p h =
     (if p \<ge> length b then (p, h)
      else let c = unat (b ! p) in
        if c = 0 then (p + 1, h)
        else if c \<ge> 64 then (p + 1, h)
        else if p + 1 + c \<ge> length b then (p + 1, h)
        else hash_qname b (p + 1 + c) (foldl hash_byte h (take c (drop (p + 1) b))))"
  by auto
termination by (relation "measure (\<lambda>(b, p, h). length b - p)") auto

declare hash_qname.simps [simp del]

definition dnsPacket_hashQName :: "DnsPacket \<times> u32 \<Rightarrow> DnsPacket \<times> u32" where
  "dnsPacket_hashQName s =
     (case hash_qname (base (fst s)) (cursor (fst s)) (snd s) of (p, h) \<Rightarrow> ((fst s)\<lparr>cursor := p\<rparr>, h))"

definition dnsPacket_hashQR :: "DnsPacket \<times> u32 \<Rightarrow> DnsPacket \<times> u32" where
  "dnsPacket_hashQR s = dnsPacket_hashBytes 4 (dnsPacket_hashQName s)"

definition dnsPacket_hashRR :: "DnsPacket \<times> u32 \<Rightarrow> DnsPacket \<times> u32" where
  "dnsPacket_hashRR s =
     (let s1 = dnsPacket_hashBytes 4 (dnsPacket_hashQR s) in
      case dnsPacket_readInt16 (fst s1) of (rdlength, packet) \<Rightarrow> dnsPacket_hashBytes rdlength (packet, snd s1))"

definition dnsPacket_hashQuery :: "DnsPacket \<Rightarrow> u32 option" where
  "dnsPacket_hashQuery packet =
     (let packet1 = dnsPacket_skip 2 (dnsPacket_rewind packet) in
      if length (base packet) \<le> 2 then None
      else let hash1 = (FNV_BASIS * FNV_MULT) XOR ucast (base packet ! 2 AND 1);
               s2 = dnsPacket_hashBytes 1 (dnsPacket_skip 1 packet1, hash1)
        in case dnsPacket_readInt16 (fst s2) of (qdcount, packet3) \<Rightarrow>
          case dnsPacket_readInt16 (dnsPacket_skip 4 packet3) of (arcount, packet4) \<Rightarrow>
            let s5 = (dnsPacket_hashQR ^^ nat qdcount) (packet4, snd s2)
            in Some (snd ((dnsPacket_hashRR ^^ nat arcount) s5)))"

section \<open>Query comparison\<close>

function equal_names :: "bytes \<Rightarrow> nat \<Rightarrow> bytes \<Rightarrow> nat \<Rightarrow> (nat \<times> nat) option" where
  "equal_names b1 p1 b2 p2 =
     (if p1 \<ge> length b1 \<or> p2 \<ge> length b2 then None
      else if b1 ! p1 \<noteq> b2 ! p2 then None
      else let c = unat (b1 ! p1) in
        if c = 0 then Some (p1 + 1, p2 + 1)
        else if c \<ge> 64 then None
        else if p1 + 1 + c > length b1 \<or> p2 + 1 + c > length b2 then None
        else if take c (drop (p1 + 1) b1) \<noteq> take c (drop (p2 + 1) b2) then None
        else equal_names b1 (p1 + 1 + c) b2 (p2 + 1 + c))"
  by auto
termination by (relation "measure (\<lambda>(b1, p1, b2, p2). length b1 - p1)") auto

declare equal_names.simps [simp del]

type_synonym packets = "DnsPacket \<times> DnsPacket"

text \<open>
  The comparisons give the packets with their cursors moved, if they are equal. The outer \<open>None\<close> is the
  call of \<open>memcmp\<close> with a negative length.
\<close>

definition dnsPacket_isEqualDomainName :: "packets \<Rightarrow> packets option option" where
  "dnsPacket_isEqualDomainName pp =
     Some (map_option (\<lambda>(p1, p2). ((fst pp)\<lparr>cursor := p1\<rparr>, (snd pp)\<lparr>cursor := p2\<rparr>))
       (equal_names (base (fst pp)) (cursor (fst pp)) (base (snd pp)) (cursor (snd pp))))"

definition dnsPacket_isEqualBytes :: "int \<Rightarrow> packets \<Rightarrow> packets option option" where
  "dnsPacket_isEqualBytes numBytes pp =
     (let p1 = cursor (fst pp); p2 = cursor (snd pp); b1 = base (fst pp); b2 = base (snd pp) in
      if int p1 + numBytes > int (length b1) \<or> int p2 + numBytes > int (length b2) then Some None
      else if numBytes < 0 then None
      else if take (nat numBytes) (drop p1 b1) \<noteq> take (nat numBytes) (drop p2 b2) then Some None
      else Some (Some ((fst pp)\<lparr>cursor := p1 + nat numBytes\<rparr>, (snd pp)\<lparr>cursor := p2 + nat numBytes\<rparr>)))"

text \<open>\<open>A || B\<close> on failures: the second comparison runs if the first found no difference.\<close>

definition and_equal :: "packets option option \<Rightarrow> (packets \<Rightarrow> packets option option) \<Rightarrow> packets option option" where
  "and_equal r f = (case r of None \<Rightarrow> None | Some None \<Rightarrow> Some None | Some (Some pp) \<Rightarrow> f pp)"

definition dnsPacket_isEqualQR :: "packets \<Rightarrow> packets option option" where
  "dnsPacket_isEqualQR pp = and_equal (dnsPacket_isEqualDomainName pp) (dnsPacket_isEqualBytes (2 + 2))"

definition dnsPacket_isEqualRR :: "packets \<Rightarrow> packets option option" where
  "dnsPacket_isEqualRR pp =
     and_equal (and_equal (dnsPacket_isEqualQR pp) (dnsPacket_isEqualBytes 4))
       (\<lambda>pp. case dnsPacket_readInt16 (fst pp) of (rdlength1, pack1) \<Rightarrow>
          case dnsPacket_readInt16 (snd pp) of (rdlength2, pack2) \<Rightarrow>
            if rdlength1 \<noteq> rdlength2 then Some None else dnsPacket_isEqualBytes rdlength1 (pack1, pack2))"

fun equal_times :: "(packets \<Rightarrow> packets option option) \<Rightarrow> nat \<Rightarrow> packets \<Rightarrow> packets option option" where
  "equal_times f 0 pp = Some (Some pp)"
| "equal_times f (Suc n) pp = and_equal (f pp) (equal_times f n)"

definition dnsPacket_isEqualQuery :: "DnsPacket \<Rightarrow> DnsPacket \<Rightarrow> bool option" where
  "dnsPacket_isEqualQuery pack1 pack2 =
     (let p1 = dnsPacket_rewind pack1; p2 = dnsPacket_rewind pack2 in
      if length (base pack1) \<le> 2 \<or> length (base pack2) \<le> 2 then None
      else if base pack1 ! 2 AND 1 \<noteq> base pack2 ! 2 AND 1 then Some False
      else if length (base pack1) \<le> 3 \<or> length (base pack2) \<le> 3 then None
      else if base pack1 ! 3 \<noteq> base pack2 ! 3 then Some False
      else case dnsPacket_readInt16 (dnsPacket_skip 4 p1) of (count1, p1) \<Rightarrow>
        case dnsPacket_readInt16 (dnsPacket_skip 4 p2) of (count2, p2) \<Rightarrow>
        if count1 \<noteq> count2 \<or> count1 < 0 then Some False
        else case dnsPacket_readInt16 (dnsPacket_skip 4 p1) of (arcount1, p1) \<Rightarrow>
          case dnsPacket_readInt16 (dnsPacket_skip 4 p2) of (arcount2, p2) \<Rightarrow>
          if arcount1 \<noteq> arcount2 \<or> arcount1 < 0 then Some False
          else map_option (\<lambda>r. r \<noteq> None)
            (and_equal (equal_times dnsPacket_isEqualQR (nat count1) (p1, p2)) (equal_times dnsPacket_isEqualRR (nat arcount1))))"

section \<open>What the comparison compares\<close>

text \<open>
  Each record of a packet is parsed into the pieces that are compared. Two packets that can be parsed are
  equal if and only if their pieces are; the rule for repeated records is proved for any comparison that
  agrees with its parser.
\<close>

definition piece :: "bytes \<Rightarrow> nat \<Rightarrow> nat \<Rightarrow> bytes" where
  "piece b p q = take (q - p) (drop p b)"

definition parse_QR :: "bytes \<Rightarrow> nat \<Rightarrow> (bytes list \<times> nat) option" where
  "parse_QR b p =
     (case qname_loop b p of
        None \<Rightarrow> None
      | Some e \<Rightarrow> if e + 4 > length b then None else Some ([piece b p e, piece b e (e + 4)], e + 4))"

definition parse_RR :: "bytes \<Rightarrow> nat \<Rightarrow> (bytes list \<times> nat) option" where
  "parse_RR b p =
     (case parse_QR b p of
        None \<Rightarrow> None
      | Some (c, e) \<Rightarrow>
          if e + 6 > length b then None
          else let q = e + 6 + int16_at b (e + 4) in
            if q > length b then None else Some (c @ [piece b e (e + 4), piece b (e + 4) q], q))"

fun parse_times :: "(bytes \<Rightarrow> nat \<Rightarrow> (bytes list \<times> nat) option) \<Rightarrow> nat \<Rightarrow> bytes \<Rightarrow> nat \<Rightarrow> (bytes list \<times> nat) option" where
  "parse_times f 0 b p = Some ([], p)"
| "parse_times f (Suc n) b p =
     (case f b p of
        None \<Rightarrow> None
      | Some (c, e) \<Rightarrow> (case parse_times f n b e of None \<Rightarrow> None | Some (cs, e') \<Rightarrow> Some (c @ cs, e')))"

abbreviation packet_at :: "bytes \<Rightarrow> nat \<Rightarrow> DnsPacket" where
  "packet_at b p \<equiv> \<lparr>base = b, cursor = p\<rparr>"

locale comparison =
  fixes compare :: "packets \<Rightarrow> packets option option"
    and parse :: "bytes \<Rightarrow> nat \<Rightarrow> (bytes list \<times> nat) option"
    and pieces :: nat
  assumes agree: "parse b1 p1 = Some (c1, e1) \<Longrightarrow> parse b2 p2 = Some (c2, e2) \<Longrightarrow>
      compare (packet_at b1 p1, packet_at b2 p2) = Some (if c1 = c2 then Some (packet_at b1 e1, packet_at b2 e2) else None)"
    and parse_pieces: "parse b p = Some (c, e) \<Longrightarrow> length c = pieces"
    and parse_piece: "parse b p = Some (c, e) \<Longrightarrow> p < e \<and> e \<le> length b \<and> concat c = piece b p e"
begin

lemma agree_times:
  "parse_times parse n b1 p1 = Some (c1, e1) \<Longrightarrow> parse_times parse n b2 p2 = Some (c2, e2) \<Longrightarrow>
   equal_times compare n (packet_at b1 p1, packet_at b2 p2) = Some (if c1 = c2 then Some (packet_at b1 e1, packet_at b2 e2) else None)"
proof (induction n arbitrary: p1 p2 c1 c2)
  case (Suc n)
  obtain x1 m1 y1 where 1: "parse b1 p1 = Some (x1, m1)" "parse_times parse n b1 m1 = Some (y1, e1)" "c1 = x1 @ y1"
    using Suc.prems(1) by (auto split: option.splits)
  obtain x2 m2 y2 where 2: "parse b2 p2 = Some (x2, m2)" "parse_times parse n b2 m2 = Some (y2, e2)" "c2 = x2 @ y2"
    using Suc.prems(2) by (auto split: option.splits)
  have "length x1 = length x2" using parse_pieces 1(1) 2(1) by metis
  then show ?case using agree [OF 1(1) 2(1)] Suc.IH [OF 1(2) 2(2)] by (auto simp: and_equal_def 1(3) 2(3))
qed auto

lemma piece_times:
  "parse_times parse n b p = Some (c, e) \<Longrightarrow> p \<le> length b \<Longrightarrow> p \<le> e \<and> e \<le> length b \<and> concat c = piece b p e"
proof (induction n arbitrary: p c)
  case (Suc n)
  obtain x m y where 1: "parse b p = Some (x, m)" "parse_times parse n b m = Some (y, e)" "c = x @ y"
    using Suc.prems(1) by (auto split: option.splits)
  have m: "p < m" "m \<le> length b" "concat x = piece b p m" using parse_piece [OF 1(1)] by auto
  note IH = Suc.IH [OF 1(2) m(2)]
  have "drop m b = drop (m - p) (drop p b)" "m - p + (e - m) = e - p" using m(1) IH by simp_all
  then have "piece b p m @ piece b m e = piece b p e" unfolding piece_def by (metis take_add)
  then show ?case using m IH 1(3) by simp
qed (simp add: piece_def)

end

lemma piece_take: "q \<le> length b \<Longrightarrow> p \<le> q \<Longrightarrow> length (piece b p q) = q - p"
  by (simp add: piece_def)

lemma piece_append: "p \<le> m \<Longrightarrow> m \<le> q \<Longrightarrow> piece b p m @ piece b m q = piece b p q"
proof -
  assume "p \<le> m" "m \<le> q"
  then have "drop m b = drop (m - p) (drop p b)" "m - p + (q - m) = q - p" by simp_all
  then show ?thesis unfolding piece_def by (metis take_add)
qed

lemma piece_Cons: "p < length b \<Longrightarrow> p < q \<Longrightarrow> piece b p q = b ! p # piece b (p + 1) q"
  by (simp add: piece_def Suc_diff_Suc flip: Cons_nth_drop_Suc) (metis Suc_diff_Suc take_Suc_Cons)

lemma qname_bounds: "qname_loop b p = Some e \<Longrightarrow> p < e \<and> e \<le> length b"
proof (induction b p rule: qname_loop.induct)
  case (1 b p)
  have p: "p < length b" using 1(2) by (subst (asm) qname_loop.simps) (auto split: if_splits)
  show ?case
  proof (cases "unat (b ! p) = 0")
    case True
    then show ?thesis using 1(2) p by (subst (asm) qname_loop.simps) auto
  next
    case False
    then have "unat (b ! p) < 64" "qname_loop b (p + 1 + unat (b ! p)) = Some e"
      using 1(2) p by (subst (asm) qname_loop.simps, auto simp: Let_def split: if_splits)+
    then show ?thesis using 1(1) [OF _ refl False] p by force
  qed
qed

lemma equal_names_iff:
  "qname_loop b1 p1 = Some e1 \<Longrightarrow> qname_loop b2 p2 = Some e2 \<Longrightarrow>
   equal_names b1 p1 b2 p2 = (if piece b1 p1 e1 = piece b2 p2 e2 then Some (e1, e2) else None)"
proof (induction b1 p1 arbitrary: p2 rule: qname_loop.induct)
  case (1 b1 p1)
  define c where "c = unat (b1 ! p1)"
  define d where "d = unat (b2 ! p2)"
  have p: "p1 < length b1" "p2 < length b2" "p1 < e1" "p2 < e2"
    using qname_bounds [OF 1(2)] qname_bounds [OF 1(3)] by auto
  have next1: "if c = 0 then e1 = p1 + 1 else c < 64 \<and> qname_loop b1 (p1 + 1 + c) = Some e1"
    using 1(2) p by (subst (asm) qname_loop.simps) (auto simp: c_def Let_def split: if_splits)
  have next2: "if d = 0 then e2 = p2 + 1 else d < 64 \<and> qname_loop b2 (p2 + 1 + d) = Some e2"
    using 1(3) p by (subst (asm) qname_loop.simps) (auto simp: d_def Let_def split: if_splits)
  note cons = piece_Cons [OF p(1,3)] piece_Cons [OF p(2,4)]
  show ?case
  proof (cases "b1 ! p1 = b2 ! p2 \<and> c \<noteq> 0")
    case False
    then show ?thesis using p next1 next2 cons
      by (subst equal_names.simps) (auto simp: c_def d_def piece_def)
  next
    case True
    then have d: "d = c" and c: "c \<noteq> 0" "b1 ! p1 = b2 ! p2" by (auto simp: c_def d_def)
    have n: "c < 64" "qname_loop b1 (p1 + 1 + c) = Some e1" "qname_loop b2 (p2 + 1 + c) = Some e2"
      using next1 next2 c(1) d by auto
    have m: "p1 + 1 + c < e1" "e1 \<le> length b1" "p2 + 1 + c < e2" "e2 \<le> length b2"
      using qname_bounds [OF n(2)] qname_bounds [OF n(3)] by auto
    have IH: "equal_names b1 (p1 + 1 + c) b2 (p2 + 1 + c) =
        (if piece b1 (p1 + 1 + c) e1 = piece b2 (p2 + 1 + c) e2 then Some (e1, e2) else None)"
      using 1(1) [OF _ refl _ _ n(2)[unfolded c_def] n(3)] p(1) c(1) n(1) by (auto simp: c_def)
    have split1: "piece b1 (p1 + 1) e1 = take c (drop (p1 + 1) b1) @ piece b1 (p1 + 1 + c) e1"
      and split2: "piece b2 (p2 + 1) e2 = take c (drop (p2 + 1) b2) @ piece b2 (p2 + 1 + c) e2"
      using piece_append [of "p1 + 1" "p1 + 1 + c" e1 b1] piece_append [of "p2 + 1" "p2 + 1 + c" e2 b2] m by (simp_all add: piece_def)
    have len: "length (take c (drop (p1 + 1) b1)) = length (take c (drop (p2 + 1) b2))" using m by simp
    have step: "equal_names b1 p1 b2 p2 =
        (if take c (drop (p1 + 1) b1) \<noteq> take c (drop (p2 + 1) b2) then None else equal_names b1 (p1 + 1 + c) b2 (p2 + 1 + c))"
      using p c n(1) m d by (subst equal_names.simps) (simp add: d_def Let_def)
    show ?thesis unfolding step IH cons split1 split2 using c(2) len by auto
  qed
qed

lemma isEqualBytes_piece:
  "p1 + n \<le> length b1 \<Longrightarrow> p2 + n \<le> length b2 \<Longrightarrow>
   dnsPacket_isEqualBytes (int n) (packet_at b1 p1, packet_at b2 p2) =
     Some (if piece b1 p1 (p1 + n) = piece b2 p2 (p2 + n) then Some (packet_at b1 (p1 + n), packet_at b2 (p2 + n)) else None)"
  by (auto simp: dnsPacket_isEqualBytes_def Let_def piece_def)

interpretation qr: comparison dnsPacket_isEqualQR parse_QR 2
proof unfold_locales
  fix b1 b2 p1 p2 c1 c2 e1 e2
  assume "parse_QR b1 p1 = Some (c1, e1)" "parse_QR b2 p2 = Some (c2, e2)"
  then obtain m1 m2 where "qname_loop b1 p1 = Some m1" "m1 + 4 \<le> length b1" "c1 = [piece b1 p1 m1, piece b1 m1 (m1 + 4)]" "e1 = m1 + 4"
    "qname_loop b2 p2 = Some m2" "m2 + 4 \<le> length b2" "c2 = [piece b2 p2 m2, piece b2 m2 (m2 + 4)]" "e2 = m2 + 4"
    by (auto simp: parse_QR_def split: option.splits if_splits)
  then show "dnsPacket_isEqualQR (packet_at b1 p1, packet_at b2 p2) =
      Some (if c1 = c2 then Some (packet_at b1 e1, packet_at b2 e2) else None)"
    using isEqualBytes_piece [of m1 4 b1 m2 b2]
    by (simp add: dnsPacket_isEqualQR_def and_equal_def dnsPacket_isEqualDomainName_def equal_names_iff)
next
  fix b p c e
  assume "parse_QR b p = Some (c, e)"
  then show "p < e \<and> e \<le> length b \<and> concat c = piece b p e"
    using qname_bounds [of b p] piece_append [of p "e - 4" e b] by (auto simp: parse_QR_def split: option.splits if_splits)
qed (auto simp: parse_QR_def split: option.splits if_splits)

lemma base_256: "b < 256 \<Longrightarrow> d < 256 \<Longrightarrow> 256 * a + b = 256 * c + d \<longleftrightarrow> a = c \<and> b = (d :: nat)"
proof
  assume less: "b < 256" "d < 256" and eq: "256 * a + b = 256 * c + d"
  have "(256 * a + b) div 256 = a" "(256 * c + d) div 256 = c" using less by simp_all
  then show "a = c \<and> b = d" using eq by simp
qed simp

lemma byte_256: "unat (w :: u8) < 256"
  using unsigned_less [of w] by simp

lemma piece_2: "p + 2 \<le> length b \<Longrightarrow> piece b p (p + 2) = [b ! p, b ! (p + 1)]"
  using piece_Cons [of p b "p + 2"] piece_Cons [of "p + 1" b "p + 2"] by (simp add: piece_def)

lemma int16_at_piece:
  assumes "p + 2 \<le> length b1" "q + 2 \<le> length b2"
  shows "int16_at b1 p = int16_at b2 q \<longleftrightarrow> piece b1 p (p + 2) = piece b2 q (q + 2)"
  unfolding int16_at_def base_256 [OF byte_256 byte_256] piece_2 [OF assms(1)] piece_2 [OF assms(2)]
  by (simp add: word_unat_eq_iff)

text \<open>The length and the data of a record as one piece.\<close>

lemma rdata_equal:
  assumes q: "q1 = e1 + 2 + int16_at b1 e1" "q1 \<le> length b1" "q2 = e2 + 2 + int16_at b2 e2" "q2 \<le> length b2"
  shows "(case dnsPacket_readInt16 (packet_at b1 e1) of (rdlength1, pack1) \<Rightarrow>
          case dnsPacket_readInt16 (packet_at b2 e2) of (rdlength2, pack2) \<Rightarrow>
            if rdlength1 \<noteq> rdlength2 then Some None else dnsPacket_isEqualBytes rdlength1 (pack1, pack2)) =
     Some (if piece b1 e1 q1 = piece b2 e2 q2 then Some (packet_at b1 q1, packet_at b2 q2) else None)"
proof -
  define r1 r2 where r: "r1 = int16_at b1 e1" "r2 = int16_at b2 e2"
  have s1: "piece b1 e1 q1 = piece b1 e1 (e1 + 2) @ piece b1 (e1 + 2) q1"
    and s2: "piece b2 e2 q2 = piece b2 e2 (e2 + 2) @ piece b2 (e2 + 2) q2"
    using piece_append [of e1 "e1 + 2" q1 b1] piece_append [of e2 "e2 + 2" q2 b2] q by simp_all
  have len: "length (piece b1 e1 q1) = 2 + r1" "length (piece b2 e2 q2) = 2 + r2"
    using q piece_take r by simp_all
  have read: "dnsPacket_readInt16 (packet_at b1 e1) = (int r1, packet_at b1 (e1 + 2))"
    "dnsPacket_readInt16 (packet_at b2 e2) = (int r2, packet_at b2 (e2 + 2))"
    using q by (simp_all add: dnsPacket_readInt16_def r)
  show ?thesis
  proof (cases "r1 = r2")
    case False
    then have "piece b1 e1 q1 \<noteq> piece b2 e2 q2" using len by (metis add_left_cancel)
    then show ?thesis using False by (simp add: read)
  next
    case True
    then have "piece b1 e1 (e1 + 2) = piece b2 e2 (e2 + 2)" using int16_at_piece [of e1 b1 e2 b2] q r by simp
    then show ?thesis
      using q True isEqualBytes_piece [of "e1 + 2" r1 b1 "e2 + 2" b2] s1 s2 by (simp add: read r)
  qed
qed

lemma parse_RR_E:
  assumes "parse_RR b p = Some (c, e)"
  obtains x m where "parse_QR b p = Some (x, m)" "e = m + 4 + 2 + int16_at b (m + 4)" "e \<le> length b"
    "c = x @ [piece b m (m + 4), piece b (m + 4) e]"
proof -
  obtain x m where qr: "parse_QR b p = Some (x, m)" using assms by (cases "parse_QR b p") (auto simp: parse_RR_def)
  define q where "q = m + 6 + int16_at b (m + 4)"
  have "(c, e) = (x @ [piece b m (m + 4), piece b (m + 4) q], q) \<and> q \<le> length b"
    using assms unfolding parse_RR_def qr option.case prod.case Let_def q_def [symmetric] by (metis leI option.distinct(1) option.inject)
  then show ?thesis using that [OF qr] by (simp add: q_def)
qed

interpretation rr: comparison dnsPacket_isEqualRR parse_RR 4
proof unfold_locales
  fix b1 b2 p1 p2 c1 c2 e1 e2
  assume parse: "parse_RR b1 p1 = Some (c1, e1)" "parse_RR b2 p2 = Some (c2, e2)"
  obtain x1 m1 where 1: "parse_QR b1 p1 = Some (x1, m1)" "e1 = m1 + 4 + 2 + int16_at b1 (m1 + 4)" "e1 \<le> length b1"
    "c1 = x1 @ [piece b1 m1 (m1 + 4), piece b1 (m1 + 4) e1]"
    using parse_RR_E [OF parse(1)] .
  obtain x2 m2 where 2: "parse_QR b2 p2 = Some (x2, m2)" "e2 = m2 + 4 + 2 + int16_at b2 (m2 + 4)" "e2 \<le> length b2"
    "c2 = x2 @ [piece b2 m2 (m2 + 4), piece b2 (m2 + 4) e2]"
    using parse_RR_E [OF parse(2)] .
  have "length x1 = length x2" using qr.parse_pieces 1(1) 2(1) by metis
  then have same: "c1 = c2 \<longleftrightarrow> x1 = x2 \<and> piece b1 m1 (m1 + 4) = piece b2 m2 (m2 + 4) \<and> piece b1 (m1 + 4) e1 = piece b2 (m2 + 4) e2"
    unfolding 1(4) 2(4) by simp
  have bytes: "dnsPacket_isEqualBytes 4 (packet_at b1 m1, packet_at b2 m2) =
      Some (if piece b1 m1 (m1 + 4) = piece b2 m2 (m2 + 4) then Some (packet_at b1 (m1 + 4), packet_at b2 (m2 + 4)) else None)"
    using isEqualBytes_piece [of m1 4 b1 m2 b2] 1(2,3) 2(2,3) by simp
  note rdata = rdata_equal [OF 1(2,3) 2(2,3)]
  show "dnsPacket_isEqualRR (packet_at b1 p1, packet_at b2 p2) =
      Some (if c1 = c2 then Some (packet_at b1 e1, packet_at b2 e2) else None)"
    unfolding dnsPacket_isEqualRR_def same qr.agree [OF 1(1) 2(1)] by (simp add: and_equal_def bytes rdata)
next
  fix b p c e
  assume parse: "parse_RR b p = Some (c, e)"
  obtain x m where 1: "parse_QR b p = Some (x, m)" "e = m + 4 + 2 + int16_at b (m + 4)" "e \<le> length b"
    "c = x @ [piece b m (m + 4), piece b (m + 4) e]"
    using parse_RR_E [OF parse] .
  have "piece b m (m + 4) @ piece b (m + 4) e = piece b m e" "piece b p m @ piece b m e = piece b p e" "p < m"
    using piece_append [of m "m + 4" e b] piece_append [of p m e b] 1(2) qr.parse_piece [OF 1(1)] by simp_all
  then show "p < e \<and> e \<le> length b \<and> concat c = piece b p e"
    using qr.parse_piece [OF 1(1)] 1(2,3) unfolding 1(4) by simp
  show "length c = 4" using 1(4) qr.parse_pieces [OF 1(1)] by simp
qed

text \<open>What identifies a query: RD, the byte with AD and CD, and the pieces of its records.\<close>

type_synonym query_key = "u8 \<times> u8 \<times> (nat \<times> bytes list) \<times> (nat \<times> bytes list)"

definition parse_query :: "bytes \<Rightarrow> (query_key \<times> nat) option" where
  "parse_query b =
     (if length b < DNS_HEADER_SIZE then None
      else case parse_times parse_QR (int16_at b 4) b DNS_HEADER_SIZE of
          None \<Rightarrow> None
        | Some (qs, e) \<Rightarrow>
            (case parse_times parse_RR (int16_at b 10) b e of
               None \<Rightarrow> None
             | Some (rs, e') \<Rightarrow> Some ((b ! 2 AND 1, b ! 3, (int16_at b 4, qs), (int16_at b 10, rs)), e')))"

lemma parse_query_E:
  assumes "parse_query b = Some (k, e')"
  obtains qs e rs where "DNS_HEADER_SIZE \<le> length b" "parse_times parse_QR (int16_at b 4) b DNS_HEADER_SIZE = Some (qs, e)"
    "parse_times parse_RR (int16_at b 10) b e = Some (rs, e')" "k = (b ! 2 AND 1, b ! 3, (int16_at b 4, qs), (int16_at b 10, rs))"
  using assms by (auto simp: parse_query_def split: if_splits option.splits)

lemma header_reads:
  assumes "DNS_HEADER_SIZE \<le> length b"
  shows "dnsPacket_readInt16 (dnsPacket_skip 4 (dnsPacket_rewind (dnsPacket_init b))) = (int (int16_at b 4), packet_at b 6)"
    "dnsPacket_readInt16 (dnsPacket_skip 4 (packet_at b 6)) = (int (int16_at b 10), packet_at b 12)"
  using assms by (simp_all add: dnsPacket_readInt16_def dnsPacket_skip_def dnsPacket_rewind_def dnsPacket_init_def)

lemma isEqualQuery_key:
  assumes "parse_query b1 = Some (k1, m1)" "parse_query b2 = Some (k2, m2)"
  shows "dnsPacket_isEqualQuery (dnsPacket_init b1) (dnsPacket_init b2) = Some (k1 = k2)"
proof -
  obtain qs1 e1 rs1 where 1: "DNS_HEADER_SIZE \<le> length b1" "parse_times parse_QR (int16_at b1 4) b1 DNS_HEADER_SIZE = Some (qs1, e1)"
    "parse_times parse_RR (int16_at b1 10) b1 e1 = Some (rs1, m1)" "k1 = (b1 ! 2 AND 1, b1 ! 3, (int16_at b1 4, qs1), (int16_at b1 10, rs1))"
    using parse_query_E [OF assms(1)] .
  obtain qs2 e2 rs2 where 2: "DNS_HEADER_SIZE \<le> length b2" "parse_times parse_QR (int16_at b2 4) b2 DNS_HEADER_SIZE = Some (qs2, e2)"
    "parse_times parse_RR (int16_at b2 10) b2 e2 = Some (rs2, m2)" "k2 = (b2 ! 2 AND 1, b2 ! 3, (int16_at b2 4, qs2), (int16_at b2 10, rs2))"
    using parse_query_E [OF assms(2)] .
  have qs: "int16_at b1 4 = int16_at b2 4 \<Longrightarrow> equal_times dnsPacket_isEqualQR (int16_at b1 4) (packet_at b1 12, packet_at b2 12) =
      Some (if qs1 = qs2 then Some (packet_at b1 e1, packet_at b2 e2) else None)"
    using qr.agree_times [OF 1(2)] 2(2) by simp
  have rs: "int16_at b1 10 = int16_at b2 10 \<Longrightarrow> equal_times dnsPacket_isEqualRR (int16_at b1 10) (packet_at b1 e1, packet_at b2 e2) =
      Some (if rs1 = rs2 then Some (packet_at b1 m1, packet_at b2 m2) else None)"
    using rr.agree_times [OF 1(3)] 2(3) by simp
  have len: "\<not> length b1 \<le> 2" "\<not> length b1 \<le> 3" "\<not> length b2 \<le> 2" "\<not> length b2 \<le> 3" using 1(1) 2(1) by simp_all
  have base: "base (dnsPacket_init b1) = b1" "base (dnsPacket_init b2) = b2" by (simp_all add: dnsPacket_init_def)
  show ?thesis
    unfolding dnsPacket_isEqualQuery_def Let_def base header_reads [OF 1(1)] header_reads [OF 2(1)] prod.case 1(4) 2(4)
    using len qs rs by (auto simp: and_equal_def)
qed

section \<open>What the hash depends on\<close>

lemma hash_loop_all: "0 < n \<Longrightarrow> hash_loop n b p h = (if p < length b then (length b, foldl hash_byte h (drop p b)) else (p, h))"
proof (induction n b p h rule: hash_loop.induct)
  case (1 n b p h)
  then show ?case by (subst hash_loop.simps) (auto simp: Cons_nth_drop_Suc [symmetric])
qed

text \<open>
  Since the loop does not count, the first call of \<open>hashBytes\<close> goes to the end of the packet: the hash is that
  of the RD bit and of all bytes from the fourth on, and no record is read as such.
\<close>

lemma read_at_end: "dnsPacket_readInt16 (packet_at b (length b)) = (-1, packet_at b (length b))"
  by (simp add: dnsPacket_readInt16_def)

lemma skip_at_end: "dnsPacket_skip n (packet_at b (length b)) = packet_at b (length b)"
  by (simp add: dnsPacket_skip_def)

lemma hashQuery_eq:
  assumes "3 \<le> length b"
  shows "dnsPacket_hashQuery (dnsPacket_init b) = Some (foldl hash_byte ((FNV_BASIS * FNV_MULT) XOR ucast (b ! 2 AND 1)) (drop 3 b))"
proof -
  define h :: u32 where "h = (FNV_BASIS * FNV_MULT) XOR ucast (b ! 2 AND 1)"
  have cur: "dnsPacket_skip 1 (dnsPacket_skip 2 (dnsPacket_rewind (dnsPacket_init b))) = packet_at b 3"
    using assms by (simp add: dnsPacket_skip_def dnsPacket_rewind_def dnsPacket_init_def)
  have bytes: "dnsPacket_hashBytes 1 (packet_at b 3, h) = (packet_at b (length b), foldl hash_byte h (drop 3 b))"
    using assms by (auto simp: dnsPacket_hashBytes_def hash_loop_all)
  have base: "base (dnsPacket_init b) = b" "\<not> length b \<le> 2" using assms by (simp_all add: dnsPacket_init_def)
  show ?thesis
    unfolding dnsPacket_hashQuery_def Let_def base cur h_def [symmetric] bytes fst_conv snd_conv read_at_end prod.case skip_at_end
    using base(2) by simp
qed

section \<open>Queries the cache accepts\<close>

text \<open>Comparison of the queries of two entries.\<close>

definition entry_equals :: "bytes \<Rightarrow> bytes \<Rightarrow> bool option" where
  "entry_equals q1 q2 =
     (if length q1 \<noteq> length q2 then Some False else dnsPacket_isEqualQuery (dnsPacket_init q1) (dnsPacket_init q2))"

definition entry_hash :: "bytes \<Rightarrow> u32 option" where
  "entry_hash q = dnsPacket_hashQuery (dnsPacket_init q)"

text \<open>
  \<open>entry_init_key\<close> computes the hash before it checks the query. The result is the hash and whether the query is
  supported; \<open>None\<close> is the read of the flags of a packet that ends before them.
\<close>

definition entry_init_key :: "bytes \<Rightarrow> (u32 \<times> bool) option" where
  "entry_init_key q = map_option (\<lambda>h. (h, dnsPacket_checkQuery (dnsPacket_init q))) (entry_hash q)"

definition accepted :: "bytes \<Rightarrow> bool" where
  "accepted q \<longleftrightarrow> dnsPacket_checkQuery (dnsPacket_init q)"

text \<open>The records the header announces are there, and nothing follows them.\<close>

definition well_formed :: "bytes \<Rightarrow> bool" where
  "well_formed q \<longleftrightarrow> parse_query q \<noteq> None"

definition exact_query :: "bytes \<Rightarrow> bool" where
  "exact_query q \<longleftrightarrow> accepted q \<and> (case parse_query q of None \<Rightarrow> False | Some (k, e) \<Rightarrow> e = length q)"

lemma checkBytes_E:
  assumes "dnsPacket_checkBytes bs (packet_at b p) = (True, packet)"
  shows "packet = packet_at b (p + length bs) \<and> p + length bs \<le> length b"
  using assms by (auto simp: dnsPacket_checkBytes_def split: if_splits)

lemma checkBytes_False: "dnsPacket_checkBytes bs packet = (False, packet') \<Longrightarrow> packet' = packet"
  by (auto simp: dnsPacket_checkBytes_def split: if_splits)

lemma check_any_E:
  "check_any ts (packet_at b p) = (True, packet) \<Longrightarrow> (\<And>t. t \<in> set ts \<Longrightarrow> length t = 2) \<Longrightarrow> packet = packet_at b (p + 2) \<and> p + 2 \<le> length b"
proof (induction ts)
  case (Cons t ts)
  obtain ok q where c: "dnsPacket_checkBytes t (packet_at b p) = (ok, q)" by (cases "dnsPacket_checkBytes t (packet_at b p)")
  have len: "length t = 2" using Cons.prems(2) by simp
  show ?case
  proof (cases ok)
    case True
    have "packet = q" using c Cons.prems(1) True by simp
    then show ?thesis using c True len checkBytes_E [of t b p q] by simp
  next
    case False
    then have "q = packet_at b p" using c checkBytes_False [of t "packet_at b p" q] by simp
    then have "check_any ts (packet_at b p) = (True, packet)" using False c Cons.prems(1) by simp
    then show ?thesis using Cons.IH Cons.prems(2) by simp
  qed
qed simp

lemma checkQR_parses:
  assumes "dnsPacket_checkQR (packet_at b p) = (True, packet)"
  shows "\<exists>c e. parse_QR b p = Some (c, e) \<and> packet = packet_at b e"
proof (cases "qname_loop b p")
  case None
  then show ?thesis using assms by (simp add: dnsPacket_checkQR_def dnsPacket_checkQName_def)
next
  case (Some m)
  let ?types = "[DNS_TYPE_A, DNS_TYPE_PTR, DNS_TYPE_MX, DNS_TYPE_AAAA, DNS_TYPE_ALL]"
  obtain ok q where any: "check_any ?types (packet_at b m) = (ok, q)" by (cases "check_any ?types (packet_at b m)")
  have name: "dnsPacket_checkQName (packet_at b p) = (True, packet_at b m)" by (simp add: dnsPacket_checkQName_def Some)
  have ok: "ok" "dnsPacket_checkBytes DNS_CLASS_IN q = (True, packet)"
    using assms unfolding dnsPacket_checkQR_def name prod.case any by (simp_all split: if_splits)
  have lens: "length t = 2" if "t \<in> set ?types" for t
    using that by (auto simp: DNS_TYPE_A_def DNS_TYPE_PTR_def DNS_TYPE_MX_def DNS_TYPE_AAAA_def DNS_TYPE_ALL_def)
  have "q = packet_at b (m + 2)" using check_any_E [of ?types b m q] lens any ok(1) by simp
  then have "packet = packet_at b (m + 2 + 2) \<and> m + 2 + 2 \<le> length b"
    using checkBytes_E [of DNS_CLASS_IN b "m + 2" packet] ok(2) by (simp add: DNS_CLASS_IN_def)
  then show ?thesis by (simp add: parse_QR_def Some)
qed

lemma check_QRs_parses: "check_QRs n (packet_at b p) \<Longrightarrow> parse_times parse_QR n b p \<noteq> None"
proof (induction n arbitrary: p)
  case (Suc n)
  obtain ok q where c: "dnsPacket_checkQR (packet_at b p) = (ok, q)" by fastforce
  then have ok: "ok" "check_QRs n q" using Suc.prems by (auto split: if_splits)
  then obtain c e where "parse_QR b p = Some (c, e)" "q = packet_at b e" using checkQR_parses [of b p q] c by auto
  then show ?case using Suc.IH [of e] ok(2) by auto
qed simp

lemma acceptedD:
  assumes "accepted q"
  shows "DNS_HEADER_SIZE \<le> length q" "int16_at q 6 = 0" "int16_at q 8 = 0" "int16_at q 10 \<le> 1"
    "parse_times parse_QR (int16_at q 4) q DNS_HEADER_SIZE \<noteq> None"
  using assms check_QRs_parses [of "int16_at q 4" q DNS_HEADER_SIZE]
  by (auto simp: accepted_def dnsPacket_checkQuery_def dnsPacket_init_def Let_def split: if_splits)

text \<open>Only the additional record of an accepted query may be incomplete.\<close>

lemma accepted_well_formed: "accepted q \<Longrightarrow> int16_at q 10 = 0 \<Longrightarrow> well_formed q"
  using acceptedD [of q] by (auto simp: well_formed_def parse_query_def)

section \<open>When a cached query answers another\<close>

lemma nth_drop_3: "3 \<le> p \<Longrightarrow> p < length b \<Longrightarrow> b ! p = drop 3 b ! (p - 3)"
  by simp

lemma piece_drop_3: "3 \<le> p \<Longrightarrow> piece b p q = take (q - p) (drop (p - 3) (drop 3 b))"
  by (simp add: piece_def)

lemma nth_cong_3:
  assumes "drop 3 b1 = drop 3 b2" "length b1 = length b2" "3 \<le> p" "p < length b1"
  shows "b1 ! p = b2 ! p"
proof -
  have "b1 ! p = drop 3 b1 ! (p - 3)" "b2 ! p = drop 3 b2 ! (p - 3)" using nth_drop_3 [of p] assms(2-4) by metis+
  then show ?thesis unfolding assms(1) by simp
qed

lemma qname_loop_cong:
  "drop 3 b1 = drop 3 b2 \<Longrightarrow> length b1 = length b2 \<Longrightarrow> 3 \<le> p \<Longrightarrow> qname_loop b1 p = qname_loop b2 p"
proof (induction b1 p rule: qname_loop.induct)
  case (1 b1 p)
  show ?case
  proof (cases "p < length b1")
    case True
    define c where "c = unat (b1 ! p)"
    have c2: "unat (b2 ! p) = c" using nth_cong_3 [OF 1(2-4) True] by (simp add: c_def)
    have step: "qname_loop b1 p = (if c = 0 then Some (p + 1) else if c \<ge> 64 then None else qname_loop b1 (p + 1 + c))"
      "qname_loop b2 p = (if c = 0 then Some (p + 1) else if c \<ge> 64 then None else qname_loop b2 (p + 1 + c))"
      using True 1(3) by (subst qname_loop.simps, simp add: c_def [symmetric] c2 Let_def)+
    have "qname_loop b1 (p + 1 + c) = qname_loop b2 (p + 1 + c)" if "c \<noteq> 0" "c < 64"
      using 1(1) [OF _ c_def _ _ 1(2,3)] that True 1(4) by simp
    then show ?thesis unfolding step by simp
  next
    case False
    then show ?thesis using 1(3) by (subst (1 2) qname_loop.simps) simp
  qed
qed

lemma int16_at_cong:
  assumes "drop 3 b1 = drop 3 b2" "length b1 = length b2" "3 \<le> p" "p + 2 \<le> length b1"
  shows "int16_at b1 p = int16_at b2 p"
proof -
  have "p + 2 \<le> length b2" using assms by simp
  then show ?thesis using int16_at_piece [OF assms(4), of p b2] assms piece_drop_3 by metis
qed

lemma piece_cong_3: "drop 3 b1 = drop 3 b2 \<Longrightarrow> 3 \<le> p \<Longrightarrow> piece b1 p q = piece b2 p q"
  using piece_drop_3 by metis

lemma parse_QR_cong:
  assumes "drop 3 b1 = drop 3 b2" "length b1 = length b2" "3 \<le> p"
  shows "parse_QR b1 p = parse_QR b2 p"
proof (cases "qname_loop b2 p")
  case (Some e)
  then have "piece b1 p e = piece b2 p e" "piece b1 e (e + 4) = piece b2 e (e + 4)"
    using qname_bounds [OF Some] assms(3) by (auto intro: piece_cong_3 [OF assms(1)])
  then show ?thesis using qname_loop_cong [OF assms] assms(2) Some by (simp add: parse_QR_def)
qed (use qname_loop_cong [OF assms] in \<open>simp add: parse_QR_def\<close>)

lemma parse_RR_cong:
  assumes "drop 3 b1 = drop 3 b2" "length b1 = length b2" "3 \<le> p"
  shows "parse_RR b1 p = parse_RR b2 p"
proof (cases "parse_QR b2 p")
  case None
  then show ?thesis using parse_QR_cong [OF assms] by (simp add: parse_RR_def)
next
  case (Some ce)
  then obtain c e where ce: "parse_QR b2 p = Some (c, e)" by (cases ce) simp
  have e: "3 \<le> e" using qr.parse_piece [OF ce] assms(3) by simp
  have rd: "e + 6 \<le> length b1 \<Longrightarrow> int16_at b1 (e + 4) = int16_at b2 (e + 4)" using int16_at_cong [OF assms(1,2), of "e + 4"] by simp
  show ?thesis
    using rd piece_cong_3 [OF assms(1), of e] piece_cong_3 [OF assms(1), of "e + 4"] e assms(2) unfolding parse_RR_def parse_QR_cong [OF assms] ce by (simp add: Let_def)
qed

lemma parse_times_cong:
  assumes "\<And>p. 3 \<le> p \<Longrightarrow> f b1 p = f b2 p" "\<And>p c e. f b2 p = Some (c, e) \<Longrightarrow> p < e"
  shows "3 \<le> p \<Longrightarrow> parse_times f n b1 p = parse_times f n b2 p"
proof (induction n arbitrary: p)
  case (Suc n)
  have "f b1 p = f b2 p" using assms(1) Suc.prems .
  moreover have "parse_times f n b1 e = parse_times f n b2 e" if "f b2 p = Some (c, e)" for c e
    using Suc.IH [of e] assms(2) [OF that] Suc.prems by simp
  ultimately show ?case by (auto split: option.splits)
qed simp

lemma parse_query_cong:
  assumes "drop 3 b1 = drop 3 b2" "length b1 = length b2" "b1 ! 2 AND 1 = b2 ! 2 AND 1" "DNS_HEADER_SIZE \<le> length b1"
  shows "parse_query b1 = parse_query b2"
proof -
  have counts: "int16_at b1 4 = int16_at b2 4" "int16_at b1 10 = int16_at b2 10" "b1 ! 3 = b2 ! 3"
    using int16_at_cong [OF assms(1,2), of 4] int16_at_cong [OF assms(1,2), of 10] nth_cong_3 [OF assms(1,2), of 3] assms(4) by simp_all
  have qs: "parse_times parse_QR n b1 DNS_HEADER_SIZE = parse_times parse_QR n b2 DNS_HEADER_SIZE" for n
    by (rule parse_times_cong) (use parse_QR_cong [OF assms(1,2)] qr.parse_piece in auto)
  have rs: "parse_times parse_RR n b1 p = parse_times parse_RR n b2 p" if "3 \<le> p" for n p
    by (rule parse_times_cong) (use parse_RR_cong [OF assms(1,2)] rr.parse_piece that in auto)
  show ?thesis
  proof (cases "parse_times parse_QR (int16_at b2 4) b2 DNS_HEADER_SIZE")
    case None
    then show ?thesis using assms(2) unfolding parse_query_def counts qs by simp
  next
    case (Some ce)
    then obtain c e where ce: "parse_times parse_QR (int16_at b2 4) b2 DNS_HEADER_SIZE = Some (c, e)" by (cases ce) simp
    have "3 \<le> e" using qr.piece_times [OF ce] assms(2,4) by simp
    then show ?thesis unfolding parse_query_def counts qs ce assms(2,3) using rs by simp
  qed
qed

text \<open>The other direction: equal keys of complete queries determine the bytes.\<close>

lemma exact_bytes:
  assumes "exact_query b1" "exact_query b2" "length b1 = length b2" "parse_query b1 = Some (k, m1)" "parse_query b2 = Some (k, m2)"
  shows "drop 3 b1 = drop 3 b2"
proof -
  obtain qs1 e1 rs1 where 1: "DNS_HEADER_SIZE \<le> length b1" "parse_times parse_QR (int16_at b1 4) b1 DNS_HEADER_SIZE = Some (qs1, e1)"
    "parse_times parse_RR (int16_at b1 10) b1 e1 = Some (rs1, m1)" "k = (b1 ! 2 AND 1, b1 ! 3, (int16_at b1 4, qs1), (int16_at b1 10, rs1))"
    using parse_query_E [OF assms(4)] .
  obtain qs2 e2 rs2 where 2: "DNS_HEADER_SIZE \<le> length b2" "parse_times parse_QR (int16_at b2 4) b2 DNS_HEADER_SIZE = Some (qs2, e2)"
    "parse_times parse_RR (int16_at b2 10) b2 e2 = Some (rs2, m2)" "k = (b2 ! 2 AND 1, b2 ! 3, (int16_at b2 4, qs2), (int16_at b2 10, rs2))"
    using parse_query_E [OF assms(5)] .
  have m: "m1 = length b1" "m2 = length b2" using assms(1,2,4,5) by (simp_all add: exact_query_def)
  have e: "DNS_HEADER_SIZE \<le> e1" "e1 \<le> length b1" "concat qs1 = piece b1 DNS_HEADER_SIZE e1" "concat rs1 = piece b1 e1 (length b1)"
    "DNS_HEADER_SIZE \<le> e2" "e2 \<le> length b2" "concat qs2 = piece b2 DNS_HEADER_SIZE e2" "concat rs2 = piece b2 e2 (length b2)"
    using qr.piece_times [OF 1(2)] qr.piece_times [OF 2(2)] rr.piece_times [OF 1(3)] rr.piece_times [OF 2(3)] 1(1) 2(1) m by simp_all
  have tail: "piece b1 12 (length b1) = piece b2 12 (length b2)"
    using piece_append [of 12 e1 "length b1" b1] piece_append [of 12 e2 "length b2" b2] e 1(4) 2(4) by simp
  have acc: "accepted b1" "accepted b2" using assms(1,2) by (simp_all add: exact_query_def)
  have zero: "int16_at b1 6 = int16_at b2 6" "int16_at b1 8 = int16_at b2 8" using acceptedD(2,3) acc by simp_all
  have len: "4 + 2 \<le> length b1" "6 + 2 \<le> length b1" "8 + 2 \<le> length b1" "10 + 2 \<le> length b1" "4 + 2 \<le> length b2" "6 + 2 \<le> length b2"
      "8 + 2 \<le> length b2" "10 + 2 \<le> length b2" using 1(1) 2(1) by simp_all
  have "int16_at b1 4 = int16_at b2 4" "int16_at b1 10 = int16_at b2 10" "b1 ! 3 = b2 ! 3" using 1(4) 2(4) by simp_all
  then have ps: "piece b1 4 6 = piece b2 4 6" "piece b1 6 8 = piece b2 6 8" "piece b1 8 10 = piece b2 8 10" "piece b1 10 12 = piece b2 10 12"
    using int16_at_piece [OF len(1,5)] int16_at_piece [OF len(2,6)] int16_at_piece [OF len(3,7)] int16_at_piece [OF len(4,8)] zero by simp_all
  have split: "drop 3 b = b ! 3 # piece b 4 6 @ piece b 6 8 @ piece b 8 10 @ piece b 10 12 @ piece b 12 (length b)"
    if "12 \<le> length b" for b
  proof -
    have "piece b 4 (length b) = piece b 4 6 @ piece b 6 8 @ piece b 8 10 @ piece b 10 12 @ piece b 12 (length b)"
      using piece_append [of 4 6 "length b" b] piece_append [of 6 8 "length b" b] piece_append [of 8 10 "length b" b]
        piece_append [of 10 12 "length b" b] that by simp
    moreover have "drop 3 b = b ! 3 # piece b 4 (length b)" using piece_Cons [of 3 b "length b"] that by (simp add: piece_def)
    ultimately show ?thesis by simp
  qed
  show ?thesis unfolding split [OF 1(1)] split [OF 2(1)] using ps tail \<open>b1 ! 3 = b2 ! 3\<close> by simp
qed

text \<open>
  Claim C19. The cache takes a query for a cached one exactly when they are the same question. For accepted queries
  that end with their last record, the hashes and the comparison agree if and only if the two packets
  have the same RD bit and the same bytes from the fourth on: only the ID and the other flags of the third
  byte are ignored.
\<close>

theorem query_match_exact:
  assumes "exact_query q1" "exact_query q2"
  shows "entry_hash q1 = entry_hash q2 \<and> entry_equals q1 q2 = Some True \<longleftrightarrow> q1 ! 2 AND 1 = q2 ! 2 AND 1 \<and> drop 3 q1 = drop 3 q2"
proof -
  obtain k1 m1 k2 m2 where k: "parse_query q1 = Some (k1, m1)" "parse_query q2 = Some (k2, m2)"
    using assms by (auto simp: exact_query_def split: option.splits)
  have len: "12 \<le> length q1" "12 \<le> length q2" using assms acceptedD(1) by (auto simp: exact_query_def)
  have eq: "entry_equals q1 q2 = Some (length q1 = length q2 \<and> k1 = k2)"
    using isEqualQuery_key [OF k] by (auto simp: entry_equals_def)
  show ?thesis
  proof (cases "length q1 = length q2 \<and> k1 = k2")
    case True
    then have same: "drop 3 q1 = drop 3 q2" using exact_bytes [OF assms] k by simp
    have "fst k1 = q1 ! 2 AND 1" "fst k2 = q2 ! 2 AND 1" using k by (auto simp: parse_query_def split: if_splits option.splits)
    then have "q1 ! 2 AND 1 = q2 ! 2 AND 1" using True by simp
    then show ?thesis using True same eq len hashQuery_eq [of q1] hashQuery_eq [of q2] by (simp add: entry_hash_def)
  next
    case False
    have "\<not> (q1 ! 2 AND 1 = q2 ! 2 AND 1 \<and> drop 3 q1 = drop 3 q2)"
    proof
      assume same: "q1 ! 2 AND 1 = q2 ! 2 AND 1 \<and> drop 3 q1 = drop 3 q2"
      then have "length (drop 3 q1) = length (drop 3 q2)" by simp
      then have "length q1 = length q2" using len by simp
      then show False using parse_query_cong [of q1 q2] same len k False by simp
    qed
    then show ?thesis using eq False by simp
  qed
qed

text \<open>A query for the address of \<open>a.b\<close>, and the same with another ID.\<close>

definition demo_query :: "u8 \<Rightarrow> bytes" where
  "demo_query i = [0, i, 1, 0, 0, 1, 0, 0, 0, 0, 0, 0, 1, 0x61, 1, 0x62, 0, 0, 1, 0, 1]"

theorem query_match_exact_witness:
  "entry_hash (demo_query 5) = entry_hash (demo_query 9) \<and> entry_equals (demo_query 5) (demo_query 9) = Some True"
proof -
  have "exact_query (demo_query 5)" "exact_query (demo_query 9)" by code_simp+
  from query_match_exact [OF this] show ?thesis by (simp add: demo_query_def)
qed

text \<open>A query for all types is refused, and one for the obsolete type 31 is accepted in its place.\<close>

lemma type_all_refused:
  "\<not> accepted [0, 1, 1, 0, 0, 1, 0, 0, 0, 0, 0, 0, 1, 0x61, 0, 0, 255, 0, 1]"
  "accepted [0, 1, 1, 0, 0, 1, 0, 0, 0, 0, 0, 0, 1, 0x61, 0, 0, 31, 0, 1]"
  by code_simp+

text \<open>
  The additional record of an accepted query is not checked. If it is missing, the query is not equal to
  itself; if it ends before its length, the comparison calls \<open>memcmp\<close> with a negative length.
\<close>

lemma incomplete_additional_record:
  "let q = [0, 1, 1, 0, 0, 1, 0, 0, 0, 0, 0, 1, 1, 0x61, 0, 0, 1, 0, 1] in accepted q \<and> entry_equals q q = Some False"
  "let q = [0, 1, 1, 0, 0, 1, 0, 0, 0, 0, 0, 1, 1, 0x61, 0, 0, 1, 0, 1, 0, 0, 41, 16, 0, 0, 0, 0, 0] in accepted q \<and> entry_equals q q = None"
  by code_simp+

text \<open>The flags are read before the length is checked.\<close>

lemma short_query_read: "length q \<le> 2 \<Longrightarrow> entry_init_key q = None"
  by (simp add: entry_init_key_def entry_hash_def dnsPacket_hashQuery_def dnsPacket_init_def Let_def)

end
