(* ===== verification/Res_Cache.thy ===== *)
theory Res_Cache
  imports Dns_Packet
begin

text \<open>
  resolv/res_cache.cpp, the cache of one network: a hash table with collision chains and a doubly linked
  list in the order of use, both through pointers. The heap has one function per pointer field; the
  allocated entries are the domain of \<open>ents\<close>. \<open>None\<close> stands for an access to memory that is not allocated,
  and for a loop that does not end.
\<close>

section \<open>State\<close>

text \<open>\<open>MruHead\<close> is the address of the list head inside the cache, \<open>Ent a\<close> that of an entry.\<close>

datatype node = MruHead | Ent nat

record entry =
  e_hash :: u32
  e_query :: bytes
  e_answer :: bytes
  e_expires :: int
  e_id :: int

record resolv_cache =
  max_entries :: nat
  num_entries :: int
  last_id :: int
  entries :: "nat \<Rightarrow> nat option"
  ents :: "nat \<Rightarrow> entry option"
  hlink :: "nat \<Rightarrow> nat option"
  mru_next :: "node \<Rightarrow> node"
  mru_prev :: "node \<Rightarrow> node"
  pending_requests :: "u32 list"

abbreviation CONFIG_MAX_ENTRIES :: nat where "CONFIG_MAX_ENTRIES \<equiv> 64 * 2 * 5"

definition resolv_cache_create :: resolv_cache where
  "resolv_cache_create = \<lparr>max_entries = CONFIG_MAX_ENTRIES, num_entries = 0, last_id = 0, entries = (\<lambda>i. None),
     ents = (\<lambda>a. None), hlink = (\<lambda>a. None), mru_next = (\<lambda>n. MruHead), mru_prev = (\<lambda>n. MruHead), pending_requests = []\<rparr>"

fun valid :: "resolv_cache \<Rightarrow> node \<Rightarrow> bool" where
  "valid c MruHead = True"
| "valid c (Ent a) \<longleftrightarrow> ents c a \<noteq> None"

section \<open>The list in order of use\<close>

definition entry_mru_remove :: "node \<Rightarrow> resolv_cache \<Rightarrow> resolv_cache option" where
  "entry_mru_remove e c =
     (if valid c e \<and> valid c (mru_prev c e) then
        (let c1 = c\<lparr>mru_next := (mru_next c)(mru_prev c e := mru_next c e)\<rparr> in
         if valid c (mru_next c1 e) then Some (c1\<lparr>mru_prev := (mru_prev c1)(mru_next c1 e := mru_prev c1 e)\<rparr>) else None)
      else None)"

definition entry_mru_add :: "node \<Rightarrow> resolv_cache \<Rightarrow> resolv_cache option" where
  "entry_mru_add e c =
     (let first = mru_next c MruHead in
      if valid c e \<and> valid c first then
        (let c1 = c\<lparr>mru_next := (mru_next c)(e := first), mru_prev := (mru_prev c)(e := MruHead)\<rparr>
         in Some (c1\<lparr>mru_next := (mru_next c1)(MruHead := e), mru_prev := (mru_prev c1)(first := e)\<rparr>))
      else None)"

section \<open>The hash table\<close>

text \<open>A pointer to a pointer to an entry: a slot of the table, or the link field of an entry.\<close>

datatype slot = Bucket nat | HLink nat

fun slot_get :: "resolv_cache \<Rightarrow> slot \<Rightarrow> nat option option" where
  "slot_get c (Bucket i) = (if i < max_entries c then Some (entries c i) else None)"
| "slot_get c (HLink a) = (if ents c a = None then None else Some (hlink c a))"

fun slot_set :: "slot \<Rightarrow> nat option \<Rightarrow> resolv_cache \<Rightarrow> resolv_cache" where
  "slot_set (Bucket i) v c = c\<lparr>entries := (entries c)(i := v)\<rparr>"
| "slot_set (HLink a) v c = c\<lparr>hlink := (hlink c)(a := v)\<rparr>"

partial_function (option) lookup_loop :: "resolv_cache \<Rightarrow> u32 \<Rightarrow> bytes \<Rightarrow> slot \<Rightarrow> slot option" where
  "lookup_loop c khash kquery pnode =
     (case slot_get c pnode of
        None \<Rightarrow> None
      | Some None \<Rightarrow> Some pnode
      | Some (Some a) \<Rightarrow>
          (case ents c a of
             None \<Rightarrow> None
           | Some node \<Rightarrow>
               if e_hash node = khash then
                 (case entry_equals (e_query node) kquery of
                    None \<Rightarrow> None
                  | Some eq \<Rightarrow> if eq then Some pnode else lookup_loop c khash kquery (HLink a))
               else lookup_loop c khash kquery (HLink a)))"

declare lookup_loop.simps [code]

definition cache_lookup_p :: "resolv_cache \<Rightarrow> u32 \<Rightarrow> bytes \<Rightarrow> slot option" where
  "cache_lookup_p c khash kquery = lookup_loop c khash kquery (Bucket (unat khash mod max_entries c))"

definition cache_add_p :: "slot \<Rightarrow> nat \<Rightarrow> resolv_cache \<Rightarrow> resolv_cache option" where
  "cache_add_p lookup e c =
     (case ents c e of
        None \<Rightarrow> None
      | Some x \<Rightarrow>
          (let c1 = slot_set lookup (Some e) c;
               c2 = c1\<lparr>last_id := last_id c1 + 1, ents := (ents c1)(e \<mapsto> x\<lparr>e_id := last_id c1 + 1\<rparr>)\<rparr>
           in map_option (\<lambda>c3. c3\<lparr>num_entries := num_entries c3 + 1\<rparr>) (entry_mru_add (Ent e) c2)))"

text \<open>\<open>*lookup\<close> is the entry to remove; it is freed.\<close>

definition cache_remove_p :: "slot \<Rightarrow> resolv_cache \<Rightarrow> resolv_cache option" where
  "cache_remove_p lookup c =
     (case slot_get c lookup of
        Some (Some e) \<Rightarrow>
          do { c1 \<leftarrow> entry_mru_remove (Ent e) c;
               let c2 = slot_set lookup (hlink c1 e) c1 in
               Some (c2\<lparr>ents := (ents c2)(e := None), num_entries := num_entries c2 - 1\<rparr>) }
      | _ \<Rightarrow> None)"

text \<open>The hash and the query of a node; the head of the list is an entry of its own, filled with zeroes.\<close>

fun node_key :: "resolv_cache \<Rightarrow> node \<Rightarrow> (u32 \<times> bytes) option" where
  "node_key c MruHead = Some (0, [])"
| "node_key c (Ent a) = map_option (\<lambda>e. (e_hash e, e_query e)) (ents c a)"

definition cache_remove_oldest :: "resolv_cache \<Rightarrow> resolv_cache option" where
  "cache_remove_oldest c =
     do { (khash, kquery) \<leftarrow> node_key c (mru_prev c MruHead);
          lookup \<leftarrow> cache_lookup_p c khash kquery;
          v \<leftarrow> slot_get c lookup;
          if v = None then Some c else cache_remove_p lookup c }"

partial_function (option) remove_expired_loop :: "int \<Rightarrow> node \<Rightarrow> resolv_cache \<Rightarrow> resolv_cache option" where
  "remove_expired_loop now e c =
     (case e of
        MruHead \<Rightarrow> Some c
      | Ent a \<Rightarrow>
          (case ents c a of
             None \<Rightarrow> None
           | Some x \<Rightarrow>
               if now \<ge> e_expires x then
                 (case cache_lookup_p c (e_hash x) (e_query x) of
                    None \<Rightarrow> None
                  | Some lookup \<Rightarrow>
                      (case slot_get c lookup of
                         None \<Rightarrow> None
                       | Some None \<Rightarrow> Some c
                       | Some (Some b) \<Rightarrow>
                           (case cache_remove_p lookup c of
                              None \<Rightarrow> None
                            | Some c' \<Rightarrow> remove_expired_loop now (mru_next c e) c')))
               else remove_expired_loop now (mru_next c e) c))"

declare remove_expired_loop.simps [code]

definition cache_remove_expired :: "int \<Rightarrow> resolv_cache \<Rightarrow> resolv_cache option" where
  "cache_remove_expired now c = remove_expired_loop now (mru_next c MruHead) c"

section \<open>Pending requests\<close>

text \<open>Whether a request with the same hash is pending; otherwise one is registered at the end of the list (its
  memory is taken to be available). The condition variable of a request is not part of the state: a thread that
  waits is the result \<open>Wait\<close>, and its waking, by a notification or a timeout, is a later call of \<open>cache_lookup_again\<close>.\<close>

definition cache_check_pending :: "u32 \<Rightarrow> resolv_cache \<Rightarrow> bool \<times> resolv_cache" where
  "cache_check_pending khash c =
     (if khash \<in> set (pending_requests c) then (True, c)
      else (False, c\<lparr>pending_requests := pending_requests c @ [khash]\<rparr>))"

definition cache_notify_waiting :: "u32 \<Rightarrow> resolv_cache \<Rightarrow> resolv_cache" where
  "cache_notify_waiting khash c = c\<lparr>pending_requests := remove1 khash (pending_requests c)\<rparr>"

section \<open>Lookup, add, flush\<close>

datatype ResolvCacheStatus = RESOLV_CACHE_UNSUPPORTED | RESOLV_CACHE_NOTFOUND | RESOLV_CACHE_FOUND | RESOLV_CACHE_SKIP

text \<open>
  What a lookup returns, with the answer it copies and the length it stores, if it does; or that the
  thread waits for a pending request.
\<close>

datatype lookup_result = Done ResolvCacheStatus bytes "nat option" | Wait

text \<open>The part after an entry was found.\<close>

definition lookup_hit :: "int \<Rightarrow> nat \<Rightarrow> slot \<Rightarrow> nat \<Rightarrow> resolv_cache \<Rightarrow> (lookup_result \<times> resolv_cache) option" where
  "lookup_hit now answersize lookup a c =
     (case ents c a of
        None \<Rightarrow> None
      | Some e \<Rightarrow>
          if now \<ge> e_expires e then map_option (\<lambda>c'. (Done RESOLV_CACHE_NOTFOUND [] None, c')) (cache_remove_p lookup c)
          else if length (e_answer e) > answersize then Some (Done RESOLV_CACHE_UNSUPPORTED [] (Some (length (e_answer e))), c)
          else map_option (\<lambda>c'. (Done RESOLV_CACHE_FOUND (e_answer e) (Some (length (e_answer e))), c'))
            (if Ent a \<noteq> mru_next c MruHead then Option.bind (entry_mru_remove (Ent a) c) (entry_mru_add (Ent a)) else Some c))"

text \<open>The second lookup, of a thread that has waited.\<close>

definition cache_lookup_again :: "int \<Rightarrow> bytes \<Rightarrow> nat \<Rightarrow> resolv_cache \<Rightarrow> (lookup_result \<times> resolv_cache) option" where
  "cache_lookup_again now query answersize c =
     (case entry_init_key query of
        None \<Rightarrow> None
      | Some (khash, ok) \<Rightarrow>
          do { lookup \<leftarrow> cache_lookup_p c khash query;
               v \<leftarrow> slot_get c lookup;
               (case v of None \<Rightarrow> Some (Done RESOLV_CACHE_NOTFOUND [] None, c) | Some a \<Rightarrow> lookup_hit now answersize lookup a c) })"

definition resolv_cache_lookup ::
  "int \<Rightarrow> bool \<Rightarrow> bool \<Rightarrow> bytes \<Rightarrow> nat \<Rightarrow> resolv_cache \<Rightarrow> (lookup_result \<times> resolv_cache) option" where
  "resolv_cache_lookup now no_cache_lookup no_cache_store query answersize c =
     (if no_cache_lookup then Some (Done RESOLV_CACHE_SKIP [] None, c)
      else case entry_init_key query of
          None \<Rightarrow> None
        | Some (khash, False) \<Rightarrow> Some (Done RESOLV_CACHE_UNSUPPORTED [] None, c)
        | Some (khash, True) \<Rightarrow>
            do { lookup \<leftarrow> cache_lookup_p c khash query;
                 v \<leftarrow> slot_get c lookup;
                 (case v of
                    Some a \<Rightarrow> lookup_hit now answersize lookup a c
                  | None \<Rightarrow>
                      if no_cache_store then Some (Done RESOLV_CACHE_SKIP [] None, c)
                      else case cache_check_pending khash c of
                          (exist, c') \<Rightarrow> Some (if exist then Wait else Done RESOLV_CACHE_NOTFOUND [] None, c')) })"

text \<open>
  \<open>getTTL\<close> is the time to live of the answer, \<open>fresh\<close> the address that \<open>calloc\<close> returns, if it does.
  The clock is read once for a call.
\<close>

definition entry_alloc :: "u32 \<Rightarrow> bytes \<Rightarrow> bytes \<Rightarrow> nat \<Rightarrow> resolv_cache \<Rightarrow> resolv_cache" where
  "entry_alloc khash query answer a c =
     c\<lparr>ents := (ents c)(a \<mapsto> \<lparr>e_hash = khash, e_query = query, e_answer = answer, e_expires = 0, e_id = 0\<rparr>),
       hlink := (hlink c)(a := None)\<rparr>"

definition make_room :: "int \<Rightarrow> resolv_cache \<Rightarrow> resolv_cache option" where
  "make_room now c =
     do { c1 \<leftarrow> cache_remove_expired now c;
          if num_entries c1 \<ge> int (max_entries c1) then cache_remove_oldest c1 else Some c1 }"

definition insert_answer :: "int \<Rightarrow> int \<Rightarrow> u32 \<Rightarrow> bytes \<Rightarrow> bytes \<Rightarrow> nat option \<Rightarrow> slot \<Rightarrow> resolv_cache \<Rightarrow> resolv_cache option" where
  "insert_answer now ttl khash query answer fresh lookup c =
     (case fresh of
        Some a \<Rightarrow>
          if ttl > 0 then
            (let c1 = entry_alloc khash query answer a c in
             cache_add_p lookup a (c1\<lparr>ents := (ents c1)(a := map_option (\<lambda>e. e\<lparr>e_expires := ttl + now\<rparr>) (ents c1 a))\<rparr>))
          else Some c
      | None \<Rightarrow> Some c)"

definition resolv_cache_add ::
  "(bytes \<Rightarrow> int) \<Rightarrow> int \<Rightarrow> bytes \<Rightarrow> bytes \<Rightarrow> nat option \<Rightarrow> resolv_cache \<Rightarrow> resolv_cache option" where
  "resolv_cache_add getTTL now query answer fresh c =
     (case entry_init_key query of
        None \<Rightarrow> None
      | Some (khash, False) \<Rightarrow> Some c
      | Some (khash, True) \<Rightarrow>
          do { lookup \<leftarrow> cache_lookup_p c khash query;
               v \<leftarrow> slot_get c lookup;
               if v \<noteq> None then Some (cache_notify_waiting khash c)
               else do {
                 (lookup1, v1, c1) \<leftarrow>
                   (if num_entries c \<ge> int (max_entries c) then
                      do { c1 \<leftarrow> make_room now c; l \<leftarrow> cache_lookup_p c1 khash query; w \<leftarrow> slot_get c1 l; Some (l, w, c1) }
                    else Some (lookup, None, c));
                 if v1 \<noteq> None then Some (cache_notify_waiting khash c1)
                 else map_option (cache_notify_waiting khash) (insert_answer now (getTTL answer) khash query answer fresh lookup1 c1) } })"

definition resolv_cache_query_failed :: "bool \<Rightarrow> bool \<Rightarrow> bytes \<Rightarrow> resolv_cache \<Rightarrow> resolv_cache option" where
  "resolv_cache_query_failed no_cache_lookup no_cache_store query c =
     (if no_cache_store \<or> no_cache_lookup then Some c
      else case entry_init_key query of
          None \<Rightarrow> None
        | Some (khash, ok) \<Rightarrow> Some (if ok then cache_notify_waiting khash c else c))"

partial_function (option) flush_chain :: "nat \<Rightarrow> resolv_cache \<Rightarrow> resolv_cache option" where
  "flush_chain nn c =
     (case slot_get c (Bucket nn) of
        None \<Rightarrow> None
      | Some None \<Rightarrow> Some c
      | Some (Some a) \<Rightarrow>
          if ents c a = None then None
          else flush_chain nn (let c1 = slot_set (Bucket nn) (hlink c a) c in c1\<lparr>ents := (ents c1)(a := None)\<rparr>))"

declare flush_chain.simps [code]

fun flush_chains :: "nat list \<Rightarrow> resolv_cache \<Rightarrow> resolv_cache option" where
  "flush_chains [] c = Some c"
| "flush_chains (nn # nns) c = (case flush_chain nn c of None \<Rightarrow> None | Some c' \<Rightarrow> flush_chains nns c')"

definition cache_flush :: "resolv_cache \<Rightarrow> resolv_cache option" where
  "cache_flush c =
     map_option (\<lambda>c'. c'\<lparr>pending_requests := [], mru_next := (mru_next c')(MruHead := MruHead),
         mru_prev := (mru_prev c')(MruHead := MruHead), num_entries := 0, last_id := 0\<rparr>)
       (flush_chains [0 ..< max_entries c] c)"

end
