(* ===== verification/Res_Cache_Rep.thy ===== *)
theory Res_Cache_Rep
  imports Res_Cache
begin

text \<open>
  What the pointers of a cache represent: the list of entries in the order of use, and the chain of each slot
  of the table. The operations on pointers are shown to be the operations on these lists.
\<close>

section \<open>Doubly linked lists\<close>

fun dll :: "(node \<Rightarrow> node) \<Rightarrow> (node \<Rightarrow> node) \<Rightarrow> node \<Rightarrow> node list \<Rightarrow> node \<Rightarrow> bool" where
  "dll nxt prv p [] q \<longleftrightarrow> nxt p = q \<and> prv q = p"
| "dll nxt prv p (x # xs) q \<longleftrightarrow> nxt p = x \<and> prv x = p \<and> dll nxt prv x xs q"

lemma dll_frame:
  "dll nxt prv p xs q \<Longrightarrow> (\<forall>n \<in> insert p (set xs). nxt' n = nxt n) \<Longrightarrow> (\<forall>n \<in> insert q (set xs). prv' n = prv n) \<Longrightarrow> dll nxt' prv' p xs q"
  by (induction xs arbitrary: p) auto

lemma dll_append: "dll nxt prv p (xs @ x # ys) q \<longleftrightarrow> dll nxt prv p xs x \<and> dll nxt prv x ys q"
  by (induction xs arbitrary: p) auto

lemma dll_last: "dll nxt prv p xs q \<Longrightarrow> prv q = last (p # xs)"
  by (induction xs arbitrary: p) auto

lemma dll_first: "dll nxt prv p xs q \<Longrightarrow> nxt p = hd (xs @ [q])"
  by (cases xs) auto

lemma last_notin: "p \<notin> set (z # zs) \<Longrightarrow> p \<noteq> last (z # zs)"
  using last_in_set [of "z # zs"] by auto

lemma dll_join:
  "dll nxt prv p xs x \<Longrightarrow> dll nxt prv x ys q \<Longrightarrow> distinct (xs @ x # ys) \<Longrightarrow> p \<notin> set (xs @ x # ys) \<Longrightarrow> q \<notin> set (xs @ x # ys) \<Longrightarrow>
   dll (nxt(last (p # xs) := hd (ys @ [q]))) (prv(hd (ys @ [q]) := last (p # xs))) p (xs @ ys) q"
proof (induction xs arbitrary: p)
  case Nil
  show ?case
  proof (cases ys)
    case (Cons y zs)
    have "dll nxt prv y zs q" using Nil.prems(2) Cons by simp
    then have "dll (nxt(p := y)) (prv(y := p)) y zs q"
      by (rule dll_frame) (use Nil.prems(3-5) Cons in auto)
    then show ?thesis using Cons by (simp add: fun_upd_def)
  qed (use Nil.prems in simp)
next
  case (Cons z zs)
  have z: "z \<noteq> hd (ys @ [q])" using Cons.prems(3,5) by (cases ys) auto
  have p: "p \<noteq> last (z # zs)" by (rule last_notin) (use Cons.prems(4) in simp)
  have d: "dll nxt prv z zs x" "nxt p = z" "prv z = p" using Cons.prems(1) by simp_all
  have "dll (nxt(last (z # zs) := hd (ys @ [q]))) (prv(hd (ys @ [q]) := last (z # zs))) z (zs @ ys) q"
    by (rule Cons.IH [OF d(1) Cons.prems(2)]) (use Cons.prems(3,5) in auto)
  then show ?case using z p d(2,3) by (simp add: fun_upd_def split: if_split_asm)
qed

text \<open>Removing and adding at the front, as assignments to the fields.\<close>

lemma dll_remove:
  assumes "dll nxt prv p (xs @ x # ys) q" "distinct (xs @ x # ys)" "p \<notin> set (xs @ x # ys)" "q \<notin> set (xs @ x # ys)"
  shows "dll (nxt(prv x := nxt x)) (prv(nxt x := prv x)) p (xs @ ys) q"
proof -
  have d: "dll nxt prv p xs x" "dll nxt prv x ys q" using assms(1) by (auto simp: dll_append)
  show ?thesis using dll_join [OF d assms(2-4)] unfolding dll_last [OF d(1)] dll_first [OF d(2)] .
qed

lemma dll_add:
  assumes "dll nxt prv p xs q" "x \<notin> set xs" "x \<noteq> p" "x \<noteq> q" "p \<notin> set xs" "q \<notin> set xs" "distinct xs"
  shows "dll ((nxt(x := nxt p))(p := x)) ((prv(x := p))(nxt p := x)) p (x # xs) q"
proof (cases xs)
  case Nil
  then show ?thesis using assms by auto
next
  case (Cons y ys)
  have y: "nxt p = y" "dll nxt prv y ys q" using assms(1) Cons by simp_all
  have "dll ((nxt(x := y))(p := x)) ((prv(x := p))(y := x)) y ys q"
    by (rule dll_frame [OF y(2)]) (use assms(2-7) Cons in auto)
  then show ?thesis using assms(2-6) Cons y(1) by auto
qed

section \<open>Chains\<close>

fun chain :: "(nat \<Rightarrow> nat option) \<Rightarrow> nat option \<Rightarrow> nat list \<Rightarrow> bool" where
  "chain h p [] \<longleftrightarrow> p = None"
| "chain h p (a # as) \<longleftrightarrow> p = Some a \<and> chain h (h a) as"

text \<open>The pointer to the pointer at the position behind \<open>as\<close> in the chain of a slot.\<close>

definition slot_after :: "nat \<Rightarrow> nat list \<Rightarrow> slot" where
  "slot_after i as = (if as = [] then Bucket i else HLink (last as))"

definition first_of :: "nat list \<Rightarrow> nat option" where
  "first_of as = (case as of [] \<Rightarrow> None | a # _ \<Rightarrow> Some a)"

lemma chain_first: "chain h p as \<Longrightarrow> p = first_of as"
  by (cases as) (auto simp: first_of_def)

lemma chain_frame: "chain h p as \<Longrightarrow> (\<forall>a \<in> set as. h' a = h a) \<Longrightarrow> chain h' p as"
  by (induction as arbitrary: p) auto

lemma chain_append: "chain h p (as @ bs) \<Longrightarrow> as \<noteq> [] \<Longrightarrow> h (last as) = first_of bs \<and> chain h (first_of bs) bs"
proof (induction as arbitrary: p)
  case (Cons a as)
  show ?case
  proof (cases as)
    case Nil
    then have c: "chain h (h a) bs" using Cons.prems by simp
    then show ?thesis using chain_first [OF c] Nil by simp
  next
    case (Cons b cs)
    then show ?thesis using Cons.IH Cons.prems by simp
  qed
qed simp

lemma chain_replace:
  "chain h p (as @ bs) \<Longrightarrow> as \<noteq> [] \<Longrightarrow> distinct as \<Longrightarrow> set as \<inter> set cs = {} \<Longrightarrow> chain h (first_of cs) cs \<Longrightarrow> chain (h(last as := first_of cs)) p (as @ cs)"
proof (induction as arbitrary: p)
  case (Cons a as)
  show ?case
  proof (cases as)
    case Nil
    have "chain (h(a := first_of cs)) (first_of cs) cs" by (rule chain_frame [OF Cons.prems(5)]) (use Cons.prems(4) in auto)
    then show ?thesis using Cons.prems(1) Nil by (simp add: fun_upd_def)
  next
    case (Cons b ds)
    have "chain (h(last as := first_of cs)) (h a) (as @ cs)"
      by (rule Cons.IH) (use Cons.prems Cons in auto)
    moreover have "a \<noteq> last as" using Cons.prems(3) last_notin [of a b ds] Cons by simp
    ultimately show ?thesis using Cons.prems(1) Cons by (simp add: fun_upd_def split: if_split_asm)
  qed
qed simp

section \<open>The representation\<close>

text \<open>What two queries must agree in to be the same for the cache.\<close>

definition qkey :: "bytes \<Rightarrow> u32 option \<times> nat \<times> query_key option" where
  "qkey q = (entry_hash q, length q, map_option fst (parse_query q))"

definition cached_ok :: "entry \<Rightarrow> bool" where
  "cached_ok e \<longleftrightarrow> well_formed (e_query e) \<and> entry_hash (e_query e) = Some (e_hash e)"

definition slot_of :: "resolv_cache \<Rightarrow> entry \<Rightarrow> nat" where
  "slot_of c e = unat (e_hash e) mod max_entries c"

definition entries_of :: "resolv_cache \<Rightarrow> nat list \<Rightarrow> entry list" where
  "entries_of c xs = map (\<lambda>a. the (ents c a)) xs"

definition rep :: "resolv_cache \<Rightarrow> nat list \<Rightarrow> (nat \<Rightarrow> nat list) \<Rightarrow> bool" where
  "rep c xs ch \<longleftrightarrow> 0 < max_entries c \<and> distinct xs \<and> set xs = dom (ents c) \<and>
     dll (mru_next c) (mru_prev c) MruHead (map Ent xs) MruHead \<and>
     (\<forall>i < max_entries c. chain (hlink c) (entries c i) (ch i) \<and> distinct (ch i) \<and>
        (\<forall>a. a \<in> set (ch i) \<longleftrightarrow> (\<exists>e. ents c a = Some e \<and> slot_of c e = i))) \<and>
     num_entries c = int (length xs) \<and>
     (\<forall>a e. ents c a = Some e \<longrightarrow> cached_ok e) \<and>
     distinct (map (qkey \<circ> e_query) (entries_of c xs))"

lemma repD:
  assumes "rep c xs ch"
  shows "0 < max_entries c" "distinct xs" "set xs = dom (ents c)" "dll (mru_next c) (mru_prev c) MruHead (map Ent xs) MruHead"
    "i < max_entries c \<Longrightarrow> chain (hlink c) (entries c i) (ch i)" "i < max_entries c \<Longrightarrow> distinct (ch i)"
    "i < max_entries c \<Longrightarrow> a \<in> set (ch i) \<longleftrightarrow> (\<exists>e. ents c a = Some e \<and> slot_of c e = i)"
    "num_entries c = int (length xs)" "ents c a = Some e \<Longrightarrow> cached_ok e" "distinct (map (qkey \<circ> e_query) (entries_of c xs))"
  using assms unfolding rep_def by blast+

lemma entry_equals_qkey:
  assumes "well_formed q1" "well_formed q2"
  shows "entry_equals q1 q2 = Some (length q1 = length q2 \<and> map_option fst (parse_query q1) = map_option fst (parse_query q2))"
  using assms isEqualQuery_key [of q1 _ _ q2] by (auto simp: well_formed_def entry_equals_def)

text \<open>Two entries with the same key are the same entry.\<close>

lemma rep_unique:
  assumes "rep c xs ch" "ents c a = Some e" "ents c b = Some f" "qkey (e_query e) = qkey (e_query f)"
  shows "a = b"
proof -
  have "a \<in> set xs" "b \<in> set xs" using assms(1-3) repD(3) by blast+
  moreover have "inj_on (\<lambda>a. qkey (e_query (the (ents c a)))) (set xs)"
    using repD(10) [OF assms(1)] by (simp add: entries_of_def distinct_map comp_def)
  ultimately show ?thesis using assms(2-4) by (auto dest!: inj_onD [of _ _ a b])
qed

section \<open>Lookup\<close>

definition matches :: "resolv_cache \<Rightarrow> bytes \<Rightarrow> nat \<Rightarrow> bool" where
  "matches c q a \<longleftrightarrow> qkey (e_query (the (ents c a))) = qkey q"

lemma slot_get_after:
  assumes "rep c xs ch" "i < max_entries c" "ch i = as @ bs"
  shows "slot_get c (slot_after i as) = Some (first_of bs)"
proof (cases "as = []")
  case True
  then show ?thesis using repD(5) [OF assms(1,2)] assms(2,3) chain_first by (simp add: slot_after_def)
next
  case False
  then have "last as \<in> set (ch i)" using assms(3) by simp
  then have "ents c (last as) \<noteq> None" using repD(7) [OF assms(1,2)] by auto
  moreover have "hlink c (last as) = first_of bs" using chain_append [of _ _ as bs] repD(5) [OF assms(1,2)] assms(3) False by simp
  ultimately show ?thesis using False by (simp add: slot_after_def)
qed

lemma lookup_loop_chain:
  assumes "rep c xs ch" "i < max_entries c" "well_formed q" "entry_hash q = Some h" "ch i = as @ bs"
  shows "lookup_loop c h q (slot_after i as) = Some (slot_after i (as @ takeWhile (\<lambda>a. \<not> matches c q a) bs))"
  using assms(5)
proof (induction bs arbitrary: as)
  case Nil
  then show ?case using slot_get_after [OF assms(1,2) Nil] by (subst lookup_loop.simps) (simp add: first_of_def)
next
  case (Cons b bs)
  have get: "slot_get c (slot_after i as) = Some (Some b)" using slot_get_after [OF assms(1,2) Cons.prems] by (simp add: first_of_def)
  obtain e where e: "ents c b = Some e" using repD(7) [OF assms(1,2), of b] Cons.prems by auto
  have ok: "well_formed (e_query e)" "entry_hash (e_query e) = Some (e_hash e)" using repD(9) [OF assms(1) e] by (simp_all add: cached_ok_def)
  have next_slot: "HLink b = slot_after i (as @ [b])" by (simp add: slot_after_def)
  have IH: "lookup_loop c h q (HLink b) = Some (slot_after i ((as @ [b]) @ takeWhile (\<lambda>a. \<not> matches c q a) bs))"
    unfolding next_slot by (rule Cons.IH) (use Cons.prems in simp)
  have "matches c q b \<longleftrightarrow> e_hash e = h \<and> length (e_query e) = length q \<and> map_option fst (parse_query (e_query e)) = map_option fst (parse_query q)"
    using e ok(2) assms(4) by (auto simp: matches_def qkey_def)
  then show ?case
    using entry_equals_qkey [OF ok(1) assms(3)] IH by (subst lookup_loop.simps) (simp add: get e)
qed

text \<open>The slot that a lookup returns, and what is there.\<close>

lemma lookup_p:
  assumes "rep c xs ch" "well_formed q" "entry_hash q = Some h"
  obtains i as bs where "i = unat h mod max_entries c" "i < max_entries c" "ch i = as @ bs" "cache_lookup_p c h q = Some (slot_after i as)"
    "slot_get c (slot_after i as) = Some (first_of bs)" "first_of bs = find (matches c q) xs"
proof -
  define i where "i = unat h mod max_entries c"
  define as where "as = takeWhile (\<lambda>a. \<not> matches c q a) (ch i)"
  define bs where "bs = dropWhile (\<lambda>a. \<not> matches c q a) (ch i)"
  have i: "i < max_entries c" using repD(1) [OF assms(1)] by (simp add: i_def)
  have ch: "ch i = as @ bs" by (simp add: as_def bs_def)
  have look: "cache_lookup_p c h q = Some (slot_after i as)"
    using lookup_loop_chain [OF assms(1) i assms(2,3), of "[]" "ch i"] by (simp add: cache_lookup_p_def i_def [symmetric] slot_after_def as_def)
  have "first_of bs = find (matches c q) xs"
  proof (cases bs)
    case Nil
    have no: "\<not> matches c q a" if "a \<in> set (ch i)" for a using Nil that by (simp add: bs_def dropWhile_eq_Nil_conv)
    have "\<not> matches c q a" if a: "a \<in> set xs" for a
    proof
      assume m: "matches c q a"
      obtain e where e: "ents c a = Some e" using a repD(3) [OF assms(1)] by auto
      then have "e_hash e = h" using m repD(9) [OF assms(1) e] assms(3) by (simp add: matches_def qkey_def cached_ok_def)
      then have "a \<in> set (ch i)" using repD(7) [OF assms(1) i] e by (simp add: slot_of_def i_def)
      then show False using no m by simp
    qed
    then have "find (matches c q) xs = None" by (simp add: find_None_iff)
    then show ?thesis using Nil by (simp add: first_of_def)
  next
    case (Cons b cs)
    have m: "matches c q b" using Cons hd_dropWhile [of "\<lambda>a. \<not> matches c q a" "ch i"] by (simp add: bs_def)
    have b: "b \<in> set xs" using repD(3) [OF assms(1)] repD(7) [OF assms(1) i, of b] ch Cons by auto
    obtain a where a: "find (matches c q) xs = Some a" using m b find_None_iff [of "matches c q" xs] by auto
    then have "a \<in> set xs" "matches c q a" by (auto simp: find_Some_iff)
    then have "a = b" using m b rep_unique [OF assms(1)] repD(3) [OF assms(1)] by (auto simp: matches_def)
    then show ?thesis using Cons a by (simp add: first_of_def)
  qed
  then show ?thesis using that [OF i_def i ch look slot_get_after [OF assms(1) i ch]] by blast
qed

section \<open>Changing the lists\<close>

lemma mru_remove:
  assumes "dll (mru_next c) (mru_prev c) MruHead (map Ent (ps @ b # qs)) MruHead" "distinct (ps @ b # qs)" "set (ps @ b # qs) \<subseteq> dom (ents c)"
  obtains n p where "entry_mru_remove (Ent b) c = Some (c\<lparr>mru_next := n, mru_prev := p\<rparr>)" "dll n p MruHead (map Ent (ps @ qs)) MruHead"
proof -
  have d: "dll (mru_next c) (mru_prev c) MruHead (map Ent ps) (Ent b)" "dll (mru_next c) (mru_prev c) (Ent b) (map Ent qs) MruHead"
    using assms(1) by (auto simp: dll_append)
  have prev: "mru_prev c (Ent b) = last (MruHead # map Ent ps)" and nxt: "mru_next c (Ent b) = hd (map Ent qs @ [MruHead])"
    using dll_last [OF d(1)] dll_first [OF d(2)] .
  have v: "valid c (Ent b)" "valid c (mru_prev c (Ent b))" "valid c (mru_next c (Ent b))" "mru_prev c (Ent b) \<noteq> Ent b"
    using assms(2,3) unfolding prev nxt by (cases ps rule: rev_cases; cases qs; auto)+
  let ?n = "(mru_next c)(mru_prev c (Ent b) := mru_next c (Ent b))" and ?p = "(mru_prev c)(mru_next c (Ent b) := mru_prev c (Ent b))"
  have "entry_mru_remove (Ent b) c = Some (c\<lparr>mru_next := ?n, mru_prev := ?p\<rparr>)"
    using v by (simp add: entry_mru_remove_def Let_def)
  moreover have "dll ?n ?p MruHead (map Ent ps @ map Ent qs) MruHead"
    by (rule dll_remove) (use assms(1,2) in \<open>auto simp: distinct_map inj_on_def\<close>)
  ultimately show ?thesis using that by simp
qed

lemma mru_add:
  assumes "dll (mru_next c) (mru_prev c) MruHead (map Ent xs) MruHead" "distinct xs" "set xs \<subseteq> dom (ents c)" "a \<notin> set xs" "ents c a \<noteq> None"
  obtains n p where "entry_mru_add (Ent a) c = Some (c\<lparr>mru_next := n, mru_prev := p\<rparr>)" "dll n p MruHead (map Ent (a # xs)) MruHead"
proof -
  have "mru_next c MruHead = hd (map Ent xs @ [MruHead])" using dll_first [OF assms(1)] .
  then have "valid c (mru_next c MruHead)" using assms(3) by (cases xs) auto
  then have "entry_mru_add (Ent a) c = Some (c\<lparr>mru_next := ((mru_next c)(Ent a := mru_next c MruHead))(MruHead := Ent a),
      mru_prev := ((mru_prev c)(Ent a := MruHead))(mru_next c MruHead := Ent a)\<rparr>)"
    using assms(5) by (simp add: entry_mru_add_def Let_def)
  moreover have "dll (((mru_next c)(Ent a := mru_next c MruHead))(MruHead := Ent a)) (((mru_prev c)(Ent a := MruHead))(mru_next c MruHead := Ent a))
      MruHead (Ent a # map Ent xs) MruHead"
    by (rule dll_add) (use assms in \<open>auto simp: distinct_map inj_on_def\<close>)
  ultimately show ?thesis using that by simp
qed

lemma chain_set:
  assumes ch: "\<And>j. j < m \<Longrightarrow> chain (hlink c) (entries c j) (ch j)" and i: "i < m" "ch i = as @ bs" "distinct as"
    and cs: "chain (hlink c) (first_of cs) cs" "set as \<inter> set cs = {}"
    and disj: "\<And>j. j < m \<Longrightarrow> j \<noteq> i \<Longrightarrow> set as \<inter> set (ch j) = {}" and j: "j < m"
    and c': "c' = slot_set (slot_after i as) (first_of cs) c"
  shows "chain (hlink c') (entries c' j) ((ch(i := as @ cs)) j)"
proof (cases "as = []")
  case True
  then show ?thesis using ch [OF j] cs(1) c' by (simp add: slot_after_def)
next
  case False
  have c': "c' = c\<lparr>hlink := (hlink c)(last as := first_of cs)\<rparr>" using False c' by (simp add: slot_after_def)
  show ?thesis
  proof (cases "j = i")
    case True
    have "chain ((hlink c)(last as := first_of cs)) (entries c i) (as @ cs)"
      using chain_replace [OF _ False i(3) cs(2,1)] ch [OF i(1)] i(2) by simp
    then show ?thesis using True c' by simp
  next
    case neq: False
    have "last as \<notin> set (ch j)" using disj [OF j neq] False last_in_set by blast
    then have "chain ((hlink c)(last as := first_of cs)) (entries c j) (ch j)" by (intro chain_frame [OF ch [OF j]]) auto
    then show ?thesis using neq c' by simp
  qed
qed

lemma slot_set_simps [simp]:
  "ents (slot_set l v c) = ents c" "max_entries (slot_set l v c) = max_entries c" "mru_next (slot_set l v c) = mru_next c"
  "mru_prev (slot_set l v c) = mru_prev c" "num_entries (slot_set l v c) = num_entries c" "pending_requests (slot_set l v c) = pending_requests c"
  "last_id (slot_set l v c) = last_id c"
  by (cases l; simp)+

text \<open>Chains of different slots have no entry in common.\<close>

lemma chains_disjoint:
  assumes "rep c xs ch" "i < max_entries c" "j < max_entries c" "i \<noteq> j"
  shows "set (ch i) \<inter> set (ch j) = {}"
  using repD(7) [OF assms(1,2)] repD(7) [OF assms(1,3)] assms(4) by auto

lemma entries_of_cong: "(\<And>a. a \<in> set xs \<Longrightarrow> ents c a = ents c' a) \<Longrightarrow> entries_of c xs = entries_of c' xs"
  by (simp add: entries_of_def)

lemma remove_p:
  assumes r: "rep c xs ch" and i: "i < max_entries c" "ch i = as @ b # cs"
  obtains c' where "cache_remove_p (slot_after i as) c = Some c'" "rep c' (remove1 b xs) (ch(i := as @ cs))" "ents c' = (ents c)(b := None)"
    "max_entries c' = max_entries c" "pending_requests c' = pending_requests c"
proof -
  have get: "slot_get c (slot_after i as) = Some (Some b)" using slot_get_after [OF r i] by (simp add: first_of_def)
  have b: "b \<in> set xs" using repD(3) [OF r] repD(7) [OF r i(1), of b] i(2) by auto
  then obtain ps qs where xs: "xs = ps @ b # qs" by (meson split_list)
  have rem: "remove1 b xs = ps @ qs" using repD(2) [OF r] by (simp add: xs remove1_append)
  have "set (ps @ b # qs) \<subseteq> dom (ents c)" using repD(3) [OF r] xs by simp
  from mru_remove [OF repD(4) [OF r, unfolded xs] repD(2) [OF r, unfolded xs] this]
  obtain n p where np: "entry_mru_remove (Ent b) c = Some (c\<lparr>mru_next := n, mru_prev := p\<rparr>)" "dll n p MruHead (map Ent (ps @ qs)) MruHead" .
  define c1 where "c1 = c\<lparr>mru_next := n, mru_prev := p\<rparr>"
  define c2 where "c2 = slot_set (slot_after i as) (first_of cs) c1"
  define c' where "c' = c2\<lparr>ents := (ents c2)(b := None), num_entries := num_entries c2 - 1\<rparr>"
  have d: "distinct (as @ b # cs)" using repD(6) [OF r i(1)] i(2) by simp
  have link: "hlink c b = first_of cs" "chain (hlink c) (first_of cs) cs"
    using chain_append [of "hlink c" "entries c i" "as @ [b]" cs] repD(5) [OF r i(1)] i(2) by simp_all
  then have run: "cache_remove_p (slot_after i as) c = Some c'"
    by (simp add: cache_remove_p_def get np(1) c1_def c2_def c'_def Let_def)
  have chains: "chain (hlink c2) (entries c2 j) ((ch(i := as @ cs)) j)" if "j < max_entries c" for j
  proof (rule chain_set [where c = c1 and m = "max_entries c" and ch = ch and i = i and as = as and bs = "b # cs" and cs = cs, OF _ i(1,2) _ _ _ _ that c2_def])
    show "set as \<inter> set (ch j) = {}" if "j < max_entries c" "j \<noteq> i" for j using chains_disjoint [OF r i(1) that(1)] that(2) i(2) by auto
  qed (use repD(5) [OF r] d link in \<open>auto simp: c1_def\<close>)
  have ents: "ents c' = (ents c)(b := None)" by (simp add: c'_def c2_def c1_def)
  have "rep c' (ps @ qs) (ch(i := as @ cs))"
    unfolding rep_def
  proof (intro conjI allI impI)
    show "set (ps @ qs) = dom (ents c')" using repD(2,3) [OF r] by (auto simp: xs ents)
    show "dll (mru_next c') (mru_prev c') MruHead (map Ent (ps @ qs)) MruHead" using np(2) by (simp add: c'_def c2_def c1_def)
    show "num_entries c' = int (length (ps @ qs))" using repD(8) [OF r] by (simp add: c'_def c2_def c1_def xs)
    have eq: "entries_of c' (ps @ qs) = entries_of c (ps @ qs)" by (rule entries_of_cong) (use repD(2) [OF r] in \<open>auto simp: ents xs\<close>)
    show "distinct (map (qkey \<circ> e_query) (entries_of c' (ps @ qs)))"
      unfolding eq using repD(10) [OF r] by (simp add: entries_of_def xs)
    show "chain (hlink c') (entries c' j) ((ch(i := as @ cs)) j)" if "j < max_entries c'" for j
      using chains [of j] that by (simp add: c'_def c2_def c1_def)
    show "distinct ((ch(i := as @ cs)) j)" if "j < max_entries c'" for j
      using that d repD(6) [OF r, of j] by (simp add: c'_def c2_def c1_def)
    show "a \<in> set ((ch(i := as @ cs)) j) \<longleftrightarrow> (\<exists>e. ents c' a = Some e \<and> slot_of c' e = j)" if "j < max_entries c'" for j a
    proof -
      have j: "j < max_entries c" "slot_of c' = slot_of c" using that by (auto simp: c'_def c2_def c1_def slot_of_def fun_eq_iff)
      show ?thesis using repD(7) [OF r j(1), of a] repD(7) [OF r i(1), of b] d i(2) unfolding j(2) ents by auto
    qed
    show "cached_ok e" if "ents c' a = Some e" for a e using repD(9) [OF r, of a e] that by (auto simp: ents split: if_splits)
  qed (use repD(1,2) [OF r] in \<open>auto simp: c'_def c2_def c1_def xs\<close>)
  then show ?thesis using that run ents rem by (simp add: c'_def c2_def c1_def)
qed

lemma rep_reorder:
  assumes r: "rep c xs ch" and "dll n p MruHead (map Ent ys) MruHead" "mset ys = mset xs"
  shows "rep (c\<lparr>mru_next := n, mru_prev := p\<rparr>) ys ch"
proof -
  have s: "set ys = set xs" "length ys = length xs" "distinct ys = distinct xs"
    using assms(3) mset_eq_setD mset_eq_length mset_eq_imp_distinct_iff by blast+
  have "mset (map f ys) = mset (map f xs)" for f :: "nat \<Rightarrow> u32 option \<times> nat \<times> query_key option" using assms(3) by simp
  from mset_eq_imp_distinct_iff [OF this, of "\<lambda>a. qkey (e_query (the (ents c a)))"]
  have "distinct (map (qkey \<circ> e_query) (entries_of (c\<lparr>mru_next := n, mru_prev := p\<rparr>) ys))"
    using repD(10) [OF r] by (simp add: entries_of_def comp_def)
  then show ?thesis using r assms(2) s unfolding rep_def by (simp add: slot_of_def)
qed

text \<open>A hit moves the entry to the front.\<close>

definition move_front :: "nat \<Rightarrow> nat list \<Rightarrow> nat list" where
  "move_front a xs = a # remove1 a xs"

lemma bump:
  assumes r: "rep c xs ch" and a: "a \<in> set xs"
  obtains n p where "(if Ent a \<noteq> mru_next c MruHead then Option.bind (entry_mru_remove (Ent a) c) (entry_mru_add (Ent a)) else Some c) =
      Some (c\<lparr>mru_next := n, mru_prev := p\<rparr>)" "rep (c\<lparr>mru_next := n, mru_prev := p\<rparr>) (move_front a xs) ch"
proof -
  obtain ps qs where xs: "xs = ps @ a # qs" using a by (meson split_list)
  have rem: "remove1 a xs = ps @ qs" using repD(2) [OF r] by (simp add: xs remove1_append)
  have first: "mru_next c MruHead = hd (map Ent xs @ [MruHead])" using dll_first [OF repD(4) [OF r]] .
  have sub: "set (ps @ a # qs) \<subseteq> dom (ents c)" using repD(3) [OF r] xs by simp
  show ?thesis
  proof (cases "Ent a = mru_next c MruHead")
    case True
    then have "ps = []" using repD(2) [OF r] by (cases ps) (auto simp: first xs)
    then show ?thesis using that [where n = "mru_next c" and p = "mru_prev c"] True r rem by (simp add: move_front_def xs)
  next
    case False
    from mru_remove [OF repD(4) [OF r, unfolded xs] repD(2) [OF r, unfolded xs] sub]
    obtain n p where np: "entry_mru_remove (Ent a) c = Some (c\<lparr>mru_next := n, mru_prev := p\<rparr>)" "dll n p MruHead (map Ent (ps @ qs)) MruHead" .
    let ?c = "c\<lparr>mru_next := n, mru_prev := p\<rparr>"
    have conds: "dll (mru_next ?c) (mru_prev ?c) MruHead (map Ent (ps @ qs)) MruHead" "distinct (ps @ qs)" "set (ps @ qs) \<subseteq> dom (ents ?c)"
        "a \<notin> set (ps @ qs)" "ents ?c a \<noteq> None"
      using np(2) repD(2) [OF r] sub by (auto simp: xs)
    obtain n' p' where "entry_mru_add (Ent a) ?c = Some (?c\<lparr>mru_next := n', mru_prev := p'\<rparr>)" and d: "dll n' p' MruHead (map Ent (a # ps @ qs)) MruHead"
      using mru_add [OF conds] .
    moreover have "rep (c\<lparr>mru_next := n', mru_prev := p'\<rparr>) (a # ps @ qs) ch" by (rule rep_reorder [OF r d]) (simp add: xs)
    ultimately show ?thesis using that [where n = n' and p = p'] False np(1) rem by (simp add: move_front_def)
  qed
qed

lemma find_self: "rep c xs ch \<Longrightarrow> ents c a = Some x \<Longrightarrow> find (matches c (e_query x)) xs = Some a"
proof -
  assume r: "rep c xs ch" and a: "ents c a = Some x"
  have "a \<in> set xs" "matches c (e_query x) a" using repD(3) [OF r] a by (auto simp: matches_def)
  then obtain b where b: "find (matches c (e_query x)) xs = Some b" using find_None_iff [of "matches c (e_query x)" xs] by auto
  then have "b \<in> set xs" "matches c (e_query x) b" by (auto simp: find_Some_iff)
  then have "b = a" using rep_unique [OF r] repD(3) [OF r] a by (auto simp: matches_def)
  then show ?thesis using b by simp
qed

text \<open>Looking an entry up by its own key and removing what is found.\<close>

lemma remove_self:
  assumes r: "rep c xs ch" and a: "ents c a = Some x"
  obtains l c' ch' where "cache_lookup_p c (e_hash x) (e_query x) = Some l" "slot_get c l = Some (Some a)" "cache_remove_p l c = Some c'"
    "rep c' (remove1 a xs) ch'" "ents c' = (ents c)(a := None)" "max_entries c' = max_entries c" "pending_requests c' = pending_requests c"
proof -
  have ok: "well_formed (e_query x)" "entry_hash (e_query x) = Some (e_hash x)" using repD(9) [OF r a] by (simp_all add: cached_ok_def)
  obtain i as bs where l: "i < max_entries c" "ch i = as @ bs" "cache_lookup_p c (e_hash x) (e_query x) = Some (slot_after i as)"
    "slot_get c (slot_after i as) = Some (first_of bs)" "first_of bs = find (matches c (e_query x)) xs"
    using lookup_p [OF r ok] .
  have f: "first_of bs = Some a" using l(5) find_self [OF r a] by simp
  then obtain cs where bs: "bs = a # cs" by (cases bs) (auto simp: first_of_def)
  show ?thesis using remove_p [OF r l(1) l(2)[unfolded bs]] that l(3,4) f by metis
qed

lemma remove_expired_loop_rep:
  "rep c (ps @ ys) ch \<Longrightarrow> \<exists>c' ch'. remove_expired_loop now (hd (map Ent ys @ [MruHead])) c = Some c' \<and>
     rep c' (ps @ filter (\<lambda>a. now < e_expires (the (ents c a))) ys) ch' \<and>
     ents c' = (\<lambda>a. if a \<in> set ys \<and> \<not> now < e_expires (the (ents c a)) then None else ents c a) \<and>
     max_entries c' = max_entries c \<and> pending_requests c' = pending_requests c"
proof (induction ys arbitrary: c ps ch)
  case Nil
  then show ?case by (subst remove_expired_loop.simps) auto
next
  case (Cons a ys)
  have d: "distinct (ps @ a # ys)" using repD(2) [OF Cons.prems] .
  obtain x where x: "ents c a = Some x" using repD(3) [OF Cons.prems] by auto
  have "dll (mru_next c) (mru_prev c) (Ent a) (map Ent ys) MruHead" using repD(4) [OF Cons.prems] by (simp add: dll_append)
  then have nxt: "mru_next c (Ent a) = hd (map Ent ys @ [MruHead])" by (rule dll_first)
  show ?case
  proof (cases "now < e_expires x")
    case True
    then have step: "remove_expired_loop now (Ent a) c = remove_expired_loop now (hd (map Ent ys @ [MruHead])) c"
      using x nxt by (subst remove_expired_loop.simps) simp
    have "rep c ((ps @ [a]) @ ys) ch" using Cons.prems by simp
    from Cons.IH [OF this] show ?thesis using True x d unfolding list.map append_Cons list.sel step by (auto simp: fun_eq_iff)
  next
    case False
    obtain l c1 ch1 where l: "cache_lookup_p c (e_hash x) (e_query x) = Some l" "slot_get c l = Some (Some a)" "cache_remove_p l c = Some c1"
      "rep c1 (remove1 a (ps @ a # ys)) ch1" "ents c1 = (ents c)(a := None)" "max_entries c1 = max_entries c" "pending_requests c1 = pending_requests c"
      using remove_self [OF Cons.prems x] .
    have step: "remove_expired_loop now (Ent a) c = remove_expired_loop now (hd (map Ent ys @ [MruHead])) c1"
      using x nxt False l(1-3) by (subst remove_expired_loop.simps) simp
    have r1: "rep c1 (ps @ ys) ch1" using l(4) d by (simp add: remove1_append)
    have same: "filter (\<lambda>b. now < e_expires (the (ents c1 b))) ys = filter (\<lambda>b. now < e_expires (the (ents c b))) ys"
      by (rule filter_cong) (use d l(5) in auto)
    from Cons.IH [OF r1] obtain c' ch' where IH: "remove_expired_loop now (hd (map Ent ys @ [MruHead])) c1 = Some c'"
      "rep c' (ps @ filter (\<lambda>b. now < e_expires (the (ents c1 b))) ys) ch'"
      "ents c' = (\<lambda>b. if b \<in> set ys \<and> \<not> now < e_expires (the (ents c1 b)) then None else ents c1 b)"
      "max_entries c' = max_entries c1" "pending_requests c' = pending_requests c1" by blast
    have "ents c' = (\<lambda>b. if b \<in> set (a # ys) \<and> \<not> now < e_expires (the (ents c b)) then None else ents c b)"
      using IH(3) l(5) d False x by (auto simp: fun_eq_iff)
    then show ?thesis using IH(1,2,4,5) l(6,7) False x unfolding list.map append_Cons list.sel step same by auto
  qed
qed

lemma remove_expired:
  assumes "rep c xs ch"
  obtains c' ch' where "cache_remove_expired now c = Some c'" "rep c' (filter (\<lambda>a. now < e_expires (the (ents c a))) xs) ch'"
    "\<forall>a \<in> set xs. now < e_expires (the (ents c a)) \<longrightarrow> ents c' a = ents c a" "max_entries c' = max_entries c"
    "pending_requests c' = pending_requests c"
proof -
  have first: "mru_next c MruHead = hd (map Ent xs @ [MruHead])" using dll_first [OF repD(4) [OF assms]] .
  have "rep c ([] @ xs) ch" using assms by simp
  from remove_expired_loop_rep [OF this, of now] show ?thesis
    using that unfolding cache_remove_expired_def first by auto
qed

lemma remove_oldest:
  assumes r: "rep c xs ch" and "xs \<noteq> []"
  obtains c' ch' where "cache_remove_oldest c = Some c'" "rep c' (butlast xs) ch'" "\<forall>a \<in> set (butlast xs). ents c' a = ents c a"
    "max_entries c' = max_entries c" "pending_requests c' = pending_requests c"
proof -
  define a where "a = last xs"
  have xs: "xs = butlast xs @ [a]" using assms(2) by (simp add: a_def)
  have notin: "a \<notin> set (butlast xs)" using repD(2) [OF r] xs by (metis distinct_append not_distinct_conv_prefix)
  have last: "mru_prev c MruHead = Ent a" using dll_last [OF repD(4) [OF r]] assms(2) by (simp add: last_map a_def)
  obtain x where x: "ents c a = Some x" using repD(3) [OF r] xs by (metis domD in_set_conv_decomp)
  obtain l c' ch' where l: "cache_lookup_p c (e_hash x) (e_query x) = Some l" "slot_get c l = Some (Some a)" "cache_remove_p l c = Some c'"
    "rep c' (remove1 a xs) ch'" "ents c' = (ents c)(a := None)" "max_entries c' = max_entries c" "pending_requests c' = pending_requests c"
    using remove_self [OF r x] .
  have "remove1 a xs = butlast xs" using notin by (subst xs) (simp add: remove1_append)
  moreover have "ents c' b = ents c b" if "b \<in> set (butlast xs)" for b using l(5) notin that by auto
  moreover have "cache_remove_oldest c = Some c'" using l(1-3) by (simp add: cache_remove_oldest_def last x)
  ultimately show ?thesis using that [of c' ch'] l(4,6,7) by simp
qed

lemma fresh_unused:
  assumes r: "rep c xs ch" and "ents c a = None"
  shows "a \<notin> set xs" "i < max_entries c \<Longrightarrow> a \<notin> set (ch i)"
  using repD(3) [OF r] repD(7) [OF r, of i a] assms(2) by auto

text \<open>Adding an entry behind the chain of its slot.\<close>

lemma insert_new:
  assumes r: "rep c xs ch" and a: "ents c a = None" and i: "i = unat h mod max_entries c"
    and q: "well_formed q" "entry_hash q = Some h" "find (matches c q) xs = None" and ttl: "0 < ttl"
  obtains c' ch' where "insert_answer now ttl h q ans (Some a) (slot_after i (ch i)) c = Some c'" "rep c' (a # xs) ch'"
    "\<exists>n. ents c' = (ents c)(a \<mapsto> \<lparr>e_hash = h, e_query = q, e_answer = ans, e_expires = ttl + now, e_id = n\<rparr>)"
    "max_entries c' = max_entries c" "pending_requests c' = pending_requests c"
proof -
  have im: "i < max_entries c" using repD(1) [OF r] i by simp
  note unused = fresh_unused [OF r a]
  define e where "e = \<lparr>e_hash = h, e_query = q, e_answer = ans, e_expires = ttl + now, e_id = last_id c + 1\<rparr>"
  define c1 where "c1 = c\<lparr>ents := (ents c)(a \<mapsto> e\<lparr>e_id := 0\<rparr>), hlink := (hlink c)(a := None)\<rparr>"
  define c2 where "c2 = slot_set (slot_after i (ch i)) (first_of [a]) c1"
  define c3 where "c3 = c2\<lparr>last_id := last_id c2 + 1, ents := (ents c2)(a \<mapsto> e)\<rparr>"
  have alloc: "(let c1 = entry_alloc h q ans a c in c1\<lparr>ents := (ents c1)(a := map_option (\<lambda>e. e\<lparr>e_expires := ttl + now\<rparr>) (ents c1 a))\<rparr>) = c1"
    by (simp add: entry_alloc_def c1_def e_def Let_def)
  have "dll (mru_next c3) (mru_prev c3) MruHead (map Ent xs) MruHead" "distinct xs" "set xs \<subseteq> dom (ents c3)" "a \<notin> set xs" "ents c3 a \<noteq> None"
    using repD(2,3,4) [OF r] unused(1) by (auto simp: c3_def c2_def c1_def)
  from mru_add [OF this] obtain n p where np: "entry_mru_add (Ent a) c3 = Some (c3\<lparr>mru_next := n, mru_prev := p\<rparr>)"
    "dll n p MruHead (map Ent (a # xs)) MruHead" .
  define c' where "c' = c3\<lparr>mru_next := n, mru_prev := p, num_entries := num_entries c3 + 1\<rparr>"
  have "cache_add_p (slot_after i (ch i)) a c1 = Some c'"
    using np(1) by (simp add: cache_add_p_def c1_def c2_def c3_def c'_def e_def first_of_def Let_def)
  then have run: "insert_answer now ttl h q ans (Some a) (slot_after i (ch i)) c = Some c'"
    using ttl alloc by (simp add: insert_answer_def Let_def)
  have ents: "ents c' = (ents c)(a \<mapsto> e)" by (simp add: c'_def c3_def c2_def c1_def)
  have chains: "chain (hlink c2) (entries c2 j) ((ch(i := ch i @ [a])) j)" if "j < max_entries c" for j
  proof (rule chain_set [where c = c1 and m = "max_entries c" and ch = ch and i = i and as = "ch i" and bs = "[]" and cs = "[a]", OF _ im _ _ _ _ _ that c2_def])
    show "chain (hlink c1) (entries c1 j) (ch j)" if "j < max_entries c" for j
      by (rule chain_frame [of "hlink c"]) (use repD(5) [OF r that] unused(2) [OF that] in \<open>auto simp: c1_def\<close>)
    show "set (ch i) \<inter> set (ch j) = {}" if "j < max_entries c" "j \<noteq> i" for j using chains_disjoint [OF r im that(1)] that(2) by auto
  qed (use repD(6) [OF r im] unused(2) [OF im] in \<open>auto simp: c1_def first_of_def\<close>)
  have "rep c' (a # xs) (ch(i := ch i @ [a]))"
    unfolding rep_def
  proof (intro conjI allI impI)
    show "set (a # xs) = dom (ents c')" using repD(3) [OF r] by (auto simp: ents)
    show "dll (mru_next c') (mru_prev c') MruHead (map Ent (a # xs)) MruHead" using np(2) by (simp add: c'_def)
    show "num_entries c' = int (length (a # xs))" using repD(8) [OF r] by (simp add: c'_def c3_def c2_def c1_def)
    have eq: "entries_of c' xs = entries_of c xs" by (rule entries_of_cong) (use unused(1) in \<open>auto simp: ents\<close>)
    have "qkey q \<notin> set (map (qkey \<circ> e_query) (entries_of c xs))"
      using q(3) by (auto simp: find_None_iff entries_of_def matches_def)
    moreover have "entries_of c' (a # xs) = e # entries_of c xs" using eq by (simp add: entries_of_def ents)
    ultimately show "distinct (map (qkey \<circ> e_query) (entries_of c' (a # xs)))"
      using repD(10) [OF r] by (simp add: e_def)
    show "chain (hlink c') (entries c' j) ((ch(i := ch i @ [a])) j)" if "j < max_entries c'" for j
      using chains [of j] that by (simp add: c'_def c3_def c2_def c1_def)
    show "distinct ((ch(i := ch i @ [a])) j)" if "j < max_entries c'" for j
      using that unused(2) [OF im] repD(6) [OF r] im by (simp add: c'_def c3_def c2_def c1_def)
    show "b \<in> set ((ch(i := ch i @ [a])) j) \<longleftrightarrow> (\<exists>e. ents c' b = Some e \<and> slot_of c' e = j)" if "j < max_entries c'" for j b
    proof -
      have j: "j < max_entries c" "slot_of c' = slot_of c" "slot_of c e = i"
        using that by (auto simp: c'_def c3_def c2_def c1_def slot_of_def fun_eq_iff e_def i)
      show ?thesis using repD(7) [OF r j(1), of b] unused(2) [OF j(1)] j(3) a unfolding j(2) ents by auto
    qed
    show "cached_ok f" if "ents c' b = Some f" for b f
      using repD(9) [OF r, of b f] that q(1,2) by (auto simp: ents cached_ok_def e_def split: if_splits)
  qed (use repD(1,2) [OF r] unused(1) in \<open>auto simp: c'_def c3_def c2_def c1_def\<close>)
  then show ?thesis using that [OF run] ents by (simp add: c'_def c3_def c2_def c1_def e_def) blast
qed

section \<open>Flush\<close>

lemma flush_chain_rep:
  "chain (hlink c) (entries c nn) as \<Longrightarrow> set as \<subseteq> dom (ents c) \<Longrightarrow> distinct as \<Longrightarrow> nn < max_entries c \<Longrightarrow>
   flush_chain nn c = Some (c\<lparr>entries := (entries c)(nn := None), ents := (\<lambda>a. if a \<in> set as then None else ents c a)\<rparr>)"
proof (induction as arbitrary: c)
  case Nil
  then show ?case by (subst flush_chain.simps) (simp add: fun_upd_idem)
next
  case (Cons a as)
  let ?c = "c\<lparr>entries := (entries c)(nn := hlink c a), ents := (ents c)(a := None)\<rparr>"
  have a: "entries c nn = Some a" "chain (hlink c) (hlink c a) as" using Cons.prems(1) by simp_all
  have "chain (hlink ?c) (entries ?c nn) as" using a(2) by simp
  moreover have "set as \<subseteq> dom (ents ?c)" "distinct as" "nn < max_entries ?c" using Cons.prems(2-4) by auto
  ultimately have "flush_chain nn ?c = Some (?c\<lparr>entries := (entries ?c)(nn := None), ents := (\<lambda>b. if b \<in> set as then None else ents ?c b)\<rparr>)"
    by (rule Cons.IH)
  moreover have "flush_chain nn c = flush_chain nn ?c"
    using a(1) Cons.prems(2,4) by (subst flush_chain.simps) (auto simp: Let_def)
  moreover have "(\<lambda>b. if b \<in> set as then None else ents ?c b) = (\<lambda>b. if b \<in> set (a # as) then None else ents c b)" by auto
  ultimately show ?case by (simp add: fun_upd_def cong: if_cong)
qed

lemma flush_chains_rep:
  assumes "\<And>i. i \<in> set is \<Longrightarrow> i < max_entries c \<and> chain (hlink c) (entries c i) (ch i) \<and> set (ch i) \<subseteq> dom (ents c) \<and> distinct (ch i)"
    and "distinct is" "\<And>i j. i \<in> set is \<Longrightarrow> j \<in> set is \<Longrightarrow> i \<noteq> j \<Longrightarrow> set (ch i) \<inter> set (ch j) = {}"
  shows "flush_chains is c = Some (c\<lparr>entries := (\<lambda>i. if i \<in> set is then None else entries c i),
     ents := (\<lambda>a. if \<exists>i \<in> set is. a \<in> set (ch i) then None else ents c a)\<rparr>)"
  using assms
proof (induction "is" arbitrary: c)
  case (Cons i js)
  let ?c = "c\<lparr>entries := (entries c)(i := None), ents := (\<lambda>a. if a \<in> set (ch i) then None else ents c a)\<rparr>"
  have i: "flush_chain i c = Some ?c" by (rule flush_chain_rep) (use Cons.prems(1) [of i] in auto)
  have "flush_chains js ?c = Some (?c\<lparr>entries := (\<lambda>i. if i \<in> set js then None else entries ?c i),
     ents := (\<lambda>a. if \<exists>i \<in> set js. a \<in> set (ch i) then None else ents ?c a)\<rparr>)"
  proof (rule Cons.IH)
    fix j assume j: "j \<in> set js"
    then have "j \<noteq> i" "set (ch i) \<inter> set (ch j) = {}" using Cons.prems(2) Cons.prems(3) [of i j] by auto
    then show "j < max_entries ?c \<and> chain (hlink ?c) (entries ?c j) (ch j) \<and> set (ch j) \<subseteq> dom (ents ?c) \<and> distinct (ch j)"
      using Cons.prems(1) [of j] j by (auto simp: subset_iff)
  qed (use Cons.prems(2,3) in auto)
  moreover have "(\<lambda>j. if j \<in> set js then None else entries ?c j) = (\<lambda>j. if j \<in> set (i # js) then None else entries c j)"
    "(\<lambda>a. if \<exists>j \<in> set js. a \<in> set (ch j) then None else ents ?c a) = (\<lambda>a. if \<exists>j \<in> set (i # js). a \<in> set (ch j) then None else ents c a)" by auto
  ultimately show ?case by (simp add: i)
qed simp

lemma flush:
  assumes r: "rep c xs ch"
  obtains c' where "cache_flush c = Some c'" "rep c' [] (\<lambda>i. [])" "max_entries c' = max_entries c" "pending_requests c' = []"
proof -
  define c1 where "c1 = c\<lparr>entries := (\<lambda>i. if i \<in> set [0 ..< max_entries c] then None else entries c i),
     ents := (\<lambda>a. if \<exists>i \<in> set [0 ..< max_entries c]. a \<in> set (ch i) then None else ents c a)\<rparr>"
  have "flush_chains [0 ..< max_entries c] c = Some c1"
    unfolding c1_def by (rule flush_chains_rep) (use repD(5-7) [OF r] chains_disjoint [OF r] in \<open>auto simp: dom_def\<close>)
  then obtain c' where c': "cache_flush c = Some c'" "c' = c1\<lparr>pending_requests := [], mru_next := (mru_next c1)(MruHead := MruHead),
         mru_prev := (mru_prev c1)(MruHead := MruHead), num_entries := 0, last_id := 0\<rparr>" by (simp add: cache_flush_def)
  have "ents c' a = None" for a
  proof (cases "ents c a")
    case (Some e)
    have "slot_of c e < max_entries c" using repD(1) [OF r] by (simp add: slot_of_def)
    then show ?thesis using repD(7) [OF r, of "slot_of c e" a] Some by (auto simp: c'(2) c1_def)
  qed (simp add: c'(2) c1_def)
  then have "rep c' [] (\<lambda>i. [])" using repD(1) [OF r] by (auto simp: rep_def c'(2) c1_def entries_of_def)
  then show ?thesis using that c' by (simp add: c1_def)
qed

lemma create_rep: "rep resolv_cache_create [] (\<lambda>i. [])"
  by (simp add: rep_def resolv_cache_create_def entries_of_def)

end
