(* ===== verification/Res_Cache_Lru.thy ===== *)
theory Res_Cache_Lru
  imports Res_Cache_Rep Step_Systems
begin

text \<open>
  The cache as its users see it: a list of answers in the order of use, with the most recent first. The
  pointer structure of \<open>Res_Cache\<close> is shown to implement it, for all sequences of calls.
\<close>

section \<open>The specification\<close>

type_synonym lru_entry = "bytes \<times> bytes \<times> int"
type_synonym lru = "lru_entry list \<times> u32 list"

definition lru_same :: "bytes \<Rightarrow> lru_entry \<Rightarrow> bool" where
  "lru_same q e \<longleftrightarrow> qkey (fst e) = qkey q"

definition lru_hit :: "int \<Rightarrow> nat \<Rightarrow> lru_entry \<Rightarrow> lru_entry list \<Rightarrow> lookup_result \<times> lru_entry list" where
  "lru_hit now answersize e es =
     (case e of (q, answer, expires) \<Rightarrow>
        if now \<ge> expires then (Done RESOLV_CACHE_NOTFOUND [] None, remove1 e es)
        else if length answer > answersize then (Done RESOLV_CACHE_UNSUPPORTED [] (Some (length answer)), es)
        else (Done RESOLV_CACHE_FOUND answer (Some (length answer)), e # remove1 e es))"

definition lru_again :: "int \<Rightarrow> bytes \<Rightarrow> nat \<Rightarrow> lru \<Rightarrow> lookup_result \<times> lru" where
  "lru_again now q answersize s =
     (case find (lru_same q) (fst s) of
        None \<Rightarrow> (Done RESOLV_CACHE_NOTFOUND [] None, s)
      | Some e \<Rightarrow> (case lru_hit now answersize e (fst s) of (r, es) \<Rightarrow> (r, (es, snd s))))"

definition lru_lookup :: "int \<Rightarrow> bool \<Rightarrow> bool \<Rightarrow> bytes \<Rightarrow> nat \<Rightarrow> lru \<Rightarrow> lookup_result \<times> lru" where
  "lru_lookup now no_cache_lookup no_cache_store q answersize s =
     (if no_cache_lookup then (Done RESOLV_CACHE_SKIP [] None, s)
      else if \<not> accepted q then (Done RESOLV_CACHE_UNSUPPORTED [] None, s)
      else case find (lru_same q) (fst s) of
          Some e \<Rightarrow> (case lru_hit now answersize e (fst s) of (r, es) \<Rightarrow> (r, (es, snd s)))
        | None \<Rightarrow>
            if no_cache_store then (Done RESOLV_CACHE_SKIP [] None, s)
            else if the (entry_hash q) \<in> set (snd s) then (Wait, s)
            else (Done RESOLV_CACHE_NOTFOUND [] None, (fst s, snd s @ [the (entry_hash q)])))"

definition lru_room :: "int \<Rightarrow> lru_entry list \<Rightarrow> lru_entry list" where
  "lru_room now es =
     (if length es \<ge> CONFIG_MAX_ENTRIES then
        (let live = filter (\<lambda>e. now < snd (snd e)) es in if length live \<ge> CONFIG_MAX_ENTRIES then butlast live else live)
      else es)"

definition lru_add :: "(bytes \<Rightarrow> int) \<Rightarrow> int \<Rightarrow> bytes \<Rightarrow> bytes \<Rightarrow> bool \<Rightarrow> lru \<Rightarrow> lru" where
  "lru_add getTTL now q answer allocated s =
     (if \<not> accepted q then s
      else if find (lru_same q) (fst s) \<noteq> None then (fst s, remove1 (the (entry_hash q)) (snd s))
      else let es = lru_room now (fst s) in
        (if getTTL answer > 0 \<and> allocated then (q, answer, getTTL answer + now) # es else es, remove1 (the (entry_hash q)) (snd s)))"

definition lru_fail :: "bool \<Rightarrow> bool \<Rightarrow> bytes \<Rightarrow> lru \<Rightarrow> lru" where
  "lru_fail no_cache_lookup no_cache_store q s =
     (if no_cache_store \<or> no_cache_lookup \<or> \<not> accepted q then s else (fst s, remove1 (the (entry_hash q)) (snd s)))"

section \<open>Calls\<close>

datatype cache_op =
  CLookup int bool bool bytes nat
| CResume int bytes nat
| CAdd int bytes bytes "nat option"
| CFail bool bool bytes
| CFlush

text \<open>The state with the results of the lookups so far.\<close>

fun cache_exec :: "(bytes \<Rightarrow> int) \<Rightarrow> cache_op \<Rightarrow> resolv_cache \<times> lookup_result list \<Rightarrow> (resolv_cache \<times> lookup_result list) option" where
  "cache_exec getTTL (CLookup now nl ns q len) (c, out) = map_option (\<lambda>(r, c'). (c', out @ [r])) (resolv_cache_lookup now nl ns q len c)"
| "cache_exec getTTL (CResume now q len) (c, out) = map_option (\<lambda>(r, c'). (c', out @ [r])) (cache_lookup_again now q len c)"
| "cache_exec getTTL (CAdd now q answer fresh) (c, out) = map_option (\<lambda>c'. (c', out)) (resolv_cache_add getTTL now q answer fresh c)"
| "cache_exec getTTL (CFail nl ns q) (c, out) = map_option (\<lambda>c'. (c', out)) (resolv_cache_query_failed nl ns q c)"
| "cache_exec getTTL CFlush (c, out) = map_option (\<lambda>c'. (c', out)) (cache_flush c)"

fun lru_exec :: "(bytes \<Rightarrow> int) \<Rightarrow> cache_op \<Rightarrow> lru \<times> lookup_result list \<Rightarrow> lru \<times> lookup_result list" where
  "lru_exec getTTL (CLookup now nl ns q len) (s, out) = (case lru_lookup now nl ns q len s of (r, s') \<Rightarrow> (s', out @ [r]))"
| "lru_exec getTTL (CResume now q len) (s, out) = (case lru_again now q len s of (r, s') \<Rightarrow> (s', out @ [r]))"
| "lru_exec getTTL (CAdd now q answer fresh) (s, out) = (lru_add getTTL now q answer (fresh \<noteq> None) s, out)"
| "lru_exec getTTL (CFail nl ns q) (s, out) = (lru_fail nl ns q s, out)"
| "lru_exec getTTL CFlush (s, out) = (([], []), out)"

text \<open>
  What the calls may be given: queries long enough for their flags, whose records are complete if they are
  accepted, and for an entry an address that is not in use. A thread resumes with the query it waited for.
\<close>

definition usable :: "bytes \<Rightarrow> bool" where
  "usable q \<longleftrightarrow> 3 \<le> length q \<and> (accepted q \<longrightarrow> well_formed q)"

fun cache_enabled :: "cache_op \<Rightarrow> resolv_cache \<times> lookup_result list \<Rightarrow> bool" where
  "cache_enabled (CLookup now nl ns q len) s \<longleftrightarrow> usable q"
| "cache_enabled (CResume now q len) s \<longleftrightarrow> usable q \<and> accepted q"
| "cache_enabled (CAdd now q answer fresh) s \<longleftrightarrow> usable q \<and> (case fresh of None \<Rightarrow> True | Some a \<Rightarrow> ents (fst s) a = None)"
| "cache_enabled (CFail nl ns q) s \<longleftrightarrow> usable q"
| "cache_enabled CFlush s \<longleftrightarrow> True"

section \<open>Simulation\<close>

definition view_entry :: "resolv_cache \<Rightarrow> nat \<Rightarrow> lru_entry" where
  "view_entry c a = (let e = the (ents c a) in (e_query e, e_answer e, e_expires e))"

definition view :: "resolv_cache \<Rightarrow> nat list \<Rightarrow> lru_entry list" where
  "view c xs = map (view_entry c) xs"

definition displays :: "resolv_cache \<Rightarrow> lru \<Rightarrow> bool" where
  "displays c s \<longleftrightarrow> max_entries c = CONFIG_MAX_ENTRIES \<and>
     (\<exists>xs ch. rep c xs ch \<and> length xs \<le> CONFIG_MAX_ENTRIES \<and> s = (view c xs, pending_requests c))"

lemma displaysI: "rep c xs ch \<Longrightarrow> max_entries c = CONFIG_MAX_ENTRIES \<Longrightarrow> length xs \<le> CONFIG_MAX_ENTRIES \<Longrightarrow> s = (view c xs, pending_requests c) \<Longrightarrow> displays c s"
  unfolding displays_def by blast

lemma find_map_f: "find P (map f xs) = map_option f (find (P \<circ> f) xs)"
  by (induction xs) auto

lemma find_view: "find (lru_same q) (view c xs) = map_option (view_entry c) (find (matches c q) xs)"
proof -
  have "lru_same q \<circ> view_entry c = matches c q" by (auto simp: lru_same_def view_entry_def matches_def Let_def fun_eq_iff)
  then show ?thesis by (simp add: view_def find_map_f)
qed

lemma map_remove1_inj: "inj_on f (set xs) \<Longrightarrow> a \<in> set xs \<Longrightarrow> map f (remove1 a xs) = remove1 (f a) (map f xs)"
  by (induction xs) (auto simp: inj_on_def)

lemma view_inj:
  assumes "rep c xs ch"
  shows "inj_on (view_entry c) (set xs)"
proof (rule inj_onI)
  fix a b assume ab: "a \<in> set xs" "b \<in> set xs" "view_entry c a = view_entry c b"
  obtain e f where "ents c a = Some e" "ents c b = Some f" using ab(1,2) repD(3) [OF assms] by blast
  then show "a = b" using rep_unique [OF assms] ab(3) by (auto simp: view_entry_def Let_def)
qed

lemma view_remove1: "rep c xs ch \<Longrightarrow> a \<in> set xs \<Longrightarrow> view c (remove1 a xs) = remove1 (view_entry c a) (view c xs)"
  unfolding view_def using map_remove1_inj [OF view_inj] .

lemma view_cong: "(\<And>a. a \<in> set xs \<Longrightarrow> ents c' a = ents c a) \<Longrightarrow> view c' xs = view c xs"
  by (simp add: view_def view_entry_def)

lemma usable_key: "usable q \<Longrightarrow> \<exists>h. entry_hash q = Some h \<and> entry_init_key q = Some (h, accepted q)"
  by (auto simp: usable_def entry_init_key_def entry_hash_def hashQuery_eq accepted_def)

text \<open>What a lookup finds in the specification and in the table.\<close>

lemma lookup_view:
  assumes "rep c xs ch" "well_formed q" "entry_hash q = Some h"
  obtains (Miss) i where "i = unat h mod max_entries c" "cache_lookup_p c h q = Some (slot_after i (ch i))" "slot_get c (slot_after i (ch i)) = Some None"
    "find (lru_same q) (view c xs) = None" "find (matches c q) xs = None"
  | (Hit) i as a cs where "i < max_entries c" "ch i = as @ a # cs" "cache_lookup_p c h q = Some (slot_after i as)"
    "slot_get c (slot_after i as) = Some (Some a)" "a \<in> set xs" "find (lru_same q) (view c xs) = Some (view_entry c a)"
proof -
  obtain i as bs where l: "i = unat h mod max_entries c" "i < max_entries c" "ch i = as @ bs" "cache_lookup_p c h q = Some (slot_after i as)"
    "slot_get c (slot_after i as) = Some (first_of bs)" "first_of bs = find (matches c q) xs"
    using lookup_p [OF assms] .
  show ?thesis
  proof (cases bs)
    case Nil
    then show ?thesis using Miss [of i] l by (simp add: first_of_def find_view)
  next
    case (Cons a cs)
    then have f: "find (matches c q) xs = Some a" using l(6) by (simp add: first_of_def)
    then have "a \<in> set xs" by (auto simp: find_Some_iff)
    then show ?thesis using Hit [of i as a cs] l Cons f by (simp add: first_of_def find_view)
  qed
qed

lemma hit_sim:
  assumes r: "rep c xs ch" and h: "i < max_entries c" "ch i = as @ a # cs" "a \<in> set xs"
    and m: "max_entries c = CONFIG_MAX_ENTRIES" "length xs \<le> CONFIG_MAX_ENTRIES"
  shows "\<exists>r c' es. lookup_hit now len (slot_after i as) a c = Some (r, c') \<and> lru_hit now len (view_entry c a) (view c xs) = (r, es) \<and>
     displays c' (es, pending_requests c)"
proof -
  obtain e where e: "ents c a = Some e" using h(3) repD(3) [OF r] by blast
  have v: "view_entry c a = (e_query e, e_answer e, e_expires e)" by (simp add: view_entry_def e)
  consider (old) "now \<ge> e_expires e" | (long) "\<not> now \<ge> e_expires e" "length (e_answer e) > len"
    | (ok) "\<not> now \<ge> e_expires e" "\<not> length (e_answer e) > len" by blast
  then show ?thesis
  proof cases
    case old
    obtain c' where c': "cache_remove_p (slot_after i as) c = Some c'" "rep c' (remove1 a xs) (ch(i := as @ cs))" "ents c' = (ents c)(a := None)"
      "max_entries c' = max_entries c" "pending_requests c' = pending_requests c"
      using remove_p [OF r h(1,2)] .
    have "view c' (remove1 a xs) = view c (remove1 a xs)" by (rule view_cong) (use repD(2) [OF r] c'(3) in auto)
    then have "displays c' (remove1 (view_entry c a) (view c xs), pending_requests c)"
      by (intro displaysI [OF c'(2)]) (use c'(4,5) m view_remove1 [OF r h(3)] in \<open>auto simp: length_remove1\<close>)
    then show ?thesis using old e v c'(1) by (simp add: lookup_hit_def lru_hit_def)
  next
    case long
    then show ?thesis using e v displaysI [OF r m] by (simp add: lookup_hit_def lru_hit_def)
  next
    case ok
    obtain n p where np: "(if Ent a \<noteq> mru_next c MruHead then Option.bind (entry_mru_remove (Ent a) c) (entry_mru_add (Ent a)) else Some c) =
        Some (c\<lparr>mru_next := n, mru_prev := p\<rparr>)" "rep (c\<lparr>mru_next := n, mru_prev := p\<rparr>) (move_front a xs) ch"
      using bump [OF r h(3)] .
    have "view (c\<lparr>mru_next := n, mru_prev := p\<rparr>) (move_front a xs) = view_entry c a # remove1 (view_entry c a) (view c xs)"
    proof -
      have "view (c\<lparr>mru_next := n, mru_prev := p\<rparr>) (move_front a xs) = view c (move_front a xs)" by (rule view_cong) simp
      also have "\<dots> = view_entry c a # remove1 (view_entry c a) (view c xs)"
        using view_remove1 [OF r h(3)] by (simp add: view_def move_front_def)
      finally show ?thesis .
    qed
    moreover have "length (move_front a xs) = length xs" using h(3) length_pos_if_in_set [OF h(3)] by (simp add: move_front_def length_remove1)
    ultimately have "displays (c\<lparr>mru_next := n, mru_prev := p\<rparr>) (view_entry c a # remove1 (view_entry c a) (view c xs), pending_requests c)"
      using displaysI [OF np(2)] m by simp
    then show ?thesis using ok e v np(1) by (simp add: lookup_hit_def lru_hit_def)
  qed
qed

lemma displays_E:
  assumes "displays c s"
  obtains xs ch where "rep c xs ch" "max_entries c = CONFIG_MAX_ENTRIES" "length xs \<le> CONFIG_MAX_ENTRIES" "s = (view c xs, pending_requests c)"
  using assms unfolding displays_def by blast

lemma again_sim:
  assumes "displays c s" "usable q" "accepted q"
  shows "\<exists>r c' s'. cache_lookup_again now q len c = Some (r, c') \<and> lru_again now q len s = (r, s') \<and> displays c' s'"
proof -
  obtain xs ch where r: "rep c xs ch" "max_entries c = CONFIG_MAX_ENTRIES" "length xs \<le> CONFIG_MAX_ENTRIES" "s = (view c xs, pending_requests c)"
    using displays_E [OF assms(1)] .
  obtain h where h: "entry_hash q = Some h" "entry_init_key q = Some (h, True)" using usable_key [OF assms(2)] assms(3) by auto
  have wf: "well_formed q" using assms(2,3) by (simp add: usable_def)
  show ?thesis
  proof (cases rule: lookup_view [OF r(1) wf h(1)])
    case (1 i)
    then show ?thesis using h assms(1) r(4) by (simp add: cache_lookup_again_def lru_again_def)
  next
    case (2 i as a cs)
    from hit_sim [OF r(1) 2(1,2,5) r(2,3)] show ?thesis
      using 2 h r(4) by (fastforce simp: cache_lookup_again_def lru_again_def)
  qed
qed

lemma displays_pending: "displays c (es, ps) \<Longrightarrow> displays (c\<lparr>pending_requests := qs\<rparr>) (es, qs)"
proof (elim displays_E)
  fix xs ch assume r: "rep c xs ch" and m: "max_entries c = CONFIG_MAX_ENTRIES" "length xs \<le> CONFIG_MAX_ENTRIES" "(es, ps) = (view c xs, pending_requests c)"
  have "rep (c\<lparr>pending_requests := qs\<rparr>) xs ch" using r unfolding rep_def by (simp add: slot_of_def entries_of_def)
  then show "displays (c\<lparr>pending_requests := qs\<rparr>) (es, qs)"
    by (rule displaysI) (use m in \<open>simp_all add: view_def view_entry_def\<close>)
qed

lemma lookup_sim:
  assumes "displays c s" "usable q"
  shows "\<exists>r c' s'. resolv_cache_lookup now nl ns q len c = Some (r, c') \<and> lru_lookup now nl ns q len s = (r, s') \<and> displays c' s'"
proof (cases "nl \<or> \<not> accepted q")
  case True
  then show ?thesis using assms usable_key [OF assms(2)] by (cases s) (auto simp: resolv_cache_lookup_def lru_lookup_def)
next
  case False
  obtain xs ch where r: "rep c xs ch" "max_entries c = CONFIG_MAX_ENTRIES" "length xs \<le> CONFIG_MAX_ENTRIES" "s = (view c xs, pending_requests c)"
    using displays_E [OF assms(1)] .
  obtain h where h: "entry_hash q = Some h" "entry_init_key q = Some (h, True)" using usable_key [OF assms(2)] False by auto
  have wf: "well_formed q" using assms(2) False by (simp add: usable_def)
  show ?thesis
  proof (cases rule: lookup_view [OF r(1) wf h(1)])
    case (1 i)
    have "displays (c\<lparr>pending_requests := pending_requests c @ [h]\<rparr>) (view c xs, pending_requests c @ [h])"
      using displays_pending assms(1) r(4) by blast
    then show ?thesis using 1 h assms(1) r(4) False
      by (auto simp: resolv_cache_lookup_def lru_lookup_def cache_check_pending_def)
  next
    case (2 i as a cs)
    from hit_sim [OF r(1) 2(1,2,5) r(2,3)] show ?thesis
      using 2 h r(4) False by (fastforce simp: resolv_cache_lookup_def lru_lookup_def)
  qed
qed

section \<open>Adding\<close>

lemma room_sim:
  assumes r: "rep c xs ch" and m: "max_entries c = CONFIG_MAX_ENTRIES" "length xs \<le> CONFIG_MAX_ENTRIES" "num_entries c \<ge> int (max_entries c)"
  obtains c' ys ch' where "make_room now c = Some c'" "rep c' ys ch'" "max_entries c' = CONFIG_MAX_ENTRIES" "length ys < CONFIG_MAX_ENTRIES"
    "view c' ys = lru_room now (view c xs)" "pending_requests c' = pending_requests c" "set ys \<subseteq> set xs"
proof -
  let ?live = "filter (\<lambda>a. now < e_expires (the (ents c a))) xs"
  have full: "length xs = CONFIG_MAX_ENTRIES" using m repD(8) [OF r] by simp
  obtain c1 ch1 where 1: "cache_remove_expired now c = Some c1" "rep c1 ?live ch1"
    "\<forall>a \<in> set xs. now < e_expires (the (ents c a)) \<longrightarrow> ents c1 a = ents c a" "max_entries c1 = max_entries c" "pending_requests c1 = pending_requests c"
    using remove_expired [OF r, of now] .
  have v1: "view c1 ?live = filter (\<lambda>e. now < snd (snd e)) (view c xs)"
  proof -
    have "view c1 ?live = view c ?live" by (rule view_cong) (use 1(3) in auto)
    also have "\<dots> = filter (\<lambda>e. now < snd (snd e)) (view c xs)" by (simp add: view_def filter_map comp_def view_entry_def Let_def)
    finally show ?thesis .
  qed
  have len: "length (filter (\<lambda>e. now < snd (snd e)) (view c xs)) = length ?live" using v1 [symmetric] by (simp add: view_def)
  have full': "length (view c xs) \<ge> CONFIG_MAX_ENTRIES" using full by (simp add: view_def)
  show ?thesis
  proof (cases "length ?live \<ge> CONFIG_MAX_ENTRIES")
    case True
    then have ne: "?live \<noteq> []" by auto
    obtain c2 ch2 where 2: "cache_remove_oldest c1 = Some c2" "rep c2 (butlast ?live) ch2" "\<forall>a \<in> set (butlast ?live). ents c2 a = ents c1 a"
      "max_entries c2 = max_entries c1" "pending_requests c2 = pending_requests c1"
      using remove_oldest [OF 1(2) ne] .
    have "view c2 (butlast ?live) = view c1 (butlast ?live)" by (rule view_cong) (use 2(3) in auto)
    also have "\<dots> = lru_room now (view c xs)"
      using True full' v1 len by (simp add: lru_room_def Let_def view_def map_butlast)
    finally have v2: "view c2 (butlast ?live) = lru_room now (view c xs)" .
    have "num_entries c1 \<ge> int (max_entries c1)" using repD(8) [OF 1(2)] 1(4) m(1) True by simp
    then have "make_room now c = Some c2" using 1(1) 2(1) by (simp add: make_room_def)
    moreover have "length (butlast ?live) < CONFIG_MAX_ENTRIES"
      using length_filter_le [of "\<lambda>a. now < e_expires (the (ents c a))" xs] full by simp
    ultimately show ?thesis using that [OF _ 2(2)] 2(4,5) 1(4,5) m(1) v2 in_set_butlastD [of _ ?live] by (metis filter_is_subset subset_iff)
  next
    case False
    have "num_entries c1 < int (max_entries c1)" using repD(8) [OF 1(2)] 1(4) m(1) False by simp
    then have "make_room now c = Some c1" using 1(1) by (simp add: make_room_def)
    moreover have "view c1 ?live = lru_room now (view c xs)" using False full' v1 len by (simp add: lru_room_def Let_def)
    ultimately show ?thesis using that [OF _ 1(2)] 1(4,5) m(1) False by simp
  qed
qed

lemma find_room: "find P es = None \<Longrightarrow> find P (lru_room now es) = None"
  by (auto simp: find_None_iff lru_room_def Let_def dest: in_set_butlastD)

text \<open>The insertion, once there is room.\<close>

lemma insert_sim:
  assumes r: "rep c xs ch" and m: "max_entries c = CONFIG_MAX_ENTRIES" "length xs < CONFIG_MAX_ENTRIES"
    and q: "well_formed q" "entry_hash q = Some h" and none: "find (matches c q) xs = None" and i: "i = unat h mod max_entries c"
    and a: "case fresh of None \<Rightarrow> True | Some a \<Rightarrow> ents c a = None"
  obtains c' where "insert_answer now ttl h q ans fresh (slot_after i (ch i)) c = Some c'"
    "displays c' (if ttl > 0 \<and> fresh \<noteq> None then (q, ans, ttl + now) # view c xs else view c xs, pending_requests c)"
proof (cases "ttl > 0 \<and> fresh \<noteq> None")
  case True
  then obtain b where b: "fresh = Some b" "ents c b = None" "0 < ttl" using a by auto
  obtain c' ch' where c': "insert_answer now ttl h q ans (Some b) (slot_after i (ch i)) c = Some c'" "rep c' (b # xs) ch'"
    "\<exists>n. ents c' = (ents c)(b \<mapsto> \<lparr>e_hash = h, e_query = q, e_answer = ans, e_expires = ttl + now, e_id = n\<rparr>)"
    "max_entries c' = max_entries c" "pending_requests c' = pending_requests c"
    using insert_new [OF r b(2) i q none b(3)] .
  have b': "b \<notin> set xs" using fresh_unused(1) [OF r b(2)] .
  have "view c' xs = view c xs" by (rule view_cong) (use c'(3) b' in auto)
  moreover have "view_entry c' b = (q, ans, ttl + now)" using c'(3) by (auto simp: view_entry_def)
  ultimately have "displays c' ((q, ans, ttl + now) # view c xs, pending_requests c)"
    by (intro displaysI [OF c'(2)]) (use c'(4,5) m in \<open>simp_all add: view_def\<close>)
  then show ?thesis using that c'(1) True b(1) by simp
next
  case False
  then have "insert_answer now ttl h q ans fresh (slot_after i (ch i)) c = Some c" by (auto simp: insert_answer_def split: option.splits)
  moreover have "displays c (view c xs, pending_requests c)" by (rule displaysI [OF r m(1)]) (use m(2) in simp_all)
  ultimately show ?thesis using that False by auto
qed

lemma notify_sim: "displays c (es, ps) \<Longrightarrow> displays (cache_notify_waiting h c) (es, remove1 h ps)"
  using displays_pending [of c es ps "remove1 h (pending_requests c)"] by (auto simp: cache_notify_waiting_def elim: displays_E)

lemma add_sim:
  assumes d: "displays c s" and u: "usable q" and a: "case fresh of None \<Rightarrow> True | Some a \<Rightarrow> ents c a = None"
  shows "\<exists>c'. resolv_cache_add getTTL now q ans fresh c = Some c' \<and> displays c' (lru_add getTTL now q ans (fresh \<noteq> None) s)"
proof (cases "accepted q")
  case False
  then show ?thesis using d usable_key [OF u] by (auto simp: resolv_cache_add_def lru_add_def)
next
  case True
  obtain xs ch where r: "rep c xs ch" "max_entries c = CONFIG_MAX_ENTRIES" "length xs \<le> CONFIG_MAX_ENTRIES" "s = (view c xs, pending_requests c)"
    using displays_E [OF d] .
  obtain h where h: "entry_hash q = Some h" "entry_init_key q = Some (h, True)" using usable_key [OF u] True by auto
  have wf: "well_formed q" using u True by (simp add: usable_def)
  show ?thesis
  proof (cases rule: lookup_view [OF r(1) wf h(1)])
    case (2 i as b cs)
    then show ?thesis using h d r(4) True notify_sim [of c] by (simp add: resolv_cache_add_def lru_add_def)
  next
    case (1 i)
    show ?thesis
    proof (cases "num_entries c \<ge> int (max_entries c)")
      case full: True
      obtain c1 ys ch1 where 2: "make_room now c = Some c1" "rep c1 ys ch1" "max_entries c1 = CONFIG_MAX_ENTRIES" "length ys < CONFIG_MAX_ENTRIES"
        "view c1 ys = lru_room now (view c xs)" "pending_requests c1 = pending_requests c" "set ys \<subseteq> set xs"
        using room_sim [OF r(1-3) full] .
      have none: "find (matches c1 q) ys = None" using find_view [of q c1 ys] find_room [OF 1(4)] 2(5) by simp
      have fr: "case fresh of None \<Rightarrow> True | Some a \<Rightarrow> ents c1 a = None" using a 2(7) repD(3) [OF r(1)] repD(3) [OF 2(2)] by (auto simp: domIff split: option.splits)
      obtain j where j: "j = unat h mod max_entries c1" "cache_lookup_p c1 h q = Some (slot_after j (ch1 j))" "slot_get c1 (slot_after j (ch1 j)) = Some None"
        using lookup_view [OF 2(2) wf h(1)] find_room [OF 1(4), of now] 2(5) by (metis option.distinct(1))
      obtain c' where c': "insert_answer now (getTTL ans) h q ans fresh (slot_after j (ch1 j)) c1 = Some c'"
        "displays c' (if getTTL ans > 0 \<and> fresh \<noteq> None then (q, ans, getTTL ans + now) # view c1 ys else view c1 ys, pending_requests c1)"
        using insert_sim [OF 2(2-4) wf h(1) none j(1) fr] .
      show ?thesis
        using 1 h r(4) True full j(2,3) c'(1) 2(1) notify_sim [OF c'(2), of h] unfolding 2(5,6)
        by (simp add: resolv_cache_add_def lru_add_def Let_def)
    next
      case False
      then have len: "length xs < CONFIG_MAX_ENTRIES" using repD(8) [OF r(1)] r(2) by simp
      obtain c' where c': "insert_answer now (getTTL ans) h q ans fresh (slot_after i (ch i)) c = Some c'"
        "displays c' (if getTTL ans > 0 \<and> fresh \<noteq> None then (q, ans, getTTL ans + now) # view c xs else view c xs, pending_requests c)"
        using insert_sim [OF r(1,2) len wf h(1) 1(5,1) a] .
      have "lru_room now (view c xs) = view c xs" using len by (simp add: lru_room_def view_def)
      then show ?thesis
        using 1 h r(4) True False c' notify_sim [OF c'(2), of h] by (simp add: resolv_cache_add_def lru_add_def Let_def)
    qed
  qed
qed

lemma fail_sim:
  assumes "displays c s" "usable q"
  shows "\<exists>c'. resolv_cache_query_failed nl ns q c = Some c' \<and> displays c' (lru_fail nl ns q s)"
  using usable_key [OF assms(2)] assms(1) notify_sim [of c "fst s" "snd s"]
  by (cases s) (auto simp: resolv_cache_query_failed_def lru_fail_def)

lemma flush_sim:
  assumes "displays c s"
  shows "\<exists>c'. cache_flush c = Some c' \<and> displays c' ([], [])"
proof -
  obtain xs ch where r: "rep c xs ch" "max_entries c = CONFIG_MAX_ENTRIES" using displays_E [OF assms] .
  obtain c' where c': "cache_flush c = Some c'" "rep c' [] (\<lambda>i. [])" "max_entries c' = max_entries c" "pending_requests c' = []"
    using flush [OF r(1)] .
  then have "displays c' ([], [])" using r(2) by (intro displaysI [OF c'(2)]) (simp_all add: view_def)
  then show ?thesis using c'(1) by blast
qed

lemma displays_create: "displays resolv_cache_create ([], [])"
  by (rule displaysI [OF create_rep]) (simp_all add: resolv_cache_create_def view_def)

section \<open>Sequences of calls\<close>

lemma exec_sim:
  assumes "displays c s" "cache_enabled l (c, out)"
  shows "\<exists>c' s' out'. cache_exec getTTL l (c, out) = Some (c', out') \<and> lru_exec getTTL l (s, out) = (s', out') \<and> displays c' s'"
proof (cases l)
  case (CLookup now nl ns q len)
  then show ?thesis using lookup_sim [OF assms(1), of q now nl ns len] assms(2) by auto
next
  case (CResume now q len)
  then show ?thesis using again_sim [OF assms(1), of q now len] assms(2) by auto
next
  case (CAdd now q ans fresh)
  then have "usable q" "case fresh of None \<Rightarrow> True | Some a \<Rightarrow> ents c a = None" using assms(2) by (simp_all split: option.splits)
  from add_sim [OF assms(1) this, of getTTL now ans] show ?thesis using CAdd by auto
next
  case (CFail nl ns q)
  then show ?thesis using fail_sim [OF assms(1), of q nl ns] assms(2) by auto
next
  case CFlush
  then show ?thesis using flush_sim [OF assms(1)] by auto
qed

definition cache_inv :: "resolv_cache \<times> lookup_result list \<Rightarrow> bool" where
  "cache_inv s \<longleftrightarrow> (\<exists>t. displays (fst s) t)"

interpretation rc: step_invariant cache_enabled "cache_exec getTTL" "(resolv_cache_create, [])" cache_inv
  for getTTL
proof
  show "cache_inv (resolv_cache_create, [])" using displays_create by (auto simp: cache_inv_def)
next
  fix s l assume "cache_inv s" "cache_enabled l s"
  then obtain t where "displays (fst s) t" "cache_enabled l (fst s, snd s)" by (auto simp: cache_inv_def)
  from exec_sim [OF this, of getTTL] show "\<exists>s'. cache_exec getTTL l s = Some s' \<and> cache_inv s'"
    by (auto simp: cache_inv_def)
qed

lemma run_sim:
  "displays c s \<Longrightarrow> run_steps cache_enabled (cache_exec getTTL) ls (c, out) = Some (c', out') \<Longrightarrow>
   \<exists>s'. displays c' s' \<and> fold (lru_exec getTTL) ls (s, out) = (s', out')"
proof (induction ls arbitrary: c s out)
  case (Cons l ls)
  have en: "cache_enabled l (c, out)" using Cons.prems(2) by (simp split: if_splits)
  obtain c1 s1 out1 where 1: "cache_exec getTTL l (c, out) = Some (c1, out1)" "lru_exec getTTL l (s, out) = (s1, out1)" "displays c1 s1"
    using exec_sim [OF Cons.prems(1) en] by blast
  then show ?case using Cons.IH [OF 1(3), of out1] Cons.prems(2) en by simp
qed auto

lemma displays_bound: "displays c s \<Longrightarrow> num_entries c = int (length (fst s)) \<and> length (fst s) \<le> CONFIG_MAX_ENTRIES"
  by (elim displays_E) (auto simp: view_def dest: repD(8))

section \<open>Where the answers come from\<close>

text \<open>An answer of the list was added by a call, and the cache was not flushed since.\<close>

definition added :: "(bytes \<Rightarrow> int) \<Rightarrow> cache_op list \<Rightarrow> lru_entry \<Rightarrow> bool" where
  "added getTTL ls e \<longleftrightarrow> (\<exists>pre t a post. ls = pre @ CAdd t (fst e) (fst (snd e)) (Some a) # post \<and> CFlush \<notin> set post \<and>
     snd (snd e) = getTTL (fst (snd e)) + t \<and> 0 < getTTL (fst (snd e)))"

lemma added_snoc: "added getTTL ls e \<Longrightarrow> l \<noteq> CFlush \<Longrightarrow> added getTTL (ls @ [l]) e"
  unfolding added_def by (elim exE conjE) (rule exI, rule exI, rule exI, rule_tac x = "post @ [l]" in exI, simp)

lemma added_new: "0 < getTTL ans \<Longrightarrow> added getTTL (ls @ [CAdd t q ans (Some a)]) (q, ans, getTTL ans + t)"
  unfolding added_def by (intro exI [of _ ls] exI [of _ t] exI [of _ a] exI [of _ "[]"]) simp

lemma hit_subset: "e \<in> set es \<Longrightarrow> set (snd (lru_hit now len e es)) \<subseteq> set es"
  by (auto simp: lru_hit_def split: prod.splits dest: notin_set_remove1 set_remove1_subset [THEN subsetD])

lemma find_in: "find P xs = Some x \<Longrightarrow> x \<in> set xs \<and> P x"
  by (auto simp: find_Some_iff)

lemma room_subset: "set (lru_room now es) \<subseteq> set es"
  by (auto simp: lru_room_def Let_def dest: in_set_butlastD)

lemma exec_subset:
  "e \<in> set (fst (fst (lru_exec getTTL l (s, out)))) \<Longrightarrow>
   (e \<in> set (fst s) \<and> l \<noteq> CFlush) \<or> (\<exists>t q ans a. l = CAdd t q ans (Some a) \<and> 0 < getTTL ans \<and> e = (q, ans, getTTL ans + t))"
proof (cases l)
  case (CLookup now nl ns q len)
  then show "e \<in> set (fst (fst (lru_exec getTTL l (s, out)))) \<Longrightarrow> ?thesis"
    using hit_subset [of _ "fst s" now len] by (fastforce simp: lru_lookup_def split: if_splits option.splits prod.splits dest: find_in)
next
  case (CResume now q len)
  then show "e \<in> set (fst (fst (lru_exec getTTL l (s, out)))) \<Longrightarrow> ?thesis"
    using hit_subset [of _ "fst s" now len] by (fastforce simp: lru_again_def split: if_splits option.splits prod.splits dest: find_in)
next
  case (CAdd now q ans fresh)
  then show "e \<in> set (fst (fst (lru_exec getTTL l (s, out)))) \<Longrightarrow> ?thesis"
    using room_subset [of now "fst s"] by (auto simp: lru_add_def Let_def split: if_splits)
qed (auto simp: lru_fail_def split: if_splits)

lemma list_added: "e \<in> set (fst (fst (fold (lru_exec getTTL) ls (([], []), [])))) \<Longrightarrow> added getTTL ls e"
proof (induction ls rule: rev_induct)
  case (snoc l ls)
  obtain s out where s: "fold (lru_exec getTTL) ls (([], []), []) = (s, out)" by fastforce
  then show ?case using exec_subset [of e getTTL l s out] snoc added_snoc added_new by fastforce
qed simp

lemma hit_found: "lru_hit now len e es = (Done RESOLV_CACHE_FOUND ans n, es') \<Longrightarrow> fst (snd e) = ans \<and> now < snd (snd e) \<and> length ans \<le> len \<and> n = Some (length ans)"
  by (auto simp: lru_hit_def split: prod.splits if_splits)

lemma lookup_found:
  assumes "lru_lookup now nl ns q len s = (Done RESOLV_CACHE_FOUND ans n, s')"
  shows "\<exists>e \<in> set (fst s). qkey (fst e) = qkey q \<and> fst (snd e) = ans \<and> now < snd (snd e) \<and> length ans \<le> len \<and> n = Some (length ans)"
proof -
  obtain e es where e: "find (lru_same q) (fst s) = Some e" "lru_hit now len e (fst s) = (Done RESOLV_CACHE_FOUND ans n, es)"
    using assms by (auto simp: lru_lookup_def split: if_splits option.splits prod.splits)
  then show ?thesis using hit_found [OF e(2)] find_in [OF e(1)] by (auto simp: lru_same_def)
qed

text \<open>After a lookup that found nothing, the list has no answer for the query.\<close>

lemma displays_keys: "displays c s \<Longrightarrow> distinct (map (qkey \<circ> fst) (fst s))"
proof (elim displays_E)
  fix xs ch assume r: "rep c xs ch" "s = (view c xs, pending_requests c)"
  have "map (qkey \<circ> fst) (view c xs) = map (qkey \<circ> e_query) (entries_of c xs)"
    by (simp add: view_def view_entry_def entries_of_def Let_def)
  then show "distinct (map (qkey \<circ> fst) (fst s))" using repD(10) [OF r(1)] r(2) by simp
qed

lemma find_remove_key:
  "distinct (map (qkey \<circ> fst) es) \<Longrightarrow> find (lru_same q) es = Some e \<Longrightarrow> find (lru_same q) (remove1 e es) = None"
proof (induction es)
  case (Cons x es)
  show ?case
  proof (cases "lru_same q x")
    case True
    then have "\<not> lru_same q y" if "y \<in> set es" for y using Cons.prems(1) that by (auto simp: lru_same_def image_iff)
    then show ?thesis using True Cons.prems(2) by (simp add: find_None_iff)
  next
    case False
    then have "e \<noteq> x" using find_in [of "lru_same q" es e] Cons.prems(2) by auto
    then show ?thesis using Cons False by simp
  qed
qed simp

lemma lookup_notfound:
  assumes "lru_lookup now nl ns q len s = (Done RESOLV_CACHE_NOTFOUND r n, s')" "distinct (map (qkey \<circ> fst) (fst s))"
  shows "accepted q \<and> find (lru_same q) (fst s') = None"
proof -
  have ac: "\<not> nl" "accepted q" using assms(1) by (auto simp: lru_lookup_def split: if_splits)
  show ?thesis
  proof (cases "find (lru_same q) (fst s)")
    case None
    then show ?thesis using assms(1) ac by (auto simp: lru_lookup_def split: if_splits)
  next
    case (Some e)
    then have "s' = (remove1 e (fst s), snd s)" using assms(1) ac by (auto simp: lru_lookup_def lru_hit_def split: if_splits prod.splits)
    then show ?thesis using find_remove_key [OF assms(2) Some] ac by simp
  qed
qed

lemma lookup_added:
  assumes "accepted q" "find (lru_same q) (fst s) = None" "0 < getTTL ans" "now < getTTL ans + t" "length ans \<le> len"
  shows "fst (lru_lookup now False ns q len (lru_add getTTL t q ans True s)) = Done RESOLV_CACHE_FOUND ans (Some (length ans))"
  using assms by (simp add: lru_add_def Let_def lru_lookup_def lru_hit_def lru_same_def)

section \<open>Properties\<close>

text \<open>
  Claim C13. The cache keeps its promise for all sequences of calls: the hash table with its chains and the
  doubly linked list give every lookup the same result as a list of answers in the order of use, without
  two answers to one question, that drops the expired and then the oldest answer when it is full.
\<close>

theorem cache_refines_lru:
  assumes "run_steps cache_enabled (cache_exec getTTL) ls (resolv_cache_create, []) = Some (c, out)"
  shows "\<exists>s. fold (lru_exec getTTL) ls (([], []), []) = (s, out) \<and> displays c s \<and> distinct (map (qkey \<circ> fst) (fst s))"
  using run_sim [OF displays_create assms] displays_keys by blast

definition demo_ops :: "cache_op list" where
  "demo_ops = [CLookup 10 False False (demo_query 5) 100, CLookup 10 False False (demo_query 5) 100,
     CAdd 10 (demo_query 5) [1, 2, 3] (Some 7), CResume 11 (demo_query 5) 100]"

definition demo_out :: "lookup_result list" where
  "demo_out = [Done RESOLV_CACHE_NOTFOUND [] None, Wait, Done RESOLV_CACHE_FOUND [1, 2, 3] (Some 3)]"

definition demo_cache :: "(resolv_cache \<times> lookup_result list) option" where
  "demo_cache = run_steps cache_enabled (cache_exec (\<lambda>answer. 5)) demo_ops (resolv_cache_create, [])"

lemma demo_key: "entry_init_key (demo_query 5) = Some (3075884588, True)"
proof -
  have "entry_hash (demo_query 5) = Some 3075884588"
    by (simp add: entry_hash_def hashQuery_eq demo_query_def hash_byte_def FNV_MULT_def FNV_BASIS_def)
  moreover have "dnsPacket_checkQuery (dnsPacket_init (demo_query 5))" by code_simp
  ultimately show ?thesis by (simp add: entry_init_key_def)
qed

lemma demo_same: "entry_equals (demo_query 5) (demo_query 5) = Some True"
  by code_simp

lemma demo_usable: "usable (demo_query 5)" "accepted (demo_query 5)"
  by code_simp+

lemmas cache_eval = demo_key demo_same demo_usable resolv_cache_lookup_def cache_lookup_again_def resolv_cache_add_def cache_lookup_p_def
  lookup_loop.simps resolv_cache_create_def cache_check_pending_def cache_notify_waiting_def insert_answer_def entry_alloc_def
  cache_add_p_def entry_mru_add_def lookup_hit_def Let_def

lemma demo_run: "\<exists>c. demo_cache = Some (c, demo_out) \<and>
   map_option fst (resolv_cache_lookup 14 False False (demo_query 5) 3 c) = Some (Done RESOLV_CACHE_FOUND [1, 2, 3] (Some 3))"
  by (simp add: demo_cache_def demo_ops_def demo_out_def cache_eval)

theorem cache_refines_lru_witness:
  "\<exists>c s. fold (lru_exec (\<lambda>answer. 5)) demo_ops (([], []), []) = (s, demo_out) \<and> displays c s"
  using demo_run cache_refines_lru [of "\<lambda>answer. 5" demo_ops] unfolding demo_cache_def by blast

text \<open>
  No call on a cache that was reached by calls follows a pointer to a freed entry or loops for
  ever in a chain or in the list, and the cache never holds more than its maximum of entries.
\<close>

theorem cache_never_stuck:
  assumes "reachable cache_enabled (cache_exec getTTL) (resolv_cache_create, []) s"
  shows "num_entries (fst s) \<le> int CONFIG_MAX_ENTRIES \<and> (cache_enabled l s \<longrightarrow> cache_exec getTTL l s \<noteq> None)"
proof -
  obtain t where "displays (fst s) t" using rc.reachable_inv [OF assms] by (auto simp: cache_inv_def)
  then show ?thesis using displays_bound rc.never_stuck [OF assms] by fastforce
qed

theorem cache_never_stuck_witness:
  "\<exists>s. demo_cache = Some s \<and> num_entries (fst s) \<le> 640 \<and> cache_exec (\<lambda>answer. 5) CFlush s \<noteq> None"
proof -
  obtain s where s: "demo_cache = Some s" using demo_run by blast
  then have "reachable cache_enabled (cache_exec (\<lambda>answer. 5)) (resolv_cache_create, []) s"
    unfolding demo_cache_def by (rule run_steps_reachable) (rule reach_init)
  from cache_never_stuck [OF this, of CFlush] have "num_entries (fst s) \<le> 640" "cache_exec (\<lambda>answer. 5) CFlush s \<noteq> None" by simp_all
  then show ?thesis using s by blast
qed

text \<open>
  Claim C17. An answer that a lookup gives was added for the same question, the cache has not been flushed
  since, its time to live has not passed, and it fits in the buffer of the caller.
\<close>

theorem cached_answer_current:
  assumes "run_steps cache_enabled (cache_exec getTTL) ls (resolv_cache_create, []) = Some (c, out)"
    and "usable q" "resolv_cache_lookup now nl ns q len c = Some (Done RESOLV_CACHE_FOUND ans n, c')"
  shows "\<exists>pre t q' a post. ls = pre @ CAdd t q' ans (Some a) # post \<and> CFlush \<notin> set post \<and> qkey q' = qkey q \<and>
     0 < getTTL ans \<and> now < getTTL ans + t \<and> length ans \<le> len \<and> n = Some (length ans)"
proof -
  obtain s where s: "displays c s" "fold (lru_exec getTTL) ls (([], []), []) = (s, out)" using run_sim [OF displays_create assms(1)] by blast
  obtain s' where "lru_lookup now nl ns q len s = (Done RESOLV_CACHE_FOUND ans n, s')"
    using lookup_sim [OF s(1) assms(2), of now nl ns len] assms(3) by auto
  from lookup_found [OF this] obtain e where e: "e \<in> set (fst s)" "qkey (fst e) = qkey q" "fst (snd e) = ans" "now < snd (snd e)"
    "length ans \<le> len" "n = Some (length ans)" by blast
  then have "added getTTL ls e" using list_added [of e getTTL ls] s(2) by simp
  then obtain pre t a post where "ls = pre @ CAdd t (fst e) ans (Some a) # post" "CFlush \<notin> set post" "snd (snd e) = getTTL ans + t" "0 < getTTL ans"
    using e(3) unfolding added_def by auto
  then show ?thesis using e by (intro exI [of _ pre] exI [of _ t] exI [of _ "fst e"] exI [of _ a] exI [of _ post]) simp
qed

theorem cached_answer_current_witness:
  "\<exists>pre t q a post. demo_ops = pre @ CAdd t q [1, 2, 3] (Some a) # post \<and> qkey q = qkey (demo_query 5) \<and> 14 < 5 + t"
proof -
  obtain c c' where c: "demo_cache = Some (c, demo_out)"
    "resolv_cache_lookup 14 False False (demo_query 5) 3 c = Some (Done RESOLV_CACHE_FOUND [1, 2, 3] (Some 3), c')"
    using demo_run by auto
  from cached_answer_current [OF c(1) [unfolded demo_cache_def] demo_usable(1) c(2)] show ?thesis by blast
qed

text \<open>
  Claim C18. A lookup that finds nothing, the answer added, and a second lookup before the answer expires
  gives that answer.
\<close>

theorem added_answer_found:
  assumes "reachable cache_enabled (cache_exec getTTL) (resolv_cache_create, []) (c, out)"
    and "usable q" "resolv_cache_lookup now nl ns q len c = Some (Done RESOLV_CACHE_NOTFOUND r n, c1)"
    and "ents c1 a = None" "0 < getTTL ans" "now' < getTTL ans + t" "length ans \<le> len'"
  shows "\<exists>c2 c3. resolv_cache_add getTTL t q ans (Some a) c1 = Some c2 \<and>
     resolv_cache_lookup now' False ns' q len' c2 = Some (Done RESOLV_CACHE_FOUND ans (Some (length ans)), c3)"
proof -
  obtain s where s: "displays c s" using rc.reachable_inv [OF assms(1)] by (auto simp: cache_inv_def)
  obtain s1 where s1: "lru_lookup now nl ns q len s = (Done RESOLV_CACHE_NOTFOUND r n, s1)" "displays c1 s1"
    using lookup_sim [OF s assms(2), of now nl ns len] assms(3) by auto
  obtain c2 where c2: "resolv_cache_add getTTL t q ans (Some a) c1 = Some c2" "displays c2 (lru_add getTTL t q ans True s1)"
    using add_sim [OF s1(2) assms(2), of "Some a" getTTL t ans] assms(4) by auto
  have "accepted q" "find (lru_same q) (fst s1) = None" using lookup_notfound [OF s1(1) displays_keys [OF s]] by simp_all
  then have "fst (lru_lookup now' False ns' q len' (lru_add getTTL t q ans True s1)) = Done RESOLV_CACHE_FOUND ans (Some (length ans))"
    by (rule lookup_added [where getTTL = getTTL]) (use assms(5-7) in simp_all)
  then show ?thesis
    using c2(1) lookup_sim [OF c2(2) assms(2), of now' False ns' len'] by auto
qed

theorem added_answer_found_witness:
  "\<exists>c1 c2 c3. resolv_cache_lookup 10 False False (demo_query 5) 100 resolv_cache_create = Some (Done RESOLV_CACHE_NOTFOUND [] None, c1) \<and>
     resolv_cache_add (\<lambda>answer. 5) 10 (demo_query 5) [1, 2, 3] (Some 7) c1 = Some c2 \<and>
     resolv_cache_lookup 14 False False (demo_query 5) 3 c2 = Some (Done RESOLV_CACHE_FOUND [1, 2, 3] (Some (length [1, 2, 3 :: u8])), c3)"
proof -
  have "map_option (\<lambda>(r, c). (r, ents c 7)) (resolv_cache_lookup 10 False False (demo_query 5) 100 resolv_cache_create) =
      Some (Done RESOLV_CACHE_NOTFOUND [] None, None)" by (simp add: cache_eval)
  then obtain c1 where "resolv_cache_lookup 10 False False (demo_query 5) 100 resolv_cache_create = Some (Done RESOLV_CACHE_NOTFOUND [] None, c1)"
    "ents c1 7 = None" by auto
  from added_answer_found [OF reach_init demo_usable(1) this, of "\<lambda>answer. 5" "[1, 2, 3]" 14 10 3 False] this(1) show ?thesis by simp
qed

end
