(* ===== verification/Res_Stats.thy ===== *)
theory Res_Stats
  imports Netd_Prelude
begin

text \<open>
  resolv/res_stats.cpp, and the ring of samples of resolv/res_cache.cpp: the results of the last queries
  to a server, and whether the server is usable by them. \<open>None\<close> stands for an access outside the array of
  samples.
\<close>

section \<open>Samples\<close>

record res_sample =
  sample_at :: int
  sample_rtt :: u16
  sample_rcode :: u8

record res_stats =
  samples :: "res_sample list"
  sample_count :: nat
  sample_next :: nat

record res_params =
  sample_validity :: nat
  success_threshold :: nat
  min_samples :: nat
  max_samples :: nat
  base_timeout_msec :: int

abbreviation MAXNSSAMPLES :: nat where "MAXNSSAMPLES \<equiv> 64"

definition RCODE_INTERNAL_ERROR :: u8 where "RCODE_INTERNAL_ERROR = 254"
definition RCODE_TIMEOUT :: u8 where "RCODE_TIMEOUT = 255"

text \<open>Result codes of \<open>arpa/nameser.h\<close>.\<close>

abbreviation NOERROR :: u8 where "NOERROR \<equiv> 0"
abbreviation NXDOMAIN :: u8 where "NXDOMAIN \<equiv> 3"
abbreviation NOTAUTH :: u8 where "NOTAUTH \<equiv> 9"

definition res_stats_new :: res_stats where
  "res_stats_new = \<lparr>samples = replicate MAXNSSAMPLES \<lparr>sample_at = 0, sample_rtt = 0, sample_rcode = 0\<rparr>, sample_count = 0, sample_next = 0\<rparr>"

text \<open>Times are pairs of seconds and nanoseconds; the result is cut to an \<open>int\<close>.\<close>

definition res_stats_calculate_rtt :: "int \<times> int \<Rightarrow> int \<times> int \<Rightarrow> int" where
  "res_stats_calculate_rtt t1 t0 =
     (let ms0 = fst t0 * 1000 + snd t0 div 1000000; ms1 = fst t1 * 1000 + snd t1 div 1000000
      in sint (word_of_int (ms1 - ms0) :: u32))"

definition res_stats_set_sample :: "int \<Rightarrow> int \<Rightarrow> int \<Rightarrow> res_sample" where
  "res_stats_set_sample now rc rtt = \<lparr>sample_at = now, sample_rtt = word_of_int rtt, sample_rcode = word_of_int rc\<rparr>"

definition res_stats_clear_samples :: "res_stats \<Rightarrow> res_stats" where
  "res_stats_clear_samples st = st\<lparr>sample_count := 0, sample_next := 0\<rparr>"

text \<open>The two counters are of 8 bits.\<close>

definition res_cache_add_stats_sample :: "res_stats \<Rightarrow> res_sample \<Rightarrow> nat \<Rightarrow> res_stats option" where
  "res_cache_add_stats_sample st sample cap =
     (if sample_next st < length (samples st) then
        (let st1 = st\<lparr>samples := (samples st)[sample_next st := sample]\<rparr>;
             st2 = (if sample_count st1 < cap then st1\<lparr>sample_count := (sample_count st1 + 1) mod 256\<rparr> else st1);
             st3 = st2\<lparr>sample_next := (sample_next st2 + 1) mod 256\<rparr>
         in Some (if sample_next st3 \<ge> cap then st3\<lparr>sample_next := 0\<rparr> else st3))
      else None)"

section \<open>Aggregation\<close>

record aggregate =
  successes :: int
  errors :: int
  timeouts :: int
  internal_errors :: int
  rtt_sum :: int
  rtt_count :: int

definition aggregate_new :: aggregate where
  "aggregate_new = \<lparr>successes = 0, errors = 0, timeouts = 0, internal_errors = 0, rtt_sum = 0, rtt_count = 0\<rparr>"

definition aggregate_sample :: "res_sample \<Rightarrow> aggregate \<Rightarrow> aggregate" where
  "aggregate_sample x g =
     (if sample_rcode x = NOERROR \<or> sample_rcode x = NOTAUTH \<or> sample_rcode x = NXDOMAIN then
        g\<lparr>successes := successes g + 1, rtt_sum := rtt_sum g + uint (sample_rtt x), rtt_count := rtt_count g + 1\<rparr>
      else if sample_rcode x = RCODE_TIMEOUT then g\<lparr>timeouts := timeouts g + 1\<rparr>
      else if sample_rcode x = RCODE_INTERNAL_ERROR then g\<lparr>internal_errors := internal_errors g + 1\<rparr>
      else g\<lparr>errors := errors g + 1\<rparr>)"

text \<open>The counts, the average time and the time of the last sample.\<close>

definition res_stats_aggregate :: "res_stats \<Rightarrow> (aggregate \<times> int \<times> int) option" where
  "res_stats_aggregate st =
     (if sample_count st \<le> length (samples st) \<and> sample_next st \<le> length (samples st) then
        (let g = fold aggregate_sample (take (sample_count st) (samples st)) aggregate_new;
             rtt_avg = (if rtt_count g \<noteq> 0 then rtt_sum g div rtt_count g else -1);
             last_time = (if sample_count st > 0 then
                 (if sample_next st > 0 then sample_at (samples st ! (sample_next st - 1))
                  else sample_at (samples st ! (sample_count st - 1)))
               else 0)
         in Some (g, rtt_avg, last_time))
      else None)"

section \<open>Usable servers\<close>

definition res_stats_usable_server :: "res_params \<Rightarrow> int \<Rightarrow> res_stats \<Rightarrow> (bool \<times> res_stats) option" where
  "res_stats_usable_server params now st =
     (case res_stats_aggregate st of
        None \<Rightarrow> None
      | Some (g, rtt_avg, last_time) \<Rightarrow>
          (let total = successes g + errors g + timeouts g in
           if successes g \<ge> 0 \<and> errors g \<ge> 0 \<and> timeouts g \<ge> 0 \<and> total \<ge> int (min_samples params) \<and> (errors g > 0 \<or> timeouts g > 0) \<and>
              successes g * 100 div total < int (success_threshold params)
           then (if now - last_time > int (sample_validity params) then Some (True, res_stats_clear_samples st) else Some (False, st))
           else Some (True, st)))"

text \<open>The time is read again for every server: \<open>clock ns\<close> is what \<open>time\<close> returns for server \<open>ns\<close>.\<close>

fun usable_loop :: "res_params \<Rightarrow> (nat \<Rightarrow> int) \<Rightarrow> nat \<Rightarrow> res_stats list \<Rightarrow> (bool list \<times> res_stats list) option" where
  "usable_loop params clock ns [] = Some ([], [])"
| "usable_loop params clock ns (st # sts) =
     (case res_stats_usable_server params (clock ns) st of
        None \<Rightarrow> None
      | Some (u, st') \<Rightarrow> map_option (\<lambda>(us, sts'). (u # us, st' # sts')) (usable_loop params clock (ns + 1) sts))"

definition res_stats_get_usable_servers :: "res_params \<Rightarrow> (nat \<Rightarrow> int) \<Rightarrow> res_stats list \<Rightarrow> (bool list \<times> res_stats list) option" where
  "res_stats_get_usable_servers params clock sts =
     map_option (\<lambda>(us, sts'). (if length (filter id us) = 0 then map (\<lambda>u. True) us else us, sts')) (usable_loop params clock 0 sts)"

section \<open>The ring keeps the most recent samples\<close>

text \<open>The samples of the ring, the oldest first.\<close>

definition recent :: "res_stats \<Rightarrow> res_sample list" where
  "recent st = (let ys = take (sample_count st) (samples st) in drop (sample_next st) ys @ take (sample_next st) ys)"

definition ring_ok :: "nat \<Rightarrow> res_stats \<Rightarrow> bool" where
  "ring_ok m st \<longleftrightarrow> length (samples st) = MAXNSSAMPLES \<and> sample_count st \<le> m \<and> sample_next st < m \<and> (sample_count st < m \<longrightarrow> sample_next st = sample_count st)"

lemma ring_new: "0 < m \<Longrightarrow> ring_ok m res_stats_new \<and> recent res_stats_new = []"
  by (simp add: ring_ok_def res_stats_new_def recent_def)

lemma ring_clear: "0 < m \<Longrightarrow> length (samples st) = MAXNSSAMPLES \<Longrightarrow> ring_ok m (res_stats_clear_samples st) \<and> recent (res_stats_clear_samples st) = []"
  by (simp add: ring_ok_def res_stats_clear_samples_def recent_def)

lemma ring_length: "ring_ok m st \<Longrightarrow> m \<le> MAXNSSAMPLES \<Longrightarrow> length (recent st) = sample_count st"
  by (auto simp: ring_ok_def recent_def)

text \<open>Adding a sample drops the oldest one when the ring is full.\<close>

lemma ring_add:
  assumes "ring_ok m st" "m \<le> MAXNSSAMPLES"
  shows "\<exists>st'. res_cache_add_stats_sample st x m = Some st' \<and> ring_ok m st' \<and>
     recent st' = (if length (recent st) < m then recent st else tl (recent st)) @ [x]"
proof (cases "sample_count st < m")
  case True
  then have n: "sample_next st = sample_count st" "length (samples st) = 64" using assms by (simp_all add: ring_ok_def)
  have "recent st = take (sample_count st) (samples st)" by (simp add: recent_def n)
  moreover have "take (Suc (sample_count st)) ((samples st)[sample_count st := x]) = take (sample_count st) (samples st) @ [x]"
    using True n assms(2) by (simp add: take_Suc_conv_app_nth)
  ultimately show ?thesis
    using True n assms ring_length [OF assms] by (auto simp: res_cache_add_stats_sample_def ring_ok_def recent_def Let_def)
next
  case False
  define ys where "ys = take m (samples st)"
  define r where "r = sample_next st"
  have full: "sample_count st = m" "length (samples st) = 64" "r < m" using False assms by (auto simp: ring_ok_def r_def)
  have ys: "length ys = m" "take m ((samples st)[r := x]) = ys[r := x]" using full assms(2) by (simp_all add: ys_def take_update_swap)
  have old: "recent st = drop r ys @ take r ys" by (simp add: recent_def full ys_def r_def)
  have tl: "tl (recent st) = drop (Suc r) ys @ take r ys" using full(3) ys(1) by (simp add: old drop_Suc tl_drop)
  have split: "take (Suc r) (ys[r := x]) = take r ys @ [x]" using full(3) ys(1) by (simp add: take_Suc_conv_app_nth)
  have len: "length (recent st) = m" using ring_length [OF assms] full by simp
  define st' where "st' = st\<lparr>samples := (samples st)[r := x], sample_next := (if Suc r \<ge> m then 0 else Suc r)\<rparr>"
  have "res_cache_add_stats_sample st x m = Some st'"
    using full assms(2) by (simp add: res_cache_add_stats_sample_def st'_def r_def Let_def)
  moreover have "ring_ok m st'" using full by (auto simp: ring_ok_def st'_def)
  moreover have "recent st' = tl (recent st) @ [x]"
  proof (cases "Suc r \<ge> m")
    case True
    then have "take m (ys[r := x]) = take r ys @ [x]" using split full(3) by (metis Suc_leI le_antisym)
    then have "recent st' = take r ys @ [x]" using True ys full(1) by (simp add: recent_def st'_def)
    then show ?thesis using True ys(1) unfolding tl by simp
  next
    case False
    then have "recent st' = drop (Suc r) ys @ take r ys @ [x]" using ys full(1) split by (simp add: recent_def st'_def)
    then show ?thesis unfolding tl by simp
  qed
  ultimately show ?thesis using len by auto
qed

fun add_samples :: "nat \<Rightarrow> res_sample list \<Rightarrow> res_stats \<Rightarrow> res_stats option" where
  "add_samples cap [] st = Some st"
| "add_samples cap (x # xs) st = (case res_cache_add_stats_sample st x cap of None \<Rightarrow> None | Some st' \<Rightarrow> add_samples cap xs st')"

lemma ring_adds:
  assumes "ring_ok m st" "0 < m" "m \<le> MAXNSSAMPLES"
  shows "\<exists>st'. add_samples m xs st = Some st' \<and> ring_ok m st' \<and> recent st' = drop (length (recent st @ xs) - m) (recent st @ xs)"
  using assms(1)
proof (induction xs arbitrary: st)
  case Nil
  then show ?case using ring_length [OF Nil assms(3)] by (auto simp: ring_ok_def)
next
  case (Cons x xs)
  obtain st1 where 1: "res_cache_add_stats_sample st x m = Some st1" "ring_ok m st1"
    "recent st1 = (if length (recent st) < m then recent st else tl (recent st)) @ [x]" using ring_add [OF Cons.prems assms(3)] by blast
  obtain st' where 2: "add_samples m xs st1 = Some st'" "ring_ok m st'" "recent st' = drop (length (recent st1 @ xs) - m) (recent st1 @ xs)"
    using Cons.IH [OF 1(2)] by blast
  have len: "length (recent st) \<le> m" using ring_length [OF Cons.prems assms(3)] Cons.prems by (simp add: ring_ok_def)
  have "drop (length (recent st1 @ xs) - m) (recent st1 @ xs) = drop (length (recent st @ x # xs) - m) (recent st @ x # xs)"
  proof (cases "length (recent st) < m")
    case False
    then obtain a zs where "recent st = a # zs" "m = Suc (length zs)" using len assms(2) by (cases "recent st") auto
    then show ?thesis using 1(3) by simp
  qed (simp add: 1(3))
  then show ?case using 1(1) 2 by simp
qed

text \<open>The counts do not depend on the order.\<close>

lemma fold_commute_mset: "mset xs = mset ys \<Longrightarrow> (\<And>x y. f y \<circ> f x = f x \<circ> f y) \<Longrightarrow> fold f xs = fold f ys"
  by (rule fold_multiset_equiv) auto

lemma aggregate_comm: "aggregate_sample y \<circ> aggregate_sample x = aggregate_sample x \<circ> aggregate_sample y"
  by (auto simp: aggregate_sample_def fun_eq_iff RCODE_TIMEOUT_def RCODE_INTERNAL_ERROR_def)

text \<open>What the samples say, and the specification of the average and of the last time.\<close>

definition aggregate_of :: "res_sample list \<Rightarrow> aggregate \<times> int \<times> int" where
  "aggregate_of xs =
     (let ok = filter (\<lambda>x. sample_rcode x \<in> {NOERROR, NOTAUTH, NXDOMAIN}) xs;
          to = filter (\<lambda>x. sample_rcode x = RCODE_TIMEOUT) xs;
          ie = filter (\<lambda>x. sample_rcode x = RCODE_INTERNAL_ERROR) xs;
          err = filter (\<lambda>x. sample_rcode x \<notin> {NOERROR, NOTAUTH, NXDOMAIN, RCODE_TIMEOUT, RCODE_INTERNAL_ERROR}) xs;
          total = (\<Sum>x \<leftarrow> ok. uint (sample_rtt x))
      in (\<lparr>successes = int (length ok), errors = int (length err),
           timeouts = int (length to), internal_errors = int (length ie), rtt_sum = total, rtt_count = int (length ok)\<rparr>,
          if ok = [] then -1 else total div int (length ok), if xs = [] then 0 else sample_at (last xs)))"

lemma fold_aggregate:
  "fold aggregate_sample xs g =
     (let a = fst (aggregate_of xs) in
      g\<lparr>successes := successes g + successes a, errors := errors g + errors a, timeouts := timeouts g + timeouts a,
        internal_errors := internal_errors g + internal_errors a, rtt_sum := rtt_sum g + rtt_sum a, rtt_count := rtt_count g + rtt_count a\<rparr>)"
proof (induction xs arbitrary: g)
  case (Cons x xs)
  show ?case unfolding fold.simps comp_apply Cons
    by (auto simp: aggregate_of_def aggregate_sample_def Let_def RCODE_TIMEOUT_def RCODE_INTERNAL_ERROR_def)
qed (simp add: aggregate_of_def)

lemma last_recent:
  assumes "ring_ok m st" "m \<le> MAXNSSAMPLES" "0 < sample_count st"
  shows "sample_at (last (recent st)) =
     (if sample_next st > 0 then sample_at (samples st ! (sample_next st - 1)) else sample_at (samples st ! (sample_count st - 1)))"
proof -
  have le: "sample_next st \<le> sample_count st" "sample_count st \<le> length (samples st)" using assms by (auto simp: ring_ok_def)
  then have "last (take (sample_next st) (samples st)) = samples st ! (sample_next st - 1)" if "0 < sample_next st"
    using that by (subst last_conv_nth) (auto simp: min_absorb2)
  moreover have "last (take (sample_count st) (samples st)) = samples st ! (sample_count st - 1)"
    using assms(3) le by (subst last_conv_nth) (auto simp: min_absorb2)
  ultimately show ?thesis using le assms(3) by (auto simp: recent_def Let_def last_append)
qed

lemma aggregate_recent:
  assumes "ring_ok m st" "m \<le> MAXNSSAMPLES"
  shows "res_stats_aggregate st = Some (aggregate_of (recent st))"
proof -
  have "mset (drop n ys @ take n ys) = mset ys" for n and ys :: "res_sample list"
    by (metis append_take_drop_id mset_append union_commute)
  then have "mset (recent st) = mset (take (sample_count st) (samples st))" unfolding recent_def Let_def .
  then have f: "fold aggregate_sample (take (sample_count st) (samples st)) = fold aggregate_sample (recent st)"
    by (intro fold_commute_mset aggregate_comm) (rule sym)
  have g: "fold aggregate_sample (recent st) aggregate_new = fst (aggregate_of (recent st))"
    by (simp add: fold_aggregate aggregate_new_def Let_def)
  have len: "length (recent st) = sample_count st" by (rule ring_length [OF assms])
  have b: "sample_count st \<le> length (samples st) \<and> sample_next st \<le> length (samples st)" using assms by (auto simp: ring_ok_def)
  have e: "recent st = [] \<longleftrightarrow> \<not> 0 < sample_count st" using len by auto
  have avg: "fst (snd (aggregate_of xs)) = (if rtt_count (fst (aggregate_of xs)) \<noteq> 0 then rtt_sum (fst (aggregate_of xs)) div rtt_count (fst (aggregate_of xs)) else -1)" for xs
    by (simp add: aggregate_of_def Let_def)
  have lst: "snd (snd (aggregate_of xs)) = (if xs = [] then 0 else sample_at (last xs))" for xs
    by (simp add: aggregate_of_def Let_def)
  show ?thesis
    unfolding res_stats_aggregate_def f g Let_def avg [symmetric] using b lst [of "recent st"] e last_recent [OF assms]
    by (cases "0 < sample_count st") (simp_all add: prod_eq_iff)
qed

section \<open>Properties\<close>

text \<open>
  Claim C20. The statistics of a server are those of its last samples: when samples are added to an empty
  ring of at most 64, no access leaves the array, and the counts, the average time and the time of the
  last sample are those of the most recent ones, as many as the ring holds.
\<close>

theorem ring_keeps_recent:
  assumes "0 < m" "m \<le> MAXNSSAMPLES" "length (samples st) = MAXNSSAMPLES"
  shows "\<exists>st'. add_samples m xs (res_stats_clear_samples st) = Some st' \<and> res_stats_aggregate st' = Some (aggregate_of (drop (length xs - m) xs))"
proof -
  have "ring_ok m (res_stats_clear_samples st)" "recent (res_stats_clear_samples st) = []" using ring_clear assms by simp_all
  from ring_adds [OF this(1) assms(1,2), of xs] this(2) show ?thesis using aggregate_recent [OF _ assms(2)] by fastforce
qed

theorem ring_keeps_recent_witness:
  "\<exists>st'. add_samples 2 [\<lparr>sample_at = 1, sample_rtt = 9, sample_rcode = 0\<rparr>, \<lparr>sample_at = 2, sample_rtt = 4, sample_rcode = 3\<rparr>,
       \<lparr>sample_at = 5, sample_rtt = 0, sample_rcode = 255\<rparr>] (res_stats_clear_samples res_stats_new) = Some st' \<and>
     res_stats_aggregate st' = Some (\<lparr>successes = 1, errors = 0, timeouts = 1, internal_errors = 0, rtt_sum = 4, rtt_count = 1\<rparr>, 4, 5)"
  using ring_keeps_recent [of 2 res_stats_new "[\<lparr>sample_at = 1, sample_rtt = 9, sample_rcode = 0\<rparr>, \<lparr>sample_at = 2, sample_rtt = 4, sample_rcode = 3\<rparr>,
       \<lparr>sample_at = 5, sample_rtt = 0, sample_rcode = 255\<rparr>]"]
  by (simp add: res_stats_new_def aggregate_of_def RCODE_TIMEOUT_def RCODE_INTERNAL_ERROR_def)

text \<open>With a ring of more than 64, the 65th sample is written outside the array.\<close>

lemma ring_overflow: "add_samples 65 (replicate 65 x) res_stats_new = None"
proof -
  have "add_samples 65 (replicate n x) st = None" if "sample_next st + n = 65" "sample_count st = sample_next st" "length (samples st) = 64" "0 < n" for n st
    using that
  proof (induction n arbitrary: st)
    case (Suc n)
    show ?case
    proof (cases "n = 0")
      case False
      then show ?thesis using Suc.prems by (auto simp: res_cache_add_stats_sample_def Let_def intro!: Suc.IH)
    qed (use Suc.prems in \<open>simp add: res_cache_add_stats_sample_def\<close>)
  qed simp
  then show ?thesis by (simp add: res_stats_new_def)
qed

text \<open>A server fails by enough recent samples with too few successes.\<close>

definition failing :: "res_params \<Rightarrow> int \<Rightarrow> res_sample list \<Rightarrow> bool" where
  "failing params now xs \<longleftrightarrow>
     (case aggregate_of xs of (g, rtt_avg, last_time) \<Rightarrow>
        successes g + errors g + timeouts g \<ge> int (min_samples params) \<and> 0 < errors g + timeouts g \<and>
        successes g * 100 < int (success_threshold params) * (successes g + errors g + timeouts g) \<and>
        now - last_time \<le> int (sample_validity params))"

lemma div_less_iff: "0 < c \<Longrightarrow> a div c < b \<longleftrightarrow> a < b * c" for a b c :: int
proof
  assume c: "0 < c" and "a div c < b"
  then have "c * (a div c + 1) \<le> c * b" by (intro mult_left_mono) auto
  moreover have "a < c * (a div c + 1)"
    using pos_mod_bound [OF c, of a] mult_div_mod_eq [of c a] unfolding distrib_left mult_1_right by linarith
  ultimately show "a < b * c" by (simp add: mult.commute)
next
  assume c: "0 < c" and "a < b * c"
  show "a div c < b"
  proof (rule ccontr)
    assume "\<not> a div c < b"
    then have "c * b \<le> c * (a div c)" using c by simp
    then show False using \<open>a < b * c\<close> pos_mod_sign [OF c, of a] mult_div_mod_eq [of c a] unfolding mult.commute [of b c] by linarith
  qed
qed

lemma usable_server:
  assumes "ring_ok m st" "m \<le> MAXNSSAMPLES"
  shows "\<exists>st'. res_stats_usable_server params now st = Some (\<not> failing params now (recent st), st')"
proof -
  obtain g a l where g: "aggregate_of (recent st) = (g, a, l)" by (metis prod_cases3)
  have "0 \<le> successes g" "0 \<le> errors g" "0 \<le> timeouts g" using g by (auto simp: aggregate_of_def Let_def)
  moreover have "successes g * 100 div (successes g + errors g + timeouts g) < int (success_threshold params) \<longleftrightarrow>
      successes g * 100 < int (success_threshold params) * (successes g + errors g + timeouts g)" if "0 < errors g + timeouts g"
    using that calculation by (intro div_less_iff) simp
  ultimately show ?thesis
    using aggregate_recent [OF assms] g by (auto simp: res_stats_usable_server_def failing_def Let_def)
qed

lemma usable_loop_all:
  assumes "\<And>st. st \<in> set sts \<Longrightarrow> ring_ok m st" "m \<le> MAXNSSAMPLES"
  shows "\<exists>sts'. usable_loop params clock ns sts = Some (map (\<lambda>(i, st). \<not> failing params (clock i) (recent st)) (enumerate ns sts), sts')"
  using assms(1)
proof (induction sts arbitrary: ns)
  case (Cons st sts)
  obtain st' where "res_stats_usable_server params (clock ns) st = Some (\<not> failing params (clock ns) (recent st), st')"
    using usable_server [OF _ assms(2)] Cons.prems by fastforce
  moreover obtain sts' where "usable_loop params clock (Suc ns) sts = Some (map (\<lambda>(i, st). \<not> failing params (clock i) (recent st)) (enumerate (Suc ns) sts), sts')"
    using Cons.IH [of "Suc ns"] Cons.prems by auto
  ultimately show ?case by simp
qed simp

text \<open>
  Claim C21. The servers that are tried are exactly those whose recent samples do not show that they fail,
  or all of them when every server fails; so there is always a server to try.
\<close>

theorem usable_servers_exact:
  assumes "\<forall>st \<in> set sts. ring_ok m st" "m \<le> MAXNSSAMPLES"
  shows "\<exists>us sts'. res_stats_get_usable_servers params clock sts = Some (us, sts') \<and> length us = length sts \<and> (sts \<noteq> [] \<longrightarrow> True \<in> set us) \<and>
     (\<forall>i < length sts. us ! i \<longleftrightarrow> \<not> failing params (clock i) (recent (sts ! i)) \<or> (\<forall>j < length sts. failing params (clock j) (recent (sts ! j))))"
proof -
  define fs where "fs = map (\<lambda>(i, st). \<not> failing params (clock i) (recent st)) (enumerate 0 sts)"
  have len: "length fs = length sts" by (simp add: fs_def)
  have nth: "fs ! i \<longleftrightarrow> \<not> failing params (clock i) (recent (sts ! i))" if "i < length sts" for i
    using that by (simp add: fs_def nth_enumerate_eq)
  obtain sts' where l: "usable_loop params clock 0 sts = Some (fs, sts')"
    unfolding fs_def using usable_loop_all [of sts m params clock 0] assms by blast
  show ?thesis
  proof (cases "True \<in> set fs")
    case True
    then obtain k where k: "k < length sts" "\<not> failing params (clock k) (recent (sts ! k))" using len nth by (metis in_set_conv_nth)
    have "filter id fs \<noteq> []" using True by (auto simp: filter_empty_conv)
    then have "res_stats_get_usable_servers params clock sts = Some (fs, sts')" by (simp add: res_stats_get_usable_servers_def l)
    then show ?thesis using True len nth k by auto
  next
    case False
    have "filter id fs = []" using False by (auto simp: filter_empty_conv)
    then have "res_stats_get_usable_servers params clock sts = Some (map (\<lambda>u. True) fs, sts')" by (simp add: res_stats_get_usable_servers_def l)
    moreover have "failing params (clock j) (recent (sts ! j))" if "j < length sts" for j
      using False nth [OF that] that len by (metis (full_types) nth_mem)
    ultimately show ?thesis using len by (auto simp: in_set_conv_nth)
  qed
qed

theorem usable_servers_exact_witness:
  "\<exists>us sts'. res_stats_get_usable_servers \<lparr>sample_validity = 1800, success_threshold = 75, min_samples = 1, max_samples = 8, base_timeout_msec = 0\<rparr>
       (\<lambda>ns. 100) [res_stats_new, res_stats_new] = Some (us, sts') \<and> length us = 2 \<and> True \<in> set us"
proof -
  have "\<forall>st \<in> set [res_stats_new, res_stats_new]. ring_ok 8 st" using ring_new [of 8] by simp
  from usable_servers_exact [OF this, of "\<lparr>sample_validity = 1800, success_threshold = 75, min_samples = 1, max_samples = 8, base_timeout_msec = 0\<rparr>" "\<lambda>ns. 100"]
  show ?thesis by fastforce
qed

text \<open>The failed server of a pair is left out.\<close>

lemma failed_server_skipped:
  "map_option fst (Option.bind (add_samples 8 [res_stats_set_sample 90 255 0] res_stats_new)
     (\<lambda>st. res_stats_get_usable_servers \<lparr>sample_validity = 1800, success_threshold = 75, min_samples = 1, max_samples = 8, base_timeout_msec = 0\<rparr>
        (\<lambda>ns. 100) [st, res_stats_new])) = Some [False, True]"
  by code_simp

end
