(* ===== verification/Res_Answer.thy ===== *)
theory Res_Answer
  imports Netd_Prelude
begin

text \<open>
  resolv/res_cache.cpp, the time to live of an answer. The parser of messages (\<open>ns_initparse\<close>,
  \<open>ns_parserr\<close>, \<open>ns_name_skip\<close>, \<open>ns_get32\<close>) is in the C library; it is a parameter.
\<close>

datatype ns_sect = ns_s_an | ns_s_ns

record ns_rr =
  rr_type :: nat
  rr_ttl :: u32
  rr_rdata :: bytes

record 'm ns_lib =
  ns_initparse :: "bytes \<Rightarrow> 'm option"
  ns_msg_count :: "'m \<Rightarrow> ns_sect \<Rightarrow> nat"
  ns_parserr :: "'m \<Rightarrow> ns_sect \<Rightarrow> nat \<Rightarrow> ns_rr option"
  ns_name_skip :: "bytes \<Rightarrow> nat option"
  ns_get32 :: "bytes \<Rightarrow> u32"

abbreviation ns_t_soa :: nat where "ns_t_soa \<equiv> 6"
abbreviation NS_INT32SZ :: nat where "NS_INT32SZ \<equiv> 4"

definition dn_skipname :: "'m ns_lib \<Rightarrow> bytes \<Rightarrow> nat option" where
  "dn_skipname P b = ns_name_skip P b"

text \<open>The \<open>MINIMUM\<close> field of a SOA record, or \<open>None\<close> where the loop goes on with the next record.\<close>

definition soa_minimum :: "'m ns_lib \<Rightarrow> bytes \<Rightarrow> u32 option" where
  "soa_minimum P rdata =
     (case dn_skipname P rdata of
        None \<Rightarrow> None
      | Some len \<Rightarrow>
          (case dn_skipname P (drop len rdata) of
             None \<Rightarrow> None
           | Some len2 \<Rightarrow>
               (let rest = drop len2 (drop len rdata) in
                if length rest \<noteq> 5 * NS_INT32SZ then None else Some (ns_get32 P (drop (NS_INT32SZ * 4) rest)))))"

fun negative_loop :: "'m ns_lib \<Rightarrow> 'm \<Rightarrow> nat list \<Rightarrow> u32 \<Rightarrow> u32" where
  "negative_loop P h [] result = result"
| "negative_loop P h (n # ns) result =
     (case ns_parserr P h ns_s_ns n of
        None \<Rightarrow> negative_loop P h ns result
      | Some rr \<Rightarrow>
          if rr_type rr = ns_t_soa then
            (case soa_minimum P (rr_rdata rr) of
               None \<Rightarrow> negative_loop P h ns result
             | Some ttl \<Rightarrow>
                 (let rec_result = (if ttl < rr_ttl rr then ttl else rr_ttl rr)
                  in negative_loop P h ns (if n = 0 \<or> rec_result < result then rec_result else result)))
          else negative_loop P h ns result)"

definition answer_getNegativeTTL :: "'m ns_lib \<Rightarrow> 'm \<Rightarrow> u32" where
  "answer_getNegativeTTL P h = negative_loop P h [0 ..< ns_msg_count P h ns_s_ns] 0"

fun ttl_loop :: "'m ns_lib \<Rightarrow> 'm \<Rightarrow> nat list \<Rightarrow> u32 \<Rightarrow> u32" where
  "ttl_loop P h [] result = result"
| "ttl_loop P h (n # ns) result =
     (case ns_parserr P h ns_s_an n of
        None \<Rightarrow> ttl_loop P h ns result
      | Some rr \<Rightarrow> ttl_loop P h ns (if n = 0 \<or> rr_ttl rr < result then rr_ttl rr else result))"

definition answer_getTTL :: "'m ns_lib \<Rightarrow> bytes \<Rightarrow> u32" where
  "answer_getTTL P answer =
     (case ns_initparse P answer of
        None \<Rightarrow> 0
      | Some h \<Rightarrow>
          (let ancount = ns_msg_count P h ns_s_an in
           if ancount = 0 then answer_getNegativeTTL P h else ttl_loop P h [0 ..< ancount] 0))"

section \<open>The smallest time to live\<close>

lemma ttl_loop_fold:
  "0 \<notin> set ns \<Longrightarrow> ttl_loop P h ns r = fold min (map rr_ttl (List.map_filter (ns_parserr P h ns_s_an) ns)) r"
proof (induction ns arbitrary: r)
  case (Cons n ns)
  then show ?case by (cases "ns_parserr P h ns_s_an n") (auto simp: map_filter_simps min_def)
qed (simp add: map_filter_simps)

lemma fold_min_zero: "fold min xs (0 :: u32) = 0"
  by (induction xs) (simp_all add: min_def)

text \<open>
  The code goes on after a record that cannot be parsed: the result is the smallest time to live among the
  records that can be parsed, or 0 if the first one cannot.
\<close>

lemma answer_ttl_parsed:
  assumes "ns_initparse P answer = Some h" "0 < ns_msg_count P h ns_s_an"
  shows "answer_getTTL P answer = (if ns_parserr P h ns_s_an 0 = None then 0
     else Min (rr_ttl ` set (List.map_filter (ns_parserr P h ns_s_an) [0 ..< ns_msg_count P h ns_s_an])))"
proof -
  define ns where "ns = [1 ..< ns_msg_count P h ns_s_an]"
  have up: "[0 ..< ns_msg_count P h ns_s_an] = 0 # ns" "0 \<notin> set ns" using assms(2) by (simp_all add: ns_def upt_conv_Cons)
  show ?thesis
  proof (cases "ns_parserr P h ns_s_an 0")
    case None
    then show ?thesis using assms up by (simp add: answer_getTTL_def ttl_loop_fold fold_min_zero Let_def)
  next
    case (Some rr)
    have "answer_getTTL P answer = fold min (map rr_ttl (List.map_filter (ns_parserr P h ns_s_an) ns)) (rr_ttl rr)"
      using Some assms up by (simp add: answer_getTTL_def ttl_loop_fold Let_def)
    also have "\<dots> = Min (set (rr_ttl rr # map rr_ttl (List.map_filter (ns_parserr P h ns_s_an) ns)))" by (rule Min.set_eq_fold [symmetric])
    finally show ?thesis using Some up(1) by (simp add: map_filter_simps)
  qed
qed

text \<open>A negative answer is kept only for a SOA record that is the first one of its section.\<close>

lemma negative_loop_zero: "0 \<notin> set ns \<Longrightarrow> negative_loop P h ns 0 = 0"
  by (induction ns) (auto simp: Let_def split: option.splits)

lemma negative_soa_not_first:
  assumes "\<forall>rr. ns_parserr P h ns_s_ns 0 = Some rr \<longrightarrow> rr_type rr \<noteq> ns_t_soa"
  shows "answer_getNegativeTTL P h = 0"
proof (cases "ns_msg_count P h ns_s_ns")
  case (Suc n)
  have "negative_loop P h (0 # [1 ..< ns_msg_count P h ns_s_ns]) 0 = 0"
    using assms negative_loop_zero [of "[1 ..< ns_msg_count P h ns_s_ns]" P h] by (simp split: option.splits)
  moreover have "[0 ..< ns_msg_count P h ns_s_ns] = 0 # [1 ..< ns_msg_count P h ns_s_ns]" using Suc by (simp add: upt_conv_Cons)
  ultimately show ?thesis by (simp only: answer_getNegativeTTL_def)
qed (simp add: answer_getNegativeTTL_def)

text \<open>Records that are no SOA records do not change the result.\<close>

definition is_soa :: "'m ns_lib \<Rightarrow> 'm \<Rightarrow> nat \<Rightarrow> bool" where
  "is_soa P h n \<longleftrightarrow> (case ns_parserr P h ns_s_ns n of None \<Rightarrow> False | Some rr \<Rightarrow> rr_type rr = ns_t_soa)"

lemma negative_loop_others: "list_all (\<lambda>n. \<not> is_soa P h n) ns \<Longrightarrow> negative_loop P h ns r = r"
  by (induction ns arbitrary: r) (auto simp: is_soa_def split: option.splits)

lemma negative_soa_first:
  assumes "0 < ns_msg_count P h ns_s_ns" "ns_parserr P h ns_s_ns 0 = Some rr" "rr_type rr = ns_t_soa"
    and "soa_minimum P (rr_rdata rr) = Some ttl" "list_all (\<lambda>n. \<not> is_soa P h n) [1 ..< ns_msg_count P h ns_s_ns]"
  shows "answer_getNegativeTTL P h = min ttl (rr_ttl rr)"
proof -
  have "[0 ..< ns_msg_count P h ns_s_ns] = 0 # [1 ..< ns_msg_count P h ns_s_ns]" using assms(1) by (simp add: upt_conv_Cons)
  then show ?thesis using assms(2-5) by (auto simp: answer_getNegativeTTL_def negative_loop_others Let_def min_def)
qed

lemma map_filter_all:
  "\<forall>x \<in> set xs. f x \<noteq> None \<Longrightarrow> List.map_filter f xs = map (the \<circ> f) xs"
  by (induction xs) (auto simp: map_filter_simps)


definition demo_lib :: "ns_rr list ns_lib" where
  "demo_lib = \<lparr>ns_initparse = (\<lambda>b. if b = [] then None
       else Some [\<lparr>rr_type = 1, rr_ttl = 300, rr_rdata = []\<rparr>, \<lparr>rr_type = 1, rr_ttl = 60, rr_rdata = []\<rparr>]),
     ns_msg_count = (\<lambda>h s. length h), ns_parserr = (\<lambda>h s n. if n < length h then Some (h ! n) else None),
     ns_name_skip = (\<lambda>b. None), ns_get32 = (\<lambda>b. 0)\<rparr>"


end
