(* ===== verification/Res_Config.thy ===== *)
theory Res_Config
  imports Res_Cache_Lru Res_Stats Res_Answer
begin

text \<open>
  resolv/res_cache.cpp, the configuration of the resolver: for every network its cache, its servers with
  their statistics, and its search domains. The list of networks is the list of the program, in its order;
  an array is a list of its length. \<open>None\<close> as a result stands for an access outside an array or to memory
  that is not allocated, or for a signed overflow.
\<close>

section \<open>State\<close>

text \<open>The \<open>ai_addrlen\<close> bytes at \<open>ai_addr\<close>, and whether there is a next element.\<close>

record addrinfo =
  ai_addr :: "bytes option"
  ai_addrlen :: nat
  ai_next :: bool

abbreviation MAXNS :: nat where "MAXNS \<equiv> 4"
abbreviation MAXDNSRCH :: nat where "MAXDNSRCH \<equiv> 6"
abbreviation MAXDNSRCHPATH :: nat where "MAXDNSRCHPATH \<equiv> 256"
abbreviation E2BIG :: int where "E2BIG \<equiv> 7"
abbreviation EMSGSIZE :: int where "EMSGSIZE \<equiv> 90"
abbreviation NUL :: char where "NUL \<equiv> CHR 0x00"
abbreviation INT_MAX :: int where "INT_MAX \<equiv> 2147483647"

record resolv_cache_info =
  ci_netid :: netid
  ci_cache :: resolv_cache
  ci_nscount :: nat
  nameservers :: "string option list"
  nsaddrinfo :: "addrinfo option list"
  revision_id :: int
  ci_params :: res_params
  nsstats :: "res_stats list"
  defdname :: string
  dnsrch_offset :: "int list"

section \<open>The list of networks\<close>

fun find_cache_info :: "netid \<Rightarrow> resolv_cache_info list \<Rightarrow> resolv_cache_info option" where
  "find_cache_info netid [] = None"
| "find_cache_info netid (x # xs) = (if ci_netid x = netid then Some x else find_cache_info netid xs)"

text \<open>A write through the pointer that \<open>find_cache_info_locked\<close> returns.\<close>

fun update_cache_info :: "netid \<Rightarrow> resolv_cache_info \<Rightarrow> resolv_cache_info list \<Rightarrow> resolv_cache_info list" where
  "update_cache_info netid y [] = []"
| "update_cache_info netid y (x # xs) = (if ci_netid x = netid then y # xs else x # update_cache_info netid y xs)"

definition find_named_cache :: "netid \<Rightarrow> resolv_cache_info list \<Rightarrow> resolv_cache option" where
  "find_named_cache netid xs = map_option ci_cache (find_cache_info netid xs)"

definition create_cache_info :: "netid \<Rightarrow> resolv_cache \<Rightarrow> resolv_cache_info" where
  "create_cache_info netid c = \<lparr>ci_netid = netid, ci_cache = c, ci_nscount = 0, nameservers = replicate MAXNS None, nsaddrinfo = replicate MAXNS None,
     revision_id = 0, ci_params = \<lparr>sample_validity = 0, success_threshold = 0, min_samples = 0, max_samples = 0, base_timeout_msec = 0\<rparr>,
     nsstats = replicate MAXNS res_stats_new, defdname = replicate MAXDNSRCHPATH NUL, dnsrch_offset = replicate (MAXDNSRCH + 1) 0\<rparr>"

definition insert_cache_info :: "resolv_cache_info \<Rightarrow> resolv_cache_info list \<Rightarrow> resolv_cache_info list" where
  "insert_cache_info x xs = xs @ [x]"

text \<open>\<open>alloc\<close> is whether the memory for a new entry and its cache can be allocated.\<close>

definition get_res_cache_for_net :: "bool \<Rightarrow> netid \<Rightarrow> resolv_cache_info list \<Rightarrow> resolv_cache_info list" where
  "get_res_cache_for_net alloc netid xs =
     (case find_named_cache netid xs of
        Some c \<Rightarrow> xs
      | None \<Rightarrow> if alloc then insert_cache_info (create_cache_info netid resolv_cache_create) xs else xs)"

fun resolv_delete_cache_for_net :: "netid \<Rightarrow> resolv_cache_info list \<Rightarrow> resolv_cache_info list option" where
  "resolv_delete_cache_for_net netid [] = Some []"
| "resolv_delete_cache_for_net netid (x # xs) =
     (if ci_netid x = netid then (case cache_flush (ci_cache x) of None \<Rightarrow> None | Some c \<Rightarrow> Some xs)
      else map_option ((#) x) (resolv_delete_cache_for_net netid xs))"

definition resolv_has_nameservers :: "netid \<Rightarrow> resolv_cache_info list \<Rightarrow> bool" where
  "resolv_has_nameservers netid xs = (case find_cache_info netid xs of None \<Rightarrow> False | Some x \<Rightarrow> ci_nscount x > 0)"

section \<open>Servers\<close>

definition SUCCESS_THRESHOLD :: nat where "SUCCESS_THRESHOLD = 75"
definition NSSAMPLE_VALIDITY :: nat where "NSSAMPLE_VALIDITY = 1800"

definition resolv_set_default_params :: res_params where
  "resolv_set_default_params = \<lparr>sample_validity = NSSAMPLE_VALIDITY, success_threshold = SUCCESS_THRESHOLD, min_samples = 0, max_samples = 0,
     base_timeout_msec = 0\<rparr>"

text \<open>The loop writes the counters of the first server each time.\<close>

definition res_cache_clear_stats :: "resolv_cache_info \<Rightarrow> resolv_cache_info" where
  "res_cache_clear_stats x =
     x\<lparr>nsstats := ((\<lambda>sts. sts[0 := (sts ! 0)\<lparr>sample_count := 0, sample_next := 0\<rparr>]) ^^ MAXNS) (nsstats x)\<rparr>"

definition free_nameservers :: "resolv_cache_info \<Rightarrow> resolv_cache_info" where
  "free_nameservers x =
     (let n = ci_nscount x;
          x1 = x\<lparr>nameservers := replicate n None @ drop n (nameservers x), nsaddrinfo := replicate n None @ drop n (nsaddrinfo x),
                 nsstats := map (\<lambda>st. st\<lparr>sample_count := 0, sample_next := 0\<rparr>) (take n (nsstats x)) @ drop n (nsstats x), ci_nscount := 0\<rparr>;
          x2 = res_cache_clear_stats x1
      in x2\<lparr>revision_id := revision_id x2 + 1\<rparr>)"

text \<open>The names below \<open>nscount\<close> are set, see \<open>info_ok\<close>.\<close>

definition resolv_is_nameservers_equal :: "resolv_cache_info \<Rightarrow> string list \<Rightarrow> bool" where
  "resolv_is_nameservers_equal x servers \<longleftrightarrow>
     ci_nscount x = length servers \<and>
     list_all (\<lambda>s. case s of None \<Rightarrow> False | Some n \<Rightarrow> n \<in> set servers) (take (length servers) (nameservers x))"

definition set_nameservers :: "string list \<Rightarrow> addrinfo list \<Rightarrow> res_params option \<Rightarrow> resolv_cache_info \<Rightarrow> resolv_cache_info" where
  "set_nameservers servers ais params x =
     (let old_max_samples = max_samples (ci_params x);
          x1 = x\<lparr>ci_params := (case params of Some p \<Rightarrow> p | None \<Rightarrow> resolv_set_default_params)\<rparr>
      in if \<not> resolv_is_nameservers_equal x1 servers then
           (let x2 = free_nameservers x1; n = length servers;
                x3 = x2\<lparr>nsaddrinfo := map Some ais @ drop n (nsaddrinfo x2), nameservers := map Some servers @ drop n (nameservers x2), ci_nscount := n\<rparr>;
                x4 = res_cache_clear_stats x3
            in x4\<lparr>revision_id := revision_id x4 + 1\<rparr>)
         else if max_samples (ci_params x1) \<noteq> old_max_samples then
           (let x2 = res_cache_clear_stats x1 in x2\<lparr>revision_id := revision_id x2 + 1\<rparr>)
         else x1)"

section \<open>Search domains\<close>

definition is_white :: "char \<Rightarrow> bool" where
  "is_white c \<longleftrightarrow> c = CHR '' '' \<or> c = CHR 0x09"

text \<open>\<open>strlcpy\<close> into an array, and the replacement of the first newline.\<close>

definition strlcpy :: "string \<Rightarrow> string \<Rightarrow> string" where
  "strlcpy buf src = (let s = take (length buf - 1) src in s @ [NUL] @ drop (length s + 1) buf)"

definition cut_newline :: "string \<Rightarrow> string" where
  "cut_newline buf =
     (let s = takeWhile (\<lambda>c. c \<noteq> NUL) buf; k = length (takeWhile (\<lambda>c. c \<noteq> CHR 0x0A) s)
      in if k < length s then buf[k := NUL] else buf)"

function skip_white :: "string \<Rightarrow> nat \<Rightarrow> nat option" where
  "skip_white buf i = (if i \<ge> length buf then None else if is_white (buf ! i) then skip_white buf (i + 1) else Some i)"
  by auto
termination by (relation "measure (\<lambda>(buf, i). length buf - i)") auto

function end_domain :: "string \<Rightarrow> nat \<Rightarrow> (string \<times> nat) option" where
  "end_domain buf i =
     (if i \<ge> length buf then None
      else if buf ! i = NUL then Some (buf, i)
      else if is_white (buf ! i) then Some (buf[i := NUL], i + 1)
      else end_domain buf (i + 1))"
  by auto
termination by (relation "measure (\<lambda>(buf, i). length buf - i)") auto

declare skip_white.simps [simp del] end_domain.simps [simp del]

text \<open>\<open>n\<close> more offsets fit.\<close>

fun search_loop :: "nat \<Rightarrow> string \<Rightarrow> nat \<Rightarrow> (string \<times> int list) option" where
  "search_loop 0 buf i = Some (buf, [])"
| "search_loop (Suc n) buf i =
     (case skip_white buf i of
        None \<Rightarrow> None
      | Some j \<Rightarrow>
          if buf ! j = NUL then Some (buf, [])
          else case end_domain buf j of
              None \<Rightarrow> None
            | Some (buf', k) \<Rightarrow> map_option (\<lambda>(b, offs). (b, int j # offs)) (search_loop n buf' k))"

definition set_search_domains :: "string \<Rightarrow> resolv_cache_info \<Rightarrow> resolv_cache_info option" where
  "set_search_domains domains x =
     map_option (\<lambda>(buf, offs). x\<lparr>defdname := buf, dnsrch_offset := offs @ [-1] @ drop (length offs + 1) (dnsrch_offset x)\<rparr>)
       (search_loop MAXDNSRCH (cut_newline (strlcpy (defdname x) domains)) 0)"

text \<open>
  \<open>getaddr\<close> stands for \<open>getaddrinfo_numeric\<close> with the port of DNS. The revision is an \<open>int\<close> that only
  counts up, so one of the increments of \<open>set_nameservers\<close> overflows exactly if its last value does not fit.
\<close>

definition resolv_set_nameservers_for_net ::
  "(string \<Rightarrow> addrinfo option) \<Rightarrow> bool \<Rightarrow> netid \<Rightarrow> string list \<Rightarrow> string \<Rightarrow> res_params option \<Rightarrow> resolv_cache_info list \<Rightarrow>
   (int \<times> resolv_cache_info list) option" where
  "resolv_set_nameservers_for_net getaddr alloc netid servers domains params xs =
     (if length servers > MAXNS then Some (E2BIG, xs)
      else case those (map getaddr servers) of
          None \<Rightarrow> Some (EINVAL, xs)
        | Some ais \<Rightarrow>
            (let xs1 = get_res_cache_for_net alloc netid xs in
             case find_cache_info netid xs1 of
               None \<Rightarrow> Some (0, xs1)
             | Some x \<Rightarrow>
                 (let x1 = set_nameservers servers ais params x in
                  if revision_id x1 > INT_MAX then None
                  else map_option (\<lambda>y. (0, update_cache_info netid y xs1)) (set_search_domains domains x1))))"

section \<open>What lookups read\<close>

text \<open>The C string at an offset.\<close>

definition cstr :: "string \<Rightarrow> nat \<Rightarrow> string" where
  "cstr buf i = takeWhile (\<lambda>c. c \<noteq> NUL) (drop i buf)"

fun info_domains :: "string \<Rightarrow> int list \<Rightarrow> string list" where
  "info_domains buf [] = []"
| "info_domains buf (k # ks) =
     (if k < 0 \<or> nat k \<ge> length buf \<or> cstr buf (nat k) = [] then [] else take (MAXDNSRCHPATH - 1) (cstr buf (nat k)) # info_domains buf ks)"

text \<open>The checks on the address of a server; \<open>sockaddr_size\<close> is that of \<open>sockaddr\<close>, \<open>storage_size\<close> that of \<open>sockaddr_storage\<close>.\<close>

fun info_servers :: "nat \<Rightarrow> nat \<Rightarrow> addrinfo option list \<Rightarrow> (int + bytes list) option" where
  "info_servers sockaddr_size storage_size [] = Some (Inr [])"
| "info_servers sockaddr_size storage_size (a # as) =
     (case a of
        None \<Rightarrow> None
      | Some ai \<Rightarrow>
          if ai_addrlen ai < sockaddr_size \<or> ai_addrlen ai > storage_size then Some (Inl EMSGSIZE)
          else case ai_addr ai of
              None \<Rightarrow> Some (Inl ENOENT)
            | Some addr \<Rightarrow>
                if ai_next ai then Some (Inl ENOTUNIQ)
                else map_option (map_sum id ((#) addr)) (info_servers sockaddr_size storage_size as))"

record net_info =
  ni_servers :: "bytes list"
  ni_domains :: "string list"
  ni_params :: res_params
  ni_stats :: "res_stats list"

text \<open>The error number with -1, or the revision with what is copied out; \<open>None\<close> for the information if there is no such network.\<close>

definition res_stats_get_info_for_net :: "nat \<Rightarrow> nat \<Rightarrow> netid \<Rightarrow> resolv_cache_info list \<Rightarrow> (int + int \<times> net_info option) option" where
  "res_stats_get_info_for_net sockaddr_size storage_size netid xs =
     (case find_cache_info netid xs of
        None \<Rightarrow> Some (Inr (-1, None))
      | Some x \<Rightarrow>
          if ci_nscount x > MAXNS then Some (Inl EFAULT)
          else map_option (map_sum id (\<lambda>addrs. (revision_id x, Some \<lparr>ni_servers = addrs,
                 ni_domains = info_domains (defdname x) (take MAXDNSRCH (dnsrch_offset x)), ni_params = ci_params x,
                 ni_stats = take (ci_nscount x) (nsstats x)\<rparr>)))
              (info_servers sockaddr_size storage_size (take (ci_nscount x) (nsaddrinfo x))))"

definition resolv_cache_get_resolver_stats :: "netid \<Rightarrow> resolv_cache_info list \<Rightarrow> (int \<times> res_params \<times> res_stats list) option" where
  "resolv_cache_get_resolver_stats netid xs = map_option (\<lambda>x. (revision_id x, ci_params x, nsstats x)) (find_cache_info netid xs)"

definition resolv_cache_add_resolver_stats_sample ::
  "netid \<Rightarrow> int \<Rightarrow> nat \<Rightarrow> res_sample \<Rightarrow> int \<Rightarrow> resolv_cache_info list \<Rightarrow> resolv_cache_info list option" where
  "resolv_cache_add_resolver_stats_sample netid revision ns sample cap xs =
     (if cap \<le> 0 then Some xs
      else case find_cache_info netid xs of
          None \<Rightarrow> Some xs
        | Some x \<Rightarrow>
            if revision_id x = revision then
              (if ns < length (nsstats x) then
                 map_option (\<lambda>st. update_cache_info netid (x\<lparr>nsstats := (nsstats x)[ns := st]\<rparr>) xs)
                   (res_cache_add_stats_sample (nsstats x ! ns) sample (nat cap))
               else None)
            else Some xs)"

text \<open>
  The state of a lookup. \<open>nsaddr_list\<close> and \<open>rs_ext\<close> hold addresses as arrays of structures of a fixed
  size; \<open>dnsrch\<close> are pointers into \<open>rs_defdname\<close>.
\<close>

record res_state =
  rs_netid :: netid
  rs_nscount :: nat
  nsaddr_list :: "bytes list"
  rs_ext :: "bytes list option"
  rs_defdname :: string
  dnsrch :: "nat option list"

definition memcpy :: "bytes \<Rightarrow> bytes \<Rightarrow> bytes" where
  "memcpy dst src = src @ drop (length src) dst"

text \<open>\<open>sin_family = AF_UNSPEC\<close>\<close>

definition unspec_family :: "bytes \<Rightarrow> bytes" where
  "unspec_family addr = memcpy addr [0, 0]"

definition populate_server :: "nat \<Rightarrow> nat \<Rightarrow> nat \<Rightarrow> addrinfo \<Rightarrow> res_state \<Rightarrow> res_state option" where
  "populate_server union_size in_size nserv ai statp =
     (if ai_addrlen ai \<le> union_size then
        (case ai_addr ai of
           None \<Rightarrow> None
         | Some addr \<Rightarrow>
             Some (case rs_ext statp of
                Some nsaddrs \<Rightarrow>
                  statp\<lparr>rs_ext := Some (nsaddrs[nserv := memcpy (nsaddrs ! nserv) addr]),
                        nsaddr_list := (nsaddr_list statp)[nserv := unspec_family (nsaddr_list statp ! nserv)]\<rparr>
              | None \<Rightarrow>
                  if ai_addrlen ai \<le> in_size then
                    statp\<lparr>nsaddr_list := (nsaddr_list statp)[nserv := memcpy (nsaddr_list statp ! nserv) addr]\<rparr>
                  else statp\<lparr>nsaddr_list := (nsaddr_list statp)[nserv := unspec_family (nsaddr_list statp ! nserv)]\<rparr>))
      else Some statp)"

fun populate_servers :: "nat \<Rightarrow> nat \<Rightarrow> nat \<Rightarrow> addrinfo option list \<Rightarrow> res_state \<Rightarrow> res_state option" where
  "populate_servers union_size in_size nserv [] statp = Some (statp\<lparr>rs_nscount := nserv\<rparr>)"
| "populate_servers union_size in_size nserv (None # as) statp = Some (statp\<lparr>rs_nscount := nserv\<rparr>)"
| "populate_servers union_size in_size nserv (Some ai # as) statp =
     (case populate_server union_size in_size nserv ai statp of
        None \<Rightarrow> None
      | Some statp' \<Rightarrow> populate_servers union_size in_size (nserv + 1) as statp')"

definition resolv_populate_res_for_net :: "nat \<Rightarrow> nat \<Rightarrow> resolv_cache_info list \<Rightarrow> res_state \<Rightarrow> res_state option" where
  "resolv_populate_res_for_net union_size in_size xs statp =
     (case find_cache_info (rs_netid statp) xs of
        None \<Rightarrow> Some statp
      | Some x \<Rightarrow>
          map_option (\<lambda>statp1.
              let ps = map (\<lambda>k. Some (nat k)) (takeWhile (\<lambda>k. k \<noteq> -1) (take MAXDNSRCH (dnsrch_offset x)))
              in statp1\<lparr>rs_defdname := defdname x, dnsrch := ps @ drop (length ps) (dnsrch statp1)\<rparr>)
            (populate_servers union_size in_size 0 (take MAXNS (nsaddrinfo x)) statp))"

section \<open>The cache of a network\<close>

definition set_cache :: "netid \<Rightarrow> resolv_cache \<Rightarrow> resolv_cache_info list \<Rightarrow> resolv_cache_info list" where
  "set_cache netid c xs = (case find_cache_info netid xs of None \<Rightarrow> xs | Some x \<Rightarrow> update_cache_info netid (x\<lparr>ci_cache := c\<rparr>) xs)"

definition net_cache_lookup ::
  "int \<Rightarrow> bool \<Rightarrow> bool \<Rightarrow> netid \<Rightarrow> bytes \<Rightarrow> nat \<Rightarrow> resolv_cache_info list \<Rightarrow> (lookup_result \<times> resolv_cache_info list) option" where
  "net_cache_lookup now no_cache_lookup no_cache_store netid query answersize xs =
     (if no_cache_lookup then Some (Done RESOLV_CACHE_SKIP [] None, xs)
      else case entry_init_key query of
          None \<Rightarrow> None
        | Some (khash, ok) \<Rightarrow>
            if \<not> ok then Some (Done RESOLV_CACHE_UNSUPPORTED [] None, xs)
            else case find_named_cache netid xs of
                None \<Rightarrow> Some (Done RESOLV_CACHE_UNSUPPORTED [] None, xs)
              | Some c \<Rightarrow> map_option (\<lambda>(r, c'). (r, set_cache netid c' xs)) (resolv_cache_lookup now no_cache_lookup no_cache_store query answersize c))"

text \<open>A thread that waited looks the cache up again, since it may have been deleted.\<close>

definition net_cache_resume :: "int \<Rightarrow> netid \<Rightarrow> bytes \<Rightarrow> nat \<Rightarrow> resolv_cache_info list \<Rightarrow> (lookup_result \<times> resolv_cache_info list) option" where
  "net_cache_resume now netid query answersize xs =
     (case find_named_cache netid xs of
        None \<Rightarrow> Some (Done RESOLV_CACHE_NOTFOUND [] None, xs)
      | Some c \<Rightarrow> map_option (\<lambda>(r, c'). (r, set_cache netid c' xs)) (cache_lookup_again now query answersize c))"

definition net_cache_add :: "'m ns_lib \<Rightarrow> int \<Rightarrow> netid \<Rightarrow> bytes \<Rightarrow> bytes \<Rightarrow> nat option \<Rightarrow> resolv_cache_info list \<Rightarrow> resolv_cache_info list option" where
  "net_cache_add P now netid query answer fresh xs =
     (case entry_init_key query of
        None \<Rightarrow> None
      | Some (khash, ok) \<Rightarrow>
          (case (if ok then find_named_cache netid xs else None) of
             None \<Rightarrow> Some xs
           | Some c \<Rightarrow> map_option (\<lambda>c'. set_cache netid c' xs) (resolv_cache_add (\<lambda>a. uint (answer_getTTL P a)) now query answer fresh c)))"

definition net_cache_query_failed :: "bool \<Rightarrow> bool \<Rightarrow> netid \<Rightarrow> bytes \<Rightarrow> resolv_cache_info list \<Rightarrow> resolv_cache_info list option" where
  "net_cache_query_failed no_cache_lookup no_cache_store netid query xs =
     (if no_cache_store \<or> no_cache_lookup then Some xs
      else case entry_init_key query of
          None \<Rightarrow> None
        | Some (khash, ok) \<Rightarrow>
            (case (if ok then find_named_cache netid xs else None) of
               None \<Rightarrow> Some xs
             | Some c \<Rightarrow> map_option (\<lambda>c'. set_cache netid c' xs) (resolv_cache_query_failed no_cache_lookup no_cache_store query c)))"

section \<open>The search domains are words\<close>

function domain_words :: "string \<Rightarrow> string list" where
  "domain_words s =
     (let t = dropWhile is_white s in
      if t = [] then [] else takeWhile (\<lambda>c. \<not> is_white c) t # domain_words (dropWhile (\<lambda>c. \<not> is_white c) t))"
  by auto
termination
proof (relation "measure length", goal_cases)
  case (2 s t)
  then have "\<not> is_white (hd t)" "t \<noteq> []" using hd_dropWhile [of is_white s] by auto
  then have "length (dropWhile (\<lambda>c. \<not> is_white c) t) < length t"
    by (cases t) (auto simp: le_imp_less_Suc length_dropWhile_le)
  then show ?case using 2 length_dropWhile_le [of is_white s] by simp
qed simp

declare domain_words.simps [simp del]

lemma white_not_nul: "is_white c \<Longrightarrow> c \<noteq> NUL"
  by (auto simp: is_white_def)

lemma skip_white_at:
  "list_all is_white w \<Longrightarrow> \<not> is_white c \<Longrightarrow> skip_white (pre @ w @ c # r) (length pre) = Some (length pre + length w)"
proof (induction w arbitrary: pre)
  case Nil
  then show ?case by (subst skip_white.simps) simp
next
  case (Cons a w)
  then show ?case using Cons.IH [of "pre @ [a]"] by (subst skip_white.simps) simp
qed

lemma end_domain_at:
  "list_all (\<lambda>a. \<not> is_white a \<and> a \<noteq> NUL) d \<Longrightarrow> is_white c \<or> c = NUL \<Longrightarrow>
   end_domain (pre @ d @ c # r) (length pre) =
     Some (if c = NUL then (pre @ d @ c # r, length pre + length d) else (pre @ d @ NUL # r, length pre + length d + 1))"
proof (induction d arbitrary: pre)
  case Nil
  then show ?case by (subst end_domain.simps) (auto simp: white_not_nul)
next
  case (Cons a d)
  then show ?case using Cons.IH [of "pre @ [a]"] by (subst end_domain.simps) simp
qed

lemma search_at_nul: "search_loop n (pre @ NUL # r) (length pre) = Some (pre @ NUL # r, [])"
  using skip_white_at [of "[]" NUL pre r] by (cases n) (simp_all add: is_white_def)

lemma cstr_at: "NUL \<notin> set d \<Longrightarrow> cstr (pre @ d @ NUL # r) (length pre) = d"
  by (induction d) (auto simp: cstr_def takeWhile_append)

lemma split_words:
  obtains w where "list_all is_white w" "s = w" "domain_words s = []"
  | w d where "list_all is_white w" "list_all (\<lambda>a. \<not> is_white a) d" "d \<noteq> []" "s = w @ d" "domain_words s = [d]"
  | w d c t where "list_all is_white w" "list_all (\<lambda>a. \<not> is_white a) d" "d \<noteq> []" "is_white c" "s = w @ d @ c # t" "domain_words s = d # domain_words t"
proof -
  define w where "w = takeWhile is_white s"
  define t where "t = dropWhile is_white s"
  define d where "d = takeWhile (\<lambda>c. \<not> is_white c) t"
  define u where "u = dropWhile (\<lambda>c. \<not> is_white c) t"
  have s: "s = w @ t" "t = d @ u" by (simp_all add: w_def t_def d_def u_def)
  have w: "list_all is_white w" "list_all (\<lambda>a. \<not> is_white a) d" by (auto simp: w_def d_def list_all_iff dest: set_takeWhileD)
  have ws: "domain_words s = (if t = [] then [] else d # domain_words u)" by (subst domain_words.simps) (simp add: t_def d_def u_def Let_def)
  show thesis
  proof (cases "t = []")
    case True
    then show thesis using that(1) [OF w(1)] s ws by simp
  next
    case False
    then have "\<not> is_white (hd t)" unfolding t_def by (rule hd_dropWhile)
    then have d: "d \<noteq> []" using False by (cases t) (simp_all add: d_def)
    show thesis
    proof (cases u)
      case Nil
      then have "domain_words s = [d]" using ws False by (simp add: domain_words.simps)
      then show thesis using that(2) [OF w d] s Nil by simp
    next
      case (Cons c v)
      then have c: "is_white c" using hd_dropWhile [of "\<lambda>c. \<not> is_white c" t] by (simp add: u_def)
      then have "domain_words u = domain_words v" unfolding Cons by (subst (1 2) domain_words.simps) simp
      then show thesis using that(3) [OF w d c] s Cons ws False by simp
    qed
  qed
qed

lemma search_words:
  "NUL \<notin> set s \<Longrightarrow>
   \<exists>u offs. search_loop n (pre @ s @ NUL # r) (length pre) = Some (pre @ u @ NUL # r, offs) \<and> length u = length s \<and>
     map (\<lambda>k. cstr (pre @ u @ NUL # r) (nat k)) offs = take n (domain_words s) \<and> list_all (\<lambda>k. 0 \<le> k \<and> k < int (length pre + length s)) offs \<and>
     length offs \<le> n"
proof (induction n arbitrary: pre s)
  case (Suc n)
  show ?case
  proof (cases rule: split_words [of s])
    case (1 w)
    then show ?thesis using skip_white_at [of w NUL pre r] Suc.prems
      by (intro exI [of _ s] exI [of _ "[]"]) (simp add: is_white_def nth_append)
  next
    case (2 w d)
    obtain a d' where a: "d = a # d'" "\<not> is_white a" using 2(2,3) by (cases d) auto
    have sk: "skip_white (pre @ s @ NUL # r) (length pre) = Some (length pre + length w)"
      using skip_white_at [OF 2(1) a(2), of pre "d' @ NUL # r"] 2(4) a(1) by simp
    have nn: "(pre @ s @ NUL # r) ! (length pre + length w) \<noteq> NUL" using Suc.prems 2(4) a(1) by (auto simp: nth_append)
    have "end_domain ((pre @ w) @ d @ NUL # r) (length (pre @ w)) = Some ((pre @ w) @ d @ NUL # r, length (pre @ w) + length d)"
      using end_domain_at [of d NUL "pre @ w" r] 2(2,4) Suc.prems by (auto simp: list_all_iff)
    moreover have "search_loop n ((pre @ w @ d) @ NUL # r) (length (pre @ w @ d)) = Some ((pre @ w @ d) @ NUL # r, [])" by (rule search_at_nul)
    moreover have "cstr ((pre @ w) @ d @ NUL # r) (length (pre @ w)) = d" by (rule cstr_at) (use Suc.prems 2(4) in auto)
    ultimately show ?thesis using sk nn 2(3,4,5) by (intro exI [of _ s] exI [of _ "[int (length pre + length w)]"]) (simp add: add.assoc flip: of_nat_add)
  next
    case (3 w d c t)
    obtain a d' where a: "d = a # d'" "\<not> is_white a" using 3(2,3) by (cases d) auto
    have sk: "skip_white (pre @ s @ NUL # r) (length pre) = Some (length pre + length w)"
      using skip_white_at [OF 3(1) a(2), of pre "d' @ c # t @ NUL # r"] 3(5) a(1) by simp
    have nn: "(pre @ s @ NUL # r) ! (length pre + length w) \<noteq> NUL" using Suc.prems 3(5) a(1) by (auto simp: nth_append)
    have nul: "NUL \<notin> set t" "NUL \<notin> set d" using Suc.prems 3(5) by auto
    have ed: "end_domain ((pre @ w) @ d @ c # (t @ NUL # r)) (length (pre @ w)) = Some ((pre @ w) @ d @ NUL # (t @ NUL # r), length (pre @ w) + length d + 1)"
      using end_domain_at [of d c "pre @ w" "t @ NUL # r"] 3(2,4) nul(2) white_not_nul by (auto simp: list_all_iff)
    obtain u offs where IH: "search_loop n ((pre @ w @ d @ [NUL]) @ t @ NUL # r) (length (pre @ w @ d @ [NUL])) = Some ((pre @ w @ d @ [NUL]) @ u @ NUL # r, offs)"
      "length u = length t" "map (\<lambda>k. cstr ((pre @ w @ d @ [NUL]) @ u @ NUL # r) (nat k)) offs = take n (domain_words t)"
      "list_all (\<lambda>k. 0 \<le> k \<and> k < int (length (pre @ w @ d @ [NUL]) + length t)) offs" "length offs \<le> n"
      using Suc.IH [OF nul(1), of "pre @ w @ d @ [NUL]"] by blast
    have "cstr ((pre @ w) @ d @ NUL # (u @ NUL # r)) (length (pre @ w)) = d" by (rule cstr_at) (rule nul(2))
    then show ?thesis using sk nn ed IH 3(3,5,6)
      by (intro exI [of _ "w @ d @ NUL # u"] exI [of _ "int (length pre + length w) # offs"]) (simp add: add.assoc flip: of_nat_add)
  qed
qed simp

lemma cut_strlcpy:
  assumes "NUL \<notin> set domains" "length buf = MAXDNSRCHPATH"
  shows "\<exists>r. cut_newline (strlcpy buf domains) = takeWhile (\<lambda>c. c \<noteq> CHR 0x0A) (take 255 domains) @ NUL # r \<and>
     length (cut_newline (strlcpy buf domains)) = MAXDNSRCHPATH"
proof -
  define t where "t = take 255 domains"
  define u where "u = takeWhile (\<lambda>c. c \<noteq> CHR 0x0A) t"
  have t: "NUL \<notin> set t" "length t \<le> 255" using assms(1) in_set_takeD [of NUL 255 domains] by (auto simp: t_def)
  have cp: "strlcpy buf domains = t @ NUL # drop (length t + 1) buf" by (simp add: strlcpy_def assms(2) t_def Let_def)
  have len: "length (strlcpy buf domains) = 256" using t(2) assms(2) by (simp add: cp)
  have tw: "takeWhile (\<lambda>c. c \<noteq> NUL) (strlcpy buf domains) = t" unfolding cp using t(1) by (auto simp: takeWhile_append)
  have tu: "t = u @ dropWhile (\<lambda>c. c \<noteq> CHR 0x0A) t" by (simp add: u_def)
  show ?thesis
  proof (cases "dropWhile (\<lambda>c. c \<noteq> CHR 0x0A) t")
    case Nil
    have "t = u" using tu unfolding Nil by simp
    then have "cut_newline (strlcpy buf domains) = strlcpy buf domains"
      unfolding cut_newline_def tw Let_def u_def [symmetric] by simp
    then show ?thesis unfolding t_def [symmetric] u_def [symmetric] using cp len \<open>t = u\<close> by auto
  next
    case (Cons c v)
    then have t2: "t = u @ c # v" using tu by simp
    then have "length u < length t" by simp
    then have c: "cut_newline (strlcpy buf domains) = (strlcpy buf domains)[length u := NUL]"
      by (simp add: cut_newline_def Let_def tw u_def [symmetric])
    then have "length (cut_newline (strlcpy buf domains)) = MAXDNSRCHPATH" using len by simp
    have "(strlcpy buf domains)[length u := NUL] = u @ NUL # v @ NUL # drop (length t + 1) buf" unfolding cp unfolding t2 by (simp add: list_update_append)
    then show ?thesis unfolding c [symmetric] using \<open>length (cut_newline (strlcpy buf domains)) = MAXDNSRCHPATH\<close>
      unfolding t_def [symmetric] u_def [symmetric] by blast
  qed
qed

text \<open>The search domains that a configuration stores.\<close>

definition search_domains :: "string \<Rightarrow> string list" where
  "search_domains domains = take MAXDNSRCH (domain_words (takeWhile (\<lambda>c. c \<noteq> CHR 0x0A) (take (MAXDNSRCHPATH - 1) domains)))"

lemma info_domains_map:
  "list_all (\<lambda>k. 0 \<le> k \<and> k < int (length buf)) ks \<Longrightarrow> list_all (\<lambda>k. cstr buf (nat k) \<noteq> [] \<and> length (cstr buf (nat k)) < MAXDNSRCHPATH) ks \<Longrightarrow>
   info_domains buf (ks @ -1 # r) = map (\<lambda>k. cstr buf (nat k)) ks \<and> info_domains buf ks = map (\<lambda>k. cstr buf (nat k)) ks"
  by (induction ks) auto

lemma domain_words_nonempty: "[] \<notin> set (domain_words s)"
proof (induction s rule: domain_words.induct)
  case (1 s)
  define t where "t = dropWhile is_white s"
  show ?case
  proof (cases "t = []")
    case False
    then have "\<not> is_white (hd t)" unfolding t_def by (rule hd_dropWhile)
    then have "takeWhile (\<lambda>c. \<not> is_white c) t \<noteq> []" using False by (cases t) simp_all
    then show ?thesis using 1 [OF t_def False] False by (subst domain_words.simps) (simp add: t_def Let_def)
  qed (subst domain_words.simps, simp add: t_def)
qed

lemma takeWhile_shorter: "x \<in> set xs \<Longrightarrow> \<not> P x \<Longrightarrow> length (takeWhile P xs) < length xs"
  by (induction xs) auto

lemma takeWhile_offsets:
  assumes "list_all (\<lambda>k. 0 \<le> k \<and> k < b) ks" "length ks \<le> n"
  shows "takeWhile (\<lambda>k. k \<noteq> -1) (take n (ks @ -1 # r)) = (ks :: int list)"
proof -
  have all: "\<forall>k \<in> set ks. k \<noteq> -1" using assms(1) by (auto simp: list_all_iff)
  have "take n (ks @ -1 # r) = ks @ take (n - length ks) (-1 # r)" using assms(2) by simp
  then show ?thesis using all by (cases "n - length ks") (simp_all add: takeWhile_append2 takeWhile_eq_all_conv)
qed

lemma set_search:
  assumes "NUL \<notin> set domains" "length (defdname x) = MAXDNSRCHPATH" "length (dnsrch_offset x) = MAXDNSRCH + 1"
  obtains buf offs where "set_search_domains domains x = Some (x\<lparr>defdname := buf, dnsrch_offset := offs\<rparr>)" "length buf = MAXDNSRCHPATH"
    "length offs = MAXDNSRCH + 1" "info_domains buf (take MAXDNSRCH offs) = search_domains domains"
    "map (\<lambda>k. cstr buf (nat k)) (takeWhile (\<lambda>k. k \<noteq> -1) (take MAXDNSRCH offs)) = search_domains domains"
proof -
  define t where "t = takeWhile (\<lambda>c. c \<noteq> CHR 0x0A) (take 255 domains)"
  obtain r where r: "cut_newline (strlcpy (defdname x) domains) = t @ NUL # r" "length (t @ NUL # r) = 256"
    using cut_strlcpy [OF assms(1,2)] unfolding t_def by metis
  have t: "NUL \<notin> set t" using assms(1) by (auto simp: t_def dest: set_takeWhileD in_set_takeD)
  obtain u ks where u: "search_loop 6 (t @ NUL # r) 0 = Some (u @ NUL # r, ks)" "length u = length t"
    "map (\<lambda>k. cstr (u @ NUL # r) (nat k)) ks = take 6 (domain_words t)" "list_all (\<lambda>k. 0 \<le> k \<and> k < int (length t)) ks" "length ks \<le> 6"
    using search_words [OF t, of 6 "[]" r] unfolding append_Nil list.size(3) add_0 by blast
  let ?buf = "u @ NUL # r" and ?offs = "ks @ -1 # drop (length ks + 1) (dnsrch_offset x)"
  have len: "length ?buf = 256" using r(2) u(2) by simp
  have "list_all (\<lambda>k. 0 \<le> k \<and> k < int (length ?buf)) ks" using u(4,2) by (auto simp: list_all_iff)
  moreover have "list_all (\<lambda>k. cstr ?buf (nat k) \<noteq> [] \<and> length (cstr ?buf (nat k)) < MAXDNSRCHPATH) ks"
  proof -
    have "cstr ?buf (nat k) \<noteq> []" if "k \<in> set ks" for k
      using u(3) domain_words_nonempty [of t] that by (metis image_eqI in_set_takeD list.set_map)
    moreover have "length (cstr ?buf (nat k)) < MAXDNSRCHPATH" for k
    proof -
      have "NUL \<in> set (drop (nat k) ?buf) \<Longrightarrow> length (cstr ?buf (nat k)) < length (drop (nat k) ?buf)"
        unfolding cstr_def by (rule takeWhile_shorter) auto
      moreover have "NUL \<notin> set (drop (nat k) ?buf) \<Longrightarrow> length u < nat k" by (rule ccontr) auto
      moreover have "length (cstr ?buf (nat k)) \<le> length (drop (nat k) ?buf)" unfolding cstr_def by (rule length_takeWhile_le)
      ultimately show ?thesis using len by force
    qed
    ultimately show ?thesis by (simp add: list_all_iff)
  qed
  ultimately have dom: "info_domains ?buf (take 6 ?offs) = take 6 (domain_words t)"
    using info_domains_map [of ?buf ks] u(3,5) by (cases "length ks = 6") (auto simp: take_Cons')
  have offs: "takeWhile (\<lambda>k. k \<noteq> -1) (take 6 ?offs) = ks" by (rule takeWhile_offsets [OF u(4,5)])
  have words: "take 6 (domain_words t) = search_domains domains" by (simp add: search_domains_def t_def)
  have run: "set_search_domains domains x = Some (x\<lparr>defdname := ?buf, dnsrch_offset := ?offs\<rparr>)"
    unfolding set_search_domains_def r(1) u(1) by simp
  have "length ?offs = 6 + 1" using u(5) assms(3) by simp
  then show thesis
    using that [OF run len] dom offs u(3) unfolding words by simp
qed

end
