(* ===== verification/Res_Config_Properties.thy ===== *)
theory Res_Config_Properties
  imports Res_Config
begin

text \<open>
  All calls on the configuration and the caches of the resolver, in any order, as steps on the list of
  networks; the invariant of the list, and what the calls promise to lookups.
\<close>

section \<open>Calls\<close>

datatype net_op =
  NSet bool netid "string list" string "res_params option"
| NDelete netid
| NLookup int bool bool netid bytes nat
| NResume int netid bytes nat
| NAdd int netid bytes bytes "nat option"
| NFail bool bool netid bytes
| NSample netid int nat res_sample int

type_synonym net_state = "resolv_cache_info list \<times> lookup_result list"

fun net_exec :: "(string \<Rightarrow> addrinfo option) \<Rightarrow> 'm ns_lib \<Rightarrow> net_op \<Rightarrow> net_state \<Rightarrow> net_state option" where
  "net_exec G P (NSet alloc n servers domains params) (xs, out) =
     map_option (\<lambda>(r, xs'). (xs', out)) (resolv_set_nameservers_for_net G alloc n servers domains params xs)"
| "net_exec G P (NDelete n) (xs, out) = map_option (\<lambda>xs'. (xs', out)) (resolv_delete_cache_for_net n xs)"
| "net_exec G P (NLookup now nl nst n q len) (xs, out) = map_option (\<lambda>(r, xs'). (xs', out @ [r])) (net_cache_lookup now nl nst n q len xs)"
| "net_exec G P (NResume now n q len) (xs, out) = map_option (\<lambda>(r, xs'). (xs', out @ [r])) (net_cache_resume now n q len xs)"
| "net_exec G P (NAdd now n q answer fresh) (xs, out) = map_option (\<lambda>xs'. (xs', out)) (net_cache_add P now n q answer fresh xs)"
| "net_exec G P (NFail nl nst n q) (xs, out) = map_option (\<lambda>xs'. (xs', out)) (net_cache_query_failed nl nst n q xs)"
| "net_exec G P (NSample n rv ns sample cap) (xs, out) = map_option (\<lambda>xs'. (xs', out)) (resolv_cache_add_resolver_stats_sample n rv ns sample cap xs)"

text \<open>
  What the calls may be given: domains are C strings, the revision is not about to overflow, queries are as in
  \<open>cache_enabled\<close>, an entry is allocated at an address the cache does not use, a sample is for one of the servers, and the
  ring of samples is not larger than its array.
\<close>

fun net_enabled :: "net_op \<Rightarrow> net_state \<Rightarrow> bool" where
  "net_enabled (NSet alloc n servers domains params) s \<longleftrightarrow> NUL \<notin> set domains \<and>
     (case find_cache_info n (fst s) of None \<Rightarrow> True | Some x \<Rightarrow> revision_id x \<le> INT_MAX - 2)"
| "net_enabled (NDelete n) s \<longleftrightarrow> True"
| "net_enabled (NLookup now nl nst n q len) s \<longleftrightarrow> usable q"
| "net_enabled (NResume now n q len) s \<longleftrightarrow> usable q \<and> accepted q"
| "net_enabled (NAdd now n q answer fresh) s \<longleftrightarrow> usable q \<and>
     (case find_named_cache n (fst s) of None \<Rightarrow> True | Some c \<Rightarrow> (case fresh of None \<Rightarrow> True | Some a \<Rightarrow> ents c a = None))"
| "net_enabled (NFail nl nst n q) s \<longleftrightarrow> usable q"
| "net_enabled (NSample n rv ns sample cap) s \<longleftrightarrow> ns < MAXNS \<and> cap \<le> int MAXNSSAMPLES"

fun net_of :: "net_op \<Rightarrow> netid" where
  "net_of (NSet alloc n servers domains params) = n"
| "net_of (NDelete n) = n"
| "net_of (NLookup now nl nst n q len) = n"
| "net_of (NResume now n q len) = n"
| "net_of (NAdd now n q answer fresh) = n"
| "net_of (NFail nl nst n q) = n"
| "net_of (NSample n rv ns sample cap) = n"

section \<open>The list of networks\<close>

lemma find_netid: "find_cache_info n xs = Some x \<Longrightarrow> ci_netid x = n \<and> x \<in> set xs"
  by (induction xs) (auto split: if_splits)

lemma find_None_netids: "find_cache_info n xs = None \<longleftrightarrow> n \<notin> ci_netid ` set xs"
  by (induction xs) auto

lemma find_update: "ci_netid y = n \<Longrightarrow> find_cache_info m (update_cache_info n y xs) = (if m = n \<and> find_cache_info n xs \<noteq> None then Some y else find_cache_info m xs)"
  by (induction xs) auto

lemma update_netids: "ci_netid y = n \<Longrightarrow> map ci_netid (update_cache_info n y xs) = map ci_netid xs"
  by (induction xs) auto

lemma update_set: "set (update_cache_info n y xs) \<subseteq> insert y (set xs)"
  by (induction xs) auto

lemma find_append: "find_cache_info m (xs @ [y]) = (case find_cache_info m xs of Some x \<Rightarrow> Some x | None \<Rightarrow> if ci_netid y = m then Some y else None)"
  by (induction xs) auto

lemma find_get: "find_cache_info m (get_res_cache_for_net alloc n xs) =
   (if m = n \<and> alloc \<and> find_cache_info n xs = None then Some (create_cache_info n resolv_cache_create) else find_cache_info m xs)"
  by (auto simp: get_res_cache_for_net_def find_named_cache_def insert_cache_info_def find_append create_cache_info_def split: option.splits)

lemma netid_set [simp]: "ci_netid (set_nameservers servers ais params x) = ci_netid x"
  by (simp add: set_nameservers_def Let_def free_nameservers_def res_cache_clear_stats_def)

lemma netid_search: "set_search_domains domains x = Some y \<Longrightarrow> ci_netid y = ci_netid x"
  by (auto simp: set_search_domains_def split: prod.splits)

lemma find_delete: "resolv_delete_cache_for_net n xs = Some xs' \<Longrightarrow> m \<noteq> n \<Longrightarrow> find_cache_info m xs' = find_cache_info m xs"
  by (induction xs arbitrary: xs') (auto split: if_splits option.splits)

lemma find_set_cache: "m \<noteq> n \<Longrightarrow> find_cache_info m (set_cache n c xs) = find_cache_info m xs"
  using find_netid by (auto simp: set_cache_def find_update split: option.splits)

lemmas net_defs = net_cache_lookup_def net_cache_resume_def net_cache_add_def net_cache_query_failed_def

lemma set_cases:
  assumes "resolv_set_nameservers_for_net G alloc n servers domains params xs = Some (r, xs')"
  obtains (Error) "r \<noteq> 0" "xs' = xs"
  | (No_Memory) "r = 0" "find_cache_info n (get_res_cache_for_net alloc n xs) = None" "xs' = get_res_cache_for_net alloc n xs"
  | (Done) ais x y where "r = 0" "length servers \<le> MAXNS" "those (map G servers) = Some ais" "find_cache_info n (get_res_cache_for_net alloc n xs) = Some x"
      "set_search_domains domains (set_nameservers servers ais params x) = Some y" "ci_netid x = n" "ci_netid y = n"
      "xs' = update_cache_info n y (get_res_cache_for_net alloc n xs)"
proof (cases "length servers > MAXNS \<or> those (map G servers) = None")
  case True
  then have "r = (if length servers > MAXNS then E2BIG else EINVAL) \<and> xs' = xs"
    using assms unfolding resolv_set_nameservers_for_net_def by (simp split: if_splits)
  then show thesis by (intro Error) simp_all
next
  case False
  then obtain ais where ais: "\<not> length servers > MAXNS" "those (map G servers) = Some ais" by auto
  show thesis
  proof (cases "find_cache_info n (get_res_cache_for_net alloc n xs)")
    case None
    then have "resolv_set_nameservers_for_net G alloc n servers domains params xs = Some (0, get_res_cache_for_net alloc n xs)"
      unfolding resolv_set_nameservers_for_net_def using ais by simp
    then show thesis using assms None by (intro No_Memory) simp_all
  next
    case (Some x)
    then have "resolv_set_nameservers_for_net G alloc n servers domains params xs =
        (if revision_id (set_nameservers servers ais params x) > INT_MAX then None
         else map_option (\<lambda>y. (0, update_cache_info n y (get_res_cache_for_net alloc n xs))) (set_search_domains domains (set_nameservers servers ais params x)))"
      unfolding resolv_set_nameservers_for_net_def using ais by (simp add: Let_def)
    then have "map_option (\<lambda>y. (0, update_cache_info n y (get_res_cache_for_net alloc n xs))) (set_search_domains domains (set_nameservers servers ais params x)) =
        Some (r, xs')" using assms by (simp split: if_splits)
    then obtain y where y: "set_search_domains domains (set_nameservers servers ais params x) = Some y" "r = 0"
      "xs' = update_cache_info n y (get_res_cache_for_net alloc n xs)" by auto
    show thesis by (rule Done [OF y(2) _ ais(2) Some y(1) _ _ y(3)]) (use ais find_netid [OF Some] netid_search [OF y(1)] in simp_all)
  qed
qed

lemma set_other:
  assumes "resolv_set_nameservers_for_net G alloc n servers domains params xs = Some (r, xs')" "m \<noteq> n"
  shows "find_cache_info m xs' = find_cache_info m xs"
  using assms by (cases rule: set_cases) (simp_all add: find_update find_get)

lemma exec_other:
  assumes "net_exec G P l s = Some s'" "m \<noteq> net_of l"
  shows "find_cache_info m (fst s') = find_cache_info m (fst s)"
proof (cases s)
  case (Pair xs out)
  show ?thesis
  proof (cases l)
    case (NSet alloc n servers domains params)
    then show ?thesis using assms set_other Pair by fastforce
  next
    case (NSample n rv ns sample cap)
    then show ?thesis using assms Pair find_netid
      by (fastforce simp: resolv_cache_add_resolver_stats_sample_def find_update split: if_splits option.splits)
  qed (use assms Pair in \<open>auto simp: net_defs find_delete find_set_cache split: if_splits option.splits\<close>)
qed

section \<open>The invariant\<close>

definition stat_ok :: "res_stats \<Rightarrow> bool" where
  "stat_ok st \<longleftrightarrow> length (samples st) = MAXNSSAMPLES \<and> sample_count st \<le> MAXNSSAMPLES \<and> sample_next st < MAXNSSAMPLES"

definition servers_ok :: "(string \<Rightarrow> addrinfo option) \<Rightarrow> resolv_cache_info \<Rightarrow> bool" where
  "servers_ok G x \<longleftrightarrow> (\<exists>names ais. length names = ci_nscount x \<and> ci_nscount x \<le> MAXNS \<and> those (map G names) = Some ais \<and>
     nameservers x = map Some names @ replicate (MAXNS - ci_nscount x) None \<and> nsaddrinfo x = map Some ais @ replicate (MAXNS - ci_nscount x) None)"

definition info_ok :: "(string \<Rightarrow> addrinfo option) \<Rightarrow> resolv_cache_info \<Rightarrow> bool" where
  "info_ok G x \<longleftrightarrow> (\<exists>s. displays (ci_cache x) s) \<and> servers_ok G x \<and> length (nsstats x) = MAXNS \<and> list_all stat_ok (nsstats x) \<and>
     length (defdname x) = MAXDNSRCHPATH \<and> length (dnsrch_offset x) = MAXDNSRCH + 1"

definition config_inv :: "(string \<Rightarrow> addrinfo option) \<Rightarrow> net_state \<Rightarrow> bool" where
  "config_inv G s \<longleftrightarrow> distinct (map ci_netid (fst s)) \<and> list_all (info_ok G) (fst s)"

lemma stat_new: "stat_ok res_stats_new"
  by (simp add: stat_ok_def res_stats_new_def)

lemma stat_clear: "stat_ok st \<Longrightarrow> stat_ok (st\<lparr>sample_count := 0, sample_next := 0\<rparr>)"
  by (simp add: stat_ok_def)

lemma stat_add: "stat_ok st \<Longrightarrow> 0 < cap \<Longrightarrow> cap \<le> MAXNSSAMPLES \<Longrightarrow> \<exists>st'. res_cache_add_stats_sample st x cap = Some st' \<and> stat_ok st'"
  by (auto simp: stat_ok_def res_cache_add_stats_sample_def Let_def)

lemma create_ok: "info_ok G (create_cache_info n resolv_cache_create)"
  using displays_create by (auto simp: info_ok_def servers_ok_def create_cache_info_def stat_new list_all_length)

lemma list_all_update: "list_all P xs \<Longrightarrow> P y \<Longrightarrow> list_all P (xs[i := y])"
  using set_update_subset_insert [of xs i y] by (auto simp: list_all_iff)

lemma clear_stats: "nsstats x \<noteq> [] \<Longrightarrow> res_cache_clear_stats x = x\<lparr>nsstats := (nsstats x)[0 := (nsstats x ! 0)\<lparr>sample_count := 0, sample_next := 0\<rparr>]\<rparr>"
  by (cases "nsstats x") (simp_all add: res_cache_clear_stats_def numeral_eq_Suc)

lemma first_clear: "length sts = MAXNS \<Longrightarrow> list_all stat_ok sts \<Longrightarrow> list_all stat_ok (sts[0 := (sts ! 0)\<lparr>sample_count := 0, sample_next := 0\<rparr>])"
  by (rule list_all_update) (auto simp: list_all_length intro: stat_clear)

lemma those_length: "those ys = Some zs \<Longrightarrow> length zs = length ys"
  by (induction ys arbitrary: zs) (auto split: option.splits)

lemma those_nth: "those (map f xs) = Some ys \<Longrightarrow> map f xs = map Some ys"
  by (induction xs arbitrary: ys) (auto split: option.splits)

lemma free_shape:
  assumes "servers_ok G x" "length (nsstats x) = MAXNS" "list_all stat_ok (nsstats x)"
  obtains sts where "free_nameservers x = x\<lparr>nameservers := replicate MAXNS None, nsaddrinfo := replicate MAXNS None, nsstats := sts, ci_nscount := 0,
     revision_id := revision_id x + 1\<rparr>" "length sts = MAXNS" "list_all stat_ok sts"
proof -
  define n where "n = ci_nscount x"
  define cl where "cl = map (\<lambda>st. st\<lparr>sample_count := 0, sample_next := 0\<rparr>) (take n (nsstats x)) @ drop n (nsstats x)"
  obtain names ais where a: "length names = n" "n \<le> 4" "nameservers x = map Some names @ replicate (4 - n) None"
    "nsaddrinfo x = map Some ais @ replicate (4 - n) None" "length ais = n"
    using assms(1) those_length by (fastforce simp: servers_ok_def n_def)
  have cl: "length cl = 4" "list_all stat_ok cl" using a(2) assms(2,3) by (auto simp: cl_def list_all_iff dest!: in_set_takeD in_set_dropD intro: stat_clear)
  have "cl \<noteq> []" using cl(1) by auto
  have names: "replicate n None @ drop n (nameservers x) = replicate 4 None" "replicate n None @ drop n (nsaddrinfo x) = replicate 4 None"
    using a by (simp_all add: replicate_add [symmetric])
  have "free_nameservers x = x\<lparr>nameservers := replicate 4 None, nsaddrinfo := replicate 4 None, nsstats := cl[0 := (cl ! 0)\<lparr>sample_count := 0, sample_next := 0\<rparr>],
      ci_nscount := 0, revision_id := revision_id x + 1\<rparr>"
    unfolding free_nameservers_def Let_def n_def [symmetric] names cl_def [symmetric] using \<open>cl \<noteq> []\<close> by (simp add: clear_stats)
  then show thesis
    by (rule that) (use cl first_clear in simp_all)
qed

lemma clear_stats_ok: "length (nsstats x) = MAXNS \<Longrightarrow> list_all stat_ok (nsstats x) \<Longrightarrow>
   length (nsstats (res_cache_clear_stats x)) = MAXNS \<and> list_all stat_ok (nsstats (res_cache_clear_stats x))"
  by (subst (1 2) clear_stats) (auto intro: first_clear)

lemma clear_simps [simp]:
  "ci_cache (res_cache_clear_stats x) = ci_cache x" "nameservers (res_cache_clear_stats x) = nameservers x" "nsaddrinfo (res_cache_clear_stats x) = nsaddrinfo x"
  "ci_nscount (res_cache_clear_stats x) = ci_nscount x" "defdname (res_cache_clear_stats x) = defdname x" "dnsrch_offset (res_cache_clear_stats x) = dnsrch_offset x"
  "revision_id (res_cache_clear_stats x) = revision_id x" "ci_params (res_cache_clear_stats x) = ci_params x"
  by (simp_all add: res_cache_clear_stats_def)

lemma set_nameservers_ok:
  assumes "info_ok G x" "length servers \<le> MAXNS" "those (map G servers) = Some ais"
  shows "info_ok G (set_nameservers servers ais params x)"
proof -
  define x1 where "x1 = x\<lparr>ci_params := (case params of Some p \<Rightarrow> p | None \<Rightarrow> resolv_set_default_params)\<rparr>"
  have 1: "info_ok G x1" using assms(1) by (simp add: info_ok_def servers_ok_def x1_def)
  have st: "servers_ok G x1" "length (nsstats x1) = MAXNS" "list_all stat_ok (nsstats x1)" using 1 by (simp_all add: info_ok_def)
  obtain sts where f: "free_nameservers x1 = x1\<lparr>nameservers := replicate MAXNS None, nsaddrinfo := replicate MAXNS None, nsstats := sts, ci_nscount := 0,
     revision_id := revision_id x1 + 1\<rparr>" "length sts = MAXNS" "list_all stat_ok sts" using free_shape [OF st] .
  define x3 where "x3 = (free_nameservers x1)\<lparr>nsaddrinfo := map Some ais @ drop (length servers) (replicate MAXNS None),
     nameservers := map Some servers @ drop (length servers) (replicate MAXNS None), ci_nscount := length servers\<rparr>"
  have "servers_ok G x3" using assms(2,3) by (auto simp: servers_ok_def x3_def f(1))
  then have 3: "info_ok G ((res_cache_clear_stats x3)\<lparr>revision_id := r\<rparr>)" for r
    using clear_stats_ok [of x3] f(2,3) 1 by (simp add: info_ok_def servers_ok_def x3_def f(1))
  have "info_ok G ((res_cache_clear_stats x1)\<lparr>revision_id := r\<rparr>)" for r
    using clear_stats_ok [of x1] 1 by (simp add: info_ok_def servers_ok_def)
  then show ?thesis
    using 1 3 unfolding set_nameservers_def Let_def x1_def [symmetric] by (simp add: x3_def f(1))
qed

lemma get_ok: "config_inv G (xs, out) \<Longrightarrow> config_inv G (get_res_cache_for_net alloc n xs, out)"
  using create_ok find_None_netids [of n xs]
  by (auto simp: config_inv_def get_res_cache_for_net_def find_named_cache_def insert_cache_info_def create_cache_info_def split: option.splits)

lemma set_revision: "revision_id (set_nameservers servers ais params x) \<le> revision_id x + 2"
  by (simp add: set_nameservers_def Let_def free_nameservers_def)

lemma set_ok:
  assumes "config_inv G (xs, out)" "NUL \<notin> set domains"
    and "case find_cache_info n xs of None \<Rightarrow> True | Some x \<Rightarrow> revision_id x \<le> INT_MAX - 2"
  shows "\<exists>r xs'. resolv_set_nameservers_for_net G alloc n servers domains params xs = Some (r, xs') \<and> config_inv G (xs', out)"
proof (cases "length servers > MAXNS \<or> those (map G servers) = None")
  case True
  then show ?thesis using assms(1) by (auto simp: resolv_set_nameservers_for_net_def)
next
  case False
  then obtain ais where ais: "length servers \<le> MAXNS" "those (map G servers) = Some ais" by auto
  define xs1 where "xs1 = get_res_cache_for_net alloc n xs"
  have 1: "config_inv G (xs1, out)" unfolding xs1_def by (rule get_ok [OF assms(1)])
  show ?thesis
  proof (cases "find_cache_info n xs1")
    case None
    then show ?thesis using 1 ais by (simp add: resolv_set_nameservers_for_net_def xs1_def)
  next
    case (Some x)
    define y where "y = set_nameservers servers ais params x"
    have x: "ci_netid x = n" "info_ok G x" using find_netid [OF Some] 1 by (auto simp: config_inv_def list_all_iff)
    have "revision_id x \<le> INT_MAX - 2"
      using assms(3) Some by (auto simp: xs1_def find_get create_cache_info_def split: if_splits)
    then have rev: "\<not> revision_id y > INT_MAX" using set_revision [of servers ais params x] by (simp add: y_def)
    have y: "info_ok G y" unfolding y_def by (rule set_nameservers_ok [OF x(2) ais])
    obtain buf offs where z: "set_search_domains domains y = Some (y\<lparr>defdname := buf, dnsrch_offset := offs\<rparr>)" "length buf = MAXDNSRCHPATH" "length offs = MAXDNSRCH + 1"
        "info_domains buf (take MAXDNSRCH offs) = search_domains domains"
      using set_search [OF assms(2), of y] y unfolding info_ok_def by blast
    define z where "z = y\<lparr>defdname := buf, dnsrch_offset := offs\<rparr>"
    have zo: "info_ok G z" "ci_netid z = n" using y z(2,3) x(1) by (simp_all add: info_ok_def servers_ok_def z_def y_def)
    have "config_inv G (update_cache_info n z xs1, out)"
      using 1 update_netids [OF zo(2), of xs1] update_set [of n z xs1] zo(1) by (auto simp: config_inv_def list_all_iff)
    then show ?thesis using ais Some z(1) rev by (simp add: resolv_set_nameservers_for_net_def Let_def xs1_def y_def [symmetric] z_def)
  qed
qed

lemma delete_ok:
  "distinct (map ci_netid xs) \<Longrightarrow> list_all (info_ok G) xs \<Longrightarrow>
   \<exists>xs'. resolv_delete_cache_for_net n xs = Some xs' \<and> xs' = filter (\<lambda>x. ci_netid x \<noteq> n) xs"
proof (induction xs)
  case (Cons x xs)
  obtain t where "displays (ci_cache x) t" using Cons.prems(2) unfolding info_ok_def list.pred_inject by blast
  then obtain c where "cache_flush (ci_cache x) = Some c" using flush_sim by blast
  moreover have "filter (\<lambda>y. ci_netid y \<noteq> ci_netid x) xs = xs" using Cons.prems(1) unfolding filter_id_conv by (metis distinct.simps(2) image_eqI list.set_map list.simps(9))
  ultimately show ?case using Cons by auto
qed simp

lemma set_cache_ok:
  assumes "config_inv G (xs, out)" "displays c s"
  shows "config_inv G (set_cache n c xs, out')"
proof (cases "find_cache_info n xs")
  case (Some x)
  have x: "ci_netid x = n" "info_ok G x" using find_netid [OF Some] assms(1) by (auto simp: config_inv_def list_all_iff)
  have "\<exists>s. displays c s" using assms(2) by blast
  then have "info_ok G (x\<lparr>ci_cache := c\<rparr>)" using x(2) by (simp add: info_ok_def servers_ok_def)
  then show ?thesis
    using assms(1) Some x(1) update_netids [of "x\<lparr>ci_cache := c\<rparr>" n xs] update_set [of n "x\<lparr>ci_cache := c\<rparr>" xs]
    by (auto simp: config_inv_def list_all_iff set_cache_def)
qed (use assms in \<open>simp add: config_inv_def set_cache_def\<close>)

lemma inv_out: "config_inv G (xs, out) \<Longrightarrow> config_inv G (xs, out')"
  by (simp add: config_inv_def)

lemma named_ok: "config_inv G (xs, out) \<Longrightarrow> find_named_cache n xs = Some c \<Longrightarrow> \<exists>s. displays c s"
  using find_netid by (fastforce simp: config_inv_def list_all_iff find_named_cache_def info_ok_def)

lemma sample_ok:
  assumes "config_inv G (xs, out)" "ns < MAXNS" "cap \<le> int MAXNSSAMPLES"
  shows "\<exists>xs'. resolv_cache_add_resolver_stats_sample n rv ns sample cap xs = Some xs' \<and> config_inv G (xs', out)"
proof (cases "cap \<le> 0 \<or> find_cache_info n xs = None \<or> revision_id (the (find_cache_info n xs)) \<noteq> rv")
  case True
  then show ?thesis using assms(1) by (auto simp: resolv_cache_add_resolver_stats_sample_def split: option.splits)
next
  case False
  then obtain x where x: "find_cache_info n xs = Some x" "revision_id x = rv" "0 < cap" by auto
  have ok: "ci_netid x = n" "info_ok G x" using find_netid [OF x(1)] assms(1) by (auto simp: config_inv_def list_all_iff)
  have "stat_ok (nsstats x ! ns)" using ok(2) assms(2) by (auto simp: info_ok_def list_all_length)
  then obtain st where st: "res_cache_add_stats_sample (nsstats x ! ns) sample (nat cap) = Some st" "stat_ok st"
    using stat_add [of "nsstats x ! ns" "nat cap" sample] x(3) assms(3) by (metis int_nat_eq le_nat_iff less_imp_le nat_le_iff zero_less_nat_eq)
  define y where "y = x\<lparr>nsstats := (nsstats x)[ns := st]\<rparr>"
  have y: "info_ok G y" "ci_netid y = n" using ok st(2) by (auto simp: info_ok_def servers_ok_def y_def intro: list_all_update)
  have "config_inv G (update_cache_info n y xs, out)"
    using assms(1) update_netids [OF y(2), of xs] update_set [of n y xs] y(1) by (auto simp: config_inv_def list_all_iff)
  then show ?thesis using x st(1) ok(2) assms(2) by (auto simp: resolv_cache_add_resolver_stats_sample_def y_def info_ok_def)
qed

section \<open>The cache calls\<close>

lemma lookup_ok:
  assumes "config_inv G (xs, out)" "usable q"
  shows "\<exists>r xs'. net_cache_lookup now nl nst n q len xs = Some (r, xs') \<and> config_inv G (xs', out')"
proof -
  obtain h where h: "entry_init_key q = Some (h, accepted q)" using usable_key [OF assms(2)] by blast
  show ?thesis
  proof (cases "nl \<or> \<not> accepted q \<or> find_named_cache n xs = None")
    case True
    then show ?thesis using h inv_out [OF assms(1)] by (auto simp: net_cache_lookup_def)
  next
    case False
    then obtain c where c: "find_named_cache n xs = Some c" by auto
    obtain s where "displays c s" using named_ok [OF assms(1) c] by blast
    then obtain r c' s' where "resolv_cache_lookup now nl nst q len c = Some (r, c')" "displays c' s'" using lookup_sim [OF _ assms(2)] by blast
    then show ?thesis using False h c set_cache_ok [OF assms(1)] by (simp add: net_cache_lookup_def)
  qed
qed

lemma resume_ok:
  assumes "config_inv G (xs, out)" "usable q" "accepted q"
  shows "\<exists>r xs'. net_cache_resume now n q len xs = Some (r, xs') \<and> config_inv G (xs', out')"
proof (cases "find_named_cache n xs")
  case None
  then show ?thesis using inv_out [OF assms(1)] by (simp add: net_cache_resume_def)
next
  case (Some c)
  obtain s where "displays c s" using named_ok [OF assms(1) Some] by blast
  then obtain r c' s' where "cache_lookup_again now q len c = Some (r, c')" "displays c' s'" using again_sim [OF _ assms(2,3)] by blast
  then show ?thesis using Some set_cache_ok [OF assms(1)] by (simp add: net_cache_resume_def)
qed

lemma add_ok:
  assumes "config_inv G (xs, out)" "usable q"
    and "case find_named_cache n xs of None \<Rightarrow> True | Some c \<Rightarrow> (case fresh of None \<Rightarrow> True | Some a \<Rightarrow> ents c a = None)"
  shows "\<exists>xs'. net_cache_add P now n q ans fresh xs = Some xs' \<and> config_inv G (xs', out')"
proof -
  obtain h where h: "entry_init_key q = Some (h, accepted q)" using usable_key [OF assms(2)] by blast
  show ?thesis
  proof (cases "accepted q \<and> find_named_cache n xs \<noteq> None")
    case False
    then show ?thesis using h inv_out [OF assms(1)] by (auto simp: net_cache_add_def)
  next
    case True
    then obtain c where c: "find_named_cache n xs = Some c" by auto
    then have fr: "case fresh of None \<Rightarrow> True | Some a \<Rightarrow> ents c a = None" using assms(3) by simp
    obtain s where "displays c s" using named_ok [OF assms(1) c] by blast
    then obtain c' s' where "resolv_cache_add (\<lambda>a. uint (answer_getTTL P a)) now q ans fresh c = Some c'" "displays c' s'"
      using add_sim [OF _ assms(2) fr] by blast
    then show ?thesis using True h c set_cache_ok [OF assms(1)] by (simp add: net_cache_add_def)
  qed
qed

lemma failed_ok:
  assumes "config_inv G (xs, out)" "usable q"
  shows "\<exists>xs'. net_cache_query_failed nl nst n q xs = Some xs' \<and> config_inv G (xs', out')"
proof -
  obtain h where h: "entry_init_key q = Some (h, accepted q)" using usable_key [OF assms(2)] by blast
  show ?thesis
  proof (cases "\<not> nl \<and> \<not> nst \<and> accepted q \<and> find_named_cache n xs \<noteq> None")
    case False
    then show ?thesis using h inv_out [OF assms(1)] by (auto simp: net_cache_query_failed_def)
  next
    case True
    then obtain c where c: "find_named_cache n xs = Some c" by auto
    obtain s where "displays c s" using named_ok [OF assms(1) c] by blast
    then obtain c' s' where "resolv_cache_query_failed nl nst q c = Some c'" "displays c' s'" using fail_sim [OF _ assms(2)] by blast
    then show ?thesis using True h c set_cache_ok [OF assms(1)] by (simp add: net_cache_query_failed_def)
  qed
qed

lemma exec_ok:
  assumes "config_inv G s" "net_enabled l s"
  shows "\<exists>s'. net_exec G P l s = Some s' \<and> config_inv G s'"
proof (cases s)
  case (Pair xs out)
  note inv = assms(1) [unfolded Pair] and en = assms(2) [unfolded Pair]
  show ?thesis
  proof (cases l)
    case (NSet alloc n servers domains params)
    then show ?thesis using set_ok [OF inv, of domains n alloc servers params] en Pair by auto
  next
    case (NDelete n)
    obtain xs' where "resolv_delete_cache_for_net n xs = Some xs'" "xs' = filter (\<lambda>x. ci_netid x \<noteq> n) xs"
      using delete_ok [of xs G n] inv by (auto simp: config_inv_def)
    then show ?thesis using NDelete Pair inv by (auto simp: config_inv_def list_all_iff distinct_map_filter)
  next
    case (NLookup now nl nst n q len)
    then obtain r xs' where "net_cache_lookup now nl nst n q len xs = Some (r, xs')" "config_inv G (xs', [])" using lookup_ok [OF inv, of q] en by fastforce
    then show ?thesis using NLookup Pair inv_out by auto
  next
    case (NResume now n q len)
    then obtain r xs' where "net_cache_resume now n q len xs = Some (r, xs')" "config_inv G (xs', [])" using resume_ok [OF inv, of q] en by fastforce
    then show ?thesis using NResume Pair inv_out by auto
  next
    case (NAdd now n q ans fresh)
    then obtain xs' where "net_cache_add P now n q ans fresh xs = Some xs'" "config_inv G (xs', out)" using add_ok [OF inv, where q = q and n = n and fresh = fresh] en by fastforce
    then show ?thesis using NAdd Pair by auto
  next
    case (NFail nl nst n q)
    then obtain xs' where "net_cache_query_failed nl nst n q xs = Some xs'" "config_inv G (xs', out)" using failed_ok [OF inv, of q] en by fastforce
    then show ?thesis using NFail Pair by auto
  next
    case (NSample n rv ns sample cap)
    then show ?thesis using sample_ok [OF inv, of ns cap n rv sample] en Pair by auto
  qed
qed

interpretation rs: step_invariant net_enabled "net_exec G P" "([], [])" "config_inv G"
  for G and P :: "'m ns_lib"
proof
  show "config_inv G ([], [])" by (simp add: config_inv_def)
next
  fix s l assume "config_inv G s" "net_enabled l s"
  then show "\<exists>s'. net_exec G P l s = Some s' \<and> config_inv G s'" by (rule exec_ok)
qed

section \<open>Revisions\<close>

text \<open>A later state of the same network: its servers are the same, or its revision has grown.\<close>

definition later :: "resolv_cache_info \<Rightarrow> resolv_cache_info \<Rightarrow> bool" where
  "later x y \<longleftrightarrow> revision_id x < revision_id y \<or>
     revision_id x = revision_id y \<and> nameservers y = nameservers x \<and> nsaddrinfo y = nsaddrinfo x"

lemma later_refl: "later x x"
  by (simp add: later_def)

lemma later_trans: "later x y \<Longrightarrow> later y z \<Longrightarrow> later x z"
  by (auto simp: later_def)

lemma later_set: "later x (set_nameservers servers ais params x)"
  by (auto simp: later_def set_nameservers_def Let_def free_nameservers_def)

lemma later_search: "set_search_domains domains x = Some y \<Longrightarrow> later x y"
  by (auto simp: later_def set_search_domains_def split: prod.splits)

lemma later_set_cache: "find_cache_info n xs = Some x \<Longrightarrow> \<exists>y. find_cache_info n (set_cache m c xs) = Some y \<and> later x y"
  using find_netid [of m xs] by (auto simp: set_cache_def find_update later_def split: option.splits)

lemma later_step:
  assumes "net_exec G P l s = Some s'" "find_cache_info n (fst s) = Some x" "l \<noteq> NDelete n"
  shows "\<exists>y. find_cache_info n (fst s') = Some y \<and> later x y"
proof (cases "n = net_of l")
  case False
  then show ?thesis using exec_other [OF assms(1)] assms(2) later_refl by auto
next
  case n: True
  obtain xs out where s: "s = (xs, out)" by fastforce
  have x: "find_cache_info n xs = Some x" using assms(2) s by simp
  show ?thesis
  proof (cases l)
    case (NSet alloc m servers domains params)
    then obtain r xs' where "resolv_set_nameservers_for_net G alloc n servers domains params xs = Some (r, xs')" "s' = (xs', out)"
      using assms(1) s n by auto
    then show ?thesis
    proof (cases rule: set_cases)
      case (Done ais z y)
      then have "z = x" using x by (simp add: find_get)
      then have "later x y" using later_trans [OF later_set later_search [OF Done(5)]] by simp
      then show ?thesis using Done \<open>s' = (xs', out)\<close> by (simp add: find_update)
    qed (use x later_refl in \<open>simp_all add: find_get\<close>)
  next
    case (NSample m rv ns sample cap)
    then show ?thesis using assms(1) s x n later_refl [of x] find_netid [OF x]
      by (auto simp: resolv_cache_add_resolver_stats_sample_def find_update later_def split: if_splits option.splits)
  qed (use assms s x n later_set_cache [OF x] later_refl [of x] in \<open>auto simp: net_defs split: if_splits option.splits\<close>)
qed

lemma later_run:
  "run_steps net_enabled (net_exec G P) ls s = Some s' \<Longrightarrow> find_cache_info n (fst s) = Some x \<Longrightarrow> NDelete n \<notin> set ls \<Longrightarrow>
   \<exists>y. find_cache_info n (fst s') = Some y \<and> later x y"
proof (induction ls arbitrary: s x)
  case Nil
  then show ?case using later_refl by auto
next
  case (Cons l ls)
  then obtain s1 where s1: "net_exec G P l s = Some s1" "run_steps net_enabled (net_exec G P) ls s1 = Some s'" by (auto split: if_splits option.splits)
  obtain y where "find_cache_info n (fst s1) = Some y" "later x y" using later_step [OF s1(1) Cons.prems(2)] Cons.prems(3) by auto
  then show ?case using Cons.IH [OF s1(2)] Cons.prems(3) later_trans by fastforce
qed

section \<open>Properties\<close>


definition demo_addr :: "string \<Rightarrow> addrinfo option" where
  "demo_addr s =
     (if s = ''1.2.3.4'' \<or> s = ''5.6.7.8'' then Some \<lparr>ai_addr = Some (map (\<lambda>c. of_nat (of_char c)) (s @ s) @ [0, 0]), ai_addrlen = 16, ai_next = False\<rparr> else None)"

definition demo_set :: "string \<Rightarrow> net_op" where
  "demo_set server = NSet True 100 [server] ''a.b  c.d'' None"

abbreviation demo_net :: "net_op list \<Rightarrow> net_state \<Rightarrow> net_state option" where
  "demo_net \<equiv> run_steps net_enabled (net_exec demo_addr demo_lib)"

lemma demo_configured: "\<exists>s. demo_net [demo_set ''1.2.3.4''] ([], []) = Some s"
proof -
  have "\<not> Option.is_none (demo_net [demo_set ''1.2.3.4''] ([], []))" by code_simp
  then show ?thesis by (auto simp: Option.is_none_def)
qed


text \<open>
  Claim C16. A sample is not credited to another server as long as the network is not deleted: if the
  servers of a network have changed since a lookup read its revision, by any calls that do not delete the network and do
  not overflow the revision, the sample of that lookup is ignored. For a network that is deleted and
  configured again this is false, see \<open>revision_restarts\<close>.
\<close>

theorem stale_sample_ignored:
  assumes "run_steps net_enabled (net_exec G P) ls s = Some s'" "find_cache_info n (fst s) = Some x" "NDelete n \<notin> set ls"
  shows "\<exists>y. find_cache_info n (fst s') = Some y \<and>
     (nsaddrinfo y = nsaddrinfo x \<or> resolv_cache_add_resolver_stats_sample n (revision_id x) ns sample cap (fst s') = Some (fst s'))"
proof -
  obtain y where "find_cache_info n (fst s') = Some y" "later x y" using later_run [OF assms] by blast
  then show ?thesis by (auto simp: later_def resolv_cache_add_resolver_stats_sample_def)
qed

theorem stale_sample_ignored_witness:
  "\<exists>s s' x. demo_net [demo_set ''1.2.3.4''] ([], []) = Some s \<and> demo_net [demo_set ''5.6.7.8''] s = Some s' \<and> find_cache_info 100 (fst s) = Some x \<and>
     resolv_cache_add_resolver_stats_sample 100 (revision_id x) 0 \<lparr>sample_at = 7, sample_rtt = 20, sample_rcode = 0\<rparr> 8 (fst s') = Some (fst s')"
proof -
  have "(case demo_net [demo_set ''1.2.3.4''] ([], []) of None \<Rightarrow> False | Some s \<Rightarrow>
      (case demo_net [demo_set ''5.6.7.8''] s of None \<Rightarrow> False | Some s' \<Rightarrow>
       (case find_cache_info 100 (fst s) of None \<Rightarrow> False | Some x \<Rightarrow>
        (case find_cache_info 100 (fst s') of None \<Rightarrow> False | Some y \<Rightarrow> nsaddrinfo y \<noteq> nsaddrinfo x))))" by code_simp
  note e = this
  obtain s where s: "demo_net [demo_set ''1.2.3.4''] ([], []) = Some s" using demo_configured by blast
  obtain s' where s': "demo_net [demo_set ''5.6.7.8''] s = Some s'"
    using e unfolding s by (cases "demo_net [demo_set ''5.6.7.8''] s") (simp_all del: run_steps.simps)
  obtain x where x: "find_cache_info 100 (fst s) = Some x" using e unfolding s option.case s' by (cases "find_cache_info 100 (fst s)") simp_all
  obtain y where y: "find_cache_info 100 (fst s') = Some y" "nsaddrinfo y \<noteq> nsaddrinfo x"
    using e unfolding s option.case s' x by (cases "find_cache_info 100 (fst s')") simp_all
  have "NDelete 100 \<notin> set [demo_set ''5.6.7.8'']" by (simp add: demo_set_def)
  from stale_sample_ignored [OF s' x this, of 0 "\<lparr>sample_at = 7, sample_rtt = 20, sample_rcode = 0\<rparr>" 8]
  have "resolv_cache_add_resolver_stats_sample 100 (revision_id x) 0 \<lparr>sample_at = 7, sample_rtt = 20, sample_rcode = 0\<rparr> 8 (fst s') = Some (fst s')"
    using y by auto
  then show ?thesis using s s' x by blast
qed

text \<open>
  A call for one network changes nothing of another one: neither its servers and parameters nor
  its cache nor its statistics.
\<close>

theorem networks_independent:
  assumes "net_exec G P l s = Some s'" "n \<noteq> net_of l"
  shows "find_cache_info n (fst s') = find_cache_info n (fst s)"
  by (rule exec_other [OF assms])

theorem networks_independent_witness:
  "\<exists>s. net_exec demo_addr demo_lib (demo_set ''1.2.3.4'') ([], []) = Some s \<and> find_cache_info 101 (fst s) = find_cache_info 101 []"
proof -
  obtain s where "net_exec demo_addr demo_lib (demo_set ''1.2.3.4'') ([], []) = Some s" using demo_configured by (auto split: if_splits option.splits)
  moreover from this have "find_cache_info 101 (fst s) = find_cache_info 101 []"
    using networks_independent [of demo_addr demo_lib "demo_set ''1.2.3.4''" "([], [])" s 101] by (simp add: demo_set_def)
  ultimately show ?thesis by blast
qed

text \<open>The servers after a configuration.\<close>

lemma set_nameservers_names:
  assumes "info_ok G x" "length servers \<le> MAXNS" "those (map G servers) = Some ais"
  shows "\<exists>names ais'. ci_nscount (set_nameservers servers ais params x) = length servers \<and> length names = length servers \<and>
     those (map G names) = Some ais' \<and> nsaddrinfo (set_nameservers servers ais params x) = map Some ais' @ replicate (MAXNS - length servers) None \<and>
     (names = servers \<or> set names \<subseteq> set servers \<and> map Some names = take (ci_nscount x) (nameservers x))"
proof -
  define y where "y = set_nameservers servers ais params x"
  have "info_ok G y" unfolding y_def by (rule set_nameservers_ok [OF assms])
  then obtain names ais' where y: "length names = ci_nscount y" "those (map G names) = Some ais'"
    "nameservers y = map Some names @ replicate (MAXNS - ci_nscount y) None" "nsaddrinfo y = map Some ais' @ replicate (MAXNS - ci_nscount y) None"
    by (auto simp: info_ok_def servers_ok_def)
  have eq: "resolv_is_nameservers_equal (x\<lparr>ci_params := p\<rparr>) servers = resolv_is_nameservers_equal x servers" for p
    by (simp add: resolv_is_nameservers_equal_def)
  have take: "take (length servers) (map Some names @ replicate k None) = map Some names" if "length names = length servers" for k
    using that by simp
  show ?thesis
  proof (cases "resolv_is_nameservers_equal x servers")
    case True
    then have n: "ci_nscount y = ci_nscount x" "nameservers y = nameservers x" "ci_nscount x = length servers"
      by (simp_all add: y_def set_nameservers_def eq Let_def resolv_is_nameservers_equal_def)
    then have old: "take (ci_nscount x) (nameservers x) = map Some names"
      unfolding n(3) n(2) [symmetric] y(3) using y(1) n(1,3) take by simp
    then have "set names \<subseteq> set servers"
      using True n(3) by (auto simp: resolv_is_nameservers_equal_def list_all_iff)
    then show ?thesis using y n old unfolding y_def [symmetric] by auto
  next
    case False
    then have n: "ci_nscount y = length servers" "take (length servers) (nameservers y) = map Some servers"
      by (simp_all add: y_def set_nameservers_def eq Let_def)
    then have "map Some names = map Some servers" using y(1,3) take by simp
    then have "names = servers" by (metis list.inj_map_strong option.inject)
    then show ?thesis using y n(1) unfolding y_def [symmetric] by auto
  qed
qed

lemma map_sum_Inr: "map_sum id f r = Inr z \<longleftrightarrow> (\<exists>w. r = Inr w \<and> z = f w)"
  by (cases r) auto

lemma info_servers_addrs: "info_servers a b (map Some ais) = Some (Inr addrs) \<Longrightarrow> map Some addrs = map ai_addr ais"
  by (induction ais arbitrary: addrs) (auto simp: map_sum_Inr split: if_splits option.splits)

text \<open>The entry of a network after a configuration.\<close>

lemma configured:
  assumes inv: "config_inv G (xs, out)" and dom: "NUL \<notin> set domains"
    and run: "resolv_set_nameservers_for_net G alloc n servers domains params xs = Some (0, xs')" "find_cache_info n xs' = Some y"
    and dist: "distinct servers" "case find_cache_info n xs of None \<Rightarrow> True | Some x \<Rightarrow> distinct (take (ci_nscount x) (nameservers x))"
  obtains names ais where "mset names = mset servers" "map G names = map Some ais" "length ais = length servers" "length servers \<le> MAXNS"
    "ci_nscount y = length servers" "nsaddrinfo y = map Some ais @ replicate (MAXNS - length servers) None"
    "ci_params y = (case params of None \<Rightarrow> resolv_set_default_params | Some p \<Rightarrow> p)"
    "info_domains (defdname y) (take MAXDNSRCH (dnsrch_offset y)) = search_domains domains"
    "map (\<lambda>k. cstr (defdname y) (nat k)) (takeWhile (\<lambda>k. k \<noteq> -1) (take MAXDNSRCH (dnsrch_offset y))) = search_domains domains"
proof -
  have inv': "config_inv G (get_res_cache_for_net alloc n xs, out)" for alloc using inv by (rule get_ok)
  obtain ais0 x y' where D: "length servers \<le> MAXNS" "those (map G servers) = Some ais0" "find_cache_info n (get_res_cache_for_net alloc n xs) = Some x"
    "set_search_domains domains (set_nameservers servers ais0 params x) = Some y'" "ci_netid y' = n" "xs' = update_cache_info n y' (get_res_cache_for_net alloc n xs)"
    using run by (auto elim!: set_cases)
  then have y': "y' = y" using run(2) by (simp add: find_update)
  define z where "z = set_nameservers servers ais0 params x"
  have x: "info_ok G x" using find_netid [OF D(3)] inv' by (auto simp: config_inv_def list_all_iff)
  have zo: "info_ok G z" unfolding z_def by (rule set_nameservers_ok [OF x D(1,2)])
  obtain buf offs where y: "y = z\<lparr>defdname := buf, dnsrch_offset := offs\<rparr>" "info_domains buf (take MAXDNSRCH offs) = search_domains domains"
    "map (\<lambda>k. cstr buf (nat k)) (takeWhile (\<lambda>k. k \<noteq> -1) (take MAXDNSRCH offs)) = search_domains domains"
    using set_search [OF dom, of z] zo D(4) unfolding z_def [symmetric] y' info_ok_def by (metis option.inject)
  obtain names ais where names: "ci_nscount z = length servers" "length names = length servers" "those (map G names) = Some ais"
    "nsaddrinfo z = map Some ais @ replicate (MAXNS - length servers) None"
    "names = servers \<or> set names \<subseteq> set servers \<and> map Some names = take (ci_nscount x) (nameservers x)"
    using set_nameservers_names [OF x D(1,2)] unfolding z_def by blast
  have "mset names = mset servers"
  proof (cases "names = servers")
    case False
    then have sub: "set names \<subseteq> set servers" and old: "map Some names = take (ci_nscount x) (nameservers x)" using names(5) by auto
    have "distinct (map Some names)"
      unfolding old using dist(2) D(3) by (auto simp: find_get create_cache_info_def split: if_splits option.splits)
    then have "distinct names" by (simp add: distinct_map)
    moreover from this have "set names = set servers" using sub names(2) dist(1) by (metis card_subset_eq distinct_card finite_set)
    ultimately show ?thesis using dist(1) by (simp add: set_eq_iff_mset_eq_distinct)
  qed simp
  moreover have g: "map G names = map Some ais" by (rule those_nth [OF names(3)])
  moreover have "length ais = length servers" using g names(2) by (metis length_map)
  moreover have "ci_params z = (case params of None \<Rightarrow> resolv_set_default_params | Some p \<Rightarrow> p)"
    by (auto simp: z_def set_nameservers_def Let_def free_nameservers_def split: option.splits)
  ultimately show thesis using that [of names ais] D(1) names(1,4) y by simp
qed

text \<open>What \<open>res_stats_get_info_for_net\<close> reports after a configuration.\<close>

lemma info_read_back:
  assumes "config_inv G (xs, out)" "NUL \<notin> set domains"
    and "resolv_set_nameservers_for_net G alloc n servers domains params xs = Some (0, xs')"
    and info: "res_stats_get_info_for_net sockaddr_size storage_size n xs' = Some (Inr (revision, Some info))"
    and "distinct servers" "case find_cache_info n xs of None \<Rightarrow> True | Some x \<Rightarrow> distinct (take (ci_nscount x) (nameservers x))"
  shows "\<exists>names. mset names = mset servers \<and> ni_domains info = search_domains domains \<and>
     ni_params info = (case params of None \<Rightarrow> resolv_set_default_params | Some p \<Rightarrow> p) \<and>
     map Some (ni_servers info) = map (\<lambda>s. Option.bind (G s) ai_addr) names"
proof -
  obtain y where y: "find_cache_info n xs' = Some y" using info by (auto simp: res_stats_get_info_for_net_def split: option.splits)
  obtain names ais where c: "mset names = mset servers" "map G names = map Some ais" "length ais = length servers" "length servers \<le> MAXNS"
    "ci_nscount y = length servers" "nsaddrinfo y = map Some ais @ replicate (MAXNS - length servers) None"
    "ci_params y = (case params of None \<Rightarrow> resolv_set_default_params | Some p \<Rightarrow> p)"
    "info_domains (defdname y) (take MAXDNSRCH (dnsrch_offset y)) = search_domains domains"
    using configured [OF assms(1-3) y assms(5,6)] by blast
  have tk: "take (ci_nscount y) (nsaddrinfo y) = map Some ais" using c(3,5,6) by simp
  obtain addrs where i: "info_servers sockaddr_size storage_size (map Some ais) = Some (Inr addrs)" "ni_servers info = addrs"
    "ni_domains info = info_domains (defdname y) (take MAXDNSRCH (dnsrch_offset y))" "ni_params info = ci_params y"
    using info y tk by (auto simp: res_stats_get_info_for_net_def map_sum_Inr split: if_splits)
  have "map Some addrs = map (\<lambda>r. Option.bind r ai_addr) (map Some ais)" using info_servers_addrs [OF i(1)] by simp
  also have "\<dots> = map (\<lambda>r. Option.bind r ai_addr) (map G names)" unfolding c(2) ..
  finally have "map Some addrs = map (\<lambda>s. Option.bind (G s) ai_addr) names" by (simp add: comp_def)
  then show ?thesis using i(2,3,4) c(1,7,8) by auto
qed

section \<open>What a lookup finds in its state\<close>

text \<open>The loop over \<open>dnsrch\<close> in res_query.cpp and getaddrinfo.cpp: the strings up to the first null pointer.\<close>

definition lookup_domains :: "res_state \<Rightarrow> string list" where
  "lookup_domains statp = map (\<lambda>p. cstr (rs_defdname statp) (the p)) (takeWhile (\<lambda>p. p \<noteq> None) (dnsrch statp))"

text \<open>The bytes at the start of an element of \<open>nsaddrs\<close> are the address of a server.\<close>

definition holds_address :: "(string \<Rightarrow> addrinfo option) \<Rightarrow> string \<Rightarrow> bytes \<Rightarrow> bool" where
  "holds_address G name nsaddr \<longleftrightarrow> (\<exists>addr. Option.bind (G name) ai_addr = Some addr \<and> take (length addr) nsaddr = addr)"

definition numeric_address :: "nat \<Rightarrow> addrinfo \<Rightarrow> bool" where
  "numeric_address union_size ai \<longleftrightarrow> ai_addrlen ai \<le> union_size \<and> (\<exists>addr. ai_addr ai = Some addr \<and> length addr = ai_addrlen ai)"

text \<open>What \<open>getaddrinfo\<close> gives: an address of the stated length, which is that of an IPv4 or IPv6 socket address.\<close>

definition numeric_addresses :: "nat \<Rightarrow> (string \<Rightarrow> addrinfo option) \<Rightarrow> bool" where
  "numeric_addresses union_size G \<longleftrightarrow> (\<forall>s ai. G s = Some ai \<longrightarrow> numeric_address union_size ai)"

lemma populate_servers_addrs:
  "list_all (numeric_address union_size) ais \<Longrightarrow> rs_ext statp = Some nsaddrs \<Longrightarrow> k + length ais \<le> length nsaddrs \<Longrightarrow>
   \<exists>statp' nsaddrs'. populate_servers union_size in_size k (map Some ais @ replicate m None) statp = Some statp' \<and>
     rs_nscount statp' = k + length ais \<and> rs_ext statp' = Some nsaddrs' \<and> dnsrch statp' = dnsrch statp \<and> take k nsaddrs' = take k nsaddrs \<and>
     list_all2 (\<lambda>ai a. \<exists>addr. ai_addr ai = Some addr \<and> take (length addr) a = addr) ais (take (length ais) (drop k nsaddrs')) \<and>
     length nsaddrs' = length nsaddrs"
proof (induction ais arbitrary: k statp nsaddrs)
  case Nil
  then show ?case by (cases m) simp_all
next
  case (Cons ai ais)
  obtain addr where addr: "ai_addrlen ai \<le> union_size" "ai_addr ai = Some addr" "length addr = ai_addrlen ai"
    using Cons.prems(1) by (auto simp: numeric_address_def)
  define nsaddrs1 where "nsaddrs1 = nsaddrs[k := memcpy (nsaddrs ! k) addr]"
  define statp1 where "statp1 = statp\<lparr>rs_ext := Some nsaddrs1, nsaddr_list := (nsaddr_list statp)[k := unspec_family (nsaddr_list statp ! k)]\<rparr>"
  have first: "populate_server union_size in_size k ai statp = Some statp1"
    using addr Cons.prems(2) by (simp add: populate_server_def statp1_def nsaddrs1_def)
  have "\<exists>statp' nsaddrs'. populate_servers union_size in_size (k + 1) (map Some ais @ replicate m None) statp1 = Some statp' \<and>
     rs_nscount statp' = k + 1 + length ais \<and> rs_ext statp' = Some nsaddrs' \<and> dnsrch statp' = dnsrch statp1 \<and> take (k + 1) nsaddrs' = take (k + 1) nsaddrs1 \<and>
     list_all2 (\<lambda>ai a. \<exists>addr. ai_addr ai = Some addr \<and> take (length addr) a = addr) ais (take (length ais) (drop (k + 1) nsaddrs')) \<and>
     length nsaddrs' = length nsaddrs1"
    using Cons.prems by (intro Cons.IH) (simp_all add: statp1_def nsaddrs1_def)
  then obtain statp' nsaddrs' where IH: "populate_servers union_size in_size (k + 1) (map Some ais @ replicate m None) statp1 = Some statp'"
    "rs_nscount statp' = k + 1 + length ais" "rs_ext statp' = Some nsaddrs'" "dnsrch statp' = dnsrch statp1" "take (k + 1) nsaddrs' = take (k + 1) nsaddrs1"
    "list_all2 (\<lambda>ai a. \<exists>addr. ai_addr ai = Some addr \<and> take (length addr) a = addr) ais (take (length ais) (drop (k + 1) nsaddrs'))"
    "length nsaddrs' = length nsaddrs1" by blast
  have k: "k < length nsaddrs" using Cons.prems(3) by simp
  have "nsaddrs' ! k = take (k + 1) nsaddrs' ! k" by simp
  also have "\<dots> = memcpy (nsaddrs ! k) addr" unfolding IH(5) using k by (simp add: nsaddrs1_def)
  finally have at: "take (length addr) (nsaddrs' ! k) = addr" by (simp add: memcpy_def)
  have "take k nsaddrs' = take k (take (k + 1) nsaddrs')" by simp
  also have "\<dots> = take k nsaddrs" unfolding IH(5) by (simp add: nsaddrs1_def)
  finally have before: "take k nsaddrs' = take k nsaddrs" .
  have len: "length nsaddrs' = length nsaddrs" using IH(7) by (simp add: nsaddrs1_def)
  have "drop k nsaddrs' = nsaddrs' ! k # drop (k + 1) nsaddrs'" using k len by (simp add: Cons_nth_drop_Suc)
  then show ?case
    using first IH before at len addr(2)
    by (intro exI [of _ statp'] exI [of _ nsaddrs']) (simp add: statp1_def)
qed

lemma lookup_domains_set:
  assumes "dnsrch statp = map (\<lambda>k. Some (nat k)) ks @ None # r" "rs_defdname statp = buf"
  shows "lookup_domains statp = map (\<lambda>k. cstr buf (nat k)) ks"
proof -
  have "takeWhile (\<lambda>p. p \<noteq> None) (dnsrch statp) = map (\<lambda>k. Some (nat k)) ks" unfolding assms(1) by (induction ks) simp_all
  then show ?thesis using assms(2) by (simp add: lookup_domains_def)
qed

text \<open>
  Claim C15. What is configured is what lookups use. After a configuration that succeeds and stores its
  entry, \<open>_resolv_populate_res_for_net\<close>, which every lookup calls, succeeds and fills the state of the lookup:
  its servers are as many as were given, and its addresses are theirs, in some order; the loop over the
  search list finds the words of the given string of domains up to the limits; and the parameters by
  which a lookup chooses servers are the given ones. This is for servers without repetition in the new and the old list, for addresses as
  \<open>getaddrinfo\<close> gives them for numeric hosts, and for a state whose search list ends no later than the new one, as it
  does in a new thread, on a host without a domain name, if there is a search domain; for others see \<open>search_list_not_ended\<close>.
\<close>

theorem configuration_read_back:
  assumes reach: "reachable net_enabled (net_exec G P) ([], []) (xs, out)" and dom: "NUL \<notin> set domains"
    and run: "resolv_set_nameservers_for_net G alloc n servers domains params xs = Some (0, xs')" "find_cache_info n xs' \<noteq> None"
    and dist: "distinct servers" "case find_cache_info n xs of None \<Rightarrow> True | Some x \<Rightarrow> distinct (take (ci_nscount x) (nameservers x))"
    and numeric: "numeric_addresses union_size G"
    and statp: "rs_netid statp = n" "rs_ext statp = Some nsaddrs" "length nsaddrs = MAXNS" "length (dnsrch statp) = MAXDNSRCH + 1"
      "dnsrch statp ! length (search_domains domains) = None"
  shows "\<exists>statp' nsaddrs' names revision sts. resolv_populate_res_for_net union_size in_size xs' statp = Some statp' \<and>
     rs_nscount statp' = length servers \<and> rs_ext statp' = Some nsaddrs' \<and> mset names = mset servers \<and>
     list_all2 (holds_address G) names (take (rs_nscount statp') nsaddrs') \<and>
     lookup_domains statp' = search_domains domains \<and>
     resolv_cache_get_resolver_stats n xs' = Some (revision, (case params of None \<Rightarrow> resolv_set_default_params | Some p \<Rightarrow> p), sts)"
proof -
  obtain y where y: "find_cache_info n xs' = Some y" using run(2) by auto
  obtain names ais where c: "mset names = mset servers" "map G names = map Some ais" "length ais = length servers" "length servers \<le> MAXNS"
    "nsaddrinfo y = map Some ais @ replicate (MAXNS - length servers) None" "ci_params y = (case params of None \<Rightarrow> resolv_set_default_params | Some p \<Rightarrow> p)"
    "map (\<lambda>k. cstr (defdname y) (nat k)) (takeWhile (\<lambda>k. k \<noteq> -1) (take MAXDNSRCH (dnsrch_offset y))) = search_domains domains"
    using configured [OF rs.reachable_inv [OF reach] dom run(1) y dist] by blast
  define ks where "ks = takeWhile (\<lambda>k. k \<noteq> -1) (take MAXDNSRCH (dnsrch_offset y))"
  have ais: "list_all (numeric_address union_size) ais"
  proof -
    have "\<exists>name. G name = Some ai" if "ai \<in> set ais" for ai
    proof -
      have "Some ai \<in> set (map G names)" unfolding c(2) using that by simp
      then show ?thesis by (auto dest: sym)
    qed
    then show ?thesis using numeric by (force simp: list_all_iff numeric_addresses_def)
  qed
  obtain statp1 nsaddrs' where s: "populate_servers union_size in_size 0 (map Some ais @ replicate (MAXNS - length servers) None) statp = Some statp1"
    "rs_nscount statp1 = length ais" "rs_ext statp1 = Some nsaddrs'" "dnsrch statp1 = dnsrch statp"
    "list_all2 (\<lambda>ai a. \<exists>addr. ai_addr ai = Some addr \<and> take (length addr) a = addr) ais (take (length ais) nsaddrs')"
    using populate_servers_addrs [OF ais statp(2), of 0 in_size "MAXNS - length servers"] c(3,4) statp(3) by auto
  define statp' where "statp' = statp1\<lparr>rs_defdname := defdname y, dnsrch := map (\<lambda>k. Some (nat k)) ks @ drop (length ks) (dnsrch statp1)\<rparr>"
  have tk: "take MAXNS (nsaddrinfo y) = map Some ais @ replicate (MAXNS - length servers) None" using c(3,4,5) by simp
  have pop: "resolv_populate_res_for_net union_size in_size xs' statp = Some statp'"
    unfolding resolv_populate_res_for_net_def statp(1) y option.case tk s(1) ks_def [symmetric] by (simp add: statp'_def)
  have len: "length ks = length (search_domains domains)" using arg_cong [OF c(7), of length] by (simp add: ks_def)
  have "length ks \<le> length (take MAXDNSRCH (dnsrch_offset y))" unfolding ks_def by (rule length_takeWhile_le)
  then have "length ks < length (dnsrch statp)" using statp(4) by simp
  then have "drop (length ks) (dnsrch statp1) = None # drop (Suc (length ks)) (dnsrch statp)"
    unfolding s(4) using statp(5) by (simp add: len flip: Cons_nth_drop_Suc)
  then have "lookup_domains statp' = search_domains domains"
    using lookup_domains_set [of statp' ks] c(7) by (simp add: statp'_def ks_def)
  moreover have "list_all2 (holds_address G) names (take (rs_nscount statp') nsaddrs')"
  proof -
    have "list_all2 (\<lambda>r a. \<exists>addr. Option.bind r ai_addr = Some addr \<and> take (length addr) a = addr) (map Some ais) (take (length ais) nsaddrs')"
      using s(5) by (simp add: list_all2_map1)
    then show ?thesis unfolding c(2) [symmetric] by (simp add: list_all2_map1 holds_address_def [abs_def] statp'_def s(2))
  qed
  moreover have "rs_nscount statp' = length servers" "rs_ext statp' = Some nsaddrs'" using s(2,3) c(3) by (simp_all add: statp'_def)
  ultimately show ?thesis
    using pop c(1,6) y unfolding resolv_cache_get_resolver_stats_def by auto
qed

text \<open>The state of a new thread, after \<open>res_vinit\<close>: the first search domain is the empty default domain.\<close>

definition demo_state :: res_state where
  "demo_state = \<lparr>rs_netid = 100, rs_nscount = 1, nsaddr_list = replicate 4 (replicate 16 0), rs_ext = Some (replicate 4 (replicate 28 0)),
     rs_defdname = replicate 256 NUL, dnsrch = [Some 0, None, None, None, None, None, None]\<rparr>"

lemma demo_numeric: "numeric_addresses 28 demo_addr"
  by (auto simp: demo_addr_def numeric_addresses_def numeric_address_def split: if_splits)

theorem configuration_read_back_witness:
  "\<exists>xs' statp'. resolv_set_nameservers_for_net demo_addr True 100 [''1.2.3.4''] ''a.b  c.d'' None [] = Some (0, xs') \<and>
     resolv_populate_res_for_net 28 16 xs' demo_state = Some statp' \<and> lookup_domains statp' = [''a.b'', ''c.d''] \<and> rs_nscount statp' = 1"
proof -
  have "(case resolv_set_nameservers_for_net demo_addr True 100 [''1.2.3.4''] ''a.b  c.d'' None [] of None \<Rightarrow> False | Some (r, xs) \<Rightarrow>
      r = 0 \<and> \<not> Option.is_none (find_cache_info 100 xs))" by code_simp
  then obtain xs' where r: "resolv_set_nameservers_for_net demo_addr True 100 [''1.2.3.4''] ''a.b  c.d'' None [] = Some (0, xs')"
    "find_cache_info 100 xs' \<noteq> None"
    by (cases "resolv_set_nameservers_for_net demo_addr True 100 [''1.2.3.4''] ''a.b  c.d'' None []") (auto simp: Option.is_none_def)
  have words: "search_domains ''a.b  c.d'' = [''a.b'', ''c.d'']" by code_simp
  have "\<exists>statp'. resolv_populate_res_for_net 28 16 xs' demo_state = Some statp' \<and> rs_nscount statp' = 1 \<and> lookup_domains statp' = [''a.b'', ''c.d'']"
    using configuration_read_back [OF reach_init _ r _ _ demo_numeric, where statp = demo_state and in_size = 16]
    by (auto simp: words demo_state_def)
  then show ?thesis using r(1) by blast
qed

text \<open>
  The search list of the state is not ended after the new domains: in a thread that looked up names on a
  network with two domains before, a network with one domain is searched with a second one, at the old offset of
  the second domain.
\<close>

lemma search_list_not_ended:
  "(case resolv_set_nameservers_for_net demo_addr True 100 [''1.2.3.4''] ''wide.example.org'' None [] of
      None \<Rightarrow> None
    | Some (r, xs) \<Rightarrow> map_option lookup_domains (resolv_populate_res_for_net 28 16 xs (demo_state\<lparr>dnsrch := [Some 0, Some 5, None, None, None, None, None]\<rparr>))) = Some [''wide.example.org'', ''example.org'']"
  by code_simp

text \<open>
  A network that is deleted and configured again starts with the revision it had after its first
  configuration, so that a sample of its old servers can be credited to the new ones.
\<close>

lemma new_network_revision:
  assumes "find_cache_info n xs = None" "servers \<noteq> []" "resolv_set_nameservers_for_net G True n servers domains params xs = Some (0, xs')"
  shows "\<exists>y. find_cache_info n xs' = Some y \<and> revision_id y = 2"
  using assms(3)
proof (cases rule: set_cases)
  case (Done ais x y)
  have x: "x = create_cache_info n resolv_cache_create" using Done(4) assms(1) by (simp add: find_get)
  have "revision_id y = revision_id (set_nameservers servers ais params x)" using Done(5) by (auto simp: set_search_domains_def)
  also have "\<dots> = 2" using assms(2) x
    by (simp add: set_nameservers_def Let_def free_nameservers_def resolv_is_nameservers_equal_def create_cache_info_def)
  finally show ?thesis using Done by (simp add: find_update)
qed (use assms(1) in \<open>simp_all add: find_get\<close>)

lemma revision_restarts:
  assumes "config_inv G (xs, out)" "resolv_delete_cache_for_net n xs = Some xs1" "servers \<noteq> []"
    and "resolv_set_nameservers_for_net G True n servers domains params xs1 = Some (0, xs2)"
  shows "\<exists>y. find_cache_info n xs2 = Some y \<and> revision_id y = 2"
proof (rule new_network_revision [OF _ assms(3,4)])
  have "xs1 = filter (\<lambda>x. ci_netid x \<noteq> n) xs" using delete_ok [of xs G n] assms(1,2) by (auto simp: config_inv_def)
  then show "find_cache_info n xs1 = None" by (auto simp: find_None_netids)
qed

text \<open>When only the size of the ring changes, the samples of all servers but the first stay.\<close>

lemma samples_kept:
  assumes "resolv_is_nameservers_equal x servers" "0 < ns" "ns < length (nsstats x)"
  shows "nsstats (set_nameservers servers ais params x) ! ns = nsstats x ! ns"
  using assms by (cases "nsstats x") (auto simp: set_nameservers_def resolv_is_nameservers_equal_def Let_def res_cache_clear_stats_def numeral_eq_Suc)

end
