(* ===== verification/Spec2Isabelle.thy ===== *)
theory Spec2Isabelle
  imports Route_Properties Network_Properties Fwmark_Server Firewall_Properties Stats_Properties
    Dns_Tls_Properties Dns_Tls_Connect Dns_Tls_Socket Dns_Tls_Dispatcher Private_Dns Res_Config_Properties
begin

text \<open>
  A verification development of netd, the Android network daemon.

  \<^bold>\<open>The program.\<close> netd configures the kernel's networking for the framework. Clients reach it through
  binder and local sockets; its controllers turn requests into policy routing rules and routes (over
  netlink), iptables scripts, and entries of BPF maps, and keep the state that later requests refer to.
  The heart of it is modelled here:

  \<^item> \<open>NetworkController\<close> keeps the networks, their interfaces, the default network, the permissions of
    users, and the users that may protect sockets from VPNs. It calls the network objects.
  \<^item> The network objects (physical, virtual, local, dummy) keep their interfaces and call
    \<open>RouteController\<close> for every change.
  \<^item> \<open>RouteController\<close> writes the rules and routes of the interfaces through \<open>NetlinkCommands\<close>.
  \<^item> \<open>FwmarkServer\<close> sets the marks of the sockets of clients, from which the rules select the network;
    it asks \<open>NetworkController\<close> for the rights of the client and passes accounting commands to
    \<open>TrafficController\<close>.
  \<^item> \<open>FirewallController\<close> filters packets by UID, through iptables or the maps of \<open>TrafficController\<close>.
  \<^item> \<open>TrafficController\<close> keeps the BPF maps of tags, counter sets, and UID match bits, and
    \<open>BpfNetworkStats\<close> reads the statistics maps.
  \<^item> The private DNS part of the resolver: \<open>PrivateDnsConfiguration\<close> keeps the mode and the servers of each
    network and validates them in threads; \<open>DnsTlsDispatcher\<close> gives each query to a transport of a validated
    server; a \<open>DnsTlsTransport\<close> keeps its queries in a \<open>DnsTlsQueryMap\<close> and reconnects its \<open>DnsTlsSocket\<close>,
    whose loop thread reads and writes the TLS connection.
  \<^item> The configuration and the caches of the resolver, one for each network: lookups ask the cache before they
    send a query and add the answers to it, read the servers and search domains, and keep statistics of the
    servers by which they choose among them.

  \<^bold>\<open>The theories.\<close>
  \<^descr>[Netd_Prelude] machine types, error numbers, the early-return idiom (\<open>chk\<close>, \<open>chk_all\<close>, \<open>pchk\<close>), and
    \<open>std::map\<close> and \<open>std::set\<close> as ordered lists with their contracts (locales \<open>std_map\<close>, \<open>std_set\<close>), and the
    contract of an encoder and its decoder (locale \<open>codec\<close>).
  \<^descr>[C_Library] \<open>strtoul\<close>, \<open>strtol\<close>, the \<open>printf\<close> conversions, little-endian stores.
  \<^descr>[Fwmark] include/Fwmark.h and include/Permission.h: the mark as bit ranges of a word (locale
    \<open>mark_field\<close>).
  \<^descr>[Uid_Ranges] server/UidRanges.cpp: the record of ranges, parsing, membership, adding and removing
    (locale \<open>range_store\<close>).
  \<^descr>[Kernel_Env] the world outside: the parameter \<open>kern\<close>, whose answers are arbitrary functions of the
    complete history of interactions, and the daemon's \<open>world\<close>; the iptables entry points of
    server/NetdConstants.cpp.
  \<^descr>[Netlink] server/NetlinkCommands.cpp at byte level: requests, acknowledgements, dumps, attributes.
  \<^descr>[Route_Controller, Route_Rules] server/RouteController.cpp, and the decoding of a rule request.
  \<^descr>[Route_Fib] the kernel's rule base as a fold over the history, the rules each operation sends, and
    the lookup of a packet.
  \<^descr>[Route_Properties] what the route controller guarantees.
  \<^descr>[Networks] server/Network.cpp, PhysicalNetwork.cpp, VirtualNetwork.cpp, LocalNetwork.cpp and
    DummyNetwork.cpp: one record with a tagged kind (locale \<open>interface_set\<close>, interpreted on each class).
  \<^descr>[Network_Controller] server/NetworkController.cpp: the record \<open>ctrl\<close> of the members under the lock,
    one function per method.
  \<^descr>[Network_Invariant, Network_Properties] the invariant of the controller, its preservation by every
    operation, and what the operations do.
  \<^descr>[Fwmark_Server] server/FwmarkServer.cpp and include/FwmarkCommand.h: the handling of a message.
  \<^descr>[Bpf_Maps] the interface of the BPF map library, a parameter with its documented laws.
  \<^descr>[Traffic_Controller, Traffic_Properties] server/TrafficController.cpp (locale \<open>uid_flags\<close>).
  \<^descr>[Firewall, Firewall_Properties] server/FirewallController.cpp, with a semantics of the chains.
  \<^descr>[Network_Stats, Stats_Properties] libnetdbpf/BpfNetworkStats.cpp.

  \<^descr>[Cpp_Containers] \<open>std::map\<close> and \<open>std::set\<close> with a comparator of their own (locale \<open>comparator\<close>), and
    promises.
  \<^descr>[Step_Systems] threads as labelled steps, and the invariant rule (locale \<open>step_invariant\<close>).
  \<^descr>[Net_Utils] \<open>BackoffSequence\<close> and \<open>OperationLimiter\<close> of libnetdutils.
  \<^descr>[Dns_Tls_Server, Dns_Tls_Query_Map, Dns_Tls_Transport, Dns_Tls_Properties] resolv/DnsTlsServer.cpp,
    DnsTlsQueryMap.cpp and DnsTlsTransport.cpp, with the threads that call them as steps.
  \<^descr>[Dns_Tls_Connect] resolv/DnsTlsSocket.cpp, DnsTlsSessionCache.cpp and DnsTlsSocketFactory.h: connecting,
    certificates and sessions, with an SSL object as the log of the calls made on it.
  \<^descr>[Dns_Tls_Socket] resolv/DnsTlsSocket.cpp: framing, and the loop's queue.
  \<^descr>[Dns_Tls_Dispatcher] resolv/DnsTlsDispatcher.cpp.
  \<^descr>[Private_Dns] resolv/PrivateDnsConfiguration.cpp.
  \<^descr>[Dns_Packet] resolv/res_cache.cpp, the reading of packets: which queries are cached, their hash and their
    comparison (locale \<open>comparison\<close>, of a comparison with the parser of what it compares).
  \<^descr>[Res_Cache, Res_Cache_Rep, Res_Cache_Lru] the cache of resolv/res_cache.cpp on a heap with one function per
    pointer field; the lists that the pointers represent; and the specification as a list in the order of use,
    with the simulation between them.
  \<^descr>[Res_Answer] the time to live of an answer.
  \<^descr>[Res_Stats] resolv/res_stats.cpp and the ring of samples of resolv/res_cache.cpp.
  \<^descr>[Res_Config, Res_Config_Properties] the list of networks of resolv/res_cache.cpp with its servers, search
    domains and caches; all calls as steps, their invariant and what they promise to lookups.

  \<^bold>\<open>What the theorems show.\<close> For routing: requests carry the intended rules for both families, adding and
  removing are inverse on the installed rules, a permission change leaves no moment without a rule,
  the tethering loop ends, and lockdown rules stop every unprotected packet. For the controller: every
  reachable state is consistent whatever fails, and destroying a network leaves no trace of it. For the
  server: no client gives a socket more than its user has, and which of the descriptors it receives stay open. For
  the firewall: scripts mean the policy, and \<open>setUidRule\<close> filters the same UIDs with scripts and with BPF maps. For
  accounting: statistics are neither lost nor counted twice. For DNS over TLS: in every interleaving each
  query is resolved once and none is lost, a transport in use is not freed, a connection, also one that
  resumes a session, is made only to an authenticated server, and only servers that answered a validation are trusted. For the resolver's cache:
  the pointers implement a bounded list in the order of use, an answer is given only for the question it was
  added for and before it expires, lookups find in their state what was configured,
  and the statistics of a server are those of its most recent samples. The theorems of this theory join the
  parts: from a client's request to the routing rule its packets match, and the confinement of the users of a
  secure VPN.

  \<^bold>\<open>Bounds and fuel.\<close> Loops over containers are structural. \<open>clearInterfaces\<close> and the loop of
  \<open>clearTetheringRules\<close> may not end, so they are partial functions with \<open>None\<close> for not returning, and their returning is proved
  (for the loop, for kernels that answer deletions by their rules).
  The search for an OEM NetId has fuel 50, the number of candidates. Elsewhere \<open>None\<close> marks undefined
  behaviour: a bad cast, an access outside a buffer, signed overflow, an uncaught exception. The loops over a
  TLS connection consume a list of outcomes of the calls to OpenSSL, and \<open>None\<close> means that the list was
  too short; the theorems about them are for lists that are long enough, or say which lists those are. The loops
  of the cache follow pointers, so they are partial functions; that they return is proved for every cache that
  calls can reach.

  \<^bold>\<open>What is not modelled.\<close> Threads inside a step: each public method of a controller holds its lock, so it is one step,
  and interleaving is sequences of steps. Logging and \<open>dump\<close> methods. The sending of queries by the BSD resolver in resolv, IPsec,
  tethering, bandwidth, interface and clatd controllers, the binder service and the command parser,
  which are listed in the manifest. The kernel, the iptables processes, the BPF library and the
  resolver's answers are parameters.
\<close>

unbundle bit_operations_syntax

section \<open>From a request to the routing of a socket\<close>

lemma access_permission:
  assumes "checkUserNetworkAccessLocked c uid netId = Some 0" "getNetworkLocked c netId = Some n"
    and "kind n = PhysicalNetwork permission d" "is_permission permission"
  shows "getPermissionForUserLocked c uid AND permission = permission"
proof -
  let ?P = "getPermissionForUserLocked c uid"
  have "?P AND PERMISSION_SYSTEM = PERMISSION_SYSTEM \<or> ?P AND permission = permission"
    using assms(1-3)
    by (auto simp: checkUserNetworkAccessLocked_def Let_def getType_def getPermission_def split: if_splits)
  moreover have "?P AND PERMISSION_NETWORK = PERMISSION_NETWORK" if "?P AND PERMISSION_SYSTEM = PERMISSION_SYSTEM"
  proof -
    have "?P AND PERMISSION_NETWORK = (?P AND PERMISSION_SYSTEM) AND PERMISSION_NETWORK" by (simp add: and.assoc)
    then show ?thesis using that by simp
  qed
  ultimately show ?thesis using assms(4) by (auto simp: is_permission_def)
qed

lemma take_bit_permission:
  assumes "P AND permission = permission" "is_permission permission"
  shows "take_bit 2 P AND permission = (permission :: u32)"
proof -
  have "take_bit 2 P AND permission = take_bit 2 (P AND permission)"
    using assms(2) by (auto simp: is_permission_def take_bit_and)
  then show ?thesis using assms by (auto simp: is_permission_def)
qed

text \<open>
  Claim C2. A socket gets the network it asked for. If \<open>SELECT_NETWORK\<close> for a physical network succeeds,
  the packets of the socket match the explicit-network rule that the route controller installs for each
  interface of that network with the network's permission, whatever the mark was before.
\<close>

theorem selected_network_routes:
  assumes "ctrl_inv c" "processClient E c uid msg = Some (r, fd, es)" "SetMark m \<in> set es"
    and "cmdId (command msg) = SELECT_NETWORK" "cmd_netId (command msg) = netId" "netId \<noteq> NETID_UNSET"
    and "getNetworkLocked c netId = Some n" "kind n = PhysicalNetwork permission d" "is_permission permission"
    and "pk_mark p = m" "pk_iif p = ''lo''"
  shows "\<exists>rule \<in> set (physical_rules netId interface permission table). rule_matches rule p \<and>
    fr_priority rule = RULE_PRIORITY_EXPLICIT_NETWORK \<and> fr_table rule = table"
proof -
  obtain old new q where q: "choose_mark c uid (command msg) old = Some (Inr (new, q))" and m: "m = fm_set_permission q new"
    using processClient_mark [OF assms(2,3)] by blast
  have "net_ok netId n" using assms(1,7) by (simp add: ctrl_inv_def nets_ok_def getNetworkLocked_def)
  then have netId: "netId < 0x10000"
    using assms(8) by (auto simp: net_ok_def getType_def word_le_def word_less_def)
  have mark: "fm_netId m = take_bit 16 netId \<and> fm_explicitlySelected m \<and>
      fm_permission m = take_bit 2 (getPermissionForUserLocked c uid) \<and>
      checkUserNetworkAccessLocked c uid netId = Some 0"
    using q assms(4-6) by (cases rule: choose_mark_cases) (simp_all add: m mark_simps)
  then have "fm_permission m AND permission = permission"
    using access_permission [OF _ assms(7-9)] take_bit_permission assms(9) by metis
  then have "rule_matches (explicit_rule netId table permission INVALID_UID INVALID_UID) p"
    unfolding explicit_rule_matches [OF netId assms(9)]
    using mark take_bit_netid [OF netId] assms(10,11) by simp
  then show ?thesis by (intro bexI [of _ "explicit_rule netId table permission INVALID_UID INVALID_UID"])
      (simp_all add: physical_rules_def explicit_rule_def mk_rule_def)
qed

theorem selected_network_routes_witness:
  "\<exists>m. processClient (demo_env 0) demo_ctrl 10009 (demo_msg SELECT_NETWORK 100) = Some (0, 7, [SetMark m]) \<and>
     (\<exists>rule \<in> set (physical_rules 100 ''wlan0'' PERMISSION_NONE 1005).
        rule_matches rule \<lparr>pk_family = AF_INET, pk_uid = 10009, pk_mark = m, pk_iif = ''lo'', pk_oif = None\<rparr> \<and>
        fr_priority rule = RULE_PRIORITY_EXPLICIT_NETWORK \<and> fr_table rule = 1005)"
proof -
  have user: "getPermissionForUserLocked demo_ctrl 10009 = PERMISSION_SYSTEM"
    by (simp add: getPermissionForUserLocked_def demo_ctrl_def)
  then have "checkUserNetworkAccessLocked demo_ctrl 10009 100 = Some 0" "canProtectLocked demo_ctrl 10009"
    by (simp_all add: checkUserNetworkAccessLocked_def demo_nets canProtectLocked_def)
  then obtain m where run: "processClient (demo_env 0) demo_ctrl 10009 (demo_msg SELECT_NETWORK 100) = Some (0, 7, [SetMark m])"
    using user by (simp add: processClient_def demo_msg_simps demo_env_def processSocket_def isSupportedFamily_def choose_mark_def
        selectNetwork_def Let_def)
  show ?thesis
    using selected_network_routes [OF demo_inv run, of m 100 _ PERMISSION_NONE True
        "\<lparr>pk_family = AF_INET, pk_uid = 10009, pk_mark = m, pk_iif = ''lo'', pk_oif = None\<rparr>" "''wlan0''" 1005] run
    by (simp add: demo_msg_def demo_nets is_permission_def)
qed

text \<open>
  The ranges of a VPN, and that every VPN that applies to a user is secure; the code looks at the one with
  the least NetId.
\<close>

definition vpn_ranges :: "ctrl \<Rightarrow> netid \<Rightarrow> UidRanges" where
  "vpn_ranges c netId =
     (case getNetworkLocked c netId of None \<Rightarrow> []
      | Some n \<Rightarrow> (case kind n of VirtualNetwork secure ranges \<Rightarrow> ranges | _ \<Rightarrow> []))"

definition vpn_of :: "ctrl \<Rightarrow> uid_t \<Rightarrow> netid \<Rightarrow> bool" where
  "vpn_of c uid netId \<longleftrightarrow>
     (case getNetworkLocked c netId of None \<Rightarrow> False | Some n \<Rightarrow> getType n = VIRTUAL \<and> appliesToUser n uid)"

definition vpns_secure :: "ctrl \<Rightarrow> uid_t \<Rightarrow> bool" where
  "vpns_secure c uid \<longleftrightarrow> (\<forall>i n. getNetworkLocked c i = Some n \<longrightarrow> vpn_of c uid i \<longrightarrow> isSecure n)"

lemma vpn_found:
  assumes "ctrl_inv c" "vpn_of c uid netId" "vpns_secure c uid"
  shows "\<exists>v. getVirtualNetworkForUserLocked c uid = Some v \<and> isSecure v"
proof -
  let ?P = "\<lambda>e. getType (snd e) = VIRTUAL \<and> appliesToUser (snd e) uid"
  obtain n where n: "getNetworkLocked c netId = Some n" "?P (netId, n)"
    using assms(2) by (auto simp: vpn_of_def split: option.splits)
  then have "(netId, n) \<in> set (mNetworks c)" by (auto simp: getNetworkLocked_def dest: map_of_SomeD)
  then obtain e where e: "find ?P (mNetworks c) = Some e" using n(2) by (cases "find ?P (mNetworks c)") (auto simp: find_None_iff)
  then have "?P e" "e \<in> set (mNetworks c)" by (auto simp: find_Some_iff)
  moreover from this(2) have "getNetworkLocked c (fst e) = Some (snd e)"
    using assms(1) unfolding getNetworkLocked_def by (intro map_of_is_SomeI) (simp_all add: ctrl_inv_def om_inv_distinct)
  ultimately have "isSecure (snd e)" using assms(3) by (auto simp: vpns_secure_def vpn_of_def)
  then show ?thesis using e by (simp add: getVirtualNetworkForUserLocked_def)
qed

lemma confined_access:
  assumes "ctrl_inv c" "vpn_of c uid netId" "vpns_secure c uid" "uid \<noteq> INVALID_UID"
    and "getPermissionForUserLocked c uid AND PERMISSION_SYSTEM \<noteq> PERMISSION_SYSTEM" "uid \<notin> set (mProtectableUsers c)"
  shows "\<exists>r. checkUserNetworkAccessLocked c uid i = Some r \<and> (r = 0 \<longleftrightarrow> vpn_of c uid i)"
proof -
  obtain v where "getVirtualNetworkForUserLocked c uid = Some v" "isSecure v" using vpn_found [OF assms(1-3)] by blast
  then show ?thesis
    using assms(4-6) by (auto simp: checkUserNetworkAccessLocked_def vpn_of_def Let_def split: option.splits)
qed

lemma addUsers_applies:
  assumes "addUsersToNetwork K netId uidRanges (c, w) = Some (0, c', w')" "ctrl_inv c"
    and "disjoint_ranges (vpn_ranges c' netId)" "covers uidRanges (uint uid)" "uid \<le> INT32_MAX"
  shows "ctrl_inv c' \<and> vpn_of c' uid netId \<and> mUsers c' = mUsers c \<and> mProtectableUsers c' = mProtectableUsers c"
proof -
  have run: "on_network netId (addUsers K uidRanges (mProtectableUsers c)) (c, w) = Some (0, c', w')"
    using assms(1) by (auto simp: addUsersToNetwork_def split: option.splits if_splits)
  then obtain n n' where n: "addUsers K uidRanges (mProtectableUsers c) (n, w) = Some (0, n', w')"
    "c' = c\<lparr>mNetworks := om_put netId n' (mNetworks c)\<rparr>" by (rule on_network_cases)
  obtain secure ranges where n': "n' = n\<lparr>kind := VirtualNetwork secure (ranges_add ranges uidRanges)\<rparr>"
    using addUsers_obj [OF n(1)] by auto
  have get: "getNetworkLocked c' netId = Some n'" by (simp add: n(2) getNetworkLocked_def map_of_om_put)
  have "covers (ranges_add ranges uidRanges) (uint uid)"
    using assms(4) by (auto simp: covers_def ranges_add_def)
  moreover have "disjoint_ranges (ranges_add ranges uidRanges)" using assms(3) get n' by (simp add: vpn_ranges_def)
  ultimately have "hasUid (ranges_add ranges uidRanges) uid" using hasUid_iff_covers assms(5) by blast
  then have "vpn_of c' uid netId" using get n' by (simp add: vpn_of_def getType_def appliesToUser_def)
  then show ?thesis using addUsers_inv [OF assms(2) run] n(2) by simp
qed

text \<open>
  Claim C5. A secure VPN confines its users. After \<open>addUsersToNetwork\<close> has put a range of UIDs on a VPN, let
  \<open>uid\<close> be one of them without the system permission and without the right to protect sockets, and let the VPNs
  that apply to it be secure. Then \<open>checkUserNetworkAccess\<close>, for whichever network, never reaches the bad cast and grants access exactly to the VPNs that
  apply to the user; and whatever command the user sends to the fwmark server, a mark that it sets selects a
  network explicitly only if the socket already had that selection or the network is a VPN that applies to the user,
  and it protects the socket from VPNs only if the socket already was. The ranges of the
  VPN have to be disjoint, since \<open>hasUid\<close> looks at one range only.
\<close>

theorem secure_vpn_confines:
  assumes inv: "ctrl_inv c" and run: "addUsersToNetwork K netId uidRanges (c, w) = Some (0, c', w')"
    and ranges: "disjoint_ranges (vpn_ranges c' netId)" and secure: "vpns_secure c' uid"
    and uid: "covers uidRanges (uint uid)" "uid \<le> INT32_MAX"
    and user: "getPermissionForUserLocked c uid AND PERMISSION_SYSTEM \<noteq> PERMISSION_SYSTEM" "uid \<notin> set (mProtectableUsers c)"
  shows "(\<forall>i. \<exists>r. checkUserNetworkAccessLocked c' uid i = Some r \<and> (r = 0 \<longleftrightarrow> vpn_of c' uid i)) \<and>
    (\<forall>E msg r fd es m old. processClient E c' uid msg = Some (r, fd, es) \<and> SetMark m \<in> set es \<and> so_mark E = Inr old \<longrightarrow>
       (fm_explicitlySelected m \<longrightarrow>
          fm_explicitlySelected old \<and> fm_netId m = fm_netId old \<or> vpn_of c' uid (fm_netId m)) \<and>
       (fm_protectedFromVpn m \<longrightarrow> fm_protectedFromVpn old))"
proof -
  have c': "ctrl_inv c'" "vpn_of c' uid netId" and same: "mUsers c' = mUsers c" "mProtectableUsers c' = mProtectableUsers c"
    using addUsers_applies [OF run inv ranges uid] by simp_all
  have perm: "getPermissionForUserLocked c' uid AND PERMISSION_SYSTEM \<noteq> PERMISSION_SYSTEM" "uid \<notin> set (mProtectableUsers c')"
    using user same by (simp_all add: getPermissionForUserLocked_def)
  then have protect: "\<not> canProtectLocked c' uid" by (simp add: canProtectLocked_def)
  have "uid \<noteq> INVALID_UID" using uid(2) by auto
  note access = confined_access [OF c' secure this perm]
  have marks: "(fm_explicitlySelected m \<longrightarrow> fm_explicitlySelected old \<and> fm_netId m = fm_netId old \<or> vpn_of c' uid (fm_netId m)) \<and>
      (fm_protectedFromVpn m \<longrightarrow> fm_protectedFromVpn old)"
    if p: "processClient E c' uid msg = Some (r, fd, es)" "SetMark m \<in> set es" "so_mark E = Inr old" for E msg r fd es m old
  proof -
    obtain new q where q: "choose_mark c' uid (command msg) old = Some (Inr (new, q))" and m: "m = fm_set_permission q new"
      using processClient_mark [OF p(1,2)] p(3) by auto
    show ?thesis
      using q
    proof (cases rule: choose_mark_cases)
      case select
      then have vpn: "vpn_of c' uid (cmd_netId (command msg))" using access [of "cmd_netId (command msg)"] by simp
      then obtain n where "getNetworkLocked c' (cmd_netId (command msg)) = Some n" "getType n = VIRTUAL"
        by (auto simp: vpn_of_def split: option.splits)
      then have "cmd_netId (command msg) < 0x10000"
        using ctrl_invD(1) [OF c'(1)] by (fastforce simp: net_ok_def word_le_def word_less_def)
      then have "take_bit 16 (cmd_netId (command msg)) = cmd_netId (command msg)" by (rule take_bit_netid)
      then show ?thesis using select vpn protect by (simp add: m mark_simps)
    qed (use protect perm in \<open>simp_all add: m mark_simps\<close>)
  qed
  show ?thesis using access marks by blast
qed

text \<open>A controller on which a secure VPN has just been created.\<close>

definition vpn_ctrl :: ctrl where
  "vpn_ctrl = NetworkController_new\<lparr>mNetworks := om_put 101 (VirtualNetwork_new 101 True) (mNetworks NetworkController_new)\<rparr>"

lemma vpn_ctrl_inv: "ctrl_inv vpn_ctrl"
proof -
  let ?w = "\<lparr>trace = [], nl_fds = 0, sInterfaceToTable = []\<rparr> :: world"
  have "createVirtualNetwork kern_acks 101 True (NetworkController_new, ?w) = (0, vpn_ctrl, ?w)"
    by (simp add: createVirtualNetwork_def modifyFallthroughLocked_def isValidNetworkLocked_def getNetworkLocked_def
        NetworkController_new_def vpn_ctrl_def)
  from createVirtual_inv [OF ctrl_inv_new this] show ?thesis .
qed

theorem secure_vpn_confines_witness:
  "\<exists>c' w'. addUsersToNetwork kern_acks 101 [UidRangeParcel 10000 19999] (vpn_ctrl, \<lparr>trace = [], nl_fds = 0, sInterfaceToTable = []\<rparr>) = Some (0, c', w') \<and>
     vpn_of c' 10001 101 \<and> checkUserNetworkAccessLocked c' 10001 99 \<noteq> Some 0 \<and> checkUserNetworkAccessLocked c' 10001 99 \<noteq> None"
proof -
  let ?w = "\<lparr>trace = [], nl_fds = 0, sInterfaceToTable = []\<rparr> :: world"
  obtain c' w' where run: "addUsersToNetwork kern_acks 101 [UidRangeParcel 10000 19999] (vpn_ctrl, ?w) = Some (0, c', w')"
    and nets: "mNetworks c' = [(51, DummyNetwork_new 51), (99, LocalNetwork_new 99),
      (101, \<lparr>mNetId = 101, mInterfaces = [], kind = VirtualNetwork True [UidRangeParcel 10000 19999]\<rparr>)]"
    by (simp add: addUsersToNetwork_def on_network_def addUsers_def maybeCloseSockets_def kern_acks_def getNetworkLocked_def
        vpn_ctrl_def NetworkController_new_def VirtualNetwork_new_def getType_def ranges_add_def on_world_def tot_def update_obj_def pchk_def)
  have types: "getType (DummyNetwork_new 51) \<noteq> VIRTUAL" "getType (LocalNetwork_new 99) \<noteq> VIRTUAL"
    by (simp_all add: DummyNetwork_new_def LocalNetwork_new_def getType_def)
  have get: "getNetworkLocked c' i = (if i = 51 then Some (DummyNetwork_new 51) else if i = 99 then Some (LocalNetwork_new 99)
      else if i = 101 then Some \<lparr>mNetId = 101, mInterfaces = [], kind = VirtualNetwork True [UidRangeParcel 10000 19999]\<rparr> else None)" for i
    by (simp add: getNetworkLocked_def nets)
  have h: "disjoint_ranges (vpn_ranges c' 101)" "vpns_secure c' 10001"
    by (auto simp: vpn_ranges_def get disjoint_ranges_def vpns_secure_def vpn_of_def types isSecure_def split: if_splits)
  have u: "covers [UidRangeParcel 10000 19999] (uint (10001 :: u32))" "(10001 :: u32) \<le> INT32_MAX"
    "getPermissionForUserLocked vpn_ctrl 10001 AND PERMISSION_SYSTEM \<noteq> PERMISSION_SYSTEM" "10001 \<notin> set (mProtectableUsers vpn_ctrl)"
    by (simp_all add: covers_def getPermissionForUserLocked_def vpn_ctrl_def NetworkController_new_def)
  have "\<exists>r. checkUserNetworkAccessLocked c' 10001 i = Some r \<and> (r = 0 \<longleftrightarrow> vpn_of c' 10001 i)" for i
    using secure_vpn_confines [OF vpn_ctrl_inv run h u] by blast
  note access = this
  have "vpn_of c' 10001 101" "\<not> vpn_of c' 10001 99"
    using hasUid_iff_covers [of "[UidRangeParcel 10000 19999]" 10001] u(1,2)
    by (simp_all add: vpn_of_def get LocalNetwork_new_def getType_def appliesToUser_def disjoint_ranges_def)
  then show ?thesis using run access [of 99] by auto
qed

text \<open>
  Claim C1. Lockdown cannot be escaped through the fwmark server. Once the rules that reject
  unprotected traffic of a range of UIDs are installed, no command a client of such a UID can send
  lets the packets of its socket past them, provided that the UID may not protect sockets and that the
  socket was not protected before: the lookup is decided by a rule of at most that priority.
\<close>

theorem lockdown_holds_for_clients:
  assumes "addUsersToRejectNonSecureNetworkRule K uidRanges w = (0, w')"
    and "rng \<in> set (getRanges uidRanges)" "0 \<le> start rng" "stop rng < 2 ^ 31"
    and "start rng \<le> uint uid" "uint uid \<le> stop rng"
    and "processClient E c uid msg = Some (r, fd, es)" "SetMark m \<in> set es" "so_mark E = Inr old"
    and "\<not> canProtectLocked c uid" "\<not> fm_protectedFromVpn old"
    and "pk_uid p = uid" "pk_mark p = m" "pk_iif p = ''lo''" "pk_family p = AF_INET \<or> pk_family p = AF_INET6"
  shows "\<exists>rule. deciding_rule (fib_lookup routes (fib F (trace w')) p) = Some rule \<and>
    fr_priority rule \<le> RULE_PRIORITY_PROHIBIT_NON_VPN"
proof -
  obtain new q where q: "choose_mark c uid (command msg) old = Some (Inr (new, q))" and m: "m = fm_set_permission q new"
    using processClient_mark [OF assms(7,8)] assms(9) by auto
  have sys: "getPermissionForUserLocked c uid AND PERMISSION_SYSTEM \<noteq> PERMISSION_SYSTEM"
    using assms(10) by (simp add: canProtectLocked_def)
  have "\<not> fm_protectedFromVpn m"
    using q by (cases rule: choose_mark_cases) (use assms(10,11) sys in \<open>simp_all add: m mark_simps\<close>)
  then show ?thesis
    using lockdown_stops [OF assms(1-4), of p routes F] assms(5,6,12-15) by simp
qed


theorem lockdown_holds_for_clients_witness:
  "\<exists>w' m rule. addUsersToRejectNonSecureNetworkRule kern_acks [UidRangeParcel 10000 19999]
       \<lparr>trace = [], nl_fds = 0, sInterfaceToTable = []\<rparr> = (0, w') \<and>
     processClient (demo_env 0) one_network 10001 (demo_msg SELECT_NETWORK 100) = Some (0, 7, [SetMark m]) \<and>
     deciding_rule (fib_lookup (\<lambda>t. True) (fib [] (trace w'))
       \<lparr>pk_family = AF_INET, pk_uid = 10001, pk_mark = m, pk_iif = ''lo'', pk_oif = None\<rparr>) = Some rule \<and>
     fr_priority rule \<le> RULE_PRIORITY_PROHIBIT_NON_VPN"
proof -
  let ?w = "\<lparr>trace = [], nl_fds = 0, sInterfaceToTable = []\<rparr> :: world" and ?U = "[UidRangeParcel 10000 19999]"
  have "sendable action (reject_rule (UidRangeParcel 10000 19999))" for action
    by (simp add: reject_rule_def sendable_simps marks_100)
  then have "fst (addUsersToRejectNonSecureNetworkRule kern_acks ?U ?w) = 0"
    by (simp add: addUsersToRejectNonSecureNetworkRule_def reject_send getRanges_def chk_zero send_rule_acks)
  then obtain w' where w': "addUsersToRejectNonSecureNetworkRule kern_acks ?U ?w = (0, w')"
    by (metis prod.collapse)
  obtain m where run: "processClient (demo_env 0) one_network 10001 (demo_msg SELECT_NETWORK 100) = Some (0, 7, [SetMark m])"
    by (simp add: processClient_def demo_msg_simps demo_env_def processSocket_def isSupportedFamily_def choose_mark_def
        selectNetwork_def one_network_simps one_network_access Let_def)
  show ?thesis
    using lockdown_holds_for_clients [OF w' _ _ _ _ _ run, of "UidRangeParcel 10000 19999" m 0
        "\<lparr>pk_family = AF_INET, pk_uid = 10001, pk_mark = m, pk_iif = ''lo'', pk_oif = None\<rparr>" "\<lambda>t. True" "[]"] w' run
    by (auto simp: getRanges_def mark_simps one_network_simps demo_env_def)
qed


section \<open>The fwmark server with the traffic controller\<close>

text \<open>
  The four commands that the server passes to \<open>mTrafficCtrl\<close>, with the controller's model in the place of
  the answers: \<open>serve\<close> is the handling of one message on the state of both.
\<close>

definition traffic_answers :: "traffic_env \<Rightarrow> traffic \<Rightarrow> sock_env \<Rightarrow> sock_env" where
  "traffic_answers T t E = E\<lparr>
     tc_setCounterSet := \<lambda>n uid callingUid. fst (setCounterSet T (sint n) uid callingUid t),
     tc_deleteTagData := \<lambda>tag uid callingUid. fst (deleteTagData T tag uid callingUid t),
     tc_tagSocket := \<lambda>fd tag uid callingUid. fst (tagSocket T fd tag uid callingUid t),
     tc_untagSocket := \<lambda>fd. fst (untagSocket T fd t)\<rparr>"

fun traffic_effect :: "traffic_env \<Rightarrow> fw_effect \<Rightarrow> traffic \<Rightarrow> traffic" where
  "traffic_effect T (SetCounterSet n uid callingUid) t = snd (setCounterSet T (sint n) uid callingUid t)"
| "traffic_effect T (DeleteTagData tag uid callingUid) t = snd (deleteTagData T tag uid callingUid t)"
| "traffic_effect T (TagSocket fd tag uid callingUid) t = snd (tagSocket T fd tag uid callingUid t)"
| "traffic_effect T (UntagSocket fd) t = snd (untagSocket T fd t)"
| "traffic_effect T _ t = t"

definition serve :: "traffic_env \<Rightarrow> sock_env \<Rightarrow> ctrl \<Rightarrow> uid_t \<Rightarrow> fw_message \<Rightarrow> traffic \<Rightarrow> (int \<times> traffic) option" where
  "serve T E c uid msg t =
     map_option (\<lambda>(r, fd, es). (r, foldl (\<lambda>t e. traffic_effect T e t) t es))
       (processClient (traffic_answers T t E) c uid msg)"

lemma processSocket_effects:
  assumes "processSocket E c uid cmd ci fd = Some (r, es)"
  shows "(\<exists>tag u. es = [TagSocket fd tag u uid]) \<or> es = [UntagSocket fd] \<or> (\<forall>e \<in> set es. \<forall>T t. traffic_effect T e t = t)"
proof -
  have rep: "\<forall>e \<in> set (connect_report E uid ci m). \<forall>T t. traffic_effect T e t = t" for m
    by (auto simp: connect_report_def split: sum.splits option.splits)
  show ?thesis
    using assms rep
    by (auto simp: processSocket_def Let_def split: sum.splits if_splits option.splits prod.splits)
qed

lemma no_traffic_effects: "\<forall>e \<in> set es. \<forall>T t. traffic_effect T e t = t \<Longrightarrow> foldl (\<lambda>t e. traffic_effect T e t) t es = t"
  by (induction es) auto

text \<open>What one message does to the traffic controller.\<close>

lemma serve_cases:
  assumes "serve T E c uid msg t = Some (r, t')"
  obtains "t' = t"
  | n u where "t' = snd (setCounterSet T n u uid t)"
  | tag u where "t' = snd (deleteTagData T tag u uid t)"
  | fd tag u where "passed_fd msg = Some fd" "t' = snd (tagSocket T fd tag u uid t)"
  | fd where "passed_fd msg = Some fd" "t' = snd (untagSocket T fd t)"
proof -
  obtain fd es where run: "processClient (traffic_answers T t E) c uid msg = Some (r, fd, es)"
    and t': "t' = foldl (\<lambda>t e. traffic_effect T e t) t es"
    using assms by (auto simp: serve_def)
  consider "es = []" | n u where "es = [SetCounterSet n u uid]" | tag u where "es = [DeleteTagData tag u uid]"
    | fd' where "passed_fd msg = Some fd'" "processSocket (traffic_answers T t E) c uid (command msg) (connectInfo msg) fd' = Some (r, es)"
    using run by (cases "passed_fd msg") (auto simp: processClient_def Let_def split: if_splits)
  then show thesis
  proof cases
    case (4 fd')
    from processSocket_effects [OF 4(2)] show thesis
      using that(1,4,5) 4(1) t' no_traffic_effects [of es T t] by auto
  qed (use that(1-3) t' in auto)
qed

text \<open>
  Claim C35. What a client without the privilege to update device statistics can do to the accounting
  state through the fwmark server: nothing but tag the socket whose descriptor it passes, and only
  with its own UID, or remove that socket's tag.
\<close>

theorem clients_tag_own_sockets:
  assumes "serve T E c uid msg t = Some (r, t')" "uid \<notin> set (mPrivilegedUser t)" "ebpfSupported t"
  shows "t' = t\<lparr>mCookieTagMap := mCookieTagMap t'\<rparr> \<and>
    (\<forall>cookie. contents (mCookieTagMap t') cookie = contents (mCookieTagMap t) cookie \<or>
       (\<exists>fd. passed_fd msg = Some fd \<and> sock_cookie T fd = Inr cookie \<and>
         (contents (mCookieTagMap t') cookie = None \<or>
          (\<exists>tag. contents (mCookieTagMap t') cookie = Some \<lparr>ut_uid = uid, ut_tag = tag\<rparr>))))"
  using assms(1)
proof (cases rule: serve_cases)
  case (4 fd tag u)
  then show ?thesis
    using assms(2,3)
    by (auto simp: tagSocket_def hasUpdateDeviceStatsPermission_def negated_def on_cookie_def writeValue_def Let_def
        split: sum.splits if_splits)
next
  case (5 fd)
  then show ?thesis
    using assms(2,3)
    by (auto simp: untagSocket_def negated_def on_cookie_def deleteValue_def Let_def split: sum.splits)
qed (use assms(2) in \<open>simp_all add: setCounterSet_def deleteTagData_def hasUpdateDeviceStatsPermission_def\<close>)

theorem clients_tag_own_sockets_witness:
  "\<exists>t'. serve demo_tenv (demo_env 0) one_network 10001
      ((demo_msg TAG_SOCKET 0)\<lparr>command := \<lparr>cmdId = TAG_SOCKET, cmd_netId = 0, cmd_uid = 10002, trafficCtrlInfo = 9\<rparr>\<rparr>)
      demo_traffic = Some (- EPERM, t') \<and>
     contents (mCookieTagMap t') 7 \<noteq> Some \<lparr>ut_uid = 10002, ut_tag = 9\<rparr>"
proof -
  let ?msg = "(demo_msg TAG_SOCKET 0)\<lparr>command := \<lparr>cmdId = TAG_SOCKET, cmd_netId = 0, cmd_uid = 10002, trafficCtrlInfo = 9\<rparr>\<rparr>"
  have t: "mPrivilegedUser demo_traffic = [1000]" "ebpfSupported demo_traffic" "mCookieTagMap demo_traffic = []"
    by (simp_all add: demo_traffic_def)
  obtain t' where run: "serve demo_tenv (demo_env 0) one_network 10001 ?msg demo_traffic = Some (- EPERM, t')"
    by (simp add: serve_def traffic_answers_def processClient_def passed_fd_def cmsg_len_def demo_msg_def demo_env_def processSocket_def
        isSupportedFamily_def tagSocket_def hasUpdateDeviceStatsPermission_def t)
  have "contents (mCookieTagMap t') 7 \<noteq> Some \<lparr>ut_uid = 10002, ut_tag = 9\<rparr>"
    using clients_tag_own_sockets [OF run] by (simp add: t) (auto dest!: spec [of _ 7])
  then show ?thesis using run by blast
qed

end
